(* ===== verification/Prelude.thy ===== *)
theory Prelude
  imports Main "HOL-Library.Word"
begin

text \<open>
  Shared vocabulary of the development: the result type of fallible Rust functions, UTF-8
  strings and the standard-library operations on them, saturating machine arithmetic, durations,
  and the contracts (locales) that several components provide: a state machine whose steps keep
  an invariant, and a state machine one of whose observables only moves in one direction.
\<close>

section \<open>Collections of rules\<close>

named_theorems inv_intros \<open>preservation of component invariants\<close>
named_theorems op_defs \<open>definitions of the operations, for unfolding on closed terms\<close>

section \<open>Results\<close>

type_synonym ('a, 'e) result = "'e + 'a"

abbreviation Ok :: "'a \<Rightarrow> ('a, 'e) result" where
  "Ok \<equiv> Inr"

abbreviation Err :: "'e \<Rightarrow> ('a, 'e) result" where
  "Err \<equiv> Inl"

text \<open>Rust's \<open>?\<close>: the first error ends the function.\<close>

definition bind_r :: "('a, 'e) result \<Rightarrow> ('a \<Rightarrow> ('b, 'e) result) \<Rightarrow> ('b, 'e) result" where
  "bind_r r f = (case r of Inl e \<Rightarrow> Inl e | Inr a \<Rightarrow> f a)"

lemma bind_r_simps [simp]:
  "bind_r (Inl e) f = Inl e"
  "bind_r (Inr a) f = f a"
  by (simp_all add: bind_r_def)

lemma bind_r_Inr_conv: "bind_r r f = Inr b \<longleftrightarrow> (\<exists>a. r = Inr a \<and> f a = Inr b)"
  by (cases r) simp_all

lemma bind_r_Inl_conv:
  "bind_r r f = Inl e \<longleftrightarrow> r = Inl e \<or> (\<exists>a. r = Inr a \<and> f a = Inl e)"
  by (cases r) simp_all

lemma bind_r_cong [fundef_cong]:
  "r = r' \<Longrightarrow> (\<And>a. r' = Inr a \<Longrightarrow> f a = g a) \<Longrightarrow> bind_r r f = bind_r r' g"
  by (cases r') simp_all

text \<open>A fallible function that may also panic: \<open>None\<close> is the panic, which nothing catches.\<close>

definition bind_p ::
  "('a, 'e) result option \<Rightarrow> ('a \<Rightarrow> ('b, 'e) result option) \<Rightarrow> ('b, 'e) result option" where
  "bind_p r f = (case r of None \<Rightarrow> None | Some (Inl e) \<Rightarrow> Some (Inl e) | Some (Inr a) \<Rightarrow> f a)"

lemma bind_p_simps [simp]:
  "bind_p None f = None"
  "bind_p (Some (Inl e)) f = Some (Inl e)"
  "bind_p (Some (Inr a)) f = f a"
  by (simp_all add: bind_p_def)

lemma bind_p_Inr_conv: "bind_p r f = Some (Inr b) \<longleftrightarrow> (\<exists>a. r = Some (Inr a) \<and> f a = Some (Inr b))"
  by (auto simp: bind_p_def split: option.splits sum.splits)

text \<open>\<open>expect\<close>: a missing value panics.\<close>

definition expect :: "'a option \<Rightarrow> ('a, 'e) result option" where
  "expect x = map_option Inr x"

lemma expect_simps [simp]:
  "expect (Some a) = Some (Inr a)"
  "expect None = None"
  "expect x = Some (Inr a) \<longleftrightarrow> x = Some a"
  by (auto simp: expect_def)

text \<open>A guard: \<open>if bad { return Err(e) }\<close>.\<close>

definition ensure :: "bool \<Rightarrow> 'e \<Rightarrow> (unit, 'e) result" where
  "ensure ok e = (if ok then Inr () else Inl e)"

lemma ensure_simps [simp]:
  "ensure True e = Inr ()"
  "ensure False e = Inl e"
  "ensure ok e = Inr u \<longleftrightarrow> ok"
  "ensure ok e = Inl e' \<longleftrightarrow> \<not> ok \<and> e' = e"
  by (auto simp: ensure_def)

section \<open>Machine integers\<close>

type_synonym u8 = "8 word"
type_synonym u16 = "16 word"
type_synonym u32 = "32 word"

text \<open>\<open>usize\<close> and \<open>u64\<close> are 64 bits wide; the saturating operations on them, over \<open>nat\<close>.\<close>

definition u32_max :: nat where
  "u32_max = 4294967295"

definition u64_max :: nat where
  "u64_max = 18446744073709551615"

definition usize_saturating_add :: "nat \<Rightarrow> nat \<Rightarrow> nat" where
  "usize_saturating_add a b = min u64_max (a + b)"

lemma usize_saturating_add_ge: "a \<le> u64_max \<Longrightarrow> a \<le> usize_saturating_add a b"
  by (simp add: usize_saturating_add_def)

lemma usize_saturating_add_exact:
  "usize_saturating_add a b \<le> n \<Longrightarrow> n < u64_max \<Longrightarrow> usize_saturating_add a b = a + b"
  by (simp add: usize_saturating_add_def min_def split: if_splits)

lemma usize_saturating_add_small:
  "a + b \<le> u64_max \<Longrightarrow> usize_saturating_add a b = a + b"
  by (simp add: usize_saturating_add_def)

lemma usize_saturating_add_le: "usize_saturating_add a b \<le> a + b"
  by (simp add: usize_saturating_add_def)

section \<open>Durations and instants\<close>

text \<open>
  A \<open>std::time::Duration\<close> is a number of nanoseconds, at most \<open>u64::MAX\<close> seconds and
  999,999,999 nanoseconds; an \<open>Instant\<close> is a number of nanoseconds on the monotonic clock.
  \<open>t.elapsed()\<close> at the instant \<open>now\<close> is the saturating difference.
\<close>

type_synonym duration = nat
type_synonym instant = nat

definition nanos_per_sec :: nat where
  "nanos_per_sec = 1000000000"

definition from_secs :: "nat \<Rightarrow> duration" where
  "from_secs s = s * nanos_per_sec"

definition as_secs :: "duration \<Rightarrow> nat" where
  "as_secs d = d div nanos_per_sec"

definition duration_max :: duration where
  "duration_max = u64_max * nanos_per_sec + (nanos_per_sec - 1)"

definition elapsed :: "instant \<Rightarrow> instant \<Rightarrow> duration" where
  "elapsed now t = now - t"

text \<open>\<open>Duration * u32\<close> panics on overflow: \<open>None\<close>.\<close>

definition duration_mul :: "duration \<Rightarrow> nat \<Rightarrow> duration option" where
  "duration_mul d k = (if d * k \<le> duration_max then Some (d * k) else None)"

definition duration_saturating_mul :: "duration \<Rightarrow> nat \<Rightarrow> duration" where
  "duration_saturating_mul d k = min duration_max (d * k)"

lemma as_secs_from_secs [simp]: "as_secs (from_secs s) = s"
  by (simp add: as_secs_def from_secs_def nanos_per_sec_def)

lemma from_secs_mono [simp]: "from_secs a \<le> from_secs b \<longleftrightarrow> a \<le> b"
  by (simp add: from_secs_def nanos_per_sec_def)

section \<open>Lists\<close>

text \<open>\<open>iter().position(p)\<close>\<close>

fun position :: "('a \<Rightarrow> bool) \<Rightarrow> 'a list \<Rightarrow> nat option" where
  "position p [] = None"
| "position p (x # xs) = (if p x then Some 0 else map_option Suc (position p xs))"

lemma position_None [simp]: "position p xs = None \<longleftrightarrow> (\<forall>x \<in> set xs. \<not> p x)"
  by (induction xs) auto

lemma position_Some:
  "position p xs = Some i \<Longrightarrow> i < length xs \<and> p (xs ! i) \<and> (\<forall>j < i. \<not> p (xs ! j))"
proof (induction xs arbitrary: i)
  case Nil
  then show ?case by simp
next
  case (Cons x xs)
  show ?case
  proof (cases "p x")
    case True
    with Cons.prems show ?thesis by simp
  next
    case False
    with Cons.prems obtain k where k: "position p xs = Some k" "i = Suc k" by auto
    with Cons.IH False show ?thesis by (auto simp: less_Suc_eq_0_disj)
  qed
qed

text \<open>\<open>Vec::insert(index, x)\<close> for \<open>index \<le> len\<close>\<close>

definition vec_insert :: "nat \<Rightarrow> 'a \<Rightarrow> 'a list \<Rightarrow> 'a list" where
  "vec_insert i x xs = take i xs @ x # drop i xs"

lemma set_vec_insert [simp]: "set (vec_insert i x xs) = insert x (set xs)"
  using set_append [of "take i xs" "drop i xs"] by (auto simp: vec_insert_def)

lemma length_vec_insert [simp]: "length (vec_insert i x xs) = Suc (length xs)"
  by (simp add: vec_insert_def)

lemma map_vec_insert: "map f (vec_insert i x xs) = vec_insert i (f x) (map f xs)"
  by (simp add: vec_insert_def take_map drop_map)

lemma distinct_vec_insert [simp]: "distinct (vec_insert i x xs) \<longleftrightarrow> x \<notin> set xs \<and> distinct xs"
proof -
  have "distinct (ys @ x # zs) \<longleftrightarrow> distinct (x # (ys @ zs))" for ys zs
    by auto
  from this [of "take i xs" "drop i xs"] show ?thesis by (simp add: vec_insert_def)
qed

text \<open>\<open>Vec::dedup\<close>: consecutive equal elements are merged.\<close>

fun dedup :: "'a list \<Rightarrow> 'a list" where
  "dedup [] = []"
| "dedup [x] = [x]"
| "dedup (x # y # zs) = (if x = y then dedup (y # zs) else x # dedup (y # zs))"

lemma set_dedup [simp]: "set (dedup xs) = set xs"
  by (induction xs rule: dedup.induct) auto

lemma dedup_Cons_head: "\<exists>ys. dedup (x # xs) = x # ys"
  by (induction xs arbitrary: x) auto

lemma sorted_dedup: "sorted xs \<Longrightarrow> sorted (dedup xs)"
  by (induction xs rule: dedup.induct) auto

lemma distinct_dedup: "sorted xs \<Longrightarrow> distinct (dedup xs)"
  by (induction xs rule: dedup.induct) (auto simp: order.antisym)

text \<open>\<open>sort_by\<close>: a stable sort; \<open>le a b\<close> is \<open>compare(a, b) != Greater\<close>.\<close>

fun insert_by :: "('a \<Rightarrow> 'a \<Rightarrow> bool) \<Rightarrow> 'a \<Rightarrow> 'a list \<Rightarrow> 'a list" where
  "insert_by le x [] = [x]"
| "insert_by le x (y # ys) = (if le x y then x # y # ys else y # insert_by le x ys)"

definition sort_by :: "('a \<Rightarrow> 'a \<Rightarrow> bool) \<Rightarrow> 'a list \<Rightarrow> 'a list" where
  "sort_by le xs = foldr (insert_by le) xs []"

lemma set_insert_by [simp]: "set (insert_by le x xs) = insert x (set xs)"
  by (induction xs) auto

lemma length_insert_by [simp]: "length (insert_by le x xs) = Suc (length xs)"
  by (induction xs) auto

lemma distinct_insert_by [simp]: "distinct (insert_by le x xs) \<longleftrightarrow> x \<notin> set xs \<and> distinct xs"
  by (induction xs) auto

lemma set_sort_by [simp]: "set (sort_by le xs) = set xs"
  by (induction xs) (simp_all add: sort_by_def)

lemma length_sort_by [simp]: "length (sort_by le xs) = length xs"
  by (induction xs) (simp_all add: sort_by_def)

lemma distinct_sort_by [simp]: "distinct (sort_by le xs) = distinct xs"
  using set_sort_by [of le] by (induction xs) (simp_all add: sort_by_def)

lemma sorted_insert_by:
  assumes "\<And>a b. le a b \<or> le b a" and "\<And>a b c. le a b \<Longrightarrow> le b c \<Longrightarrow> le a c"
  shows "sorted_wrt le xs \<Longrightarrow> sorted_wrt le (insert_by le x xs)"
proof (induction xs)
  case (Cons y ys)
  show ?case
  proof (cases "le x y")
    case True
    then show ?thesis using Cons.prems assms(2) by auto
  next
    case False
    then have "le y x" using assms(1) by blast
    then show ?thesis using Cons False by auto
  qed
qed simp

lemma sorted_sort_by:
  assumes "\<And>a b. le a b \<or> le b a" and "\<And>a b c. le a b \<Longrightarrow> le b c \<Longrightarrow> le a c"
  shows "sorted_wrt le (sort_by le xs)"
  by (induction xs) (simp_all add: sort_by_def sorted_insert_by [OF assms])

section \<open>Strings\<close>

text \<open>
  A Rust string is its UTF-8 byte sequence, a HOL \<open>string\<close> with one \<open>char\<close> per byte:
  \<open>len\<close> is \<open>length\<close>, a prefix test is a byte prefix test, and \<open>chars().count()\<close> counts
  the bytes that do not continue a code point.
\<close>

definition starts_with :: "string \<Rightarrow> string \<Rightarrow> bool" where
  "starts_with s p \<longleftrightarrow> take (length p) s = p"

definition ends_with :: "string \<Rightarrow> string \<Rightarrow> bool" where
  "ends_with s p \<longleftrightarrow> length p \<le> length s \<and> drop (length s - length p) s = p"

definition byte :: "char \<Rightarrow> nat" where
  "byte c = of_char c"

definition is_ascii_digit :: "char \<Rightarrow> bool" where
  "is_ascii_digit c \<longleftrightarrow> 48 \<le> byte c \<and> byte c \<le> 57"

definition is_ascii_alphabetic :: "char \<Rightarrow> bool" where
  "is_ascii_alphabetic c \<longleftrightarrow> (65 \<le> byte c \<and> byte c \<le> 90) \<or> (97 \<le> byte c \<and> byte c \<le> 122)"

definition is_ascii_alphanumeric :: "char \<Rightarrow> bool" where
  "is_ascii_alphanumeric c \<longleftrightarrow> is_ascii_alphabetic c \<or> is_ascii_digit c"

definition char_count :: "string \<Rightarrow> nat" where
  "char_count s = length (filter (\<lambda>c. byte c div 64 \<noteq> 2) s)"

lemmas ascii_defs = is_ascii_digit_def is_ascii_alphabetic_def is_ascii_alphanumeric_def byte_def

lemma starts_with_append [simp]: "starts_with (p @ s) p"
  by (simp add: starts_with_def)

lemma starts_with_iff: "starts_with s p \<longleftrightarrow> (\<exists>t. s = p @ t)"
  unfolding starts_with_def by (metis append_eq_conv_conj append_take_drop_id)

text \<open>
  \<open>str::trim\<close> removes Unicode white space at both ends. The white-space code points, encoded:
  the ASCII ones are single bytes, the others two or three.
\<close>

definition whitespace :: "string list" where
  "whitespace =
     map (\<lambda>b. [char_of b]) [9::nat, 10, 11, 12, 13, 32]
     @ map (map char_of) [[194::nat, 133], [194, 160], [225, 154, 128],
         [226, 128, 168], [226, 128, 169], [226, 128, 175], [226, 129, 159], [227, 128, 128]]
     @ map (\<lambda>b. map char_of [226::nat, 128, b]) [128, 129, 130, 131, 132, 133, 134, 135, 136, 137, 138]"

lemma whitespace_nonempty: "w \<in> set whitespace \<Longrightarrow> 0 < length w"
  by (auto simp: whitespace_def)

function trim_start :: "string \<Rightarrow> string" where
  "trim_start s =
     (case find (\<lambda>w. starts_with s w) whitespace of
        None \<Rightarrow> s
      | Some w \<Rightarrow> if s = [] then [] else trim_start (drop (length w) s))"
  by pat_completeness auto
termination
proof (relation "measure length")
  show "wf (measure length)" by simp
  fix s w
  assume "find (starts_with s) whitespace = Some w" "s \<noteq> []"
  then have "w \<in> set whitespace" by (auto simp: find_Some_iff)
  then have "0 < length w" by (rule whitespace_nonempty)
  then show "(drop (length w) s, s) \<in> measure length" using \<open>s \<noteq> []\<close> by simp
qed

declare trim_start.simps [simp del]

function trim_end :: "string \<Rightarrow> string" where
  "trim_end s =
     (case find (\<lambda>w. ends_with s w) whitespace of
        None \<Rightarrow> s
      | Some w \<Rightarrow> if s = [] then [] else trim_end (take (length s - length w) s))"
  by pat_completeness auto
termination
proof (relation "measure length")
  show "wf (measure length)" by simp
  fix s w
  assume "find (ends_with s) whitespace = Some w" "s \<noteq> []"
  then have "w \<in> set whitespace" by (auto simp: find_Some_iff)
  then have "0 < length w" by (rule whitespace_nonempty)
  then show "(take (length s - length w) s, s) \<in> measure length" using \<open>s \<noteq> []\<close> by simp
qed

declare trim_end.simps [simp del]

definition trim :: "string \<Rightarrow> string" where
  "trim s = trim_end (trim_start s)"

text \<open>Decimal rendering of a natural number.\<close>

definition digit_char :: "nat \<Rightarrow> char" where
  "digit_char d = ''0123456789'' ! d"

fun show_nat :: "nat \<Rightarrow> string" where
  "show_nat n = (if n < 10 then [digit_char n] else show_nat (n div 10) @ [digit_char (n mod 10)])"

declare show_nat.simps [simp del]

definition read_digits :: "string \<Rightarrow> nat" where
  "read_digits s = foldl (\<lambda>a c. 10 * a + (byte c - 48)) 0 s"

lemma byte_digit_char [simp]: "d < 10 \<Longrightarrow> byte (digit_char d) = 48 + d"
proof -
  assume "d < 10"
  then have "d \<in> {0, 1, 2, 3, 4, 5, 6, 7, 8, 9}" by auto
  then show ?thesis by (auto simp: byte_def digit_char_def)
qed

lemma read_show_nat [simp]: "read_digits (show_nat n) = n"
proof (induction n rule: show_nat.induct)
  case (1 n)
  then show ?case
    by (cases "n < 10") (simp_all add: show_nat.simps [of n] read_digits_def)
qed

lemma show_nat_inject [simp]: "show_nat m = show_nat n \<longleftrightarrow> m = n"
  by (metis read_show_nat)

lemma show_nat_digits: "c \<in> set (show_nat n) \<Longrightarrow> is_ascii_digit c"
proof (induction n rule: show_nat.induct)
  case (1 n)
  then show ?case
    by (cases "n < 10") (auto simp: show_nat.simps [of n] is_ascii_digit_def)
qed

lemma show_nat_nonempty [simp]: "show_nat n \<noteq> []"
  by (simp add: show_nat.simps [of n])

text \<open>UTF-8 encoding of a list of code points, for the literals outside ASCII.\<close>

definition utf8_char :: "nat \<Rightarrow> string" where
  "utf8_char c =
     (if c < 128 then [char_of c]
      else if c < 2048 then map char_of [192 + c div 64, 128 + c mod 64]
      else if c < 65536 then map char_of [224 + c div 4096, 128 + c div 64 mod 64, 128 + c mod 64]
      else map char_of [240 + c div 262144, 128 + c div 4096 mod 64, 128 + c div 64 mod 64, 128 + c mod 64])"

definition utf8 :: "nat list \<Rightarrow> string" where
  "utf8 cs = concat (map utf8_char cs)"

lemma char_count_Nil [simp]: "char_count [] = 0"
  by (simp add: char_count_def)

lemma char_count_append [simp]: "char_count (s @ t) = char_count s + char_count t"
  by (simp add: char_count_def)

lemma char_count_le: "char_count s \<le> length s"
  by (simp add: char_count_def)

section \<open>Contracts shared by the components\<close>

text \<open>
  A machine whose steps, on the events its callers may send (\<open>ev\<close>), keep an invariant keeps
  it along every run of such events.
\<close>

locale invariant_machine =
  fixes step :: "'s \<Rightarrow> 'e \<Rightarrow> 's"
    and inv :: "'s \<Rightarrow> bool"
    and ev :: "'e \<Rightarrow> bool"
  assumes step_inv: "inv s \<Longrightarrow> ev e \<Longrightarrow> inv (step s e)"
begin

lemma run_inv: "inv s \<Longrightarrow> list_all ev es \<Longrightarrow> inv (foldl step s es)"
  by (induction es arbitrary: s) (simp_all add: step_inv)

lemma run_prefix_inv: "inv s \<Longrightarrow> list_all ev es \<Longrightarrow> inv (foldl step s (take n es))"
  by (rule run_inv) (auto simp: list_all_iff dest: in_set_takeD)

end

text \<open>
  A machine with an observable that never moves down, for a preorder on the values the
  observable takes in good states.
\<close>

locale monotone_machine = invariant_machine +
  fixes obs :: "'a \<Rightarrow> 'm"
    and le :: "'m \<Rightarrow> 'm \<Rightarrow> bool"
  assumes le_refl: "inv s \<Longrightarrow> le (obs s) (obs s)"
    and le_trans: "inv s \<Longrightarrow> inv t \<Longrightarrow> inv u \<Longrightarrow>
      le (obs s) (obs t) \<Longrightarrow> le (obs t) (obs u) \<Longrightarrow> le (obs s) (obs u)"
    and step_le: "inv s \<Longrightarrow> ev e \<Longrightarrow> le (obs s) (obs (step s e))"
begin

lemma run_le: "inv s \<Longrightarrow> list_all ev es \<Longrightarrow> le (obs s) (obs (foldl step s es))"
proof (induction es arbitrary: s)
  case Nil
  then show ?case by (simp add: le_refl)
next
  case (Cons e es)
  then have i: "inv (step s e)" and r: "inv (foldl step (step s e) es)"
    by (simp_all add: step_inv run_inv)
  have "le (obs s) (obs (step s e))" using Cons.prems by (simp add: step_le)
  moreover have "le (obs (step s e)) (obs (foldl step (step s e) es))"
    using Cons i by simp
  ultimately show ?case using Cons.prems(1) i r by (auto intro: le_trans)
qed

lemma run_le_between:
  assumes "inv s" "list_all ev es" "list_all ev fs"
  shows "le (obs (foldl step s es)) (obs (foldl step s (es @ fs)))"
  using assms run_le run_inv by simp

end

text \<open>
  A meter: a charge either is accepted, and then what has been spent has grown and is still within
  the cap, or is refused. A run of accepted charges is no longer than what the cap leaves.
\<close>

locale meter =
  fixes charge :: "'s \<Rightarrow> 'c \<Rightarrow> 's \<times> bool"
    and spent :: "'s \<Rightarrow> nat"
    and cap :: "'s \<Rightarrow> nat"
    and valid :: "'s \<Rightarrow> bool"
  assumes charge_valid: "valid s \<Longrightarrow> valid (fst (charge s c))"
    and charge_cap: "cap (fst (charge s c)) = cap s"
    and charge_ok_le: "snd (charge s c) \<Longrightarrow> spent (fst (charge s c)) \<le> cap s"
    and charge_ok_grows: "valid s \<Longrightarrow> snd (charge s c) \<Longrightarrow> spent s < spent (fst (charge s c))"
begin

fun charges :: "'s \<Rightarrow> 'c list \<Rightarrow> 's \<times> bool" where
  "charges s [] = (s, True)"
| "charges s (c # cs) = (if snd (charge s c) then charges (fst (charge s c)) cs else (fst (charge s c), False))"

lemma charges_cap: "cap (fst (charges s cs)) = cap s"
  by (induction cs arbitrary: s) (simp_all add: charge_cap)

lemma charges_ok_length:
  "valid s \<Longrightarrow> snd (charges s cs) \<Longrightarrow> cs \<noteq> [] \<Longrightarrow> spent s + length cs \<le> cap s"
proof (induction cs arbitrary: s)
  case (Cons c cs)
  let ?s = "fst (charge s c)"
  have ok: "snd (charge s c)" and rest: "snd (charges ?s cs)"
    using Cons.prems(2) by (simp_all split: if_splits)
  have g: "spent s < spent ?s" "spent ?s \<le> cap s" "valid ?s" "cap ?s = cap s"
    using Cons.prems(1) ok charge_ok_grows charge_ok_le charge_valid charge_cap by auto
  show ?case
  proof (cases "cs = []")
    case False
    then have "spent ?s + length cs \<le> cap ?s" using Cons.IH rest g(3) by blast
    then show ?thesis using g by simp
  qed (use g in simp)
qed simp

end

end
