(* ===== verification/Agent_Plan.thy ===== *)
theory Agent_Plan
  imports Prelude "HOL-Library.Multiset"
begin

text \<open>
  The research plan of \<open>crates/agent-runtime/src/plan.rs\<close>: its steps, the mutations the agent
  may apply to it and the views shown to the user. \<open>plan_apply\<close> returns the plan as the
  mutable receiver leaves it, on the error paths too, next to the result. Main facts: step ids
  stay distinct, an error leaves the plan alone (except a split that fails half-way, which is
  the counterexample \<open>split_error_is_not_atomic\<close>), the history records exactly the accepted
  mutations and replays to the same plan, and no step is reported done that was not completed.
\<close>

section \<open>Steps\<close>

datatype PlanStepStatus = Pending | Active | Done | Removed | Blocked | Degraded

fun status_as_str :: "PlanStepStatus \<Rightarrow> string" where
  "status_as_str Pending = ''pending''"
| "status_as_str Active = ''active''"
| "status_as_str Done = ''done''"
| "status_as_str Removed = ''removed''"
| "status_as_str Blocked = ''blocked''"
| "status_as_str Degraded = ''degraded''"

text \<open>The markers are single code points outside ASCII, given by their UTF-8 bytes.\<close>

fun status_marker :: "PlanStepStatus \<Rightarrow> string" where
  "status_marker Pending = map char_of [226::nat, 151, 139]"
| "status_marker Active = map char_of [226::nat, 151, 144]"
| "status_marker Done = map char_of [226::nat, 156, 147]"
| "status_marker Removed = map char_of [226::nat, 148, 128]"
| "status_marker Blocked = map char_of [226::nat, 156, 151]"
| "status_marker Degraded = ''!''"

definition status_is_terminal :: "PlanStepStatus \<Rightarrow> bool" where
  "status_is_terminal s \<longleftrightarrow> s \<in> {Done, Removed, Degraded}"

record PlanStep =
  step_id :: string
  title :: string
  status :: PlanStepStatus
  step_note :: "string option"
  attempts :: u32

definition plan_step_new :: "string \<Rightarrow> string \<Rightarrow> PlanStep" where
  "plan_step_new i t = \<lparr>step_id = i, title = t, status = Pending, step_note = None, attempts = 0\<rparr>"

section \<open>Mutations and plans\<close>

datatype PlanMutation =
    Add PlanStep "string option"
  | Start string
  | Complete string
  | Degrade string string
  | Block string string
  | Remove string string
  | Retry string string
  | Split string "PlanStep list" string
  | Reorder "string list"

record Plan =
  steps :: "PlanStep list"
  history :: "PlanMutation list"

text \<open>The error messages of \<open>apply\<close>, with what they quote.\<close>

datatype plan_error = DuplicateStep string | EmptySplit | UnknownStep string

definition plan_new :: Plan where
  "plan_new = \<lparr>steps = [], history = []\<rparr>"

definition plan_from_titles :: "string list \<Rightarrow> Plan" where
  "plan_from_titles ts =
     plan_new\<lparr>steps := map (\<lambda>(i, t). plan_step_new (''step-'' @ show_nat (i + 1)) t) (enumerate 0 ts)\<rparr>"

definition plan_position :: "PlanStep list \<Rightarrow> string \<Rightarrow> nat option" where
  "plan_position ss i = position (\<lambda>s. step_id s = i) ss"

definition plan_require :: "PlanStep list \<Rightarrow> string \<Rightarrow> (nat, plan_error) result" where
  "plan_require ss i = (case plan_position ss i of None \<Rightarrow> Inl (UnknownStep i) | Some k \<Rightarrow> Inr k)"

text \<open>
  The loop of a split: child \<open>offset\<close> goes to \<open>index + 1 + offset\<close>; the first child whose id is
  taken ends it with an error, the children before it staying inserted.
\<close>

fun split_children ::
  "nat \<Rightarrow> nat \<Rightarrow> PlanStep list \<Rightarrow> PlanStep list \<Rightarrow> PlanStep list \<times> (unit, plan_error) result" where
  "split_children index offset [] ss = (ss, Inr ())"
| "split_children index offset (c # cs) ss =
     (if plan_position ss (step_id c) \<noteq> None then (ss, Inl (DuplicateStep (step_id c)))
      else split_children index (Suc offset) cs (vec_insert (index + 1 + offset) c ss))"

fun require_all :: "PlanStep list \<Rightarrow> string list \<Rightarrow> (unit, plan_error) result" where
  "require_all ss [] = Inr ()"
| "require_all ss (i # is) = bind_r (plan_require ss i) (\<lambda>_. require_all ss is)"

definition reorder_steps :: "PlanStep list \<Rightarrow> string list \<Rightarrow> PlanStep list" where
  "reorder_steps ss order =
     concat (map (\<lambda>i. case plan_position ss i of Some k \<Rightarrow> [ss ! k] | None \<Rightarrow> []) order)
     @ filter (\<lambda>s. step_id s \<notin> set order) ss"

text \<open>Update of the required step: \<open>let index = self.require(id)?; self.steps[index] = ...\<close>\<close>

definition on_step ::
  "string \<Rightarrow> (PlanStep \<Rightarrow> PlanStep) \<Rightarrow> PlanStep list \<Rightarrow> PlanStep list \<times> (unit, plan_error) result" where
  "on_step i f ss =
     (case plan_require ss i of Inl e \<Rightarrow> (ss, Inl e) | Inr k \<Rightarrow> (ss[k := f (ss ! k)], Inr ()))"

fun apply_steps ::
  "PlanMutation \<Rightarrow> PlanStep list \<Rightarrow> PlanStep list \<times> (unit, plan_error) result" where
  "apply_steps (Add s _) ss =
     (if plan_position ss (step_id s) \<noteq> None then (ss, Inl (DuplicateStep (step_id s)))
      else (ss @ [s], Inr ()))"
| "apply_steps (Start i) ss = on_step i (\<lambda>s. s\<lparr>status := Active\<rparr>) ss"
| "apply_steps (Complete i) ss = on_step i (\<lambda>s. s\<lparr>status := Done, step_note := None\<rparr>) ss"
| "apply_steps (Degrade i r) ss = on_step i (\<lambda>s. s\<lparr>status := Degraded, step_note := Some r\<rparr>) ss"
| "apply_steps (Block i r) ss = on_step i (\<lambda>s. s\<lparr>status := Blocked, step_note := Some r\<rparr>) ss"
| "apply_steps (Remove i r) ss = on_step i (\<lambda>s. s\<lparr>status := Removed, step_note := Some r\<rparr>) ss"
| "apply_steps (Retry i r) ss =
     on_step i (\<lambda>s. s\<lparr>status := Active, attempts := attempts s + 1, step_note := Some r\<rparr>) ss"
| "apply_steps (Split i into r) ss =
     (if into = [] then (ss, Inl EmptySplit)
      else case plan_require ss i of
        Inl e \<Rightarrow> (ss, Inl e)
      | Inr k \<Rightarrow> split_children k 0 into (ss[k := (ss ! k)\<lparr>status := Removed, step_note := Some r\<rparr>]))"
| "apply_steps (Reorder order) ss =
     (case require_all ss order of
        Inl e \<Rightarrow> (ss, Inl e)
      | Inr _ \<Rightarrow> (reorder_steps ss order, Inr ()))"

definition plan_apply :: "Plan \<Rightarrow> PlanMutation \<Rightarrow> Plan \<times> (unit, plan_error) result" where
  "plan_apply p m =
     (case apply_steps m (steps p) of
        (ss, Inl e) \<Rightarrow> (p\<lparr>steps := ss\<rparr>, Inl e)
      | (ss, Inr _) \<Rightarrow> (p\<lparr>steps := ss, history := history p @ [m]\<rparr>, Inr ()))"

section \<open>Views\<close>

definition plan_visible :: "Plan \<Rightarrow> PlanStep list" where
  "plan_visible p = filter (\<lambda>s. status s \<noteq> Removed) (steps p)"

definition plan_is_empty :: "Plan \<Rightarrow> bool" where
  "plan_is_empty p \<longleftrightarrow> plan_visible p = []"

definition plan_is_settled :: "Plan \<Rightarrow> bool" where
  "plan_is_settled p \<longleftrightarrow>
     list_all (\<lambda>s. status_is_terminal (status s) \<or> status s = Blocked) (plan_visible p)"

fun join_lines :: "string list \<Rightarrow> string" where
  "join_lines [] = []"
| "join_lines [l] = l"
| "join_lines (l # ls) = l @ [char_of (10::nat)] @ join_lines ls"

definition step_lines :: "PlanStep \<Rightarrow> string list" where
  "step_lines s =
     (status_marker (status s) @ '' '' @ title s
        @ (if 0 < attempts s then '' (attempt '' @ show_nat (unat (attempts s + 1)) @ '')'' else []))
     # (case step_note s of None \<Rightarrow> [] | Some n \<Rightarrow> [''    '' @ n])"

definition plan_render_plain :: "Plan \<Rightarrow> string" where
  "plan_render_plain p =
     (if plan_is_empty p then ''no active research plan''
      else join_lines (''Plan'' # concat (map step_lines (plan_visible p))))"

section \<open>Positions and updates\<close>

abbreviation ids :: "PlanStep list \<Rightarrow> string list" where
  "ids ss \<equiv> map step_id ss"

lemma plan_position_None [simp]: "plan_position ss i = None \<longleftrightarrow> i \<notin> step_id ` set ss"
  by (auto simp: plan_position_def)

lemma plan_position_Some: "plan_position ss i = Some k \<Longrightarrow> k < length ss \<and> step_id (ss ! k) = i"
  using position_Some [of "\<lambda>s. step_id s = i" ss k] by (simp add: plan_position_def)

lemma plan_position_mem: "plan_position ss i = Some k \<Longrightarrow> i \<in> step_id ` set ss"
  by (auto dest!: plan_position_Some)

lemma plan_require_Inr: "plan_require ss i = Inr k \<Longrightarrow> k < length ss \<and> step_id (ss ! k) = i"
  by (auto simp: plan_require_def plan_position_Some split: option.splits)

lemma plan_require_Inl: "plan_require ss i = Inl e \<longleftrightarrow> i \<notin> set (ids ss) \<and> e = UnknownStep i"
  by (auto simp: plan_require_def dest: plan_position_mem split: option.splits)

lemma ids_update: "k < length ss \<Longrightarrow> step_id s = step_id (ss ! k) \<Longrightarrow> ids (ss[k := s]) = ids ss"
  by (metis list_update_id map_update nth_map)

lemma ids_on_step: "(\<And>s. step_id (f s) = step_id s) \<Longrightarrow> ids (fst (on_step i f ss)) = ids ss"
  by (auto simp: on_step_def ids_update dest: plan_require_Inr split: sum.splits)

lemma set_on_step:
  "s' \<in> set (fst (on_step i f ss)) \<Longrightarrow> s' \<in> set ss \<or> (\<exists>s \<in> set ss. step_id s = i \<and> s' = f s)"
  using set_update_subset_insert [of ss]
  by (fastforce simp: on_step_def dest: plan_require_Inr split: sum.splits)

lemma on_step_error: "snd (on_step i f ss) = Inl e \<Longrightarrow> fst (on_step i f ss) = ss"
  by (auto simp: on_step_def split: sum.splits)

lemma split_children_distinct:
  "distinct (ids ss) \<Longrightarrow> distinct (ids (fst (split_children k off cs ss)))"
  by (induction cs arbitrary: off ss) (auto simp: map_vec_insert)

lemma split_children_set:
  "set (fst (split_children k off cs ss)) \<subseteq> set ss \<union> set cs"
proof (induction cs arbitrary: off ss)
  case (Cons c cs)
  have "set (fst (split_children k (Suc off) cs (vec_insert (k + 1 + off) c ss)))
      \<subseteq> set (vec_insert (k + 1 + off) c ss) \<union> set cs"
    by (rule Cons.IH)
  then show ?case by auto
qed simp

lemma require_all_Inr: "require_all ss is = Inr u \<longleftrightarrow> set is \<subseteq> set (ids ss)"
  by (induction "is") (auto simp: bind_r_Inr_conv plan_require_def dest: plan_position_mem split: option.splits)

section \<open>Step ids stay distinct\<close>

text \<open>The step a reorder picks for an id.\<close>

definition step_of :: "PlanStep list \<Rightarrow> string \<Rightarrow> PlanStep" where
  "step_of ss i = ss ! the (plan_position ss i)"

lemma step_of:
  assumes "i \<in> set (ids ss)"
  shows "step_of ss i \<in> set ss" "step_id (step_of ss i) = i"
proof -
  have "plan_position ss i \<noteq> None" using assms by simp
  then obtain k where "plan_position ss i = Some k" by blast
  then show "step_of ss i \<in> set ss" "step_id (step_of ss i) = i"
    using plan_position_Some [of ss i k] by (simp_all add: step_of_def)
qed

lemma reorder_steps_eq:
  assumes "set order \<subseteq> set (ids ss)"
  shows "reorder_steps ss order = map (step_of ss) order @ filter (\<lambda>s. step_id s \<notin> set order) ss"
proof -
  have "concat (map (\<lambda>i. case plan_position ss i of Some k \<Rightarrow> [ss ! k] | None \<Rightarrow> []) order)
      = map (step_of ss) order"
    using assms
  proof (induction order)
    case (Cons i order)
    then have "plan_position ss i \<noteq> None" by simp
    then obtain k where "plan_position ss i = Some k" by blast
    with Cons show ?case by (simp add: step_of_def)
  qed simp
  then show ?thesis by (simp add: reorder_steps_def)
qed

lemma reorder_steps_ids:
  assumes "set order \<subseteq> set (ids ss)"
  shows "ids (reorder_steps ss order) = order @ filter (\<lambda>i. i \<notin> set order) (ids ss)"
proof -
  have "map (step_id \<circ> step_of ss) order = order"
    using assms by (intro map_idI) (auto simp: step_of)
  then show ?thesis by (simp add: reorder_steps_eq [OF assms] filter_map comp_def)
qed

lemma reorder_steps_mset:
  assumes "set order \<subseteq> set (ids ss)" "distinct (ids ss)" "distinct order"
  shows "mset (reorder_steps ss order) = mset ss"
proof -
  have inj: "inj_on step_id (set ss)" using assms(2) by (simp add: distinct_map)
  have d: "distinct (ids (reorder_steps ss order))"
    unfolding reorder_steps_ids [OF assms(1)] using assms(2,3) by auto
  then have "distinct (reorder_steps ss order)" by (simp add: distinct_map)
  moreover have "distinct ss" using assms(2) by (simp add: distinct_map)
  moreover have "set (reorder_steps ss order) = set ss"
  proof (rule set_eqI)
    fix s
    have "s \<in> step_of ss ` set order \<longleftrightarrow> step_id s \<in> set order" if "s \<in> set ss"
    proof
      assume "step_id s \<in> set order"
      moreover have "step_of ss (step_id s) = s"
        using inj_onD [OF inj, of "step_of ss (step_id s)" s] step_of [of "step_id s" ss] that by simp
      ultimately show "s \<in> step_of ss ` set order" by force
    next
      assume "s \<in> step_of ss ` set order"
      then show "step_id s \<in> set order" using assms(1) step_of by auto
    qed
    moreover have "step_of ss ` set order \<subseteq> set ss" using assms(1) step_of by auto
    ultimately show "s \<in> set (reorder_steps ss order) \<longleftrightarrow> s \<in> set ss"
      unfolding reorder_steps_eq [OF assms(1)] by auto
  qed
  ultimately show ?thesis by (simp add: set_eq_iff_mset_eq_distinct)
qed

text \<open>The mutations that cannot duplicate a step: all but a reorder naming one twice.\<close>

definition wf_mutation :: "PlanMutation \<Rightarrow> bool" where
  "wf_mutation m = (case m of Reorder order \<Rightarrow> distinct order | _ \<Rightarrow> True)"

lemma fst_plan_apply: "steps (fst (plan_apply p m)) = fst (apply_steps m (steps p))"
  by (auto simp: plan_apply_def split: prod.splits sum.splits)

lemma apply_steps_distinct:
  "distinct (ids ss) \<Longrightarrow> wf_mutation m \<Longrightarrow> distinct (ids (fst (apply_steps m ss)))"
proof (cases m)
  case (Split i into r)
  assume d: "distinct (ids ss)"
  show ?thesis
    using Split d by (auto simp: ids_update split_children_distinct dest!: plan_require_Inr split: sum.splits)
next
  case (Reorder order)
  assume "distinct (ids ss)" "wf_mutation m"
  then show ?thesis
    using Reorder by (auto simp: wf_mutation_def reorder_steps_ids require_all_Inr split: sum.splits)
qed (auto simp: ids_on_step)

interpretation plan_ids: invariant_machine "\<lambda>p m. fst (plan_apply p m)" "\<lambda>p. distinct (ids (steps p))" wf_mutation
  by unfold_locales (simp add: fst_plan_apply apply_steps_distinct)

lemma plan_from_titles_ids:
  "ids (steps (plan_from_titles ts)) = map (\<lambda>i. ''step-'' @ show_nat (i + 1)) [0..<length ts]"
proof -
  have "ids (steps (plan_from_titles ts)) = map (\<lambda>x. ''step-'' @ show_nat (fst x + 1)) (enumerate 0 ts)"
    by (simp add: plan_from_titles_def plan_step_new_def plan_new_def case_prod_unfold comp_def)
  also have "\<dots> = map (\<lambda>i. ''step-'' @ show_nat (i + 1)) (map fst (enumerate 0 ts))"
    by (simp only: map_map comp_def)
  also have "map fst (enumerate 0 ts) = [0..<length ts]" by (simp add: enumerate_eq_zip)
  finally show ?thesis .
qed

lemma plan_from_titles_distinct: "distinct (ids (steps (plan_from_titles ts)))"
  by (auto simp: plan_from_titles_ids distinct_map inj_on_def)

section \<open>Properties\<close>

text \<open>
  C27: In every plan built from titles and changed by any sequence of mutations, accepted or
  rejected, in which no reorder names a step twice, the step ids are pairwise distinct, so every
  later mutation addresses one step.
\<close>

theorem plan_ids_distinct:
  assumes "list_all wf_mutation ms"
  shows "distinct (ids (steps (foldl (\<lambda>p m. fst (plan_apply p m)) (plan_from_titles ts) ms)))"
  using plan_from_titles_distinct assms by (rule plan_ids.run_inv)

theorem plan_ids_distinct_witness:
  "distinct (ids (steps (foldl (\<lambda>p m. fst (plan_apply p m)) (plan_from_titles [''a'', ''b''])
     [Start ''step-1'', Add (plan_step_new ''x'' ''X'') None, Reorder [''x'', ''step-2'']])))"
  by (rule plan_ids_distinct) (simp add: wf_mutation_def)

text \<open>
  An accepted reorder that names each step at most once is a permutation of the plan: the
  named steps come first, in the order given, the others keep their relative order behind them,
  and no step is lost or duplicated.
\<close>

theorem reorder_is_permutation:
  assumes "distinct (ids (steps p))" "distinct order"
    and "plan_apply p (Reorder order) = (p', Inr ())"
  shows "mset (steps p') = mset (steps p)
    \<and> ids (steps p') = order @ filter (\<lambda>i. i \<notin> set order) (ids (steps p))"
proof (intro conjI)
  have r: "set order \<subseteq> set (ids (steps p))" and p': "steps p' = reorder_steps (steps p) order"
    using assms(3) by (auto simp: plan_apply_def require_all_Inr split: sum.splits)
  show "mset (steps p') = mset (steps p)"
    unfolding p' using r assms(1,2) by (rule reorder_steps_mset)
  show "ids (steps p') = order @ filter (\<lambda>i. i \<notin> set order) (ids (steps p))"
    unfolding p' using r by (rule reorder_steps_ids)
qed

theorem reorder_is_permutation_witness:
  "\<exists>p'. plan_apply \<lparr>steps = [plan_step_new ''a'' ''A'', plan_step_new ''b'' ''B''], history = []\<rparr>
        (Reorder [''b'']) = (p', Inr ())
     \<and> mset (steps p') = {#plan_step_new ''a'' ''A'', plan_step_new ''b'' ''B''#}"
proof -
  define p where "p = \<lparr>steps = [plan_step_new ''a'' ''A'', plan_step_new ''b'' ''B''], history = []\<rparr>"
  define p' where "p' = fst (plan_apply p (Reorder [''b'']))"
  have eq: "plan_apply p (Reorder [''b'']) = (p', Inr ())"
    by (simp add: p_def p'_def plan_apply_def plan_require_def plan_position_def plan_step_new_def)
  have "distinct (ids (steps p))" by (simp add: p_def plan_step_new_def)
  then have "mset (steps p') = mset (steps p)" using eq reorder_is_permutation [of p "[''b'']" p'] by simp
  with eq show ?thesis by (auto simp: p_def)
qed

text \<open>
  The guard on a reorder is incomplete: naming the same step twice is accepted and
  duplicates the step, after which two steps share one id.
\<close>

theorem reorder_duplicates_step:
  "\<exists>p'. plan_apply \<lparr>steps = [plan_step_new ''a'' ''A''], history = []\<rparr> (Reorder [''a'', ''a'']) = (p', Inr ())
      \<and> \<not> distinct (ids (steps p'))"
  by (simp add: plan_apply_def plan_require_def plan_position_def plan_step_new_def reorder_steps_def)

text \<open>
  A rejected mutation other than a split leaves the plan exactly as it was, steps and
  history.
\<close>

theorem plan_error_leaves_plan:
  assumes "plan_apply p m = (p', Inl e)" and "\<forall>i into r. m \<noteq> Split i into r"
  shows "p' = p"
proof -
  have "snd (apply_steps m (steps p)) = Inl e" "p' = p\<lparr>steps := fst (apply_steps m (steps p))\<rparr>"
    using assms(1) by (auto simp: plan_apply_def split: prod.splits sum.splits)
  then show ?thesis
    using assms(2) by (cases m) (auto dest: on_step_error split: if_splits sum.splits)
qed

theorem plan_error_leaves_plan_witness:
  "fst (plan_apply (plan_from_titles []) (Start ''nope'')) = plan_from_titles []"
proof -
  have "plan_apply (plan_from_titles []) (Start ''nope'')
      = (fst (plan_apply (plan_from_titles []) (Start ''nope'')), Inl (UnknownStep ''nope''))"
    by (simp add: plan_apply_def plan_from_titles_def plan_new_def on_step_def plan_require_def plan_position_def)
  then show ?thesis by (rule plan_error_leaves_plan) simp
qed

text \<open>
  A split that is rejected because a child's id is taken is not atomic: the split step is
  already removed, the children before the clash are inserted, and the history has no record of
  it, so the plan can no longer be rebuilt from its history.
\<close>

theorem split_error_is_not_atomic:
  "\<exists>p'. plan_apply (plan_from_titles [''A'']) (Split ''step-1'' [plan_step_new ''x'' ''X'', plan_step_new ''x'' ''Y''] ''r'')
        = (p', Inl (DuplicateStep ''x''))
      \<and> map (\<lambda>s. (step_id s, status s)) (steps p') = [(''step-1'', Removed), (''x'', Pending)]
      \<and> history p' = []"
  by (simp add: plan_apply_def plan_from_titles_def plan_new_def plan_step_new_def plan_require_def
      plan_position_def vec_insert_def enumerate_eq_zip show_nat.simps digit_char_def)

text \<open>Replaying the recorded mutations.\<close>

definition replay :: "PlanStep list \<Rightarrow> PlanMutation list \<Rightarrow> PlanStep list" where
  "replay = foldl (\<lambda>ss m. fst (apply_steps m ss))"

definition is_split :: "PlanMutation \<Rightarrow> bool" where
  "is_split m = (case m of Split _ _ _ \<Rightarrow> True | _ \<Rightarrow> False)"

lemma apply_steps_error:
  "snd (apply_steps m ss) = Inl e \<Longrightarrow> \<not> is_split m \<Longrightarrow> fst (apply_steps m ss) = ss"
  by (cases m) (auto simp: is_split_def dest: on_step_error split: if_splits sum.splits)

interpretation plan_replay: invariant_machine "\<lambda>p m. fst (plan_apply p m)"
  "\<lambda>p :: Plan. steps p = replay ss0 (history p)" "\<lambda>m. \<not> is_split m" for ss0
proof unfold_locales
  fix p :: Plan and m
  assume "steps p = replay ss0 (history p)" "\<not> is_split m"
  then show "steps (fst (plan_apply p m)) = replay ss0 (history (fst (plan_apply p m)))"
    using apply_steps_error [of m "steps p"]
    by (auto simp: plan_apply_def replay_def split: prod.splits sum.splits)
qed

text \<open>
  The history explains the plan: after any sequence of mutations without splits, some of
  them possibly rejected, applying the recorded history to the initial steps gives the current
  steps.
\<close>

theorem plan_history_replays:
  assumes "list_all (\<lambda>m. \<not> is_split m) ms"
    and "p = foldl (\<lambda>p m. fst (plan_apply p m)) (plan_from_titles ts) ms"
  shows "replay (steps (plan_from_titles ts)) (history p) = steps p"
proof -
  have "steps (plan_from_titles ts) = replay (steps (plan_from_titles ts)) (history (plan_from_titles ts))"
    by (simp add: replay_def plan_from_titles_def plan_new_def)
  then have "steps p = replay (steps (plan_from_titles ts)) (history p)"
    unfolding assms(2) using assms(1) by (rule plan_replay.run_inv)
  then show ?thesis by simp
qed

theorem plan_history_replays_witness:
  "replay (steps (plan_from_titles [''a'']))
     (history (foldl (\<lambda>p m. fst (plan_apply p m)) (plan_from_titles [''a'']) [Start ''step-1'', Start ''none'']))
   = steps (foldl (\<lambda>p m. fst (plan_apply p m)) (plan_from_titles [''a'']) [Start ''step-1'', Start ''none''])"
  by (rule plan_history_replays [OF _ refl]) (simp add: is_split_def)

text \<open>
  Reduced coverage is never silently reported as success: a step that is done after a
  mutation was the same done step before it, or the mutation is the explicit completion of that
  step, or it brought the step in as already done (an added step or a child of a split).
\<close>

theorem done_only_by_completion:
  assumes "plan_apply p m = (p', r)" "s \<in> set (steps p')" "status s = Done"
  shows "s \<in> set (steps p) \<or> m = Complete (step_id s) \<or> (\<exists>why. m = Add s why)
     \<or> (\<exists>i into why. m = Split i into why \<and> s \<in> set into)"
proof -
  have "s \<in> set (fst (apply_steps m (steps p)))"
    using assms(1,2) fst_plan_apply [of p m] by simp
  then show ?thesis
  proof (cases m)
    case (Split i into why)
    then consider "s \<in> set (steps p)"
      | k where "s \<in> set (fst (split_children k 0 into
            ((steps p)[k := (steps p ! k)\<lparr>status := Removed, step_note := Some why\<rparr>])))"
      using \<open>s \<in> set (fst (apply_steps m (steps p)))\<close> by (auto split: if_splits sum.splits)
    then show ?thesis
    proof cases
      case 2
      then have "s \<in> set into \<or> s \<in> set ((steps p)[k := (steps p ! k)\<lparr>status := Removed, step_note := Some why\<rparr>])"
        using split_children_set by fastforce
      then show ?thesis
        using Split assms(3) set_update_subset_insert [of "steps p" k] by fastforce
    qed simp
  next
    case (Reorder order)
    then show ?thesis
      using \<open>s \<in> set (fst (apply_steps m (steps p)))\<close> step_of(1)
      by (auto simp: require_all_Inr reorder_steps_eq split: sum.splits)
  qed (use assms(3) in \<open>auto dest!: set_on_step split: if_splits\<close>)
qed

theorem done_only_by_completion_witness:
  "\<exists>s. s \<in> set (steps (fst (plan_apply \<lparr>steps = [plan_step_new ''a'' ''A''], history = []\<rparr> (Complete ''a''))))
      \<and> status s = Done \<and> Complete ''a'' = Complete (step_id s)"
proof -
  define p where "p = \<lparr>steps = [plan_step_new ''a'' ''A''], history = []\<rparr>"
  define s where "s = (plan_step_new ''a'' ''A'')\<lparr>status := Done, step_note := None\<rparr>"
  have mem: "s \<in> set (steps (fst (plan_apply p (Complete ''a''))))" and st: "status s = Done"
    by (simp_all add: p_def s_def plan_apply_def on_step_def plan_require_def plan_position_def plan_step_new_def)
  have "s \<notin> set (steps p)" by (simp add: p_def s_def plan_step_new_def)
  then have "Complete ''a'' = Complete (step_id s)"
    using done_only_by_completion [OF surjective_pairing mem st] by auto
  with mem st show ?thesis unfolding p_def by blast
qed

end
