(* ===== verification/Text_Utf8.thy ===== *)
theory Text_Utf8
  imports Prelude
begin

text \<open>
  Strings as sequences of code points: \<open>chars\<close> groups the bytes of a string into code points, and
  the operations the agent uses on them (take a number of characters, split at white space, find
  control characters) work on the groups. Main facts: taking n characters yields at most n, of at
  most four bytes each, and trimming keeps every byte that is not part of a white space.
\<close>

definition is_cont :: "char \<Rightarrow> bool" where
  "is_cont c \<longleftrightarrow> byte c div 64 = 2"

function chars :: "string \<Rightarrow> string list" where
  "chars [] = []"
| "chars (b # bs) = (b # takeWhile is_cont bs) # chars (dropWhile is_cont bs)"
  by pat_completeness auto
termination
  by (relation "measure length") (auto simp: less_Suc_eq_le length_dropWhile_le)

text \<open>Encoded strings: no stray continuation bytes, at most four bytes a code point.\<close>

definition valid_utf8 :: "string \<Rightarrow> bool" where
  "valid_utf8 s \<longleftrightarrow> (s = [] \<or> \<not> is_cont (hd s)) \<and> list_all (\<lambda>c. length c \<le> 4) (chars s)"

definition take_chars :: "nat \<Rightarrow> string \<Rightarrow> string" where
  "take_chars n s = concat (take n (chars s))"

definition has_control :: "string \<Rightarrow> bool" where
  "has_control s \<longleftrightarrow>
     list_ex (\<lambda>c. case map byte c of
         [b] \<Rightarrow> b < 32 \<or> b = 127
       | [b, b'] \<Rightarrow> b = 194 \<and> b' < 160
       | _ \<Rightarrow> False) (chars s)"

fun words_from :: "string \<Rightarrow> string list \<Rightarrow> string list" where
  "words_from w [] = (if w = [] then [] else [w])"
| "words_from w (c # cs) =
     (if c \<in> set whitespace then (if w = [] then words_from [] cs else w # words_from [] cs)
      else words_from (w @ c) cs)"

definition split_whitespace :: "string \<Rightarrow> string list" where
  "split_whitespace s = words_from [] (chars s)"

fun join :: "string \<Rightarrow> string list \<Rightarrow> string" where
  "join sep [] = []"
| "join sep [l] = l"
| "join sep (l # ls) = l @ sep @ join sep ls"

lemma concat_chars [simp]: "concat (chars s) = s"
  by (induction s rule: chars.induct) simp_all

lemma char_count_alt: "char_count s = length (filter (\<lambda>c. \<not> is_cont c) s)"
  by (simp add: char_count_def is_cont_def)

lemma char_count_group: "g \<in> set (chars s) \<Longrightarrow> char_count g \<le> 1"
proof (induction s rule: chars.induct)
  case (2 b bs)
  have "filter (\<lambda>c. \<not> is_cont c) (takeWhile is_cont bs) = []"
    by (auto simp: filter_empty_conv dest: set_takeWhileD)
  then have "char_count (b # takeWhile is_cont bs) \<le> 1" by (simp add: char_count_alt)
  with 2 show ?case by auto
qed simp

lemma char_count_concat: "(\<And>g. g \<in> set gs \<Longrightarrow> char_count g \<le> 1) \<Longrightarrow> char_count (concat gs) \<le> length gs"
proof (induction gs)
  case (Cons g gs)
  then have "char_count g \<le> 1" "char_count (concat gs) \<le> length gs" by simp_all
  then show ?case by simp
qed simp

lemma char_count_take_chars: "char_count (take_chars n s) \<le> n"
proof -
  have "char_count (take_chars n s) \<le> length (take n (chars s))"
    unfolding take_chars_def by (rule char_count_concat) (rule char_count_group, rule in_set_takeD)
  then show ?thesis by simp
qed

lemma length_concat_bound: "list_all (\<lambda>g. length g \<le> k) gs \<Longrightarrow> length (concat gs) \<le> k * length gs"
  by (induction gs) auto

lemma length_take_chars: "valid_utf8 s \<Longrightarrow> length (take_chars n s) \<le> 4 * n"
proof -
  assume v: "valid_utf8 s"
  have "length (take_chars n s) \<le> 4 * length (take n (chars s))"
    unfolding take_chars_def using v
    by (intro length_concat_bound) (auto simp: valid_utf8_def list_all_iff dest: in_set_takeD)
  then show ?thesis by (simp add: min_def split: if_splits)
qed

lemma char_count_utf8_char: "c < 1114112 \<Longrightarrow> char_count (utf8_char c) = 1"
proof -
  assume c: "c < 1114112"
  have b: "byte (char_of n) = n mod 256" for n :: nat by (simp add: byte_def)
  have cont: "byte (char_of (128 + n mod 64)) div 64 = 2" for n :: nat
  proof -
    have "n mod 64 < 64" by simp
    then show ?thesis unfolding b by simp
  qed
  have lead: "byte (char_of (192 + n)) div 64 \<noteq> 2" if "n < 64" for n :: nat
    using that unfolding b by simp
  consider "c < 128" | "128 \<le> c" "c < 2048" | "2048 \<le> c" "c < 65536" | "65536 \<le> c" by linarith
  then show ?thesis
  proof cases
    case 1
    then show ?thesis using b [of c] by (simp add: utf8_char_def char_count_def)
  next
    case 2
    have "byte (char_of (192 + c div 64)) div 64 \<noteq> 2" using 2 by (intro lead) simp
    then show ?thesis using 2 cont [of c] by (simp add: utf8_char_def char_count_def)
  next
    case 3
    have "byte (char_of (192 + (32 + c div 4096))) div 64 \<noteq> 2" using 3 by (intro lead) simp
    then have "byte (char_of (224 + c div 4096)) div 64 \<noteq> 2" by simp
    then show ?thesis using 3 cont [of c] cont [of "c div 64"] by (simp add: utf8_char_def char_count_def)
  next
    case 4
    have "byte (char_of (192 + (48 + c div 262144))) div 64 \<noteq> 2" using c by (intro lead) simp
    then have "byte (char_of (240 + c div 262144)) div 64 \<noteq> 2" by simp
    then show ?thesis
      using 4 cont [of c] cont [of "c div 64"] cont [of "c div 4096"]
      by (simp add: utf8_char_def char_count_def)
  qed
qed

lemma char_count_utf8: "list_all (\<lambda>c. c < 1114112) cs \<Longrightarrow> char_count (utf8 cs) = length cs"
  by (induction cs) (simp_all add: utf8_def char_count_utf8_char)

lemma trim_start_keeps:
  "c \<in> set s \<Longrightarrow> \<forall>w \<in> set whitespace. c \<notin> set w \<Longrightarrow> c \<in> set (trim_start s)"
proof (induction s rule: trim_start.induct)
  case (1 s)
  show ?case
  proof (cases "find (\<lambda>w. starts_with s w) whitespace")
    case (Some w)
    then have w: "w \<in> set whitespace" "starts_with s w" by (auto simp: find_Some_iff)
    have "s = w @ drop (length w) s" using w(2) by (auto simp: starts_with_iff)
    then have "c \<in> set w \<or> c \<in> set (drop (length w) s)" using 1(2) by (metis UnE set_append)
    then have "c \<in> set (drop (length w) s)" using 1(3) w(1) by blast
    moreover have "s \<noteq> []" using 1(2) by auto
    ultimately show ?thesis using 1(1,3) Some by (simp add: trim_start.simps [of s])
  qed (use 1(2) in \<open>simp add: trim_start.simps [of s]\<close>)
qed

lemma trim_end_keeps:
  "c \<in> set s \<Longrightarrow> \<forall>w \<in> set whitespace. c \<notin> set w \<Longrightarrow> c \<in> set (trim_end s)"
proof (induction s rule: trim_end.induct)
  case (1 s)
  show ?case
  proof (cases "find (\<lambda>w. ends_with s w) whitespace")
    case (Some w)
    then have w: "w \<in> set whitespace" "ends_with s w" by (auto simp: find_Some_iff)
    have "s = take (length s - length w) s @ w" using w(2) by (metis append_take_drop_id ends_with_def)
    then have "c \<in> set (take (length s - length w) s) \<or> c \<in> set w" using 1(2) by (metis UnE set_append)
    then have "c \<in> set (take (length s - length w) s)" using 1(3) w(1) by blast
    moreover have "s \<noteq> []" using 1(2) by auto
    ultimately show ?thesis using 1(1,3) Some by (simp add: trim_end.simps [of s])
  qed (use 1(2) in \<open>simp add: trim_end.simps [of s]\<close>)
qed

lemma trim_nonempty: "c \<in> set s \<Longrightarrow> \<forall>w \<in> set whitespace. c \<notin> set w \<Longrightarrow> trim s \<noteq> []"
  using trim_end_keeps [of c "trim_start s"] trim_start_keeps [of c s] by (auto simp: trim_def)

lemma length_show_nat: "n < 10 ^ k \<Longrightarrow> 0 < k \<Longrightarrow> length (show_nat n) \<le> k"
proof (induction k arbitrary: n)
  case (Suc k)
  show ?case
  proof (cases "n < 10")
    case False
    then have "0 < k" using Suc.prems(1) by (cases k) auto
    moreover have "n div 10 < 10 ^ k" using Suc.prems(1) by auto
    ultimately have "length (show_nat (n div 10)) \<le> k" using Suc.IH by blast
    then show ?thesis using False by (simp add: show_nat.simps [of n])
  qed (simp add: show_nat.simps [of n])
qed simp

lemma char_count_join:
  "char_count sep = 1 \<Longrightarrow> ls \<noteq> [] \<Longrightarrow> char_count (join sep ls) + 1 = sum_list (map (\<lambda>l. char_count l + 1) ls)"
  by (induction sep ls rule: join.induct) simp_all

end
