(* ===== verification/Agent_Session.thy ===== *)
theory Agent_Session
  imports Agent_Plan Text_Utf8 "HOL-Library.List_Lexorder" "HOL-Library.Char_ord"
begin

text \<open>
  The agent's events and persisted sessions: \<open>crates/agent-runtime/src/events.rs\<close>,
  \<open>session.rs\<close>, and the projection of events onto a session in \<open>runtime.rs\<close>. Clocks, generated
  ids and the session store are parameters. Main facts: the model history is a suffix of the
  conversation within both bounds and cannot be longer, a refreshed summary is always a
  valid one, evidence and tool ids stay free of repeats, a branch never carries executable task
  state, and nothing invalid is saved.
\<close>

section \<open>Events\<close>

datatype AgentPhase =
    Preparing | Planning | Reasoning | AwaitingTools | Reviewing | Verifying | Suspended | Completed
  | Cancelled | Failed

fun phase_as_str :: "AgentPhase \<Rightarrow> string" where
  "phase_as_str Preparing = ''preparing''"
| "phase_as_str Planning = ''planning''"
| "phase_as_str Reasoning = ''reasoning''"
| "phase_as_str AwaitingTools = ''awaiting_tools''"
| "phase_as_str Reviewing = ''reviewing''"
| "phase_as_str Verifying = ''verifying''"
| "phase_as_str Suspended = ''suspended''"
| "phase_as_str Completed = ''completed''"
| "phase_as_str Cancelled = ''cancelled''"
| "phase_as_str Failed = ''failed''"

definition phase_is_terminal :: "AgentPhase \<Rightarrow> bool" where
  "phase_is_terminal p \<longleftrightarrow> p \<in> {Completed, Cancelled, Failed}"

record VerificationFinding =
  vf_code :: string
  vf_message :: string
  blocking :: bool

datatype AgentEvent =
    SessionStarted string string
  | UserMessageAccepted
  | PlanningStarted
  | PlanUpdated string
  | PlanRevised PlanMutation Plan
  | ClarificationRequested string string "string list" "string option"
  | ClarificationResolved string string "string option"
  | ModelStarted string nat
  | ModelTurnEmpty nat nat string
  | TextDelta string
  | ToolScheduled string string
  | ToolStarted string string
  | ToolCompleted string string "string list"
  | ToolFailed string string string bool
  | EvidenceAdded string "string list"
  | VerificationStarted
  | EvVerificationFinding VerificationFinding
  | EvSuspended string "string option" "string option"
  | EvCancelled
  | EvCompleted string "string list"
  | EvFailed string

fun event_kind :: "AgentEvent \<Rightarrow> string" where
  "event_kind (SessionStarted _ _) = ''session_started''"
| "event_kind UserMessageAccepted = ''user_message_accepted''"
| "event_kind PlanningStarted = ''planning_started''"
| "event_kind (PlanUpdated _) = ''plan_updated''"
| "event_kind (PlanRevised _ _) = ''plan_revised''"
| "event_kind (ClarificationRequested _ _ _ _) = ''clarification_requested''"
| "event_kind (ClarificationResolved _ _ _) = ''clarification_resolved''"
| "event_kind (ModelStarted _ _) = ''model_started''"
| "event_kind (ModelTurnEmpty _ _ _) = ''model_turn_empty''"
| "event_kind (TextDelta _) = ''text_delta''"
| "event_kind (ToolScheduled _ _) = ''tool_scheduled''"
| "event_kind (ToolStarted _ _) = ''tool_started''"
| "event_kind (ToolCompleted _ _ _) = ''tool_completed''"
| "event_kind (ToolFailed _ _ _ _) = ''tool_failed''"
| "event_kind (EvidenceAdded _ _) = ''evidence_added''"
| "event_kind VerificationStarted = ''verification_started''"
| "event_kind (EvVerificationFinding _) = ''verification_finding''"
| "event_kind (EvSuspended _ _ _) = ''suspended''"
| "event_kind EvCancelled = ''cancelled''"
| "event_kind (EvCompleted _ _) = ''completed''"
| "event_kind (EvFailed _) = ''failed''"

section \<open>Sessions\<close>

definition SESSION_VERSION :: string where "SESSION_VERSION = ''rust-agent-session-v1''"
definition MAX_SESSION_MESSAGES :: nat where "MAX_SESSION_MESSAGES = 1000"
definition MAX_SESSION_TEXT_CHARS :: nat where "MAX_SESSION_TEXT_CHARS = 2000000"
definition MAX_MODEL_HISTORY_MESSAGES :: nat where "MAX_MODEL_HISTORY_MESSAGES = 40"
definition MAX_MODEL_HISTORY_CHARS :: nat where "MAX_MODEL_HISTORY_CHARS = 120000"
definition MAX_SESSION_SUMMARY_CHARS :: nat where "MAX_SESSION_SUMMARY_CHARS = 30000"
definition MAX_SUMMARY_MESSAGE_CHARS :: nat where "MAX_SUMMARY_MESSAGE_CHARS = 480"

datatype SessionMessageRole = User | Agent | System | Tool

record SessionMessage =
  msg_id :: string
  msg_role :: SessionMessageRole
  msg_text :: string
  timestamp :: string

record SessionTaskState =
  task_id :: string
  task_phase :: AgentPhase
  accepted_seq :: nat
  model_round :: nat
  completed_tool_ids :: "string list"
  evidence_ids :: "string list"
  resume_at :: "string option"
  suspended_by :: "string option"
  task_plan :: "Plan option"

record RuntimeSession =
  version :: string
  session_id :: string
  session_title :: string
  created_at :: int
  updated_at :: int
  session_input :: string
  depth :: string
  tool_policy :: string
  messages :: "SessionMessage list"
  task :: "SessionTaskState option"
  summary :: "string option"

text \<open>\<open>RuntimeError\<close>, with the configuration messages by what they complain about.\<close>

datatype config_error =
    BadId string
  | UnsupportedVersion string
  | BadTitle
  | TooManyMessages
  | EmptyMessage
  | TooMuchText
  | BadSummary
  | BadListLimit
  | ForeignMessage string string
  | NoMessages
  | BranchTitleTooLong
  | SequenceOutOfRange

datatype runtime_error = Configuration config_error | Store string

definition NEW_TITLE :: string where "NEW_TITLE = utf8 [26032, 30740, 31350]"

text \<open>\<open>uuid\<close> and \<open>now\<close> stand for the generated id and the clock.\<close>

definition session_new :: "string \<Rightarrow> int \<Rightarrow> string \<Rightarrow> string \<Rightarrow> RuntimeSession" where
  "session_new uuid now d tp =
     \<lparr>version = SESSION_VERSION, session_id = uuid, session_title = NEW_TITLE, created_at = now,
      updated_at = now, session_input = [], depth = d, tool_policy = tp, messages = [], task = None,
      summary = None\<rparr>"

definition validate_id :: "string \<Rightarrow> string \<Rightarrow> (unit, runtime_error) result" where
  "validate_id v name =
     (if v = [] \<or> 128 < length v \<or> has_control v then Inl (Configuration (BadId name)) else Inr ())"

fun validate_messages :: "nat \<Rightarrow> SessionMessage list \<Rightarrow> (nat, runtime_error) result" where
  "validate_messages cs [] = Inr cs"
| "validate_messages cs (m # ms) =
     bind_r (validate_id (msg_id m) ''message_id'') (\<lambda>_.
       if trim (msg_text m) = [] then Inl (Configuration EmptyMessage)
       else validate_messages (usize_saturating_add cs (char_count (msg_text m))) ms)"

definition validate :: "RuntimeSession \<Rightarrow> (unit, runtime_error) result" where
  "validate s =
     bind_r (validate_id (session_id s) ''session_id'') (\<lambda>_.
       if version s \<noteq> SESSION_VERSION then Inl (Configuration (UnsupportedVersion (version s)))
       else if trim (session_title s) = [] \<or> 240 < length (session_title s) then Inl (Configuration BadTitle)
       else if MAX_SESSION_MESSAGES < length (messages s) then Inl (Configuration TooManyMessages)
       else bind_r (validate_messages 0 (messages s)) (\<lambda>cs.
         if MAX_SESSION_TEXT_CHARS < cs then Inl (Configuration TooMuchText)
         else case summary s of
           Some t \<Rightarrow> if trim t = [] \<or> MAX_SESSION_SUMMARY_CHARS < char_count t
                     then Inl (Configuration BadSummary) else Inr ()
         | None \<Rightarrow> Inr ()))"

definition push_message ::
  "string \<Rightarrow> string \<Rightarrow> int \<Rightarrow> SessionMessageRole \<Rightarrow> string \<Rightarrow> RuntimeSession \<Rightarrow> RuntimeSession" where
  "push_message uuid stamp now r t s =
     s\<lparr>messages := messages s @ [\<lparr>msg_id = uuid, msg_role = r, msg_text = t, timestamp = stamp\<rparr>],
       updated_at := now\<rparr>"

definition relevant_messages :: "RuntimeSession \<Rightarrow> SessionMessage list" where
  "relevant_messages s = filter (\<lambda>m. msg_role m = User \<or> msg_role m = Agent) (messages s)"

fun retained_loop :: "nat \<Rightarrow> nat \<Rightarrow> SessionMessage list \<Rightarrow> nat" where
  "retained_loop retained cs [] = retained"
| "retained_loop retained cs (m # ms) =
     (if MAX_MODEL_HISTORY_MESSAGES \<le> retained
         \<or> MAX_MODEL_HISTORY_CHARS < usize_saturating_add cs (char_count (msg_text m))
      then retained
      else retained_loop (retained + 1) (cs + char_count (msg_text m)) ms)"

definition retained_history_count :: "SessionMessage list \<Rightarrow> nat" where
  "retained_history_count ms = retained_loop 0 0 (rev ms)"

datatype MessageRole = MSystem | MUser | MAssistant | MTool

text \<open>
  \<open>unreachable!\<close> for the other roles is \<open>None\<close>. A message to the model carries its role and text;
  the empty tool fields of \<open>Message::text\<close> are left out.
\<close>

fun model_role :: "SessionMessageRole \<Rightarrow> MessageRole option" where
  "model_role User = Some MUser"
| "model_role Agent = Some MAssistant"
| "model_role System = None"
| "model_role Tool = None"

definition model_history :: "RuntimeSession \<Rightarrow> (MessageRole option \<times> string) list" where
  "model_history s =
     (let relevant = relevant_messages s;
          retained = retained_history_count relevant
      in map (\<lambda>m. (model_role (msg_role m), msg_text m)) (drop (length relevant - retained) relevant))"

definition truncate_chars :: "string \<Rightarrow> nat \<Rightarrow> string" where
  "truncate_chars t n = (if n < length (chars t) then take_chars n t @ utf8 [8230] else take_chars n t)"

definition summary_line :: "SessionMessage \<Rightarrow> string option" where
  "summary_line m =
     (let line = (\<lambda>r. ''- '' @ r @ '': '' @
            truncate_chars (join '' '' (split_whitespace (msg_text m))) MAX_SUMMARY_MESSAGE_CHARS)
      in case msg_role m of
        User \<Rightarrow> Some (line (utf8 [29992, 25143]))
      | Agent \<Rightarrow> Some (line ''Agent'')
      | _ \<Rightarrow> None)"

text \<open>The loop over the omitted messages, latest first: the lines kept, in loop order.\<close>

fun summary_lines :: "nat \<Rightarrow> SessionMessage list \<Rightarrow> string list" where
  "summary_lines used [] = []"
| "summary_lines used (m # ms) =
     (case summary_line m of
        None \<Rightarrow> summary_lines used ms
      | Some l \<Rightarrow>
          if MAX_SESSION_SUMMARY_CHARS - 160 < usize_saturating_add used (char_count l + 1) then []
          else l # summary_lines (used + (char_count l + 1)) ms)"

definition summary_header :: "nat \<Rightarrow> nat \<Rightarrow> string" where
  "summary_header omitted included =
     utf8 [36739, 26089, 28040, 24687, 21387, 32553, 32034, 24341, 65306, 20849, 30465, 30053, 32]
     @ show_nat omitted
     @ utf8 [32, 26465, 65292, 20445, 30041, 20854, 20013, 26368, 36817, 32]
     @ show_nat included
     @ utf8 [32, 26465, 25688, 24405, 12290, 21407, 25991, 20173, 22312, 25345, 20037, 20250, 35805,
         20013, 65307, 28041, 21450, 24403, 21069, 20215, 26684, 12289, 26085, 26399, 12289, 39069,
         24230, 25110, 32467, 35770, 26102, 24517, 39035, 37325, 26032, 21462, 35777, 12290]"

definition omitted_messages :: "RuntimeSession \<Rightarrow> SessionMessage list" where
  "omitted_messages s =
     (let relevant = relevant_messages s
      in take (length relevant - retained_history_count relevant) relevant)"

definition compacted_summary :: "RuntimeSession \<Rightarrow> string" where
  "compacted_summary s =
     (let omitted = omitted_messages s;
          ls = rev (summary_lines 0 (rev omitted));
          header = summary_header (length omitted) (length ls)
      in if ls = [] then header else header @ [char_of (10::nat)] @ join [char_of (10::nat)] ls)"

definition refresh_compacted_summary :: "int \<Rightarrow> RuntimeSession \<Rightarrow> RuntimeSession \<times> bool" where
  "refresh_compacted_summary now s =
     (if length (omitted_messages s) = 0 then (s, False)
      else (s\<lparr>summary := Some (compacted_summary s), updated_at := now\<rparr>, True))"

definition ensure_title :: "string \<Rightarrow> RuntimeSession \<Rightarrow> RuntimeSession" where
  "ensure_title objective s =
     (if messages s = [] \<and> session_title s = NEW_TITLE
      then let t = take_chars 60 (trim objective) in if t \<noteq> [] then s\<lparr>session_title := t\<rparr> else s
      else s)"

section \<open>Events projected onto a session\<close>

definition u64_saturating_inc :: "nat \<Rightarrow> nat" where
  "u64_saturating_inc n = min u64_max (n + 1)"

fun apply_task_event :: "AgentEvent \<Rightarrow> SessionTaskState \<Rightarrow> SessionTaskState" where
  "apply_task_event (SessionStarted _ _) t = t\<lparr>task_phase := Preparing\<rparr>"
| "apply_task_event UserMessageAccepted t = t\<lparr>task_phase := Preparing\<rparr>"
| "apply_task_event PlanningStarted t = t\<lparr>task_phase := Planning\<rparr>"
| "apply_task_event (PlanUpdated _) t = t\<lparr>task_phase := Planning\<rparr>"
| "apply_task_event (PlanRevised _ p) t = t\<lparr>task_plan := Some p\<rparr>"
| "apply_task_event (ClarificationRequested _ _ _ _) t = t\<lparr>task_phase := Suspended\<rparr>"
| "apply_task_event (ClarificationResolved _ _ _) t = t\<lparr>task_phase := Reasoning\<rparr>"
| "apply_task_event (ModelStarted _ round) t = t\<lparr>task_phase := Reasoning, model_round := round\<rparr>"
| "apply_task_event (ModelTurnEmpty _ _ _) t = t\<lparr>task_phase := Reasoning\<rparr>"
| "apply_task_event (ToolScheduled _ _) t = t\<lparr>task_phase := AwaitingTools\<rparr>"
| "apply_task_event (ToolStarted _ _) t = t\<lparr>task_phase := AwaitingTools\<rparr>"
| "apply_task_event (ToolCompleted call _ evs) t =
     t\<lparr>task_phase := AwaitingTools,
       completed_tool_ids :=
         (if call \<in> set (completed_tool_ids t) then completed_tool_ids t else completed_tool_ids t @ [call]),
       evidence_ids := dedup (sort (evidence_ids t @ evs))\<rparr>"
| "apply_task_event (ToolFailed _ _ _ _) t = t\<lparr>task_phase := AwaitingTools\<rparr>"
| "apply_task_event (EvidenceAdded _ _) t = t\<lparr>task_phase := AwaitingTools\<rparr>"
| "apply_task_event VerificationStarted t = t\<lparr>task_phase := Verifying\<rparr>"
| "apply_task_event (EvVerificationFinding _) t = t\<lparr>task_phase := Verifying\<rparr>"
| "apply_task_event (TextDelta _) t = t"
| "apply_task_event (EvSuspended _ at fault) t =
     t\<lparr>task_phase := Suspended, resume_at := at, suspended_by := fault\<rparr>"
| "apply_task_event EvCancelled t = t\<lparr>task_phase := Cancelled\<rparr>"
| "apply_task_event (EvCompleted _ evs) t = t\<lparr>task_phase := Completed, evidence_ids := evs\<rparr>"
| "apply_task_event (EvFailed _) t = t\<lparr>task_phase := Failed\<rparr>"

text \<open>\<open>uuid\<close>, \<open>stamp\<close> and the clock's readings are arguments.\<close>

definition apply_session_event ::
  "string \<Rightarrow> string \<Rightarrow> int \<Rightarrow> int \<Rightarrow> RuntimeSession \<Rightarrow> AgentEvent \<Rightarrow> RuntimeSession" where
  "apply_session_event uuid stamp now1 now2 s ev =
     (case task s of
        None \<Rightarrow> s
      | Some t \<Rightarrow>
          (let s1 = s\<lparr>task := Some (apply_task_event ev (t\<lparr>accepted_seq := u64_saturating_inc (accepted_seq t)\<rparr>))\<rparr>;
               s2 = (case ev of EvCompleted report _ \<Rightarrow> push_message uuid stamp now1 Agent report s1 | _ \<Rightarrow> s1)
           in s2\<lparr>updated_at := now2\<rparr>))"

section \<open>The session manager\<close>

record StoredSession =
  conversation_id :: string
  stored_title :: string
  stored_session :: RuntimeSession
  parent_conversation_id :: "string option"
  branch_from_message_id :: "string option"
  stored_created_at :: int
  stored_updated_at :: int

record SessionBranchRequest =
  source_session_id :: string
  new_session_id :: string
  req_message_id :: string
  req_title :: string
  checkpoint_task_id :: "string option"
  checkpoint_accepted_seq :: "int option"

text \<open>The store's answers are parameters: any function of the request.\<close>

definition map_store :: "('a, string) result \<Rightarrow> ('a, runtime_error) result" where
  "map_store r = (case r of Inl e \<Rightarrow> Inl (Store e) | Inr a \<Rightarrow> Inr a)"

definition manager_save ::
  "(RuntimeSession \<Rightarrow> (StoredSession, string) result) \<Rightarrow> RuntimeSession \<Rightarrow> (StoredSession, runtime_error) result" where
  "manager_save store s = bind_r (validate s) (\<lambda>_. map_store (store s))"

definition manager_load ::
  "(string \<Rightarrow> (StoredSession, string) result) \<Rightarrow> string \<Rightarrow> (StoredSession, runtime_error) result" where
  "manager_load store i =
     bind_r (validate_id i ''session_id'') (\<lambda>_.
     bind_r (map_store (store i)) (\<lambda>st.
     bind_r (validate (stored_session st)) (\<lambda>_. Inr st)))"

definition manager_list ::
  "(nat \<Rightarrow> string option \<Rightarrow> ('a list, string) result) \<Rightarrow> nat \<Rightarrow> string option \<Rightarrow> ('a list, runtime_error) result" where
  "manager_list store limit query =
     (if 1 \<le> limit \<and> limit \<le> 500 then map_store (store limit query) else Inl (Configuration BadListLimit))"

definition manager_latest where
  "manager_latest list_store load_store conv =
     bind_r (manager_list list_store 1 None) (\<lambda>l.
       case l of [] \<Rightarrow> Inr None | x # _ \<Rightarrow> bind_r (manager_load load_store (conv x)) (\<lambda>st. Inr (Some st)))"

definition i64_max :: nat where "i64_max = 9223372036854775807"

definition branch_selected ::
  "string \<Rightarrow> RuntimeSession \<Rightarrow> string option \<Rightarrow> (SessionMessage, runtime_error) result" where
  "branch_selected src s mid =
     (case mid of
        Some i \<Rightarrow> (case find (\<lambda>m. msg_id m = i) (messages s) of
            Some m \<Rightarrow> Inr m | None \<Rightarrow> Inl (Configuration (ForeignMessage i src)))
      | None \<Rightarrow> if messages s = [] then Inl (Configuration NoMessages) else Inr (last (messages s)))"

definition branch_checkpoint :: "RuntimeSession \<Rightarrow> SessionMessage \<Rightarrow> SessionTaskState option" where
  "branch_checkpoint s m =
     (if messages s \<noteq> [] \<and> msg_id (last (messages s)) = msg_id m
      then (case task s of Some t \<Rightarrow> if 0 < accepted_seq t then Some t else None | None \<Rightarrow> None)
      else None)"

definition branch_title :: "string \<Rightarrow> string option \<Rightarrow> string" where
  "branch_title source_title wanted =
     (case map_option trim wanted of
        Some t \<Rightarrow> if t \<noteq> [] then t else source_title @ utf8 [32, 183, 32, 20998, 25903]
      | None \<Rightarrow> source_title @ utf8 [32, 183, 32, 20998, 25903])"

definition checkpoint_seq :: "SessionTaskState option \<Rightarrow> (int option, runtime_error) result" where
  "checkpoint_seq cp =
     (case cp of
        None \<Rightarrow> Inr None
      | Some t \<Rightarrow> if accepted_seq t \<le> i64_max then Inr (Some (int (accepted_seq t)))
                  else Inl (Configuration SequenceOutOfRange))"

definition manager_branch ::
  "(string \<Rightarrow> (StoredSession, string) result) \<Rightarrow> (SessionBranchRequest \<Rightarrow> (StoredSession, string) result)
     \<Rightarrow> string \<Rightarrow> string \<Rightarrow> string option \<Rightarrow> string option \<Rightarrow> (StoredSession, runtime_error) result" where
  "manager_branch load_store branch_store uuid src mid wanted =
     bind_r (manager_load load_store src) (\<lambda>source.
     bind_r (branch_selected src (stored_session source) mid) (\<lambda>selected.
     (let cp = branch_checkpoint (stored_session source) selected;
          t = branch_title (stored_title source) wanted
      in if 240 < length t then Inl (Configuration BranchTitleTooLong)
         else bind_r (checkpoint_seq cp) (\<lambda>seq.
              bind_r (map_store (branch_store
                 \<lparr>source_session_id = conversation_id source, new_session_id = uuid,
                  req_message_id = msg_id selected, req_title = t,
                  checkpoint_task_id = map_option task_id cp, checkpoint_accepted_seq = seq\<rparr>)) (\<lambda>b.
              bind_r (validate (stored_session b)) (\<lambda>_.
                if task (stored_session b) \<noteq> None
                then Inl (Store ''Engine returned a branch with executable task state'')
                else Inr b))))))"

section \<open>The bounded history\<close>

abbreviation text_chars :: "SessionMessage list \<Rightarrow> nat" where
  "text_chars ms \<equiv> sum_list (map (\<lambda>m. char_count (msg_text m)) ms)"

lemma retained_loop_bounds:
  assumes "k \<le> MAX_MODEL_HISTORY_MESSAGES" "c \<le> MAX_MODEL_HISTORY_CHARS"
  shows "k \<le> retained_loop k c ms \<and> retained_loop k c ms \<le> MAX_MODEL_HISTORY_MESSAGES
    \<and> retained_loop k c ms - k \<le> length ms
    \<and> c + text_chars (take (retained_loop k c ms - k) ms) \<le> MAX_MODEL_HISTORY_CHARS
    \<and> (retained_loop k c ms - k < length ms \<longrightarrow>
        retained_loop k c ms = MAX_MODEL_HISTORY_MESSAGES
        \<or> MAX_MODEL_HISTORY_CHARS < c + text_chars (take (Suc (retained_loop k c ms - k)) ms))"
  using assms
proof (induction k c ms rule: retained_loop.induct)
  case (2 k c m ms)
  let ?n = "char_count (msg_text m)"
  let ?stop = "MAX_MODEL_HISTORY_MESSAGES \<le> k \<or> MAX_MODEL_HISTORY_CHARS < usize_saturating_add c ?n"
  show ?case
  proof (cases ?stop)
    case True
    then have "MAX_MODEL_HISTORY_MESSAGES = k \<or> MAX_MODEL_HISTORY_CHARS < c + ?n"
      using 2(2) usize_saturating_add_le [of c ?n] by linarith
    with True show ?thesis using 2(2,3) by auto
  next
    case False
    then have "usize_saturating_add c ?n = c + ?n"
      by (intro usize_saturating_add_exact) (auto simp: MAX_MODEL_HISTORY_CHARS_def u64_max_def)
    then have le: "k + 1 \<le> MAX_MODEL_HISTORY_MESSAGES" "c + ?n \<le> MAX_MODEL_HISTORY_CHARS" using False by auto
    let ?r = "retained_loop (k + 1) (c + ?n) ms"
    have r: "retained_loop k c (m # ms) = ?r" using False by simp
    note IH = 2(1) [OF False le]
    then have "k + 1 \<le> ?r" by blast
    then have "?r - k = Suc (?r - (k + 1))" by simp
    then show ?thesis using IH unfolding r by (auto simp: add.assoc)
  qed
qed simp

lemma retained_loop_start:
  "retained_loop 0 0 ms \<le> MAX_MODEL_HISTORY_MESSAGES \<and> retained_loop 0 0 ms \<le> length ms
    \<and> text_chars (take (retained_loop 0 0 ms) ms) \<le> MAX_MODEL_HISTORY_CHARS
    \<and> (retained_loop 0 0 ms < length ms \<longrightarrow>
        retained_loop 0 0 ms = MAX_MODEL_HISTORY_MESSAGES
        \<or> MAX_MODEL_HISTORY_CHARS < text_chars (take (Suc (retained_loop 0 0 ms)) ms))"
  using retained_loop_bounds [of 0 0 ms] by simp

lemma text_chars_rev: "text_chars (rev ms) = text_chars ms"
  by (induction ms) simp_all

section \<open>The summary\<close>

lemma summary_lines_bound:
  "used \<le> MAX_SESSION_SUMMARY_CHARS - 160 \<Longrightarrow>
    used + sum_list (map (\<lambda>l. char_count l + 1) (summary_lines used ms)) \<le> MAX_SESSION_SUMMARY_CHARS - 160"
proof (induction used ms rule: summary_lines.induct)
  case (2 used m ms)
  show ?case
  proof (cases "summary_line m")
    case (Some l)
    show ?thesis
    proof (cases "MAX_SESSION_SUMMARY_CHARS - 160 < usize_saturating_add used (char_count l + 1)")
      case False
      then have "usize_saturating_add used (char_count l + 1) = used + (char_count l + 1)"
        by (intro usize_saturating_add_exact) (auto simp: MAX_SESSION_SUMMARY_CHARS_def u64_max_def)
      then have "used + (char_count l + 1) \<le> MAX_SESSION_SUMMARY_CHARS - 160" using False by simp
      with 2(2) [OF Some False] Some False show ?thesis by simp
    qed (use 2 Some in simp)
  qed (use 2 in simp)
qed simp

lemma length_summary_lines: "length (summary_lines used ms) \<le> length ms"
  by (induction used ms rule: summary_lines.induct) (auto split: option.splits intro: le_SucI)

lemma summary_header_chars:
  assumes "omitted < 10 ^ 20" "included < 10 ^ 20"
  shows "char_count (summary_header omitted included) \<le> 101"
proof -
  have "char_count (show_nat omitted) \<le> 20" "char_count (show_nat included) \<le> 20"
    using assms length_show_nat char_count_le by (meson order_trans zero_less_numeral)+
  then show ?thesis by (simp add: summary_header_def char_count_utf8)
qed

lemma summary_header_visible: "trim (summary_header i j @ t) \<noteq> []"
proof (rule trim_nonempty)
  show "char_of (232 :: nat) \<in> set (summary_header i j @ t)"
    by (simp add: summary_header_def utf8_def utf8_char_def)
  show "\<forall>w \<in> set whitespace. char_of (232 :: nat) \<notin> set w" by (simp add: whitespace_def)
qed

section \<open>Projected tasks\<close>

text \<open>The ids of a task are free of repeats.\<close>

definition task_ids_ok :: "RuntimeSession \<Rightarrow> bool" where
  "task_ids_ok s \<longleftrightarrow>
     (case task s of None \<Rightarrow> True | Some t \<Rightarrow> distinct (completed_tool_ids t) \<and> distinct (evidence_ids t))"

definition event_ids_ok :: "AgentEvent \<Rightarrow> bool" where
  "event_ids_ok ev = (case ev of EvCompleted _ evs \<Rightarrow> distinct evs | _ \<Rightarrow> True)"

lemma apply_task_event_ids:
  assumes "distinct (completed_tool_ids t)" "distinct (evidence_ids t)" "event_ids_ok ev"
  shows "distinct (completed_tool_ids (apply_task_event ev t)) \<and> distinct (evidence_ids (apply_task_event ev t))"
  using assms by (cases ev) (auto simp: event_ids_ok_def distinct_dedup)

lemma task_push_message [simp]: "task (push_message u st n r t s) = task s"
  by (simp add: push_message_def)

lemma task_apply_session_event:
  "task (apply_session_event u st n1 n2 s ev) =
     map_option (\<lambda>t. apply_task_event ev (t\<lparr>accepted_seq := u64_saturating_inc (accepted_seq t)\<rparr>)) (task s)"
  by (auto simp: apply_session_event_def Let_def split: option.splits AgentEvent.splits)

interpretation session_ids: invariant_machine
  "\<lambda>s (u, st, n1, n2, ev). apply_session_event u st n1 n2 s ev" task_ids_ok "\<lambda>(u, st, n1, n2, ev). event_ids_ok ev"
proof unfold_locales
  fix s and e :: "string \<times> string \<times> int \<times> int \<times> AgentEvent"
  obtain u st n1 n2 ev where e: "e = (u, st, n1, n2, ev)" by (cases e)
  assume "task_ids_ok s" "case e of (u, st, n1, n2, ev) \<Rightarrow> event_ids_ok ev"
  then show "task_ids_ok (case e of (u, st, n1, n2, ev) \<Rightarrow> apply_session_event u st n1 n2 s ev)"
    unfolding e using apply_task_event_ids
    by (auto simp: task_ids_ok_def task_apply_session_event split: option.splits)
qed

lemma accepted_seq_apply [simp]: "accepted_seq (apply_task_event ev t) = accepted_seq t"
  by (cases ev) simp_all

section \<open>Small sessions\<close>

text \<open>Instances for the witnesses.\<close>

definition sample_message :: SessionMessage where
  "sample_message = \<lparr>msg_id = ''m'', msg_role = User, msg_text = ''x'', timestamp = ''t''\<rparr>"

definition sample_session :: "nat \<Rightarrow> RuntimeSession" where
  "sample_session n = (session_new ''s'' 0 ''deep'' ''full'')\<lparr>session_title := ''t'', messages := replicate n sample_message\<rparr>"

definition sample_task :: SessionTaskState where
  "sample_task =
     \<lparr>task_id = ''k'', task_phase = Preparing, accepted_seq = 0, model_round = 0, completed_tool_ids = [],
      evidence_ids = [], resume_at = None, suspended_by = None, task_plan = None\<rparr>"

definition sample_stored :: StoredSession where
  "sample_stored =
     \<lparr>conversation_id = ''s'', stored_title = ''t'', stored_session = sample_session 1,
      parent_conversation_id = None, branch_from_message_id = None, stored_created_at = 0,
      stored_updated_at = 0\<rparr>"

lemma relevant_sample: "relevant_messages (sample_session n) = replicate n sample_message"
  by (simp add: relevant_messages_def sample_session_def sample_message_def)

lemma sample_ids: "validate_id ''s'' n = Inr ()" "validate_id ''m'' n = Inr ()"
  by (simp_all add: validate_id_def has_control_def byte_def is_cont_def)

lemma sample_trims: "trim ''x'' \<noteq> []" "trim ''t'' \<noteq> []"
  by code_simp+

lemma sample_validates: "validate (sample_session 1) = Inr ()"
  by (simp add: validate_def sample_session_def session_new_def sample_ids sample_trims sample_message_def
      MAX_SESSION_MESSAGES_def MAX_SESSION_TEXT_CHARS_def usize_saturating_add_def u64_max_def
      char_count_def byte_def)

lemma compacted_summary_valid:
  assumes "length (messages s) \<le> u64_max"
  shows "trim (compacted_summary s) \<noteq> [] \<and> char_count (compacted_summary s) \<le> MAX_SESSION_SUMMARY_CHARS"
proof -
  let ?ls = "rev (summary_lines 0 (rev (omitted_messages s)))"
  let ?h = "summary_header (length (omitted_messages s)) (length ?ls)"
  have "length (omitted_messages s) \<le> length (messages s)"
    by (auto simp: omitted_messages_def relevant_messages_def Let_def intro: le_trans [OF diff_le_self] length_filter_le)
  then have o: "length (omitted_messages s) < 10 ^ 20" using assms by (simp add: u64_max_def)
  then have "length ?ls < 10 ^ 20"
    using length_summary_lines [of 0 "rev (omitted_messages s)"] by simp
  with o have h: "char_count ?h \<le> 101" by (rule summary_header_chars)
  have "sum_list (map (\<lambda>l. char_count l + 1) ?ls) \<le> MAX_SESSION_SUMMARY_CHARS - 160"
    using summary_lines_bound [of 0 "rev (omitted_messages s)"] by (simp add: rev_map [symmetric])
  moreover have "char_count [char_of (10 :: nat)] = 1" by (simp add: char_count_def byte_def)
  ultimately have "?ls \<noteq> [] \<Longrightarrow> char_count ([char_of (10 :: nat)] @ join [char_of (10 :: nat)] ?ls) \<le> MAX_SESSION_SUMMARY_CHARS - 160"
    using char_count_join [of "[char_of (10 :: nat)]" ?ls]
    unfolding char_count_append by (simp only:) simp
  then have "char_count (compacted_summary s) \<le> MAX_SESSION_SUMMARY_CHARS"
    using h by (auto simp: compacted_summary_def Let_def MAX_SESSION_SUMMARY_CHARS_def)
  moreover have "trim (compacted_summary s) \<noteq> []"
    using summary_header_visible [of _ _ "[]"] summary_header_visible
    by (auto simp: compacted_summary_def Let_def)
  ultimately show ?thesis by blast
qed

section \<open>Properties\<close>

text \<open>
  C24: The history sent to the model is bounded and as long as it may be: it is a suffix of the
  user and agent messages in order, has at most 40 messages and 120,000 characters, and one more
  message would break one of the two bounds.
\<close>

theorem model_history_bounded_suffix:
  "\<exists>k. model_history s = map (\<lambda>m. (model_role (msg_role m), msg_text m)) (drop k (relevant_messages s))
     \<and> length (drop k (relevant_messages s)) \<le> MAX_MODEL_HISTORY_MESSAGES
     \<and> text_chars (drop k (relevant_messages s)) \<le> MAX_MODEL_HISTORY_CHARS
     \<and> (\<forall>r t. (r, t) \<in> set (model_history s) \<longrightarrow> r \<noteq> None)
     \<and> (0 < k \<longrightarrow> length (drop k (relevant_messages s)) = MAX_MODEL_HISTORY_MESSAGES
          \<or> MAX_MODEL_HISTORY_CHARS < text_chars (drop (k - 1) (relevant_messages s)))"
proof -
  let ?ms = "relevant_messages s"
  let ?r = "retained_history_count ?ms"
  let ?k = "length ?ms - ?r"
  have suffix: "text_chars (take n (rev ?ms)) = text_chars (drop (length ?ms - n) ?ms)" for n
    by (simp add: take_rev text_chars_rev)
  note b = retained_loop_start [of "rev ?ms"]
  have r: "?r = retained_loop 0 0 (rev ?ms)" by (simp add: retained_history_count_def)
  have len: "length (drop ?k ?ms) = ?r" using b by (simp add: r)
  have cs: "text_chars (drop ?k ?ms) \<le> MAX_MODEL_HISTORY_CHARS" using b by (simp add: r suffix)
  have max: "0 < ?k \<longrightarrow> length (drop ?k ?ms) = MAX_MODEL_HISTORY_MESSAGES
      \<or> MAX_MODEL_HISTORY_CHARS < text_chars (drop (?k - 1) ?ms)"
    using b len suffix [of "Suc ?r"] by (simp add: r)
  have h: "model_history s = map (\<lambda>m. (model_role (msg_role m), msg_text m)) (drop ?k ?ms)"
    by (simp add: model_history_def Let_def)
  have "\<forall>r t. (r, t) \<in> set (model_history s) \<longrightarrow> r \<noteq> None"
    unfolding h by (auto simp: relevant_messages_def dest!: in_set_dropD)
  then show ?thesis using h len cs max b by (intro exI [of _ ?k]) (simp add: r)
qed

theorem model_history_bounded_suffix_witness:
  "model_history (sample_session 41) \<noteq> []
   \<and> (\<exists>k. 0 < k \<and> model_history (sample_session 41)
        = map (\<lambda>m. (model_role (msg_role m), msg_text m)) (replicate (41 - k) sample_message))"
proof -
  obtain k where k: "model_history (sample_session 41)
        = map (\<lambda>m. (model_role (msg_role m), msg_text m)) (drop k (relevant_messages (sample_session 41)))"
      "length (drop k (relevant_messages (sample_session 41))) \<le> MAX_MODEL_HISTORY_MESSAGES"
      "0 < k \<longrightarrow> length (drop k (relevant_messages (sample_session 41))) = MAX_MODEL_HISTORY_MESSAGES
          \<or> MAX_MODEL_HISTORY_CHARS < text_chars (drop (k - 1) (relevant_messages (sample_session 41)))"
    using model_history_bounded_suffix [of "sample_session 41"] by blast
  have "char_count (msg_text sample_message) = 1" by (simp add: sample_message_def char_count_def byte_def)
  then have "text_chars (replicate n sample_message) = n" for n by (induction n) simp_all
  then have "41 - k = 40" using k(2,3)
    by (auto simp: relevant_sample drop_replicate MAX_MODEL_HISTORY_MESSAGES_def MAX_MODEL_HISTORY_CHARS_def)
  then have "0 < k" "41 - k = 40" by auto
  with k(1) show ?thesis by (auto simp: relevant_sample drop_replicate)
qed

text \<open>
  Compaction never produces a summary the validator rejects: after a refresh that reports a
  change, the summary is visible text of at most 30,000 characters (for any session whose message
  count fits in 64 bits).
\<close>

theorem refreshed_summary_valid:
  assumes "refresh_compacted_summary now s = (s', True)" and "length (messages s) \<le> u64_max"
  shows "\<exists>t. summary s' = Some t \<and> trim t \<noteq> [] \<and> char_count t \<le> MAX_SESSION_SUMMARY_CHARS"
  using assms compacted_summary_valid [of s] by (auto simp: refresh_compacted_summary_def split: if_splits)

theorem refreshed_summary_valid_witness:
  "\<exists>s'. refresh_compacted_summary 7 (sample_session 41) = (s', True)
     \<and> (\<exists>t. summary s' = Some t \<and> char_count t \<le> 30000)"
proof -
  have "retained_history_count (relevant_messages (sample_session 41)) \<le> 40"
    using retained_loop_start by (simp add: retained_history_count_def MAX_MODEL_HISTORY_MESSAGES_def)
  then have "omitted_messages (sample_session 41) \<noteq> []"
    by (simp add: omitted_messages_def Let_def relevant_sample)
  then obtain s' where s': "refresh_compacted_summary 7 (sample_session 41) = (s', True)"
    by (simp add: refresh_compacted_summary_def)
  have "length (messages (sample_session 41)) \<le> u64_max" by (simp add: sample_session_def u64_max_def)
  from refreshed_summary_valid [OF s' this] s' show ?thesis
    by (auto simp: MAX_SESSION_SUMMARY_CHARS_def)
qed

text \<open>
  Projecting events keeps ids unique and counts the events: under any sequence of events whose
  completion names distinct evidence, the completed tool ids and the evidence ids have no repeats.
\<close>

theorem projected_ids_unique:
  assumes "task_ids_ok s" and "list_all (\<lambda>(u, st, n1, n2, ev). event_ids_ok ev) es"
  shows "task_ids_ok (foldl (\<lambda>s (u, st, n1, n2, ev). apply_session_event u st n1 n2 s ev) s es)"
  using assms by (rule session_ids.run_inv)

theorem projected_ids_unique_witness:
  "task_ids_ok (foldl (\<lambda>s (u, st, n1, n2, ev). apply_session_event u st n1 n2 s ev)
     ((sample_session 0)\<lparr>task := Some sample_task\<rparr>)
     [(''u'', ''t'', 0, 0, ToolCompleted ''c'' ''fetch'' [''e2'', ''e1'', ''e2'']),
      (''u'', ''t'', 0, 0, EvCompleted ''done'' [''e1''])])"
  by (rule projected_ids_unique) (simp_all add: task_ids_ok_def sample_task_def event_ids_ok_def)

text \<open>
  Whatever the store answers, a branch handed to the caller passes validation and carries no
  executable task, and nothing invalid is ever written: saving an invalid session fails with the
  validator's error before the store is asked.
\<close>

theorem branches_are_inert:
  "(manager_branch load_store branch_store uuid src mid wanted = Inr b \<longrightarrow>
      task (stored_session b) = None \<and> validate (stored_session b) = Inr ())
   \<and> (validate s = Inl e \<longrightarrow> manager_save store s = Inl e)"
  by (auto simp: manager_branch_def manager_save_def bind_r_Inr_conv Let_def split: if_splits)

theorem branches_are_inert_witness:
  "\<exists>b. manager_branch (\<lambda>_. Inr sample_stored) (\<lambda>_. Inr sample_stored) ''u'' ''s'' None None = Inr b
     \<and> task (stored_session b) = None
     \<and> manager_save (\<lambda>_. Inr b) ((sample_session 1)\<lparr>version := ''v0''\<rparr>)
         = Inl (Configuration (UnsupportedVersion ''v0''))"
proof -
  have ms: "messages (sample_session 1) = [sample_message]" and tk: "task (sample_session 1) = None"
    by (simp_all add: sample_session_def session_new_def)
  have st: "stored_session sample_stored = sample_session 1" "stored_title sample_stored = ''t''"
    by (simp_all add: sample_stored_def)
  have ld: "manager_load (\<lambda>_. Inr sample_stored) ''s'' = Inr sample_stored"
    using sample_validates by (simp add: manager_load_def map_store_def sample_ids sample_stored_def)
  have b: "manager_branch (\<lambda>_. Inr sample_stored) (\<lambda>_. Inr sample_stored) ''u'' ''s'' None None = Inr sample_stored"
    using sample_validates ms tk
    by (simp add: manager_branch_def ld st branch_selected_def branch_checkpoint_def
        branch_title_def checkpoint_seq_def map_store_def utf8_def utf8_char_def Let_def)
  have v: "validate ((sample_session 1)\<lparr>version := ''v0''\<rparr>) = Inl (Configuration (UnsupportedVersion ''v0''))"
    by (simp add: validate_def sample_session_def session_new_def sample_ids SESSION_VERSION_def)
  from branches_are_inert [THEN conjunct1, rule_format, OF b]
    branches_are_inert [THEN conjunct2, rule_format, OF v] b
  show ?thesis by blast
qed

end
