(* ===== verification/Stores.thy ===== *)
theory Stores
  imports Prelude "HOL-Library.AList"
begin

text \<open>
  The maps the components keep their entries in. The contract \<open>named_store\<close> says what a client
  relies on: looking up after an insert, and the keys staying distinct. It is provided by
  association lists (for hash maps, whose order is unspecified) and by association lists in key
  order (for \<open>BTreeMap\<close>).
\<close>

section \<open>A store of named entries\<close>


locale named_store =
  fixes get :: "'m \<Rightarrow> 'k \<Rightarrow> 'v option"
    and put :: "'k \<Rightarrow> 'v \<Rightarrow> 'm \<Rightarrow> 'm"
    and keys :: "'m \<Rightarrow> 'k list"
    and wf :: "'m \<Rightarrow> bool"
  assumes get_put: "get (put k v m) k' = (if k' = k then Some v else get m k')"
    and wf_put: "wf m \<Longrightarrow> wf (put k v m)"
    and wf_distinct: "wf m \<Longrightarrow> distinct (keys m)"
    and get_keys: "get m k \<noteq> None \<longleftrightarrow> k \<in> set (keys m)"
begin

definition modify :: "'k \<Rightarrow> 'v \<Rightarrow> ('v \<Rightarrow> 'v) \<Rightarrow> 'm \<Rightarrow> 'm" where
  "modify k d f m = put k (f (case get m k of None \<Rightarrow> d | Some v \<Rightarrow> v)) m"

lemma modify_other: "k' \<noteq> k \<Longrightarrow> get (modify k d f m) k' = get m k'"
  by (simp add: modify_def get_put)

lemma modify_all:
  "(\<And>k v. get m k = Some v \<Longrightarrow> P v) \<Longrightarrow> P (f (case get m k of None \<Rightarrow> d | Some v \<Rightarrow> v)) \<Longrightarrow>
    get (modify k d f m) k' = Some v \<Longrightarrow> P v"
  by (auto simp: modify_def get_put split: if_splits)

lemma keys_put: "set (keys (put k v m)) = insert k (set (keys m))"
  using get_keys get_put by (auto split: if_splits) (metis option.distinct(1))+

end

interpretation alist: named_store map_of AList.update "map fst" "\<lambda>m. distinct (map fst m)"
proof unfold_locales
  fix k k' :: 'a and v :: 'b and m
  show "map_of (AList.update k v m) k' = (if k' = k then Some v else map_of m k')"
    by (simp add: update_conv')
  show "distinct (map fst m) \<Longrightarrow> distinct (map fst (AList.update k v m))"
    by (rule distinct_update)
  show "map_of m k \<noteq> None \<longleftrightarrow> k \<in> set (map fst m)"
    by (metis list.set_map map_of_eq_None_iff)
qed

lemma map_of_update [simp]:
  "map_of (AList.update k v m) k' = (if k' = k then Some v else map_of m k')"
  by (rule alist.get_put)

section \<open>Ordered maps\<close>

fun btree_insert :: "'k::linorder \<Rightarrow> 'v \<Rightarrow> ('k \<times> 'v) list \<Rightarrow> ('k \<times> 'v) list" where
  "btree_insert k v [] = [(k, v)]"
| "btree_insert k v ((k', v') # m) =
     (if k < k' then (k, v) # (k', v') # m
      else if k = k' then (k, v) # m
      else (k', v') # btree_insert k v m)"

lemma set_btree_insert_keys [simp]: "fst ` set (btree_insert k v m) = insert k (fst ` set m)"
  by (induction m rule: btree_insert.induct) auto

lemma length_btree_insert:
  "sorted_wrt (<) (map fst m) \<Longrightarrow>
    length (btree_insert k v m) = (if k \<in> fst ` set m then length m else Suc (length m))"
  by (induction k v m rule: btree_insert.induct) force+

lemma set_btree_insert: "set (btree_insert k v m) \<subseteq> insert (k, v) (set m)"
  by (induction k v m rule: btree_insert.induct) auto

interpretation btree: named_store map_of btree_insert "map fst" "\<lambda>m. sorted_wrt (<) (map fst m)"
proof unfold_locales
  fix k k' :: "'a::linorder" and v :: 'b and m
  show "map_of (btree_insert k v m) k' = (if k' = k then Some v else map_of m k')"
    by (induction k v m rule: btree_insert.induct) auto
  show "sorted_wrt (<) (map fst m) \<Longrightarrow> sorted_wrt (<) (map fst (btree_insert k v m))"
    by (induction k v m rule: btree_insert.induct) (auto simp flip: image_set)
  show "sorted_wrt (<) (map fst m) \<Longrightarrow> distinct (map fst m)"
    using strict_sorted_iff by blast
  show "map_of m k \<noteq> None \<longleftrightarrow> k \<in> set (map fst m)"
    by (metis list.set_map map_of_eq_None_iff)
qed

end
