(* ===== verification/Agent_Fault.thy ===== *)
theory Agent_Fault
  imports Prelude
begin

text \<open>
  Provider faults and the recovery each one warrants: \<open>crates/agent-runtime/src/fault.rs\<close>, the
  error types of \<open>crates/agent-runtime/src/error.rs\<close>, and the retry gate of
  \<open>crates/minimax/src/rate_gate.rs\<close> with its error type. A UTC timestamp is a number of
  nanoseconds since the epoch; adding past the last date chrono can represent panics, which is
  \<open>None\<close>. Main facts: no foreground wait exceeds its ceiling, a spent attempt budget ends every
  transient fault, budgets are never overrun, and the gate calls the operation a bounded number
  of times.
\<close>

section \<open>Errors of the runtime\<close>

datatype ProviderErrorKind =
    PAuthentication | PRateLimited | PQuota | PNetwork | PMalformedResponse | PUnavailable

record ProviderError =
  pe_kind :: ProviderErrorKind
  pe_message :: string
  pe_retryable :: bool
  pe_retry_after :: "duration option"

definition provider_error_new :: "ProviderErrorKind \<Rightarrow> string \<Rightarrow> bool \<Rightarrow> ProviderError" where
  "provider_error_new k m r = \<lparr>pe_kind = k, pe_message = m, pe_retryable = r, pe_retry_after = None\<rparr>"

section \<open>Faults\<close>

definition MAX_FOREGROUND_WAIT :: duration where
  "MAX_FOREGROUND_WAIT = from_secs 45"

datatype ModelFault =
    RateLimited "duration option"
  | QuotaExhausted "duration option"
  | Network
  | EmptyTurn
  | ProtocolCorruption
  | TruncatedOutput
  | ContextLimit
  | ModelUnavailable
  | Authentication
  | InvalidRequest

definition fault_classify :: "ProviderError \<Rightarrow> ModelFault" where
  "fault_classify e =
     (case pe_kind e of
        PRateLimited \<Rightarrow> RateLimited (pe_retry_after e)
      | PQuota \<Rightarrow> QuotaExhausted (pe_retry_after e)
      | PNetwork \<Rightarrow> Network
      | PMalformedResponse \<Rightarrow> ProtocolCorruption
      | PUnavailable \<Rightarrow> ModelUnavailable
      | PAuthentication \<Rightarrow> Authentication)"

fun fault_is_transient :: "ModelFault \<Rightarrow> bool" where
  "fault_is_transient (RateLimited _) = True"
| "fault_is_transient (QuotaExhausted _) = True"
| "fault_is_transient Network = True"
| "fault_is_transient EmptyTurn = True"
| "fault_is_transient ProtocolCorruption = True"
| "fault_is_transient ModelUnavailable = True"
| "fault_is_transient _ = False"

fun fault_as_str :: "ModelFault \<Rightarrow> string" where
  "fault_as_str (RateLimited _) = ''rate_limited''"
| "fault_as_str (QuotaExhausted _) = ''quota_exhausted''"
| "fault_as_str Network = ''network''"
| "fault_as_str EmptyTurn = ''empty_turn''"
| "fault_as_str ProtocolCorruption = ''protocol_corruption''"
| "fault_as_str TruncatedOutput = ''truncated_output''"
| "fault_as_str ContextLimit = ''context_limit''"
| "fault_as_str ModelUnavailable = ''model_unavailable''"
| "fault_as_str Authentication = ''authentication''"
| "fault_as_str InvalidRequest = ''invalid_request''"

type_synonym datetime = int

datatype RecoveryAction =
    RetryNow
  | RetryAfter duration
  | SuspendUntil datetime string
  | SuspendIndefinitely string
  | CompactAndRetry
  | RequireUserAction string
  | FailClosed string

fun action_is_terminal :: "RecoveryAction \<Rightarrow> bool" where
  "action_is_terminal (FailClosed _) = True"
| "action_is_terminal (RequireUserAction _) = True"
| "action_is_terminal _ = False"

fun action_suspends :: "RecoveryAction \<Rightarrow> bool" where
  "action_suspends (SuspendUntil _ _) = True"
| "action_suspends (SuspendIndefinitely _) = True"
| "action_suspends _ = False"

section \<open>The attempt budget\<close>

record AttemptBudget =
  max_attempts :: nat
  budget_attempts :: nat

definition budget_new :: "nat \<Rightarrow> AttemptBudget" where
  "budget_new m = \<lparr>max_attempts = max m 1, budget_attempts = 0\<rparr>"

definition budget_remaining :: "AttemptBudget \<Rightarrow> nat" where
  "budget_remaining b = max_attempts b - budget_attempts b"

definition budget_consume :: "AttemptBudget \<Rightarrow> AttemptBudget \<times> bool" where
  "budget_consume b =
     (let b' = b\<lparr>budget_attempts := usize_saturating_add (budget_attempts b) 1\<rparr>
      in (b', budget_attempts b' \<le> max_attempts b'))"

section \<open>The recovery plan\<close>

text \<open>
  \<open>chrono::Duration::from_std\<close> fails beyond \<open>i64::MAX\<close> milliseconds; \<open>unwrap_or_default\<close> then
  gives zero. \<open>DateTime + Duration\<close> panics past \<open>DateTime::MAX_UTC\<close>.
\<close>

definition chrono_duration_max :: nat where
  "chrono_duration_max = 9223372036854775807 * 1000000"

definition chrono_from_std :: "duration \<Rightarrow> nat option" where
  "chrono_from_std d = (if d \<le> chrono_duration_max then Some d else None)"

definition datetime_max :: datetime where
  "datetime_max = 8210266876799999999999"

definition datetime_add :: "datetime \<Rightarrow> nat \<Rightarrow> datetime option" where
  "datetime_add t d = (if t + int d \<le> datetime_max then Some (t + int d) else None)"

definition resume_time :: "datetime \<Rightarrow> duration \<Rightarrow> datetime option" where
  "resume_time now d = datetime_add now (case chrono_from_std d of Some n \<Rightarrow> n | None \<Rightarrow> 0)"

definition backoff :: "nat \<Rightarrow> duration" where
  "backoff n = min (from_secs (2 ^ min n 5)) MAX_FOREGROUND_WAIT"

definition recovery_plan :: "ModelFault \<Rightarrow> AttemptBudget \<Rightarrow> datetime \<Rightarrow> RecoveryAction option" where
  "recovery_plan fault b now =
     (if budget_remaining b = 0 \<and> fault_is_transient fault
      then Some (FailClosed (''provider attempt budget of '' @ show_nat (max_attempts b)
             @ '' exhausted while recovering from '' @ fault_as_str fault))
      else case fault of
        RateLimited (Some d) \<Rightarrow>
          if d \<le> MAX_FOREGROUND_WAIT then Some (RetryAfter d)
          else map_option
            (\<lambda>t. SuspendUntil t (''provider rate limit; retry after '' @ show_nat (as_secs d) @ ''s''))
            (resume_time now d)
      | RateLimited None \<Rightarrow> Some (RetryAfter (from_secs 5))
      | QuotaExhausted (Some d) \<Rightarrow>
          map_option
            (\<lambda>t. SuspendUntil t (''provider quota exhausted; resets in '' @ show_nat (as_secs d) @ ''s''))
            (resume_time now d)
      | QuotaExhausted None \<Rightarrow>
          Some (SuspendIndefinitely ''provider quota exhausted; reset time not reported'')
      | Network \<Rightarrow> Some (RetryAfter (backoff (budget_attempts b)))
      | ModelUnavailable \<Rightarrow> Some (RetryAfter (backoff (budget_attempts b)))
      | EmptyTurn \<Rightarrow> Some RetryNow
      | ProtocolCorruption \<Rightarrow> Some RetryNow
      | ContextLimit \<Rightarrow> Some CompactAndRetry
      | TruncatedOutput \<Rightarrow> Some CompactAndRetry
      | Authentication \<Rightarrow> Some (RequireUserAction ''provider rejected the credential; install a valid one'')
      | InvalidRequest \<Rightarrow> Some (FailClosed ''provider rejected the request as invalid''))"

section \<open>The budget is a meter\<close>

definition budget_valid :: "AttemptBudget \<Rightarrow> bool" where
  "budget_valid b \<longleftrightarrow> 1 \<le> max_attempts b \<and> max_attempts b < u64_max"

interpretation budget: meter "\<lambda>b (_ :: unit). budget_consume b" budget_attempts max_attempts budget_valid
  by unfold_locales
     (auto simp: budget_consume_def budget_valid_def Let_def usize_saturating_add_def min_def split: if_splits)

lemma budget_new_valid: "m < u64_max \<Longrightarrow> budget_valid (budget_new m)"
  by (simp add: budget_valid_def budget_new_def u64_max_def)

definition consume_all :: "AttemptBudget \<Rightarrow> nat \<Rightarrow> AttemptBudget" where
  "consume_all b n = ((\<lambda>b. fst (budget_consume b)) ^^ n) b"

lemma consume_all_simps [simp]:
  "max_attempts (consume_all b n) = max_attempts b"
  "budget_attempts b + n \<le> u64_max \<Longrightarrow> budget_attempts (consume_all b n) = budget_attempts b + n"
  by (induction n) (simp_all add: consume_all_def budget_consume_def Let_def usize_saturating_add_def)

section \<open>The retry gate\<close>

datatype MinimaxError =
    MAuth string
  | MRateLimited "duration option"
  | MQuotaExhausted "nat option"
  | MNetwork string
  | MApi int string
  | MParse string
  | MKeyStore string

fun minimax_is_transient :: "MinimaxError \<Rightarrow> bool" where
  "minimax_is_transient (MRateLimited _) = True"
| "minimax_is_transient (MNetwork _) = True"
| "minimax_is_transient _ = False"

record RateGateConfig =
  gate_max_attempts :: nat
  base_delay :: duration
  max_delay :: duration

definition rate_gate_default :: RateGateConfig where
  "rate_gate_default = \<lparr>gate_max_attempts = 5, base_delay = from_secs 1, max_delay = from_secs 60\<rparr>"

definition nanos_per_milli :: nat where
  "nanos_per_milli = 1000000"

text \<open>
  \<open>jitter millis\<close> stands for \<open>rand::rng().random_range(0..=millis)\<close>, whose documented range is
  the hypothesis \<open>jitter n \<le> n\<close> of the theorems that need it.
\<close>

definition jittered :: "(nat \<Rightarrow> nat) \<Rightarrow> RateGateConfig \<Rightarrow> nat \<Rightarrow> duration" where
  "jittered jitter c attempt =
     (let shift = min (attempt - 1) 20;
          bo = min (duration_saturating_mul (base_delay c) (2 ^ shift)) (max_delay c);
          millis = min (bo div nanos_per_milli) u64_max
      in (if millis = 0 then 0 else jitter millis) * nanos_per_milli)"

fun retry_delay :: "(nat \<Rightarrow> nat) \<Rightarrow> RateGateConfig \<Rightarrow> MinimaxError \<Rightarrow> nat \<Rightarrow> duration option" where
  "retry_delay jitter c (MRateLimited (Some hint)) attempt = Some (min hint (max_delay c))"
| "retry_delay jitter c (MRateLimited None) attempt = Some (jittered jitter c attempt)"
| "retry_delay jitter c (MNetwork _) attempt = Some (jittered jitter c attempt)"
| "retry_delay jitter c _ attempt = None"

text \<open>
  The loop of \<open>RateGate::run\<close>: \<open>oper n\<close> is the outcome of the n-th call of the operation, counted
  from 1, \<open>jitter n\<close> the generator at that call. The result comes with the delays slept.
\<close>

function gate_run ::
  "(nat \<Rightarrow> nat \<Rightarrow> nat) \<Rightarrow> RateGateConfig \<Rightarrow> (nat \<Rightarrow> ('a, MinimaxError) result) \<Rightarrow> nat
     \<Rightarrow> ('a, MinimaxError) result \<times> duration list" where
  "gate_run jitter c oper attempt =
     (case oper (Suc attempt) of
        Inr v \<Rightarrow> (Inr v, [])
      | Inl e \<Rightarrow>
          (case retry_delay (jitter (Suc attempt)) c e (Suc attempt) of
             Some d \<Rightarrow>
               if Suc attempt < gate_max_attempts c
               then (let (r, ds) = gate_run jitter c oper (Suc attempt) in (r, d # ds))
               else (Inl e, [])
           | None \<Rightarrow> (Inl e, [])))"
  by pat_completeness auto
termination
  by (relation "measure (\<lambda>(_, c, _, attempt). gate_max_attempts c - attempt)") auto

declare gate_run.simps [simp del]

definition rate_gate_run where
  "rate_gate_run jitter c oper = gate_run jitter c oper 0"

lemma retry_delay_transient: "retry_delay j c e n \<noteq> None \<longleftrightarrow> minimax_is_transient e"
  by (cases "(j, c, e, n)" rule: retry_delay.cases) auto

lemma jittered_le_max:
  assumes "\<And>n. jitter n \<le> n"
  shows "jittered jitter c k \<le> max_delay c"
proof -
  let ?bo = "min (duration_saturating_mul (base_delay c) (2 ^ min (k - 1) 20)) (max_delay c)"
  have "(if n = 0 then 0 else jitter n) \<le> n" for n using assms by simp
  then have "jittered jitter c k \<le> min (?bo div nanos_per_milli) u64_max * nanos_per_milli"
    unfolding jittered_def Let_def by (rule mult_right_mono) simp
  also have "\<dots> \<le> ?bo div nanos_per_milli * nanos_per_milli" by (intro mult_right_mono) simp_all
  also have "\<dots> \<le> ?bo" by (rule div_times_less_eq_dividend)
  also have "\<dots> \<le> max_delay c" by simp
  finally show ?thesis .
qed

lemma retry_delay_le_max:
  "(\<And>n. jitter n \<le> n) \<Longrightarrow> retry_delay jitter c e k = Some d \<Longrightarrow> d \<le> max_delay c"
  by (cases "(jitter, c, e, k)" rule: retry_delay.cases) (auto intro: jittered_le_max)

lemma gate_run_bounds:
  assumes "\<And>k n. jitter k n \<le> n"
  shows "length (snd (gate_run jitter c oper a)) \<le> gate_max_attempts c - (Suc a)
    \<and> list_all (\<lambda>d. d \<le> max_delay c) (snd (gate_run jitter c oper a))"
  using assms
proof (induction jitter c oper a rule: gate_run.induct)
  case (1 jitter c oper a)
  show ?case
  proof (cases "oper (Suc a)")
    case (Inl e)
    show ?thesis
    proof (cases "retry_delay (jitter (Suc a)) c e (Suc a)")
      case (Some d)
      have "d \<le> max_delay c" using 1(2) Some by (rule retry_delay_le_max)
      then show ?thesis
        using 1(1) [OF Inl Some] 1(2) Inl Some
        by (auto simp: gate_run.simps [of jitter c oper a] case_prod_unfold Let_def)
    qed (simp add: gate_run.simps [of jitter c oper a] Inl)
  qed (simp add: gate_run.simps [of jitter c oper a])
qed

lemma gate_run_result:
  "fst (gate_run jitter c oper a) = oper (Suc a + length (snd (gate_run jitter c oper a)))"
proof (induction jitter c oper a rule: gate_run.induct)
  case (1 jitter c oper a)
  then show ?case
    by (auto simp: gate_run.simps [of jitter c oper a] case_prod_unfold Let_def split: sum.split option.split)
qed

lemma gate_run_skipped:
  "a < k \<Longrightarrow> k \<le> a + length (snd (gate_run jitter c oper a)) \<Longrightarrow>
    \<exists>e. oper k = Inl e \<and> minimax_is_transient e"
proof (induction jitter c oper a rule: gate_run.induct)
  case (1 jitter c oper a)
  show ?case
  proof (cases "oper (Suc a)")
    case (Inl e)
    show ?thesis
    proof (cases "retry_delay (jitter (Suc a)) c e (Suc a)")
      case (Some d)
      then have "minimax_is_transient e" using retry_delay_transient by fastforce
      then show ?thesis
        using 1(1) [OF Inl Some] 1(2,3) Inl Some
        by (cases "k = Suc a")
           (auto simp: gate_run.simps [of jitter c oper a] case_prod_unfold Let_def split: if_splits)
    qed (use 1(2,3) Inl in \<open>simp add: gate_run.simps [of jitter c oper a]\<close>)
  qed (use 1(2,3) in \<open>simp add: gate_run.simps [of jitter c oper a]\<close>)
qed

section \<open>Properties\<close>

text \<open>
  Whatever the fault, the budget and the clock, a wait inside the task is at most the
  foreground ceiling of 45 seconds: longer delays given by the provider become suspensions, and
  the backoff is clamped.
\<close>

theorem foreground_wait_bounded:
  assumes "recovery_plan fault b now = Some (RetryAfter d)"
  shows "d \<le> MAX_FOREGROUND_WAIT"
  using assms
  by (auto simp: recovery_plan_def backoff_def MAX_FOREGROUND_WAIT_def
      split: if_splits ModelFault.splits option.splits)

theorem foreground_wait_bounded_witness:
  "recovery_plan Network (consume_all (budget_new 9) 7) 0 = Some (RetryAfter (from_secs 32))
    \<and> from_secs 32 \<le> MAX_FOREGROUND_WAIT"
proof -
  have "recovery_plan Network (consume_all (budget_new 9) 7) 0 = Some (RetryAfter (from_secs 32))"
    by (simp add: recovery_plan_def budget_remaining_def budget_new_def u64_max_def backoff_def
        MAX_FOREGROUND_WAIT_def min_def)
  then show ?thesis using foreground_wait_bounded by blast
qed

text \<open>
  C30: A transient fault cannot loop for ever: once a fresh budget for m attempts has been
  consumed m times, or any number of times more, every transient fault fails closed, whatever
  guidance the provider gave.
\<close>

theorem spent_budget_fails_closed:
  assumes "fault_is_transient fault" and "max m 1 \<le> n" and "n \<le> u64_max"
  shows "\<exists>reason. recovery_plan fault (consume_all (budget_new m) n) now = Some (FailClosed reason)"
  using assms by (simp add: recovery_plan_def budget_remaining_def budget_new_def)

theorem spent_budget_fails_closed_witness:
  "\<exists>reason. recovery_plan (RateLimited (Some 1)) (consume_all (budget_new 2) 2) 0 = Some (FailClosed reason)"
  by (rule spent_budget_fails_closed) (simp_all add: u64_max_def)

text \<open>
  A quota fault with budget left always persists the task instead of holding it open, and
  with a reset time that chrono can represent it resumes exactly then.
\<close>

theorem quota_suspends_until_reset:
  assumes "0 < budget_remaining b" and "d \<le> chrono_duration_max" and "now + int d \<le> datetime_max"
  shows "\<exists>reason. recovery_plan (QuotaExhausted (Some d)) b now = Some (SuspendUntil (now + int d) reason)"
  using assms by (simp add: recovery_plan_def resume_time_def chrono_from_std_def datetime_add_def)

theorem quota_suspends_until_reset_witness:
  "\<exists>reason. recovery_plan (QuotaExhausted (Some (from_secs 7380))) (budget_new 4) 0
     = Some (SuspendUntil 7380000000000 reason)"
  using quota_suspends_until_reset [of "budget_new 4" "from_secs 7380" 0]
  by (simp add: budget_remaining_def budget_new_def from_secs_def nanos_per_sec_def
      chrono_duration_max_def datetime_max_def)

text \<open>
  A reset delay that is too long for chrono is replaced by zero: the task is suspended until
  the present instant, so it may be resumed at once instead of never.
\<close>

theorem oversized_reset_resumes_now:
  assumes "chrono_duration_max < d" and "0 < budget_remaining b" and "now \<le> datetime_max"
  shows "\<exists>reason. recovery_plan (QuotaExhausted (Some d)) b now = Some (SuspendUntil now reason)"
  using assms by (simp add: recovery_plan_def resume_time_def chrono_from_std_def datetime_add_def)

theorem oversized_reset_resumes_now_witness:
  "\<exists>reason. recovery_plan (QuotaExhausted (Some duration_max)) (budget_new 4) 5 = Some (SuspendUntil 5 reason)"
  by (rule oversized_reset_resumes_now)
     (simp_all add: duration_max_def u64_max_def nanos_per_sec_def chrono_duration_max_def
        budget_remaining_def budget_new_def datetime_max_def)

text \<open>
  However the attempts are spread over the layers, a budget for m attempts accepts at most
  m of them (at least one is always allowed), in any run of accepted attempts.
\<close>

theorem budget_never_overrun:
  assumes "m < u64_max" and "snd (budget.charges (budget_new m) us)"
  shows "length us \<le> max m 1"
proof (cases "us = []")
  case False
  with budget_new_valid [OF assms(1)] assms(2)
  have "budget_attempts (budget_new m) + length us \<le> max_attempts (budget_new m)"
    by (rule budget.charges_ok_length)
  then show ?thesis by (simp add: budget_new_def)
qed simp

theorem budget_never_overrun_witness:
  "snd (budget.charges (budget_new 2) [(), ()]) \<and> length [(), ()] \<le> max 2 (1::nat)"
proof -
  have "snd (budget.charges (budget_new 2) [(), ()])"
    unfolding budget.charges.simps
    by (simp add: budget_consume_def budget_new_def usize_saturating_add_def u64_max_def)
  then show ?thesis using budget_never_overrun [of 2 "[(), ()]"] by (simp add: u64_max_def)
qed

text \<open>
  The retry gate calls the operation at most \<open>max_attempts\<close> times (once if that is zero),
  sleeps never longer than \<open>max_delay\<close> between calls, returns the outcome of the last call made,
  and every call before it failed with a transient error.
\<close>

theorem rate_gate_bounded:
  assumes "\<And>k n. jitter k n \<le> n" and "rate_gate_run jitter c oper = (r, ds)"
  shows "length ds + 1 \<le> max 1 (gate_max_attempts c)
    \<and> (\<forall>d \<in> set ds. d \<le> max_delay c)
    \<and> r = oper (length ds + 1)
    \<and> (\<forall>k \<in> {1..length ds}. \<exists>e. oper k = Inl e \<and> minimax_is_transient e)"
  using gate_run_bounds [where jitter = jitter and c = c and oper = oper and a = 0, OF assms(1)]
    gate_run_result [where jitter = jitter and c = c and oper = oper and a = 0]
    gate_run_skipped [where a = 0 and jitter = jitter and c = c and oper = oper] assms(2)
  by (auto simp: rate_gate_run_def list_all_iff)

theorem rate_gate_bounded_witness:
  "rate_gate_run (\<lambda>_ n. n) rate_gate_default
     (\<lambda>n. if n = 3 then Inr (7::nat) else Inl (MNetwork ''reset'')) = (Inr 7, [from_secs 1, from_secs 2])
   \<and> length [from_secs 1, from_secs 2] + 1 \<le> max 1 (gate_max_attempts rate_gate_default)"
proof -
  have run: "rate_gate_run (\<lambda>_ n. n) rate_gate_default
     (\<lambda>n. if n = 3 then Inr (7::nat) else Inl (MNetwork ''reset'')) = (Inr 7, [from_secs 1, from_secs 2])"
    by (simp add: rate_gate_run_def gate_run.simps jittered_def rate_gate_default_def from_secs_def
        nanos_per_sec_def nanos_per_milli_def u64_max_def duration_saturating_mul_def duration_max_def)
  have "length [from_secs 1, from_secs 2] + 1 \<le> max 1 (gate_max_attempts rate_gate_default)"
    using rate_gate_bounded [OF _ run] by blast
  with run show ?thesis by blast
qed

end
