(* ===== verification/Agent_Stream.thy ===== *)
theory Agent_Stream
  imports Stores Text_Utf8 Agent_Fault
begin

text \<open>
  One model round of \<open>crates/agent-runtime/src/runtime.rs\<close>: the streamed chunks of a provider turn
  are assembled into text and tool calls under four limits, and a turn that returned nothing is
  replayed a bounded number of times. What the stream delivers (chunks, a provider error, an idle
  timeout, a cancellation) is the list of its items; durable effect records and the hand-over of
  events to the client are taken to succeed. Main facts: every limit holds of an assembled turn
  and its counters are exact, calls come out complete and in index order, a round opens at
  most one stream more than the replay limit; a streamed fragment that repeats the end of what has
  been assembled is lost.
\<close>

section \<open>Chunks and limits\<close>

datatype ModelChunk =
    ChTextDelta string
  | ChToolCallDelta nat "string option" "string option" "string option"
  | ChFinished "string option"

record StreamLimits =
  max_model_chunks_per_round :: nat
  max_empty_turn_retries :: nat
  max_visible_chars_per_round :: nat
  max_tool_calls_per_round :: nat
  max_tool_argument_chars :: nat

definition stream_limits_default :: StreamLimits where
  "stream_limits_default =
     \<lparr>max_model_chunks_per_round = 10000, max_empty_turn_retries = 2, max_visible_chars_per_round = 120000,
      max_tool_calls_per_round = 32, max_tool_argument_chars = 256000\<rparr>"

datatype malformed =
    TooManyChunks | TooMuchText | TooManyCalls | FragmentId | FragmentName | FragmentArguments
  | ArgumentsTooLong | IncompleteCall nat

datatype turn_error =
    Malformed malformed
  | Provider ProviderError
  | ConnectTimeout
  | IdleTimeout
  | TurnCancelled
  | EmptyModelTurn

datatype stream_item = SChunk ModelChunk | SError ProviderError | SIdle | SCancelled

section \<open>Partial calls\<close>

record PartialToolCall =
  pc_id :: string
  pc_name :: string
  pc_arguments :: string
  argument_chars :: nat

record ModelToolCall =
  call_id :: string
  call_name :: string
  call_arguments :: string
  call_index :: nat

definition partial_default :: PartialToolCall where
  "partial_default = \<lparr>pc_id = [], pc_name = [], pc_arguments = [], argument_chars = 0\<rparr>"

definition merge_fragment :: "string \<Rightarrow> string option \<Rightarrow> string" where
  "merge_fragment target fragment =
     (case fragment of
        None \<Rightarrow> target
      | Some f \<Rightarrow>
          if f = [] then target
          else if target = [] \<or> starts_with f target then f
          else if \<not> ends_with target f then target @ f
          else target)"

definition merge_counted_fragment :: "string \<times> nat \<Rightarrow> string option \<Rightarrow> string \<times> nat" where
  "merge_counted_fragment tc fragment =
     (let (target, count) = tc in
      case fragment of
        None \<Rightarrow> (target, count)
      | Some f \<Rightarrow>
          if f = [] then (target, count)
          else if target = [] \<or> starts_with f target then (f, char_count f)
          else if \<not> ends_with target f then (target @ f, usize_saturating_add count (char_count f))
          else (target, count))"

definition partial_merge ::
  "PartialToolCall \<Rightarrow> string option \<Rightarrow> string option \<Rightarrow> string option \<Rightarrow> PartialToolCall" where
  "partial_merge p i n a =
     (let (args, count) = merge_counted_fragment (pc_arguments p, argument_chars p) a
      in \<lparr>pc_id = merge_fragment (pc_id p) i, pc_name = merge_fragment (pc_name p) n,
          pc_arguments = args, argument_chars = count\<rparr>)"

definition partial_finish :: "nat \<Rightarrow> PartialToolCall \<Rightarrow> (ModelToolCall, turn_error) result" where
  "partial_finish index p =
     (if pc_id p = [] \<or> pc_name p = [] \<or> pc_arguments p = [] then Inl (Malformed (IncompleteCall index))
      else Inr \<lparr>call_id = pc_id p, call_name = pc_name p, call_arguments = pc_arguments p, call_index = index\<rparr>)"

definition validate_tool_fragment ::
  "string option \<Rightarrow> string option \<Rightarrow> string option \<Rightarrow> nat \<Rightarrow> (unit, turn_error) result" where
  "validate_tool_fragment i n a maximum =
     (let bad = (\<lambda>v. case v of Some s \<Rightarrow> 128 < length s \<or> has_control s | None \<Rightarrow> False) in
      if bad i then Inl (Malformed FragmentId)
      else if bad n then Inl (Malformed FragmentName)
      else if (case a of Some s \<Rightarrow> maximum < char_count s | None \<Rightarrow> False) then Inl (Malformed FragmentArguments)
      else Inr ())"

section \<open>The stream reader\<close>

record StreamState =
  st_text :: string
  visible_chars :: nat
  chunk_count :: nat
  partial_calls :: "(nat \<times> PartialToolCall) list"
  emitted :: "string list"

definition stream_init :: StreamState where
  "stream_init = \<lparr>st_text = [], visible_chars = 0, chunk_count = 0, partial_calls = [], emitted = []\<rparr>"

definition count_chunk :: "StreamLimits \<Rightarrow> StreamState \<Rightarrow> (StreamState, turn_error) result" where
  "count_chunk lim st =
     (let st' = st\<lparr>chunk_count := usize_saturating_add (chunk_count st) 1\<rparr>
      in if max_model_chunks_per_round lim < chunk_count st' then Inl (Malformed TooManyChunks) else Inr st')"

definition on_text :: "StreamLimits \<Rightarrow> string \<Rightarrow> StreamState \<Rightarrow> (StreamState, turn_error) result" where
  "on_text lim delta st =
     (if delta = [] then Inr st
      else let n = usize_saturating_add (visible_chars st) (char_count delta) in
        if max_visible_chars_per_round lim < n then Inl (Malformed TooMuchText)
        else Inr (st\<lparr>visible_chars := n, st_text := st_text st @ delta, emitted := emitted st @ [delta]\<rparr>))"

definition on_tool_delta ::
  "StreamLimits \<Rightarrow> nat \<Rightarrow> string option \<Rightarrow> string option \<Rightarrow> string option \<Rightarrow> StreamState
     \<Rightarrow> (StreamState, turn_error) result" where
  "on_tool_delta lim index i n a st =
     (if map_of (partial_calls st) index = None \<and> max_tool_calls_per_round lim \<le> length (partial_calls st)
      then Inl (Malformed TooManyCalls)
      else bind_r (validate_tool_fragment i n a (max_tool_argument_chars lim)) (\<lambda>_.
        let p = partial_merge (case map_of (partial_calls st) index of Some p \<Rightarrow> p | None \<Rightarrow> partial_default) i n a
        in if max_tool_argument_chars lim < argument_chars p then Inl (Malformed ArgumentsTooLong)
           else Inr (st\<lparr>partial_calls := btree_insert index p (partial_calls st)\<rparr>)))"

fun on_chunk :: "StreamLimits \<Rightarrow> ModelChunk \<Rightarrow> StreamState \<Rightarrow> (StreamState, turn_error) result" where
  "on_chunk lim (ChTextDelta d) st = bind_r (count_chunk lim st) (on_text lim d)"
| "on_chunk lim (ChToolCallDelta index i n a) st = bind_r (count_chunk lim st) (on_tool_delta lim index i n a)"
| "on_chunk lim (ChFinished _) st = count_chunk lim st"

fun stream_run :: "StreamLimits \<Rightarrow> stream_item list \<Rightarrow> StreamState \<Rightarrow> (StreamState, turn_error) result" where
  "stream_run lim [] st = Inr st"
| "stream_run lim (SChunk c # items) st = bind_r (on_chunk lim c st) (stream_run lim items)"
| "stream_run lim (SError e # items) st = Inl (Provider e)"
| "stream_run lim (SIdle # items) st = Inl IdleTimeout"
| "stream_run lim (SCancelled # items) st = Inl TurnCancelled"

fun finish_calls :: "(nat \<times> PartialToolCall) list \<Rightarrow> (ModelToolCall list, turn_error) result" where
  "finish_calls [] = Inr []"
| "finish_calls ((index, p) # ps) =
     bind_r (partial_finish index p) (\<lambda>c. bind_r (finish_calls ps) (\<lambda>cs. Inr (c # cs)))"

text \<open>A turn: its text and calls, or \<open>None\<close> when it has neither.\<close>

definition read_turn ::
  "StreamLimits \<Rightarrow> stream_item list \<Rightarrow> ((string \<times> ModelToolCall list) option, turn_error) result" where
  "read_turn lim items =
     bind_r (stream_run lim items stream_init) (\<lambda>st.
     bind_r (finish_calls (partial_calls st)) (\<lambda>calls.
       if calls = [] \<and> trim (st_text st) = [] then Inr None else Inr (Some (st_text st, calls))))"

section \<open>Replays of an empty turn\<close>

datatype connection = Connected "stream_item list" | Refused ProviderError | ConnectTimedOut | ConnectCancelled

definition connect :: "StreamLimits \<Rightarrow> connection \<Rightarrow> ((string \<times> ModelToolCall list) option, turn_error) result" where
  "connect lim c =
     (case c of
        Connected items \<Rightarrow> read_turn lim items
      | Refused e \<Rightarrow> Inl (Provider e)
      | ConnectTimedOut \<Rightarrow> Inl ConnectTimeout
      | ConnectCancelled \<Rightarrow> Inl TurnCancelled)"

text \<open>
  \<open>conn n\<close> is the n-th connection of the round. The result comes with the number of connections
  opened and of instructions added after a repeated empty turn.
\<close>

function round_turn ::
  "StreamLimits \<Rightarrow> (nat \<Rightarrow> connection) \<Rightarrow> nat \<Rightarrow> ((string \<times> ModelToolCall list), turn_error) result \<times> nat \<times> nat" where
  "round_turn lim conn empty_turns =
     (case connect lim (conn empty_turns) of
        Inl e \<Rightarrow> (Inl e, 1, 0)
      | Inr (Some t) \<Rightarrow> (Inr t, 1, 0)
      | Inr None \<Rightarrow>
          (let e = empty_turns + 1 in
           if max_empty_turn_retries lim < e then (Inl EmptyModelTurn, 1, 0)
           else let (r, opened, told) = round_turn lim conn e
                in (r, opened + 1, told + (if 1 < e then 1 else 0))))"
  by pat_completeness auto
termination
  by (relation "measure (\<lambda>(lim, _, e). Suc (max_empty_turn_retries lim) - e)") auto

declare round_turn.simps [simp del]

section \<open>Invariants\<close>

definition partial_ok :: "StreamLimits \<Rightarrow> PartialToolCall \<Rightarrow> bool" where
  "partial_ok lim p \<longleftrightarrow>
     argument_chars p = char_count (pc_arguments p) \<and> argument_chars p \<le> max_tool_argument_chars lim"

text \<open>The counters are exact and the limits hold.\<close>

definition stream_ok :: "StreamLimits \<Rightarrow> StreamState \<Rightarrow> bool" where
  "stream_ok lim st \<longleftrightarrow>
     chunk_count st \<le> max_model_chunks_per_round lim
     \<and> visible_chars st = char_count (st_text st) \<and> visible_chars st \<le> max_visible_chars_per_round lim
     \<and> st_text st = concat (emitted st)
     \<and> sorted_wrt (<) (map fst (partial_calls st))
     \<and> length (partial_calls st) \<le> max_tool_calls_per_round lim
     \<and> (\<forall>ip \<in> set (partial_calls st). partial_ok lim (snd ip))"

definition limits_ok :: "StreamLimits \<Rightarrow> bool" where
  "limits_ok lim \<longleftrightarrow> max_model_chunks_per_round lim < u64_max \<and> max_visible_chars_per_round lim < u64_max
     \<and> 2 * max_tool_argument_chars lim < u64_max"

lemma count_chunk_ok:
  assumes "stream_ok lim st" "limits_ok lim" "count_chunk lim st = Inr st'"
  shows "stream_ok lim st' \<and> chunk_count st' = chunk_count st + 1"
proof -
  have "usize_saturating_add (chunk_count st) 1 = chunk_count st + 1"
    using assms(1,2) by (intro usize_saturating_add_small) (auto simp: stream_ok_def limits_ok_def)
  then show ?thesis using assms by (auto simp: count_chunk_def Let_def stream_ok_def split: if_splits)
qed

lemma on_text_ok:
  assumes "stream_ok lim st" "limits_ok lim" "on_text lim d st = Inr st'"
  shows "stream_ok lim st' \<and> chunk_count st' = chunk_count st"
proof (cases "d = []")
  case False
  then have le: "usize_saturating_add (visible_chars st) (char_count d) \<le> max_visible_chars_per_round lim"
    using assms(3) by (auto simp: on_text_def Let_def split: if_splits)
  moreover have "max_visible_chars_per_round lim < u64_max" using assms(2) by (simp add: limits_ok_def)
  ultimately have "usize_saturating_add (visible_chars st) (char_count d) = visible_chars st + char_count d"
    by (rule usize_saturating_add_exact)
  then show ?thesis using assms(1,3) False le by (auto simp: on_text_def Let_def stream_ok_def split: if_splits)
qed (use assms in \<open>simp add: on_text_def\<close>)

lemma partial_merge_ok:
  assumes "partial_ok lim p" "limits_ok lim" "validate_tool_fragment i n a (max_tool_argument_chars lim) = Inr u"
    and "argument_chars (partial_merge p i n a) \<le> max_tool_argument_chars lim"
  shows "partial_ok lim (partial_merge p i n a)"
proof (cases a)
  case None
  then show ?thesis using assms(1) by (simp add: partial_merge_def merge_counted_fragment_def partial_ok_def)
next
  case (Some f)
  have "char_count f \<le> max_tool_argument_chars lim"
    using assms(3) Some by (auto simp: validate_tool_fragment_def Let_def split: if_splits)
  moreover have "argument_chars p \<le> max_tool_argument_chars lim" using assms(1) by (simp add: partial_ok_def)
  ultimately have "usize_saturating_add (argument_chars p) (char_count f) = argument_chars p + char_count f"
    using assms(2) by (intro usize_saturating_add_small) (simp add: limits_ok_def)
  then show ?thesis
    using assms(1,4) Some
    by (auto simp: partial_merge_def merge_counted_fragment_def partial_ok_def Let_def split: if_splits)
qed

lemma on_tool_delta_ok:
  assumes "stream_ok lim st" "limits_ok lim" "on_tool_delta lim index i n a st = Inr st'"
  shows "stream_ok lim st' \<and> chunk_count st' = chunk_count st"
proof -
  let ?old = "case map_of (partial_calls st) index of Some p \<Rightarrow> p | None \<Rightarrow> partial_default"
  let ?p = "partial_merge ?old i n a"
  obtain u where v: "validate_tool_fragment i n a (max_tool_argument_chars lim) = Inr u"
    and le: "argument_chars ?p \<le> max_tool_argument_chars lim"
    and st': "st' = st\<lparr>partial_calls := btree_insert index ?p (partial_calls st)\<rparr>"
    and room: "map_of (partial_calls st) index \<noteq> None \<or> length (partial_calls st) < max_tool_calls_per_round lim"
    using assms(3) by (auto simp: on_tool_delta_def bind_r_Inr_conv Let_def split: if_splits)
  have "partial_ok lim ?old"
    using assms(1)
    by (auto simp: stream_ok_def partial_ok_def partial_default_def dest!: map_of_SomeD split: option.split)
  then have p: "partial_ok lim ?p" using assms(2) v le by (rule partial_merge_ok)
  have sorted: "sorted_wrt (<) (map fst (partial_calls st))" using assms(1) by (simp add: stream_ok_def)
  have "length (btree_insert index ?p (partial_calls st)) \<le> max_tool_calls_per_round lim"
    using room assms(1) length_btree_insert [OF sorted, of index ?p]
    by (auto simp: stream_ok_def map_of_eq_None_iff)
  moreover have "sorted_wrt (<) (map fst (btree_insert index ?p (partial_calls st)))"
    using sorted by (rule btree.wf_put)
  moreover have "\<forall>ip \<in> set (btree_insert index ?p (partial_calls st)). partial_ok lim (snd ip)"
    using set_btree_insert [of index ?p "partial_calls st"] p assms(1) by (auto simp: stream_ok_def)
  ultimately show ?thesis using assms(1) unfolding st' by (auto simp: stream_ok_def)
qed

lemma on_chunk_ok:
  assumes "stream_ok lim st" "limits_ok lim" "on_chunk lim c st = Inr st'"
  shows "stream_ok lim st' \<and> chunk_count st' = chunk_count st + 1"
proof -
  obtain st1 where st1: "count_chunk lim st = Inr st1" using assms(3) by (cases c) (auto simp: bind_r_Inr_conv)
  note ok1 = count_chunk_ok [OF assms(1,2) st1]
  have "stream_ok lim st' \<and> chunk_count st' = chunk_count st1"
  proof (cases c)
    case (ChTextDelta d)
    then have "on_text lim d st1 = Inr st'" using assms(3) st1 by simp
    with ok1 assms(2) show ?thesis using on_text_ok by blast
  next
    case (ChToolCallDelta index i n a)
    then have "on_tool_delta lim index i n a st1 = Inr st'" using assms(3) st1 by simp
    with ok1 assms(2) show ?thesis using on_tool_delta_ok by blast
  next
    case (ChFinished r)
    then show ?thesis using assms(3) st1 ok1 by simp
  qed
  with ok1 show ?thesis by simp
qed

lemma stream_run_ok:
  assumes "limits_ok lim"
  shows "stream_ok lim st \<Longrightarrow> stream_run lim items st = Inr st' \<Longrightarrow>
    stream_ok lim st' \<and> chunk_count st' = chunk_count st + length items"
proof (induction items arbitrary: st)
  case (Cons item items)
  then obtain c where item: "item = SChunk c" by (cases item) auto
  with Cons.prems obtain st1 where st1: "on_chunk lim c st = Inr st1" "stream_run lim items st1 = Inr st'"
    by (auto simp: bind_r_Inr_conv)
  have "stream_ok lim st1 \<and> chunk_count st1 = chunk_count st + 1"
    using on_chunk_ok [OF Cons.prems(1) assms st1(1)] .
  then show ?case using Cons.IH [OF _ st1(2)] by simp
qed simp

lemma stream_ok_init: "stream_ok lim stream_init"
  by (simp add: stream_ok_def stream_init_def)

lemma finish_calls_ok:
  "finish_calls ps = Inr cs \<Longrightarrow>
    map call_index cs = map fst ps
    \<and> (\<forall>c \<in> set cs. call_id c \<noteq> [] \<and> call_name c \<noteq> [] \<and> call_arguments c \<noteq> []
         \<and> (\<exists>p. (call_index c, p) \<in> set ps \<and> call_arguments c = pc_arguments p))"
proof (induction ps arbitrary: cs rule: finish_calls.induct)
  case (2 index p ps)
  then obtain c cs' where "partial_finish index p = Inr c" "finish_calls ps = Inr cs'" "cs = c # cs'"
    by (auto simp: bind_r_Inr_conv)
  with 2 show ?case by (fastforce simp: partial_finish_def split: if_splits)
qed simp

lemma round_turn_opened:
  "e \<le> max_empty_turn_retries lim \<Longrightarrow>
    fst (snd (round_turn lim conn e)) \<le> max_empty_turn_retries lim + 1 - e
    \<and> snd (snd (round_turn lim conn e)) \<le> fst (snd (round_turn lim conn e))"
proof (induction lim conn e rule: round_turn.induct)
  case (1 lim conn e)
  show ?case
  proof (cases "connect lim (conn e) = Inr None \<and> \<not> max_empty_turn_retries lim < e + 1")
    case True
    then have IH: "fst (snd (round_turn lim conn (e + 1))) \<le> max_empty_turn_retries lim + 1 - (e + 1)
        \<and> snd (snd (round_turn lim conn (e + 1))) \<le> fst (snd (round_turn lim conn (e + 1)))"
      using 1(1) [of None "e + 1"] by simp
    have "round_turn lim conn e = (let (r, opened, told) = round_turn lim conn (e + 1)
        in (r, opened + 1, told + (if 1 < e + 1 then 1 else 0)))"
      using True by (simp add: round_turn.simps [of lim conn e] Let_def)
    then show ?thesis using IH True by (auto simp: case_prod_unfold Let_def)
  next
    case False
    then have "snd (round_turn lim conn e) = (1, 0)"
      by (auto simp: round_turn.simps [of lim conn e] Let_def split: sum.splits option.splits)
    then show ?thesis using 1(2) by simp
  qed
qed

section \<open>Properties\<close>

text \<open>
  C10: A turn that is read to its end respects every limit, with exact counters: the chunk count is
  the number of items and within its limit, the visible characters are those of the text and the
  text is what was emitted, and each tool call's arguments have at most the allowed number of
  characters.
\<close>

theorem stream_within_limits:
  assumes "limits_ok lim" and "stream_run lim items stream_init = Inr st"
  shows "stream_ok lim st \<and> length items = chunk_count st"
  using stream_run_ok [OF assms(1) stream_ok_init assms(2)] by (simp add: stream_init_def)

theorem stream_within_limits_witness:
  "\<exists>st. stream_run stream_limits_default [SChunk (ChTextDelta ''hi''), SChunk (ChFinished None)] stream_init = Inr st
     \<and> stream_ok stream_limits_default st \<and> st_text st = ''hi''"
proof -
  obtain st where st: "stream_run stream_limits_default [SChunk (ChTextDelta ''hi''), SChunk (ChFinished None)] stream_init = Inr st"
    "st_text st = ''hi''"
    by (simp add: count_chunk_def on_text_def stream_init_def stream_limits_default_def Let_def
        usize_saturating_add_def u64_max_def char_count_def byte_def)
  have "limits_ok stream_limits_default" by (simp add: limits_ok_def stream_limits_default_def u64_max_def)
  from stream_within_limits [OF this st(1)] st show ?thesis by blast
qed

text \<open>
  The calls handed to the executor are complete and ordered: in strictly increasing index
  order, at most the allowed number, each with an id, a name and arguments within the limit.
\<close>

theorem calls_complete_and_ordered:
  assumes "limits_ok lim" and "read_turn lim items = Inr (Some (text, calls))"
  shows "sorted_wrt (<) (map call_index calls) \<and> length calls \<le> max_tool_calls_per_round lim
    \<and> (\<forall>c \<in> set calls. call_id c \<noteq> [] \<and> call_name c \<noteq> [] \<and> call_arguments c \<noteq> []
          \<and> char_count (call_arguments c) \<le> max_tool_argument_chars lim)"
proof -
  obtain st where st: "stream_run lim items stream_init = Inr st" "finish_calls (partial_calls st) = Inr calls"
    using assms(2) by (auto simp: read_turn_def bind_r_Inr_conv split: if_splits)
  have ok: "stream_ok lim st" using stream_run_ok [OF assms(1) stream_ok_init st(1)] by simp
  have f: "map call_index calls = map fst (partial_calls st)"
    "\<And>c. c \<in> set calls \<Longrightarrow> call_id c \<noteq> [] \<and> call_name c \<noteq> [] \<and> call_arguments c \<noteq> []
         \<and> (\<exists>p. (call_index c, p) \<in> set (partial_calls st) \<and> call_arguments c = pc_arguments p)"
    using finish_calls_ok [OF st(2)] by blast+
  have "length calls = length (partial_calls st)" using f(1) by (metis length_map)
  moreover have "char_count (call_arguments c) \<le> max_tool_argument_chars lim" if "c \<in> set calls" for c
    using f(2) [OF that] ok by (fastforce simp: stream_ok_def partial_ok_def)
  ultimately show ?thesis using f ok by (simp add: stream_ok_def)
qed

theorem calls_complete_and_ordered_witness:
  "\<exists>calls. read_turn stream_limits_default
       [SChunk (ChToolCallDelta 1 (Some ''b'') (Some ''g'') (Some ''{}'')),
        SChunk (ChToolCallDelta 0 (Some ''a'') (Some ''f'') (Some ''{}''))] = Inr (Some ([], calls))
     \<and> sorted_wrt (<) (map call_index calls) \<and> length calls = 2"
proof -
  obtain calls where c: "read_turn stream_limits_default
       [SChunk (ChToolCallDelta 1 (Some ''b'') (Some ''g'') (Some ''{}'')),
        SChunk (ChToolCallDelta 0 (Some ''a'') (Some ''f'') (Some ''{}''))] = Inr (Some ([], calls))" "length calls = 2"
    by (simp add: read_turn_def count_chunk_def on_tool_delta_def stream_init_def stream_limits_default_def
        Let_def usize_saturating_add_def u64_max_def char_count_def byte_def validate_tool_fragment_def
        has_control_def is_cont_def partial_merge_def merge_counted_fragment_def merge_fragment_def
        partial_default_def partial_finish_def)
  have "limits_ok stream_limits_default" by (simp add: limits_ok_def stream_limits_default_def u64_max_def)
  from calls_complete_and_ordered [OF this c(1)] c show ?thesis by blast
qed

text \<open>
  Empty turns are replayed a bounded number of times: a round opens at most one connection
  more than the replay limit, and ends with a turn or a typed error.
\<close>

theorem empty_turns_bounded:
  "fst (snd (round_turn lim conn 0)) \<le> max_empty_turn_retries lim + 1"
  using round_turn_opened [of 0 lim conn] by simp

text \<open>
  Assembling streamed arguments loses data: a fragment that repeats the end of what has been
  assembled is taken for a resend, so the digits of 100 arriving one by one become 10.
\<close>

theorem repeated_fragment_is_lost:
  "foldl (\<lambda>p f. partial_merge p None None (Some f)) partial_default [''1'', ''0'', ''0'']
     = \<lparr>pc_id = [], pc_name = [], pc_arguments = ''10'', argument_chars = 2\<rparr>"
  by (simp add: partial_merge_def merge_counted_fragment_def merge_fragment_def partial_default_def
      starts_with_def ends_with_def usize_saturating_add_def u64_max_def char_count_def byte_def)

end
