(* ===== verification/Core_Symbol.thy ===== *)
theory Core_Symbol
  imports Prelude
begin

text \<open>
  The identifiers every data path shares: the error type of \<open>crates/core/src/error.rs\<close>, the
  validated six-digit \<open>Symbol\<close> of \<open>crates/core/src/symbol.rs\<close> with its per-provider encodings,
  and the periods and adjustment modes of \<open>crates/core/src/period.rs\<close>. Main facts: \<open>Symbol::new\<close>
  accepts exactly the strings that trim and pad to six digits, is idempotent, and the provider
  codes of a symbol determine it and agree with its exchange.
\<close>

section \<open>Errors\<close>

datatype DataError =
    Network string string
  | Timeout string
  | WafBlocked string
  | Empty string
  | Parse string string
  | RateLimited string
  | NoProvider string
  | InvalidSymbol string
  | AllFailed string string

section \<open>Symbols\<close>

datatype Market = SH | SZ | BJ

fun market_display :: "Market \<Rightarrow> string" where
  "market_display SH = ''SH''"
| "market_display SZ = ''SZ''"
| "market_display BJ = ''BJ''"

datatype Symbol = Symbol (code: string)

text \<open>\<open>format!("{trimmed:0>6}")\<close> pads on the left to six characters.\<close>

definition pad6 :: "string \<Rightarrow> string" where
  "pad6 t = replicate (6 - char_count t) (CHR ''0'') @ t"

definition six_digits :: "string \<Rightarrow> bool" where
  "six_digits s \<longleftrightarrow> length s = 6 \<and> list_all is_ascii_digit s"

definition symbol_new :: "string \<Rightarrow> (Symbol, DataError) result" where
  "symbol_new raw =
     (let t = trim raw in
      if t = [] then Inl (InvalidSymbol t)
      else if six_digits (pad6 t) then Inr (Symbol (pad6 t))
      else Inl (InvalidSymbol t))"

definition starts_with_any :: "string \<Rightarrow> string list \<Rightarrow> bool" where
  "starts_with_any s ps \<longleftrightarrow> list_ex (starts_with s) ps"

definition symbol_market :: "Symbol \<Rightarrow> Market" where
  "symbol_market x =
     (let s = code x in
      if starts_with s ''920'' then BJ
      else if starts_with_any s [''5'', ''6'', ''7'', ''9''] then SH
      else SZ)"

definition secid :: "Symbol \<Rightarrow> string" where
  "secid x =
     (let s = code x in
      if starts_with s ''920'' then ''0.'' @ s
      else if starts_with_any s [''5'', ''6'', ''7'', ''9''] then ''1.'' @ s
      else ''0.'' @ s)"

definition tencent :: "Symbol \<Rightarrow> string" where
  "tencent x = (let s = code x in if starts_with_any s [''6'', ''5''] then ''sh'' @ s else ''sz'' @ s)"

definition sina :: "Symbol \<Rightarrow> string" where
  "sina x =
     (let s = code x in
      if starts_with_any s [''6'', ''5''] then ''sh'' @ s
      else if starts_with s ''920'' then ''bj'' @ s
      else ''sz'' @ s)"

definition NON_FUND_1X :: "string list" where
  "NON_FUND_1X =
     [''000'', ''002'', ''003'', ''100'', ''110'', ''120'', ''130'', ''140'', ''150'', ''160'', ''170'',
      ''180'', ''200'', ''300'']"

definition is_etf :: "Symbol \<Rightarrow> bool" where
  "is_etf x =
     (let s = code x in
      if starts_with s ''5'' then True
      else if starts_with s ''159'' \<or> starts_with s ''18'' then True
      else starts_with s ''1'' \<and> \<not> starts_with_any s NON_FUND_1X)"

definition is_unambiguous_index :: "Symbol \<Rightarrow> bool" where
  "is_unambiguous_index x \<longleftrightarrow> code x = ''000300'' \<or> starts_with (code x) ''399''"

definition is_current_a_share :: "Symbol \<Rightarrow> bool" where
  "is_current_a_share x \<longleftrightarrow>
     starts_with_any (code x) [''600'', ''601'', ''603'', ''605'', ''688'', ''689'']
     \<or> starts_with_any (code x) [''000'', ''001'', ''002'', ''003'', ''300'', ''301'']
     \<or> starts_with (code x) ''920''"

definition is_supported_market_instrument :: "Symbol \<Rightarrow> bool" where
  "is_supported_market_instrument x \<longleftrightarrow> is_current_a_share x \<or> is_etf x"

definition index_secid :: "string \<Rightarrow> string" where
  "index_secid c = (if starts_with c ''399'' then ''0.'' @ c else ''1.'' @ c)"

definition index_tencent :: "string \<Rightarrow> string" where
  "index_tencent c = (if starts_with c ''399'' then ''sz'' @ c else ''sh'' @ c)"

section \<open>Periods\<close>

datatype KlinePeriod = Day | Week | Month | Min1 | Min5 | Min15 | Min30 | Min60

fun period_tencent_token :: "KlinePeriod \<Rightarrow> string option" where
  "period_tencent_token Day = Some ''day''"
| "period_tencent_token Week = Some ''week''"
| "period_tencent_token Month = Some ''month''"
| "period_tencent_token _ = None"

fun sina_scale :: "KlinePeriod \<Rightarrow> nat option" where
  "sina_scale Day = Some 240"
| "sina_scale Week = Some 1200"
| "sina_scale Month = Some 7200"
| "sina_scale _ = None"

fun eastmoney_klt :: "KlinePeriod \<Rightarrow> nat" where
  "eastmoney_klt Day = 101"
| "eastmoney_klt Week = 102"
| "eastmoney_klt Month = 103"
| "eastmoney_klt Min1 = 1"
| "eastmoney_klt Min5 = 5"
| "eastmoney_klt Min15 = 15"
| "eastmoney_klt Min30 = 30"
| "eastmoney_klt Min60 = 60"

datatype Adjust = NoAdjust | Qfq | Hfq

fun adjust_tencent_token :: "Adjust \<Rightarrow> string" where
  "adjust_tencent_token NoAdjust = ''''"
| "adjust_tencent_token Qfq = ''qfq''"
| "adjust_tencent_token Hfq = ''hfq''"

fun eastmoney_fqt :: "Adjust \<Rightarrow> nat" where
  "eastmoney_fqt NoAdjust = 0"
| "eastmoney_fqt Qfq = 1"
| "eastmoney_fqt Hfq = 2"

section \<open>Lemmas\<close>

lemma digit_not_space:
  assumes "is_ascii_digit c" "w \<in> set whitespace"
  shows "\<not> starts_with (c # s) w" "\<not> ends_with (s @ [c]) w"
proof -
  have no: "c \<notin> set w" using assms by (auto simp: whitespace_def is_ascii_digit_def byte_def)
  have ne: "w \<noteq> []" using whitespace_nonempty [OF assms(2)] by simp
  show "\<not> starts_with (c # s) w" using no ne by (auto simp: starts_with_def neq_Nil_conv)
  show "\<not> ends_with (s @ [c]) w"
  proof
    assume "ends_with (s @ [c]) w"
    then have "w = drop (length (s @ [c]) - length w) (s @ [c])" "length w \<le> Suc (length s)"
      by (simp_all add: ends_with_def)
    moreover have "0 < length w" using ne by simp
    ultimately have "c \<in> set w"
      by (metis Suc_diff_Suc Zero_not_Suc append_is_Nil_conv diff_le_self drop_append drop_eq_Nil
          in_set_conv_decomp length_append_singleton less_Suc_eq_le list.simps(15) ne
          nat_less_le not_Cons_self2 order_le_less_trans set_append UnCI list.set_intros(1) append_Nil2
          drop_Nil last_in_set last_snoc last_drop)
    then show False using no by simp
  qed
qed

lemma trim_digits: "list_all is_ascii_digit s \<Longrightarrow> trim s = s"
proof -
  assume d: "list_all is_ascii_digit s"
  have "find (starts_with s) whitespace = None" if "s \<noteq> []"
  proof -
    obtain c t where "s = c # t" using \<open>s \<noteq> []\<close> by (cases s) auto
    then show ?thesis using d digit_not_space(1) by (auto simp: find_None_iff)
  qed
  then have "trim_start s = s" by (subst trim_start.simps) (auto split: option.split)
  moreover have "find (ends_with s) whitespace = None" if "s \<noteq> []"
  proof -
    obtain c t where "s = t @ [c]" using \<open>s \<noteq> []\<close> by (metis append_butlast_last_id)
    then show ?thesis using d digit_not_space(2) by (auto simp: find_None_iff)
  qed
  then have "trim_end s = s" by (subst trim_end.simps) (auto split: option.split)
  ultimately show ?thesis by (simp add: trim_def)
qed

lemma six_digits_nonempty: "six_digits s \<Longrightarrow> s \<noteq> []"
  by (cases s) (simp_all add: six_digits_def)

lemma char_count_digits: "list_all is_ascii_digit s \<Longrightarrow> char_count s = length s"
proof (induction s)
  case (Cons c s)
  then have "byte c div 64 \<noteq> 2" by (auto simp: is_ascii_digit_def)
  with Cons show ?case by (simp add: char_count_def)
qed simp

lemma pad6_six_digits: "six_digits s \<Longrightarrow> pad6 s = s"
  by (simp add: six_digits_def pad6_def char_count_digits)

lemma trim_six_digits: "six_digits s \<Longrightarrow> trim s = s"
  unfolding six_digits_def by (rule trim_digits) simp

lemma symbol_new_six: "six_digits s \<Longrightarrow> symbol_new s = Inr (Symbol s)"
  unfolding symbol_new_def Let_def
  by (simp only: trim_six_digits pad6_six_digits six_digits_nonempty if_True if_False)

section \<open>Properties\<close>

text \<open>
  Construction validates and normalises: an accepted symbol holds exactly six ASCII digits, is
  the trimmed input padded with zeros, and is a fixed point, so storing and re-parsing a symbol
  gives the same symbol.
\<close>

theorem symbol_new_normalises:
  assumes "symbol_new raw = Inr x"
  shows "six_digits (code x) \<and> code x = pad6 (trim raw) \<and> symbol_new (code x) = Inr x"
proof -
  have "six_digits (pad6 (trim raw))" "x = Symbol (pad6 (trim raw))"
    using assms by (auto simp: symbol_new_def Let_def split: if_splits)
  then show ?thesis using symbol_new_six by simp
qed

theorem symbol_new_normalises_witness:
  "symbol_new ''1'' = Inr (Symbol ''000001'') \<and> symbol_new ''000001'' = Inr (Symbol ''000001'')"
proof -
  have t: "trim ''1'' = ''1''" by (rule trim_digits) (simp add: ascii_defs)
  have eq: "symbol_new ''1'' = Inr (Symbol ''000001'')"
  proof -
    have "pad6 ''1'' = ''000001''" "six_digits ''000001''" by code_simp+
    then show ?thesis by (simp add: symbol_new_def t)
  qed
  from symbol_new_normalises [OF eq] have "symbol_new ''000001'' = Inr (Symbol ''000001'')"
    unfolding Symbol.sel by (elim conjE)
  with eq show ?thesis by (rule conjI)
qed

text \<open>
  A provider code determines the symbol: the EastMoney, Tencent and Sina encodings are
  injective, and the EastMoney market digit is 1 exactly for Shanghai symbols.
\<close>

theorem provider_codes_determine_symbol:
  "(secid x = secid y \<longleftrightarrow> x = y) \<and> (tencent x = tencent y \<longleftrightarrow> x = y) \<and> (sina x = sina y \<longleftrightarrow> x = y)
   \<and> (starts_with (secid x) ''1.'' \<longleftrightarrow> symbol_market x = SH)"
  by (cases x; cases y)
     (auto simp: secid_def tencent_def sina_def symbol_market_def Let_def starts_with_def)

end
