(* ===== verification/Market_Breaker.thy ===== *)
theory Market_Breaker
  imports Stores Core_Symbol "HOL-Library.List_Lexorder" "HOL-Library.Char_ord"
begin

text \<open>
  The per-provider circuit breaker of \<open>crates/market-data/src/breaker.rs\<close>. The concurrent map of
  mutex-guarded circuits is an association list without repeated keys; each public method holds
  one circuit's lock for its whole body, so a method call is one step, and the interleavings of
  concurrent callers are the sequences of steps. The clock is an argument of each step. Main
  facts: the cooldown in force stays between its base and its ceiling, a half-open circuit admits
  a single probe, a provider's calls leave the others alone, failed probes back off
  exponentially.
\<close>

section \<open>Circuits\<close>

record BreakerConfig =
  cfg_cooldown :: duration
  cfg_max_cooldown :: duration
  failure_threshold :: u32

definition breaker_config_default :: BreakerConfig where
  "breaker_config_default =
     \<lparr>cfg_cooldown = from_secs 600, cfg_max_cooldown = from_secs 3600, failure_threshold = 3\<rparr>"

datatype CircuitState = Closed | Open | HalfOpen

record ProviderHealth =
  ph_name :: string
  ph_state :: CircuitState
  cooldown_remaining_secs :: "nat option"
  ph_available :: bool

record Circuit =
  state :: CircuitState
  consecutive_failures :: u32
  opened_at :: "instant option"
  cooldown :: duration
  available :: bool

definition circuit_closed :: "duration \<Rightarrow> Circuit" where
  "circuit_closed cd =
     \<lparr>state = Closed, consecutive_failures = 0, opened_at = None, cooldown = cd, available = True\<rparr>"

datatype FailureKind = Trip | Count | Ignore

fun breaker_classify :: "DataError \<Rightarrow> FailureKind" where
  "breaker_classify (WafBlocked _) = Trip"
| "breaker_classify (Network _ _) = Count"
| "breaker_classify (Timeout _) = Count"
| "breaker_classify (RateLimited _) = Count"
| "breaker_classify _ = Ignore"

section \<open>The registry\<close>

record CircuitBreaker =
  config :: BreakerConfig
  circuits :: "(string \<times> Circuit) list"

definition breaker_new :: "BreakerConfig \<Rightarrow> CircuitBreaker" where
  "breaker_new c = \<lparr>config = c, circuits = []\<rparr>"

definition breaker_register :: "CircuitBreaker \<Rightarrow> string \<Rightarrow> CircuitBreaker" where
  "breaker_register b n =
     (case map_of (circuits b) n of
        Some _ \<Rightarrow> b
      | None \<Rightarrow> b\<lparr>circuits := AList.update n (circuit_closed (cfg_cooldown (config b))) (circuits b)\<rparr>)"

text \<open>\<open>circuit(name)\<close>: register, then the entry.\<close>

definition circuit :: "CircuitBreaker \<Rightarrow> string \<Rightarrow> Circuit" where
  "circuit b n =
     (case map_of (circuits (breaker_register b n)) n of
        Some c \<Rightarrow> c | None \<Rightarrow> circuit_closed (cfg_cooldown (config b)))"

definition with_circuit :: "CircuitBreaker \<Rightarrow> string \<Rightarrow> (Circuit \<Rightarrow> Circuit) \<Rightarrow> CircuitBreaker" where
  "with_circuit b n f = b\<lparr>circuits := AList.update n (f (circuit b n)) (circuits (breaker_register b n))\<rparr>"

definition breaker_set_available :: "CircuitBreaker \<Rightarrow> string \<Rightarrow> bool \<Rightarrow> CircuitBreaker" where
  "breaker_set_available b n a = with_circuit b n (\<lambda>c. c\<lparr>available := a\<rparr>)"

definition circuit_elapsed :: "instant \<Rightarrow> Circuit \<Rightarrow> duration" where
  "circuit_elapsed now c = (case opened_at c of Some t \<Rightarrow> elapsed now t | None \<Rightarrow> cooldown c)"

definition circuit_allow :: "instant \<Rightarrow> Circuit \<Rightarrow> Circuit \<times> bool" where
  "circuit_allow now c =
     (if \<not> available c then (c, False)
      else case state c of
        Closed \<Rightarrow> (c, True)
      | HalfOpen \<Rightarrow> (c, False)
      | Open \<Rightarrow> if cooldown c \<le> circuit_elapsed now c then (c\<lparr>state := HalfOpen\<rparr>, True) else (c, False))"

definition allow_request :: "instant \<Rightarrow> CircuitBreaker \<Rightarrow> string \<Rightarrow> CircuitBreaker \<times> bool" where
  "allow_request now b n =
     (with_circuit b n (\<lambda>c. fst (circuit_allow now c)), snd (circuit_allow now (circuit b n)))"

definition circuit_success :: "BreakerConfig \<Rightarrow> Circuit \<Rightarrow> Circuit" where
  "circuit_success cfg c =
     c\<lparr>state := Closed, consecutive_failures := 0, opened_at := None, cooldown := cfg_cooldown cfg\<rparr>"

definition on_success :: "CircuitBreaker \<Rightarrow> string \<Rightarrow> CircuitBreaker" where
  "on_success b n = with_circuit b n (circuit_success (config b))"

definition circuit_trip :: "instant \<Rightarrow> Circuit \<Rightarrow> Circuit" where
  "circuit_trip now c = c\<lparr>state := Open, opened_at := Some now, consecutive_failures := 0\<rparr>"

definition breaker_trip :: "instant \<Rightarrow> CircuitBreaker \<Rightarrow> string \<Rightarrow> CircuitBreaker" where
  "breaker_trip now b n = with_circuit b n (circuit_trip now)"

text \<open>
  \<open>c.cooldown * 2\<close> panics when it overflows a \<open>Duration\<close>; the circuit is then unchanged, since
  the product is computed before the assignment.
\<close>

definition circuit_failure :: "BreakerConfig \<Rightarrow> instant \<Rightarrow> DataError \<Rightarrow> Circuit \<Rightarrow> Circuit option" where
  "circuit_failure cfg now err c =
     (if state c = HalfOpen then
        (case duration_mul (cooldown c) 2 of
           None \<Rightarrow> None
         | Some d \<Rightarrow> Some (circuit_trip now (c\<lparr>cooldown := min d (cfg_max_cooldown cfg)\<rparr>)))
      else case breaker_classify err of
        Trip \<Rightarrow> Some (circuit_trip now c)
      | Count \<Rightarrow>
          (let c' = c\<lparr>consecutive_failures := consecutive_failures c + 1\<rparr>
           in Some (if failure_threshold cfg \<le> consecutive_failures c' then circuit_trip now c' else c'))
      | Ignore \<Rightarrow> Some c)"

definition on_failure :: "instant \<Rightarrow> CircuitBreaker \<Rightarrow> string \<Rightarrow> DataError \<Rightarrow> CircuitBreaker \<times> unit option" where
  "on_failure now b n err =
     (case circuit_failure (config b) now err (circuit b n) of
        Some c \<Rightarrow> (with_circuit b n (\<lambda>_. c), Some ())
      | None \<Rightarrow> (breaker_register b n, None))"

definition breaker_state :: "CircuitBreaker \<Rightarrow> string \<Rightarrow> CircuitBreaker \<times> CircuitState" where
  "breaker_state b n = (breaker_register b n, state (circuit b n))"

definition provider_health :: "instant \<Rightarrow> string \<times> Circuit \<Rightarrow> ProviderHealth" where
  "provider_health now e =
     \<lparr>ph_name = fst e, ph_state = state (snd e),
      cooldown_remaining_secs =
        (if state (snd e) = Open then Some (as_secs (cooldown (snd e) - circuit_elapsed now (snd e))) else None),
      ph_available = available (snd e)\<rparr>"

definition health :: "instant \<Rightarrow> CircuitBreaker \<Rightarrow> ProviderHealth list" where
  "health now b = sort_key ph_name (map (provider_health now) (circuits b))"

section \<open>Calls\<close>

text \<open>The calls a client can make, and the step each is.\<close>

datatype breaker_call =
    CRegister string
  | CSetAvailable string bool
  | CAllow string
  | CSuccess string
  | CTrip string
  | CFailure string DataError
  | CState string

fun call_name :: "breaker_call \<Rightarrow> string" where
  "call_name (CRegister n) = n"
| "call_name (CSetAvailable n _) = n"
| "call_name (CAllow n) = n"
| "call_name (CSuccess n) = n"
| "call_name (CTrip n) = n"
| "call_name (CFailure n _) = n"
| "call_name (CState n) = n"

fun breaker_step :: "CircuitBreaker \<Rightarrow> instant \<times> breaker_call \<Rightarrow> CircuitBreaker" where
  "breaker_step b (now, CRegister n) = breaker_register b n"
| "breaker_step b (now, CSetAvailable n a) = breaker_set_available b n a"
| "breaker_step b (now, CAllow n) = fst (allow_request now b n)"
| "breaker_step b (now, CSuccess n) = on_success b n"
| "breaker_step b (now, CTrip n) = breaker_trip now b n"
| "breaker_step b (now, CFailure n e) = fst (on_failure now b n e)"
| "breaker_step b (now, CState n) = fst (breaker_state b n)"

text \<open>What a call does to the circuit it names.\<close>

fun circuit_step :: "BreakerConfig \<Rightarrow> instant \<Rightarrow> breaker_call \<Rightarrow> Circuit \<Rightarrow> Circuit" where
  "circuit_step cfg now (CSetAvailable _ a) c = c\<lparr>available := a\<rparr>"
| "circuit_step cfg now (CAllow _) c = fst (circuit_allow now c)"
| "circuit_step cfg now (CSuccess _) c = circuit_success cfg c"
| "circuit_step cfg now (CTrip _) c = circuit_trip now c"
| "circuit_step cfg now (CFailure _ e) c =
     (case circuit_failure cfg now e c of Some c' \<Rightarrow> c' | None \<Rightarrow> c)"
| "circuit_step cfg now _ c = c"

section \<open>Lookups\<close>

lemma register_simps [simp]:
  "config (breaker_register b n) = config b"
  "circuit (breaker_register b n) m = circuit b m"
  by (auto simp: breaker_register_def circuit_def split: option.splits)

lemma with_circuit_simps [simp]:
  "config (with_circuit b n f) = config b"
  "circuit (with_circuit b n f) m = (if m = n then f (circuit b n) else circuit b m)"
proof -
  show "config (with_circuit b n f) = config b" by (simp add: with_circuit_def)
  have "map_of (circuits (breaker_register b n)) m = map_of (circuits b) m" if "m \<noteq> n"
    using that by (auto simp: breaker_register_def split: option.splits)
  then show "circuit (with_circuit b n f) m = (if m = n then f (circuit b n) else circuit b m)"
    by (auto simp: with_circuit_def circuit_def breaker_register_def split: option.splits)
qed

text \<open>A call changes the circuit it names, in the way its step says, and no other.\<close>

lemma circuit_breaker_step:
  "circuit (breaker_step b (now, call)) m =
     (if m = call_name call then circuit_step (config b) now call (circuit b m) else circuit b m)"
  by (cases call)
     (auto simp: breaker_set_available_def allow_request_def on_success_def breaker_trip_def
        on_failure_def breaker_state_def split: option.split)

lemma config_breaker_step [simp]: "config (breaker_step b e) = config b"
  by (cases e; cases "snd e")
     (auto simp: breaker_set_available_def allow_request_def on_success_def breaker_trip_def
        on_failure_def breaker_state_def split: option.split)

lemma config_run [simp]: "config (foldl breaker_step b es) = config b"
  by (induction es arbitrary: b) simp_all

lemma circuit_new [simp]: "circuit (breaker_new cfg) n = circuit_closed (cfg_cooldown cfg)"
  by (simp add: circuit_def breaker_register_def breaker_new_def)

section \<open>Invariants\<close>

text \<open>
  A circuit's cooldown lies between the base and the ceiling, an open circuit knows when it was
  opened, and the count of consecutive failures is below the threshold. The configuration must
  make sense: a positive threshold and a ceiling above the base that can be doubled.
\<close>

definition config_ok :: "BreakerConfig \<Rightarrow> bool" where
  "config_ok cfg \<longleftrightarrow> cfg_cooldown cfg \<le> cfg_max_cooldown cfg
     \<and> 2 * cfg_max_cooldown cfg \<le> duration_max \<and> 0 < failure_threshold cfg"

definition circuit_ok :: "BreakerConfig \<Rightarrow> Circuit \<Rightarrow> bool" where
  "circuit_ok cfg c \<longleftrightarrow>
     cfg_cooldown cfg \<le> cooldown c \<and> cooldown c \<le> cfg_max_cooldown cfg
     \<and> consecutive_failures c < failure_threshold cfg
     \<and> (state c \<noteq> Closed \<longrightarrow> opened_at c \<noteq> None)"

lemma circuit_ok_closed: "config_ok cfg \<Longrightarrow> circuit_ok cfg (circuit_closed (cfg_cooldown cfg))"
  by (simp add: circuit_ok_def circuit_closed_def config_ok_def)

lemma circuit_failure_ok:
  assumes "config_ok cfg" "circuit_ok cfg c"
  shows "\<exists>c'. circuit_failure cfg now e c = Some c' \<and> circuit_ok cfg c'"
proof (cases "state c = HalfOpen")
  case True
  have "cooldown c * 2 \<le> duration_max" using assms by (simp add: circuit_ok_def config_ok_def)
  then show ?thesis
    using True assms by (auto simp: circuit_failure_def duration_mul_def circuit_ok_def config_ok_def circuit_trip_def)
next
  case False
  then show ?thesis
    using assms
    by (cases "breaker_classify e") (auto simp: circuit_failure_def Let_def circuit_ok_def circuit_trip_def config_ok_def)
qed

lemma circuit_step_ok:
  assumes "config_ok cfg" "circuit_ok cfg c"
  shows "circuit_ok cfg (circuit_step cfg now call c)"
proof (cases call)
  case (CFailure n e)
  then show ?thesis using circuit_failure_ok [OF assms, of now e] by auto
next
  case (CSuccess n)
  then show ?thesis using assms by (auto simp: circuit_ok_def circuit_success_def config_ok_def)
next
  case (CAllow n)
  then show ?thesis
    using assms by (cases "state c") (auto simp: circuit_ok_def circuit_allow_def)
next
  case (CTrip n)
  then show ?thesis using assms by (auto simp: circuit_ok_def circuit_trip_def config_ok_def)
qed (use assms in \<open>auto simp: circuit_ok_def\<close>)

definition breaker_ok :: "CircuitBreaker \<Rightarrow> bool" where
  "breaker_ok b \<longleftrightarrow> config_ok (config b) \<and> (\<forall>n. circuit_ok (config b) (circuit b n))"

interpretation breaker: invariant_machine breaker_step breaker_ok "\<lambda>_. True"
proof unfold_locales
  fix b e
  assume "breaker_ok b"
  then show "breaker_ok (breaker_step b e)"
    by (cases e) (auto simp: breaker_ok_def circuit_breaker_step circuit_step_ok)
qed

lemma breaker_ok_new: "config_ok cfg \<Longrightarrow> breaker_ok (breaker_new cfg)"
  by (simp add: breaker_ok_def circuit_ok_closed) (simp add: breaker_new_def circuit_ok_closed)

lemma register_distinct:
  "distinct (map fst (circuits b)) \<Longrightarrow> distinct (map fst (circuits (breaker_register b n)))"
  by (auto simp: breaker_register_def alist.wf_put split: option.split)

lemma with_circuit_distinct:
  "distinct (map fst (circuits b)) \<Longrightarrow> distinct (map fst (circuits (with_circuit b n f)))"
  by (simp add: with_circuit_def alist.wf_put register_distinct)

interpretation breaker_keys: invariant_machine breaker_step "\<lambda>b. distinct (map fst (circuits b))" "\<lambda>_. True"
proof unfold_locales
  fix b :: CircuitBreaker and e
  assume "distinct (map fst (circuits b))"
  then show "distinct (map fst (circuits (breaker_step b e)))"
    by (cases e; cases "snd e")
       (auto simp: breaker_set_available_def allow_request_def on_success_def breaker_trip_def
          on_failure_def breaker_state_def register_distinct with_circuit_distinct
          simp del: list.map split: option.split)
qed

text \<open>While the probe of a provider has not reported, its circuit stays half open.\<close>

fun reports_on :: "string \<Rightarrow> breaker_call \<Rightarrow> bool" where
  "reports_on n (CSuccess m) = (m = n)"
| "reports_on n (CTrip m) = (m = n)"
| "reports_on n (CFailure m _) = (m = n)"
| "reports_on n _ = False"

interpretation probing: invariant_machine breaker_step "\<lambda>b. state (circuit b n) = HalfOpen"
  "\<lambda>e. \<not> reports_on n (snd e)" for n
proof unfold_locales
  fix b and e :: "instant \<times> breaker_call"
  assume "state (circuit b n) = HalfOpen" "\<not> reports_on n (snd e)"
  then show "state (circuit (breaker_step b e) n) = HalfOpen"
    using circuit_breaker_step [of b "fst e" "snd e" n, unfolded prod.collapse]
    by (cases "snd e") (auto simp: circuit_allow_def simp del: breaker_step.simps split: if_splits)
qed

text \<open>Probes at the given times, each granted and each failed.\<close>

fun failed_probes :: "BreakerConfig \<Rightarrow> DataError \<Rightarrow> Circuit \<Rightarrow> instant list \<Rightarrow> Circuit option" where
  "failed_probes cfg err c [] = Some c"
| "failed_probes cfg err c (t # ts) =
     (if snd (circuit_allow t c)
      then Option.bind (circuit_failure cfg t err (fst (circuit_allow t c))) (\<lambda>c'. failed_probes cfg err c' ts)
      else None)"

lemma granted_probe_fails:
  assumes "config_ok cfg" "circuit_ok cfg c" "state c = Open" "snd (circuit_allow t c)"
  shows "circuit_failure cfg t err (fst (circuit_allow t c))
    = Some (circuit_trip t (c\<lparr>cooldown := min (2 * cooldown c) (cfg_max_cooldown cfg)\<rparr>))"
proof -
  have "cooldown c * 2 \<le> duration_max" using assms by (simp add: circuit_ok_def config_ok_def)
  moreover have "fst (circuit_allow t c) = c\<lparr>state := HalfOpen\<rparr>"
    using assms by (auto simp: circuit_allow_def split: if_splits)
  ultimately show ?thesis by (simp add: circuit_failure_def duration_mul_def circuit_trip_def mult.commute)
qed

lemma min_double: "min (2 * min (a::nat) m) m = min (2 * a) m"
  by (simp add: min_def)

lemma failed_probes_cooldown:
  assumes "config_ok cfg"
  shows "circuit_ok cfg c \<Longrightarrow> state c = Open \<Longrightarrow> failed_probes cfg err c ts = Some c' \<Longrightarrow>
    state c' = Open \<and> cooldown c' = min (2 ^ length ts * cooldown c) (cfg_max_cooldown cfg)"
proof (induction ts arbitrary: c)
  case Nil
  then show ?case by (simp add: circuit_ok_def)
next
  case (Cons t ts)
  let ?d = "circuit_trip t (c\<lparr>cooldown := min (2 * cooldown c) (cfg_max_cooldown cfg)\<rparr>)"
  have g: "snd (circuit_allow t c)" using Cons.prems(3) by (simp split: if_splits)
  have f: "circuit_failure cfg t err (fst (circuit_allow t c)) = Some ?d"
    using granted_probe_fails [OF assms Cons.prems(1,2) g] .
  have ok: "circuit_ok cfg ?d"
    using assms Cons.prems(1) by (auto simp: circuit_ok_def circuit_trip_def config_ok_def)
  have st: "state ?d = Open" by (simp add: circuit_trip_def)
  have "failed_probes cfg err ?d ts = Some c'" using Cons.prems(3) g f by simp
  then have "state c' = Open \<and> cooldown c' = min (2 ^ length ts * cooldown ?d) (cfg_max_cooldown cfg)"
    using Cons.IH ok st by blast
  moreover have "cooldown ?d = min (2 * cooldown c) (cfg_max_cooldown cfg)" by (simp add: circuit_trip_def)
  moreover have "min (2 ^ k * min (2 * a) m) m = min (2 ^ Suc k * a) m" for k and a m :: nat
  proof (cases "2 * a \<le> m")
    case False
    then have "m \<le> 2 ^ Suc k * a" by (auto intro: order_trans [of m "2 * a"])
    then have "min (2 ^ Suc k * a) m = m" "min (2 * a) m = m" using False by (simp_all only: min_def split: if_splits) simp_all
    then show ?thesis by (simp only:) (simp add: min_absorb2)
  qed (simp add: min_def mult.assoc mult.left_commute)
  ultimately show ?case by simp
qed

section \<open>Properties\<close>

text \<open>
  C13: Under every interleaving of calls at any times, starting from an empty registry, each
  provider's cooldown stays between the base and the ceiling, its failure count stays below the
  threshold (reaching it opens the circuit), a circuit that is not closed has an opening time,
  and recording a failure never panics.
\<close>

theorem breaker_always_ok:
  assumes "config_ok cfg"
  shows "circuit_ok cfg (circuit (foldl breaker_step (breaker_new cfg) es) n)
    \<and> snd (on_failure now (foldl breaker_step (breaker_new cfg) es) n err) = Some ()"
proof -
  let ?b = "foldl breaker_step (breaker_new cfg) es"
  have "config ?b = cfg" by simp (simp add: breaker_new_def)
  moreover have "breaker_ok ?b"
    using breaker_ok_new [OF assms] by (rule breaker.run_inv) (simp add: list_all_iff)
  ultimately have ok: "circuit_ok cfg (circuit ?b n)" and "config ?b = cfg"
    by (auto simp: breaker_ok_def)
  with circuit_failure_ok [OF assms ok, of now err] show ?thesis
    by (auto simp: on_failure_def)
qed

theorem breaker_always_ok_witness:
  "circuit_ok breaker_config_default
     (circuit (foldl breaker_step (breaker_new breaker_config_default)
        [(0, CFailure ''sina'' (WafBlocked ''x'')), (from_secs 600, CAllow ''sina'')]) ''sina'')"
  using breaker_always_ok [of breaker_config_default]
  by (simp add: config_ok_def breaker_config_default_def from_secs_def nanos_per_sec_def
      duration_max_def u64_max_def del: foldl.simps)

text \<open>
  C15: Once an open circuit has let a probe through, no further request to that provider is let
  through, whatever the other callers do and however late they come, until the outcome of a call
  to that provider is reported.
\<close>

theorem single_probe:
  assumes "state (circuit b n) = Open" and "snd (allow_request now b n)"
    and "\<forall>e \<in> set es. \<not> reports_on n (snd e)"
  shows "\<not> snd (allow_request now' (foldl breaker_step (fst (allow_request now b n)) es) n)"
proof -
  have "state (circuit (fst (allow_request now b n)) n) = HalfOpen"
    using assms(1,2) by (auto simp: allow_request_def circuit_allow_def split: if_splits)
  then have "state (circuit (foldl breaker_step (fst (allow_request now b n)) es) n) = HalfOpen"
    using assms(3) by (intro probing.run_inv) (simp_all add: list_all_iff)
  then show ?thesis by (simp add: allow_request_def circuit_allow_def)
qed

theorem single_probe_witness:
  "\<not> snd (allow_request 9 (foldl breaker_step
      (fst (allow_request (from_secs 600) (breaker_trip 0 (breaker_new breaker_config_default) ''sina'') ''sina''))
      [(5, CTrip ''tencent''), (7, CAllow ''sina'')]) ''sina'')"
  by (rule single_probe)
     (simp_all add: breaker_trip_def circuit_trip_def allow_request_def circuit_allow_def circuit_elapsed_def
        elapsed_def circuit_closed_def breaker_config_default_def)

text \<open>
  Repeated failed probes back off exponentially: after k probes that were granted and failed,
  with any error, the cooldown is the one before them times two to the k, clamped at the ceiling,
  and the circuit is open.
\<close>

theorem failed_probes_back_off:
  assumes "config_ok cfg" "circuit_ok cfg c" "state c = Open" "failed_probes cfg err c ts = Some c'"
  shows "state c' = Open \<and> cooldown c' = min (2 ^ length ts * cooldown c) (cfg_max_cooldown cfg)"
  using failed_probes_cooldown [OF assms] .

theorem failed_probes_back_off_witness:
  "\<exists>c'. failed_probes breaker_config_default (Timeout ''t'') (circuit_trip 0 (circuit_closed (from_secs 600)))
       [from_secs 600, from_secs 1800, from_secs 4200] = Some c'
     \<and> cooldown c' = from_secs 3600"
proof -
  let ?c = "circuit_trip 0 (circuit_closed (from_secs 600))"
  have ok: "config_ok breaker_config_default" "circuit_ok breaker_config_default ?c" "state ?c = Open"
    by (simp_all add: config_ok_def breaker_config_default_def from_secs_def nanos_per_sec_def
        duration_max_def u64_max_def circuit_ok_def circuit_trip_def circuit_closed_def)
  obtain c' where c': "failed_probes breaker_config_default (Timeout ''t'') ?c
      [from_secs 600, from_secs 1800, from_secs 4200] = Some c'"
    by (simp add: circuit_allow_def circuit_elapsed_def elapsed_def circuit_trip_def circuit_closed_def
        circuit_failure_def duration_mul_def breaker_config_default_def from_secs_def nanos_per_sec_def
        duration_max_def u64_max_def)
  with failed_probes_back_off [OF ok c'] show ?thesis
    by (simp add: circuit_trip_def circuit_closed_def breaker_config_default_def from_secs_def)
qed

text \<open>
  Providers are isolated: no sequence of calls naming other providers changes a provider's
  circuit.
\<close>

theorem providers_isolated:
  assumes "\<forall>e \<in> set es. call_name (snd e) \<noteq> n"
  shows "circuit (foldl breaker_step b es) n = circuit b n"
  using assms by (induction es arbitrary: b) (auto simp: circuit_breaker_step)

theorem providers_isolated_witness:
  "circuit (foldl breaker_step (breaker_new breaker_config_default) [(3, CTrip ''tencent'')]) ''sina''
   = circuit_closed (from_secs 600)"
  using providers_isolated [of "[(3, CTrip ''tencent'')]" "''sina''" "breaker_new breaker_config_default"]
  by (simp add: breaker_config_default_def)

lemma health_sorted: "sorted (map ph_name (health now b))"
  by (simp add: health_def)

lemma health_one_per_provider:
  "map_of (circuits b) n \<noteq> None \<longleftrightarrow> n \<in> set (map ph_name (health now b))"
proof -
  have "set (map ph_name (health now b)) = set (map fst (circuits b))"
    by (simp add: health_def image_image provider_health_def)
  then show ?thesis using alist.get_keys [of "circuits b" n] by (simp only:)
qed

end
