(* ===== verification/Market_Cache.thy ===== *)
theory Market_Cache
  imports Market_Breaker
begin

text \<open>
  The bounded cache of \<open>crates/market-data/src/cache.rs\<close>: a map from keys to values with their
  insertion instants, an age limit checked on every read, and eviction when an insert finds the
  map full. JSON values and the serialisation of the caller's type are parameters. Here a call runs alone:
  each method is one step, as it is for calls that come one after another (\<open>Cache_Steps\<close> has the accesses to the
  shared map that a call is made of, and proves that an undisturbed \<open>set\<close> is \<open>cache_set\<close>). Main facts, for calls in
  sequence: the map never holds more entries than its capacity, a read returns what was last stored and nothing older
  than its limit, and eviction only removes entries at least as old as every entry it keeps.
\<close>

section \<open>Entries and limits\<close>

definition TTL_REALTIME :: duration where "TTL_REALTIME = from_secs 2"
definition TTL_KLINE :: duration where "TTL_KLINE = from_secs 15"
definition TTL_KLINE_BASE :: duration where "TTL_KLINE_BASE = from_secs 60"
definition TTL_SEARCH :: duration where "TTL_SEARCH = from_secs 15"
definition TTL_ALL_A :: duration where "TTL_ALL_A = from_secs 60"
definition TTL_BREADTH :: duration where "TTL_BREADTH = from_secs 120"
definition TTL_MAX :: duration where "TTL_MAX = TTL_BREADTH"

record 'v Entry =
  inserted :: instant
  entry_value :: 'v

record 'v TtlCache =
  entries :: "(string \<times> 'v Entry) list"
  cap :: nat

definition cache_new :: "nat \<Rightarrow> 'v TtlCache" where
  "cache_new c = \<lparr>entries = [], cap = max c 1\<rparr>"

definition cache_default :: "'v TtlCache" where
  "cache_default = cache_new 2048"

definition cache_len :: "'v TtlCache \<Rightarrow> nat" where
  "cache_len c = length (entries c)"

definition cache_is_empty :: "'v TtlCache \<Rightarrow> bool" where
  "cache_is_empty c \<longleftrightarrow> entries c = []"

definition cache_remove :: "string \<Rightarrow> 'v TtlCache \<Rightarrow> 'v TtlCache" where
  "cache_remove k c = c\<lparr>entries := AList.delete k (entries c)\<rparr>"

section \<open>Operations\<close>

text \<open>\<open>decode\<close> is \<open>serde_json::from_value\<close> at the type the caller asks for.\<close>

definition cache_get ::
  "('v \<Rightarrow> 'a option) \<Rightarrow> instant \<Rightarrow> string \<Rightarrow> duration \<Rightarrow> 'v TtlCache \<Rightarrow> 'v TtlCache \<times> 'a option" where
  "cache_get decode now k ttl c =
     (case map_of (entries c) k of
        None \<Rightarrow> (c, None)
      | Some e \<Rightarrow>
          if ttl < elapsed now (inserted e) then (cache_remove k c, None)
          else (c, decode (entry_value e)))"

definition cache_retain :: "instant \<Rightarrow> 'v TtlCache \<Rightarrow> 'v TtlCache" where
  "cache_retain now c = c\<lparr>entries := filter (\<lambda>e. elapsed now (inserted (snd e)) \<le> TTL_MAX) (entries c)\<rparr>"

definition cache_evict :: "instant \<Rightarrow> 'v TtlCache \<Rightarrow> 'v TtlCache" where
  "cache_evict now c =
     (let c1 = cache_retain now c in
      if cap c1 \<le> cache_len c1 then
        (let keys_by_age = sort_key snd (map (\<lambda>e. (fst e, inserted (snd e))) (entries c1));
             victims = max (cap c1 div 10) 1
         in foldl (\<lambda>c e. cache_remove (fst e) c) c1 (take victims keys_by_age))
      else c1)"

text \<open>\<open>encode\<close> is \<open>serde_json::to_value\<close>, whose failure makes \<open>set\<close> return at once.\<close>

definition cache_set ::
  "('a \<Rightarrow> 'v option) \<Rightarrow> instant \<Rightarrow> string \<Rightarrow> 'a \<Rightarrow> 'v TtlCache \<Rightarrow> 'v TtlCache" where
  "cache_set encode now k x c =
     (case encode x of
        None \<Rightarrow> c
      | Some v \<Rightarrow>
          (let c1 = if cap c \<le> cache_len c \<and> map_of (entries c) k = None then cache_evict now c else c
           in c1\<lparr>entries := AList.update k \<lparr>inserted = now, entry_value = v\<rparr> (entries c1)\<rparr>))"

section \<open>Size\<close>

lemma length_update:
  "length (AList.update k v m) = (if map_of m k = None then Suc (length m) else length m)"
  by (induction m) auto

lemma length_delete: "length (AList.delete k m) \<le> length m"
  by (simp add: AList.delete_eq)

lemma length_delete_mem: "k \<in> set (map fst m) \<Longrightarrow> length (AList.delete k m) < length m"
proof -
  assume "k \<in> set (map fst m)"
  then obtain e where "e \<in> set m" "fst e = k" by auto
  then show ?thesis unfolding AList.delete_eq by (intro length_filter_less) (auto simp: case_prod_unfold)
qed

lemma cache_remove_simps [simp]:
  "cap (cache_remove k c) = cap c"
  "entries (cache_remove k c) = AList.delete k (entries c)"
  by (simp_all add: cache_remove_def)

lemma cap_remove_all [simp]: "cap (foldl (\<lambda>c e. cache_remove (fst e) c) c es) = cap c"
  by (induction es arbitrary: c) simp_all

lemma entries_remove_all:
  "entries (foldl (\<lambda>c e. cache_remove (fst e) c) c es) = filter (\<lambda>e. fst e \<notin> fst ` set es) (entries c)"
  by (induction es arbitrary: c) (auto simp: AList.delete_eq case_prod_unfold intro: filter_cong)

lemma cap_evict [simp]: "cap (cache_evict now c) = cap c"
  by (simp add: cache_evict_def Let_def cache_retain_def)

lemma evict_victims:
  "entries (cache_evict now c) =
     (let kept = entries (cache_retain now c) in
      if cap c \<le> length kept
      then filter (\<lambda>e. fst e \<notin> fst ` set (take (max (cap c div 10) 1)
             (sort_key snd (map (\<lambda>e. (fst e, inserted (snd e))) kept)))) kept
      else kept)"
  by (simp add: cache_evict_def Let_def entries_remove_all cache_len_def cache_retain_def)

lemma evict_makes_room:
  assumes "0 < cap c" "length (entries c) \<le> cap c"
  shows "length (entries (cache_evict now c)) < cap c"
proof -
  let ?kept = "entries (cache_retain now c)"
  let ?age = "map (\<lambda>e. (fst e, inserted (snd e))) ?kept"
  let ?old = "sort_key snd ?age"
  let ?out = "fst ` set (take (max (cap c div 10) 1) ?old)"
  have le: "length ?kept \<le> cap c" using assms(2) by (simp add: cache_retain_def le_trans [OF length_filter_le])
  show ?thesis
  proof (cases "cap c \<le> length ?kept")
    case True
    then have "?kept \<noteq> []" using assms(1) by auto
    then have ne: "?old \<noteq> []" by (metis length_map length_sort length_0_conv)
    then have "hd ?old \<in> set (take (max (cap c div 10) 1) ?old)"
      by (cases ?old) (simp_all add: take_Cons' max_def)
    moreover have "hd ?old \<in> set ?old" using ne by (rule hd_in_set)
    then have "hd ?old \<in> set ?age" by (simp only: set_sort)
    then obtain e where "e \<in> set ?kept" "fst (hd ?old) = fst e" by auto
    ultimately have "e \<in> set ?kept" "fst e \<in> ?out" by (auto intro: rev_image_eqI)
    then have "length (filter (\<lambda>e. fst e \<notin> ?out) ?kept) < length ?kept" by (auto intro: length_filter_less)
    then show ?thesis using True le by (simp add: evict_victims Let_def)
  qed (simp add: evict_victims Let_def)
qed

text \<open>The calls a client makes.\<close>

datatype ('a, 'v) cache_call = CGet string duration | CSet string 'a

fun cache_step ::
  "('a \<Rightarrow> 'v option) \<Rightarrow> ('v \<Rightarrow> 'a option) \<Rightarrow> 'v TtlCache \<Rightarrow> instant \<times> ('a, 'v) cache_call \<Rightarrow> 'v TtlCache" where
  "cache_step encode decode c (now, CGet k ttl) = fst (cache_get decode now k ttl c)"
| "cache_step encode decode c (now, CSet k x) = cache_set encode now k x c"

definition cache_bounded :: "'v TtlCache \<Rightarrow> bool" where
  "cache_bounded c \<longleftrightarrow> 0 < cap c \<and> cache_len c \<le> cap c"

lemma cache_set_bounded: "cache_bounded c \<Longrightarrow> cache_bounded (cache_set encode now k x c)"
  using evict_makes_room [of c now]
  by (auto simp: cache_bounded_def cache_set_def cache_len_def Let_def length_update split: option.split)

lemma cache_get_bounded: "cache_bounded c \<Longrightarrow> cache_bounded (fst (cache_get decode now k ttl c))"
  using length_delete [of k "entries c"]
  by (auto simp: cache_bounded_def cache_get_def cache_len_def split: option.split)

interpretation cache: invariant_machine "cache_step encode decode" cache_bounded "\<lambda>_. True" for encode decode
proof unfold_locales
  fix c :: "'v TtlCache" and e :: "instant \<times> ('a, 'v) cache_call" and encode :: "'a \<Rightarrow> 'v option" and decode
  assume "cache_bounded c"
  then show "cache_bounded (cache_step encode decode c e)"
    by (cases "(encode, decode, c, e)" rule: cache_step.cases)
       (auto simp: cache_set_bounded cache_get_bounded)
qed

lemma cap_step [simp]: "cap (cache_step encode decode c e) = cap c"
  by (cases "(encode, decode, c, e)" rule: cache_step.cases)
     (auto simp: cache_get_def cache_set_def Let_def split: option.split)

lemma cap_run: "cap (foldl (cache_step encode decode) c es) = cap c"
  by (induction es arbitrary: c) simp_all

lemma sorted_split_le:
  assumes "sorted (map f xs)" "x \<in> set (take n xs)" "y \<in> set (drop n xs)"
  shows "f x \<le> f y"
proof -
  have "sorted (map f (take n xs) @ map f (drop n xs))" using assms(1) by (metis append_take_drop_id map_append)
  then show ?thesis using assms(2,3) by (auto simp: sorted_append)
qed

section \<open>Properties\<close>

text \<open>
  For calls one after another the cache is bounded: after any sequence of reads and writes at any times, a cache created
  for n entries holds at most n entries (one if n is zero). Overlapping calls are the subject of \<open>Cache_Steps\<close>.
\<close>

theorem sequential_calls_keep_cap:
  "cache_len (foldl (cache_step encode decode) (cache_new n) es) \<le> max n 1"
proof -
  have "cache_bounded (cache_new n)" by (simp add: cache_bounded_def cache_new_def cache_len_def)
  then have "cache_bounded (foldl (cache_step encode decode) (cache_new n) es)"
    by (rule cache.run_inv) (simp add: list_all_iff)
  then show ?thesis by (simp add: cache_bounded_def cap_run) (simp add: cache_new_def)
qed

text \<open>
  A read sees the last write: reading a key that was just stored gives back the decoded value
  while its age is within the limit the reader passes, and past the limit gives nothing and
  removes the entry.
\<close>

theorem cache_get_after_set:
  assumes "encode x = Some v"
  shows "cache_get decode later k ttl (cache_set encode now k x c) =
    (if later - now \<le> ttl then (cache_set encode now k x c, decode v)
     else (cache_remove k (cache_set encode now k x c), None))"
  using assms by (auto simp: cache_get_def cache_set_def Let_def elapsed_def)

theorem cache_get_after_set_witness:
  "snd (cache_get Some 5 ''k'' 3 (cache_set Some 2 ''k'' (42 :: nat) (cache_new 16))) = Some 42
   \<and> snd (cache_get Some 6 ''k'' 3 (cache_set Some 2 ''k'' (42 :: nat) (cache_new 16))) = None"
  using cache_get_after_set [of Some "42 :: nat" 42 Some 5 "''k''" 3 2 "cache_new 16"]
    cache_get_after_set [of Some "42 :: nat" 42 Some 6 "''k''" 3 2 "cache_new 16"]
  by simp

text \<open>
  Eviction is oldest-first: an entry that was within the maximal age and is dropped by an
  eviction was stored no later than any entry that survives it.
\<close>

theorem evict_oldest_first:
  assumes "distinct (map fst (entries c))"
    and "a \<in> set (entries (cache_retain now c))" "a \<notin> set (entries (cache_evict now c))"
    and "b \<in> set (entries (cache_evict now c))"
  shows "inserted (snd a) \<le> inserted (snd b)"
proof -
  let ?kept = "entries (cache_retain now c)"
  let ?age = "map (\<lambda>e. (fst e, inserted (snd e))) ?kept"
  let ?old = "sort_key snd ?age"
  let ?n = "max (cap c div 10) 1"
  have dk: "distinct (map fst ?kept)" using assms(1) by (simp add: cache_retain_def distinct_map_filter)
  have full: "cap c \<le> length ?kept" using assms(2,3) by (auto simp: evict_victims Let_def split: if_splits)
  have b: "b \<in> set ?kept" "fst b \<notin> fst ` set (take ?n ?old)"
    using assms(4) full by (auto simp: evict_victims Let_def)
  have "fst a \<in> fst ` set (take ?n ?old)" using assms(2,3) full by (auto simp: evict_victims Let_def)
  then obtain t where t: "(fst a, t) \<in> set (take ?n ?old)" by auto
  then have "(fst a, t) \<in> set ?old" by (rule in_set_takeD)
  then have "(fst a, t) \<in> set ?age" by (simp only: set_sort)
  then obtain a' where "a' \<in> set ?kept" "fst a' = fst a" "t = inserted (snd a')" by auto
  then have ta: "t = inserted (snd a)" using dk assms(2) by (metis (no_types, lifting) distinct_map inj_onD)
  have "(fst b, inserted (snd b)) \<in> set ?old" using b(1) by auto
  moreover have "set ?old = set (take ?n ?old) \<union> set (drop ?n ?old)" by (metis append_take_drop_id set_append)
  moreover have "(fst b, inserted (snd b)) \<notin> set (take ?n ?old)" using b(2) imageI [of _ _ fst] by fastforce
  ultimately have "(fst b, inserted (snd b)) \<in> set (drop ?n ?old)" by blast
  with t have "snd (fst a, t) \<le> snd (fst b, inserted (snd b))"
    by (intro sorted_split_le [of snd ?old _ ?n]) simp_all
  then show ?thesis using ta by simp
qed

theorem evict_oldest_first_witness:
  "entries (cache_evict 9 \<lparr>entries = [(''x'', \<lparr>inserted = 4, entry_value = 0 :: nat\<rparr>),
      (''y'', \<lparr>inserted = 3, entry_value = 1\<rparr>)], cap = 2\<rparr>) = [(''x'', \<lparr>inserted = 4, entry_value = 0\<rparr>)]
   \<and> (3 :: nat) \<le> 4"
proof -
  let ?x = "(''x'', \<lparr>inserted = 4, entry_value = 0 :: nat\<rparr>)"
  let ?y = "(''y'', \<lparr>inserted = 3, entry_value = 1 :: nat\<rparr>)"
  let ?c = "\<lparr>entries = [?x, ?y], cap = 2\<rparr>"
  have kept: "entries (cache_retain 9 ?c) = [?x, ?y]"
    by (simp add: cache_retain_def elapsed_def TTL_MAX_def TTL_BREADTH_def from_secs_def nanos_per_sec_def)
  have out: "entries (cache_evict 9 ?c) = [?x]" unfolding evict_victims kept by (simp add: Let_def)
  have d: "distinct (map fst (entries ?c))" by simp
  have "?y \<in> set (entries (cache_retain 9 ?c))" unfolding kept by simp
  moreover have "?y \<notin> set (entries (cache_evict 9 ?c))" "?x \<in> set (entries (cache_evict 9 ?c))"
    unfolding out by simp_all
  ultimately have "inserted (snd ?y) \<le> inserted (snd ?x)" by (rule evict_oldest_first [OF d])
  with out show ?thesis by simp
qed

end
