(* ===== verification/Cache_Steps.thy ===== *)
theory Cache_Steps
  imports Market_Cache "HOL-Library.Multiset"
begin

text \<open>
  The cache of \<open>crates/market-data/src/cache.rs\<close> as its concurrent callers run it. \<open>get\<close> and \<open>set\<close> take no lock of their
  own: each is a sequence of calls on the shared \<open>DashMap\<close>, and every such call locks one shard of the map at a time. A
  call is therefore a value that says where it stands, and one step of it is one access to one shard (the shards and the
  assignment of keys to them are parameters). Any number of callers take their steps in any order. Main facts: while no
  two calls of \<open>set\<close> overlap the map stays within its capacity, whatever the readers do; when two overlap it need not, and
  with a capacity below twenty it may grow without bound; and a call of \<open>set\<close> that nobody disturbs does what \<open>cache_set\<close>
  of \<open>Market_Cache\<close> does in one step.
\<close>

section \<open>Calls in progress\<close>

text \<open>
  Where a call stands. The two sums are \<open>DashMap::len\<close>, shard by shard; the snapshot is \<open>DashMap::iter\<close>; \<open>SetRemove\<close> has the
  victims that are left. \<open>Ended\<close> has what \<open>get\<close> found, before it is decoded.
\<close>

datatype 'v cache_job =
    GetLook string duration
  | GetRemove string
  | SetLen string 'v nat nat
  | SetContains string 'v
  | SetRetain string 'v nat
  | SetLenAgain string 'v nat nat
  | SetSnapshot string 'v nat "(string \<times> instant) list"
  | SetRemove string 'v "string list"
  | SetInsert string 'v
  | Ended "'v option"

definition get_job :: "string \<Rightarrow> duration \<Rightarrow> 'v cache_job" where
  "get_job k ttl = GetLook k ttl"

definition set_job :: "('a \<Rightarrow> 'v option) \<Rightarrow> string \<Rightarrow> 'a \<Rightarrow> 'v cache_job" where
  "set_job encode k x = (case encode x of None \<Rightarrow> Ended None | Some v \<Rightarrow> SetLen k v 0 0)"

definition shard_entries :: "(string \<Rightarrow> nat) \<Rightarrow> nat \<Rightarrow> 'v TtlCache \<Rightarrow> (string \<times> 'v Entry) list" where
  "shard_entries shard i c = filter (\<lambda>e. shard (fst e) = i) (entries c)"

definition retain_shard :: "(string \<Rightarrow> nat) \<Rightarrow> (string \<Rightarrow> instant) \<Rightarrow> nat \<Rightarrow> 'v TtlCache \<Rightarrow> 'v TtlCache" where
  "retain_shard shard clock i c =
     c\<lparr>entries := filter (\<lambda>e. shard (fst e) = i \<longrightarrow> elapsed (clock (fst e)) (inserted (snd e)) \<le> TTL_MAX) (entries c)\<rparr>"

definition oldest_keys :: "nat \<Rightarrow> (string \<times> instant) list \<Rightarrow> string list" where
  "oldest_keys n keys = map fst (take (max (n div 10) 1) (sort_key snd keys))"

text \<open>One step of a call. \<open>clock\<close> gives the time at which the entry of a key is looked at or made.\<close>

fun job_step ::
  "nat \<Rightarrow> (string \<Rightarrow> nat) \<Rightarrow> (string \<Rightarrow> instant) \<Rightarrow> 'v TtlCache \<Rightarrow> 'v cache_job \<Rightarrow> 'v TtlCache \<times> 'v cache_job" where
  "job_step shards shard clock c (GetLook k ttl) =
     (case map_of (entries c) k of
        None \<Rightarrow> (c, Ended None)
      | Some e \<Rightarrow> if ttl < elapsed (clock k) (inserted e) then (c, GetRemove k) else (c, Ended (Some (entry_value e))))"
| "job_step shards shard clock c (GetRemove k) = (cache_remove k c, Ended None)"
| "job_step shards shard clock c (SetLen k v i n) =
     (if i < shards then (c, SetLen k v (Suc i) (n + length (shard_entries shard i c)))
      else if cap c \<le> n then (c, SetContains k v) else (c, SetInsert k v))"
| "job_step shards shard clock c (SetContains k v) =
     (if map_of (entries c) k = None then (c, SetRetain k v 0) else (c, SetInsert k v))"
| "job_step shards shard clock c (SetRetain k v i) =
     (if i < shards then (retain_shard shard clock i c, SetRetain k v (Suc i)) else (c, SetLenAgain k v 0 0))"
| "job_step shards shard clock c (SetLenAgain k v i n) =
     (if i < shards then (c, SetLenAgain k v (Suc i) (n + length (shard_entries shard i c)))
      else if cap c \<le> n then (c, SetSnapshot k v 0 []) else (c, SetInsert k v))"
| "job_step shards shard clock c (SetSnapshot k v i keys) =
     (if i < shards
      then (c, SetSnapshot k v (Suc i) (keys @ map (\<lambda>e. (fst e, inserted (snd e))) (shard_entries shard i c)))
      else (c, SetRemove k v (oldest_keys (cap c) keys)))"
| "job_step shards shard clock c (SetRemove k v []) = (c, SetInsert k v)"
| "job_step shards shard clock c (SetRemove k v (x # xs)) = (cache_remove x c, SetRemove k v xs)"
| "job_step shards shard clock c (SetInsert k v) =
     (c\<lparr>entries := AList.update k \<lparr>inserted = clock k, entry_value = v\<rparr> (entries c)\<rparr>, Ended None)"
| "job_step shards shard clock c (Ended r) = (c, Ended r)"

text \<open>A call of \<open>set\<close> that has not returned.\<close>

fun setting :: "'v cache_job \<Rightarrow> bool" where
  "setting (GetLook k ttl) = False"
| "setting (GetRemove k) = False"
| "setting (Ended r) = False"
| "setting p = True"

definition setters :: "'v cache_job list \<Rightarrow> nat" where
  "setters ps = length (filter setting ps)"

text \<open>
  The callers share the map. A caller whose call has ended makes another one; any caller with a call in progress takes
  its next step.
\<close>

inductive cache_move ::
  "nat \<Rightarrow> (string \<Rightarrow> nat) \<Rightarrow> 'v TtlCache \<times> 'v cache_job list \<Rightarrow> 'v TtlCache \<times> 'v cache_job list \<Rightarrow> bool"
  for shards shard where
  begin_get: "j < length ps \<Longrightarrow> ps ! j = Ended r \<Longrightarrow> cache_move shards shard (c, ps) (c, ps[j := get_job k ttl])"
| begin_set: "j < length ps \<Longrightarrow> ps ! j = Ended r \<Longrightarrow> cache_move shards shard (c, ps) (c, ps[j := set_job Some k v])"
| advance: "j < length ps \<Longrightarrow> job_step shards shard clock c (ps ! j) = (c', p) \<Longrightarrow>
    cache_move shards shard (c, ps) (c', ps[j := p])"

inductive_cases cache_moveE: "cache_move shards shard s s'"

text \<open>What \<open>callers\<close> callers of a new cache for \<open>n\<close> entries can bring about with at most \<open>w\<close> calls of \<open>set\<close> in progress.\<close>

inductive cache_reach ::
  "nat \<Rightarrow> (string \<Rightarrow> nat) \<Rightarrow> nat \<Rightarrow> nat \<Rightarrow> nat \<Rightarrow> 'v TtlCache \<times> 'v cache_job list \<Rightarrow> bool"
  for shards shard w callers n where
  start: "cache_reach shards shard w callers n (cache_new n, replicate callers (Ended None))"
| move: "cache_reach shards shard w callers n s \<Longrightarrow> cache_move shards shard s s' \<Longrightarrow> setters (snd s') \<le> w \<Longrightarrow>
    cache_reach shards shard w callers n s'"

section \<open>Shards\<close>

definition below :: "(string \<Rightarrow> nat) \<Rightarrow> nat \<Rightarrow> 'v TtlCache \<Rightarrow> (string \<times> 'v Entry) list" where
  "below shard i c = filter (\<lambda>e. shard (fst e) < i) (entries c)"

lemma below_0 [simp]: "below shard 0 c = []"
  by (simp add: below_def)

lemma below_all: "\<forall>k. shard k < shards \<Longrightarrow> below shard shards c = entries c"
  by (simp add: below_def)

lemma length_below_Suc: "length (below shard (Suc i) c) = length (below shard i c) + length (shard_entries shard i c)"
proof -
  have "length (filter (\<lambda>e. shard (fst e) < Suc i) es)
      = length (filter (\<lambda>e. shard (fst e) < i) es) + length (filter (\<lambda>e. shard (fst e) = i) es)" for es :: "(string \<times> 'a Entry) list"
    by (induction es) (auto simp: less_Suc_eq)
  then show ?thesis unfolding below_def shard_entries_def by blast
qed

lemma set_below_Suc: "set (below shard (Suc i) c) = set (below shard i c) \<union> set (shard_entries shard i c)"
  by (auto simp: below_def shard_entries_def less_Suc_eq)

lemma below_remove: "below shard i (cache_remove k c) = filter (\<lambda>e. fst e \<noteq> k) (below shard i c)"
  by (auto simp: below_def AList.delete_eq case_prod_unfold intro: filter_cong)

lemma length_below_remove: "length (below shard i (cache_remove k c)) \<le> length (below shard i c)"
  by (simp add: below_remove)

section \<open>While calls of set do not overlap\<close>

text \<open>
  What a call of \<open>set\<close> knows at each point, whatever is removed meanwhile. The sum it has is not below what the shards it
  has read now hold; what it collected are the keys of these shards, unless there is room again; one of the victims is
  still in the map, unless there is room; and when it inserts, the key is in the map or there is room.
\<close>

fun set_knows :: "nat \<Rightarrow> (string \<Rightarrow> nat) \<Rightarrow> 'v TtlCache \<Rightarrow> 'v cache_job \<Rightarrow> bool" where
  "set_knows shards shard c (SetLen k v i n) \<longleftrightarrow> i \<le> shards \<and> length (below shard i c) \<le> n"
| "set_knows shards shard c (SetLenAgain k v i n) \<longleftrightarrow> i \<le> shards \<and> length (below shard i c) \<le> n"
| "set_knows shards shard c (SetSnapshot k v i keys) \<longleftrightarrow>
     i \<le> shards \<and> (cache_len c < cap c \<or> fst ` set keys = fst ` set (below shard i c))"
| "set_knows shards shard c (SetRemove k v victims) \<longleftrightarrow>
     cache_len c < cap c \<or> (\<exists>x \<in> set victims. x \<in> fst ` set (entries c))"
| "set_knows shards shard c (SetInsert k v) \<longleftrightarrow> cache_len c < cap c \<or> k \<in> fst ` set (entries c)"
| "set_knows shards shard c _ \<longleftrightarrow> True"

lemma not_setting_knows: "\<not> setting p \<Longrightarrow> set_knows shards shard c p"
  by (cases p) simp_all

lemma cache_remove_absent: "k \<notin> fst ` set (entries c) \<Longrightarrow> cache_remove k c = c"
  by (simp add: cache_remove_def AList.delete_id)

lemma cache_len_remove:
  "cache_len (cache_remove k c) \<le> cache_len c"
  "k \<in> fst ` set (entries c) \<Longrightarrow> cache_len (cache_remove k c) < cache_len c"
  using length_delete [of k "entries c"] length_delete_mem [of k "entries c"] by (simp_all add: cache_len_def)

lemma knows_after_remove:
  assumes "set_knows shards shard c p" "cache_len c \<le> cap c"
  shows "set_knows shards shard (cache_remove x c) p"
proof (cases "x \<in> fst ` set (entries c)")
  case True
  then have "cache_len (cache_remove x c) < cap c" using cache_len_remove(2) assms(2) by fastforce
  moreover have "length (below shard i c) \<le> m \<Longrightarrow> length (below shard i (cache_remove x c)) \<le> m" for i m
    using length_below_remove le_trans by blast
  ultimately show ?thesis using assms(1) by (cases p) simp_all
next
  case False
  then show ?thesis using assms(1) by (simp add: cache_remove_absent)
qed

definition cache_fits :: "'v TtlCache \<Rightarrow> bool" where
  "cache_fits c \<longleftrightarrow> 0 < cap c \<and> cache_len c \<le> cap c"

lemma oldest_keys_member:
  assumes "keys \<noteq> []"
  shows "\<exists>x \<in> set (oldest_keys n keys). x \<in> fst ` set keys"
proof -
  let ?old = "sort_key snd keys"
  have "?old \<noteq> []" using assms by (metis length_sort length_0_conv)
  then obtain x xs where old: "?old = x # xs" by (cases ?old) auto
  have "x \<in> set ?old" by (simp add: old)
  then have "x \<in> set keys" by (simp only: set_sort)
  moreover have "fst x \<in> set (oldest_keys n keys)" by (simp add: oldest_keys_def old take_Cons' max_def)
  ultimately show ?thesis by blast
qed

lemma job_step_keeps_knowledge:
  assumes "\<forall>k. shard k < shards" "cache_fits c" "set_knows shards shard c p" "job_step shards shard clock c p = (c', p')"
  shows "cache_fits c' \<and> cap c' = cap c \<and> set_knows shards shard c' p'"
proof (cases p)
  case (SetLen k v i n)
  then show ?thesis using assms length_below_Suc [of shard i c] below_all [OF assms(1), of c]
    by (auto simp: cache_len_def split: if_splits)
next
  case (SetContains k v)
  then show ?thesis using assms by (force simp: map_of_eq_None_iff split: if_splits)
next
  case (SetRetain k v i)
  have "cache_len (retain_shard shard clock i c) \<le> cache_len c" by (simp add: cache_len_def retain_shard_def)
  moreover have "cap (retain_shard shard clock i c) = cap c" by (simp add: retain_shard_def)
  ultimately show ?thesis using assms SetRetain by (auto simp: cache_fits_def split: if_splits)
next
  case (SetLenAgain k v i n)
  then show ?thesis using assms length_below_Suc [of shard i c] below_all [OF assms(1), of c]
    by (auto simp: cache_len_def split: if_splits)
next
  case (SetSnapshot k v i keys)
  show ?thesis
  proof (cases "i < shards")
    case True
    then show ?thesis using assms SetSnapshot by (auto simp: set_below_Suc image_Un image_image)
  next
    case False
    then have eq: "c' = c" "p' = SetRemove k v (oldest_keys (cap c) keys)" using assms(4) SetSnapshot by auto
    have "cache_len c < cap c \<or> (\<exists>x \<in> set (oldest_keys (cap c) keys). x \<in> fst ` set (entries c))"
    proof (cases "cache_len c < cap c")
      case full: False
      then have keys: "fst ` set keys = fst ` set (entries c)"
        using assms(3) SetSnapshot False below_all [OF assms(1), of c] by simp
      moreover have "entries c \<noteq> []" using full assms(2) by (auto simp: cache_fits_def cache_len_def)
      ultimately have "keys \<noteq> []" by auto
      from oldest_keys_member [OF this] show ?thesis using keys by simp
    qed simp
    then show ?thesis using eq assms(2) by simp
  qed
next
  case (SetRemove k v victims)
  show ?thesis
  proof (cases victims)
    case Nil
    then show ?thesis using assms SetRemove by auto
  next
    case (Cons x xs)
    then have eq: "c' = cache_remove x c" "p' = SetRemove k v xs" using assms(4) SetRemove by simp_all
    show ?thesis
    proof (cases "x \<in> fst ` set (entries c)")
      case True
      then show ?thesis using cache_len_remove(2) [OF True] assms(2) eq by (auto simp: cache_fits_def)
    next
      case False
      then show ?thesis using assms(2,3) eq Cons SetRemove by (auto simp: cache_remove_absent)
    qed
  qed
next
  case (SetInsert k v)
  have "length (AList.update k x (entries c)) = (if k \<in> fst ` set (entries c) then length (entries c) else Suc (length (entries c)))" for x
    by (simp add: length_update map_of_eq_None_iff)
  then show ?thesis using assms SetInsert
    by (cases "k \<in> fst ` set (entries c)") (simp_all add: cache_fits_def cache_len_def, auto)
next
  case (GetLook k ttl)
  then show ?thesis using assms by (auto split: option.splits if_splits)
next
  case (GetRemove k)
  then show ?thesis using assms cache_len_remove(1) [of k c] by (auto simp: cache_fits_def)
qed (use assms in auto)

text \<open>A caller that is not in \<open>set\<close> only removes.\<close>

lemma reader_step:
  assumes "\<not> setting p" "job_step shards shard clock c p = (c', p')"
  shows "(c' = c \<or> (\<exists>k. c' = cache_remove k c)) \<and> \<not> setting p'"
  using assms by (cases p) (auto split: option.splits if_splits)

lemma setting_step: "job_step shards shard clock c p = (c', p') \<Longrightarrow> setting p' \<Longrightarrow> setting p"
  by (cases p) (auto split: option.splits if_splits)

lemma setters_le_1:
  "setters ps \<le> 1 \<Longrightarrow> i < length ps \<Longrightarrow> j < length ps \<Longrightarrow> setting (ps ! i) \<Longrightarrow> setting (ps ! j) \<Longrightarrow> i = j"
proof (rule ccontr)
  assume *: "setters ps \<le> 1" "i < length ps" "j < length ps" "setting (ps ! i)" "setting (ps ! j)" "i \<noteq> j"
  then have "{i, j} \<subseteq> {l. l < length ps \<and> setting (ps ! l)}" by simp
  moreover have "card {l. l < length ps \<and> setting (ps ! l)} \<le> 1"
    using *(1) unfolding setters_def length_filter_conv_card by simp
  moreover have "finite {l. l < length ps \<and> setting (ps ! l)}" by simp
  ultimately have "card {i, j} \<le> 1" using card_mono order.trans by metis
  then show False using *(6) by simp
qed

definition caller_inv :: "nat \<Rightarrow> (string \<Rightarrow> nat) \<Rightarrow> 'v TtlCache \<times> 'v cache_job list \<Rightarrow> bool" where
  "caller_inv shards shard s \<longleftrightarrow>
     cache_fits (fst s) \<and> (\<forall>p \<in> set (snd s). set_knows shards shard (fst s) p) \<and> setters (snd s) \<le> 1"

lemma caller_inv_move:
  assumes "\<forall>k. shard k < shards" "caller_inv shards shard s" "cache_move shards shard s s'" "setters (snd s') \<le> 1"
  shows "caller_inv shards shard s' \<and> cap (fst s') = cap (fst s)"
  using assms(3)
proof cases
  case (begin_get j ps r c k ttl)
  then show ?thesis using assms(2,4) set_update_subset_insert [of ps j "get_job k ttl"]
    by (auto simp: caller_inv_def get_job_def)
next
  case (begin_set j ps r c k v)
  then show ?thesis using assms(2,4) set_update_subset_insert [of ps j "set_job Some k v"]
    by (auto simp: caller_inv_def set_job_def)
next
  case (advance j ps clock c c' p)
  have inv: "cache_fits c" "\<And>i. i < length ps \<Longrightarrow> set_knows shards shard c (ps ! i)" "setters ps \<le> 1"
    using assms(2) advance(1) by (simp_all add: caller_inv_def)
  note own = job_step_keeps_knowledge [OF assms(1) inv(1) inv(2) [OF advance(3)] advance(4)]
  have "set_knows shards shard c' (ps ! i)" if i: "i < length ps" "i \<noteq> j" for i
  proof (cases "setting (ps ! i)")
    case True
    then have "\<not> setting (ps ! j)" using setters_le_1 [OF inv(3) i(1) advance(3)] i(2) by blast
    then consider "c' = c" | k where "c' = cache_remove k c" using reader_step [OF _ advance(4)] by blast
    then show ?thesis
    proof cases
      case 2
      then show ?thesis using knows_after_remove [OF inv(2) [OF i(1)]] inv(1) by (simp add: cache_fits_def)
    qed (use inv(2) [OF i(1)] in simp)
  qed (rule not_setting_knows)
  then have "set_knows shards shard c' (ps[j := p] ! i)" if "i < length ps" for i
    using own advance(3) that by (cases "i = j") auto
  then have "\<forall>q \<in> set (ps[j := p]). set_knows shards shard c' q" by (metis in_set_conv_nth length_list_update)
  then show ?thesis using own advance(1,2) assms(4) by (simp add: caller_inv_def)
qed

lemma serial_sets_fit:
  assumes "\<forall>k. shard k < shards" "cache_reach shards shard 1 callers n s"
  shows "caller_inv shards shard s \<and> cap (fst s) = max n 1"
  using assms(2)
proof induction
  case start
  then show ?case by (auto simp: caller_inv_def cache_fits_def cache_new_def cache_len_def setters_def)
next
  case (move s s')
  then show ?case using caller_inv_move [OF assms(1)] by fastforce
qed

section \<open>A call that nobody disturbs\<close>

text \<open>One call takes all its steps while the others wait.\<close>

definition leads ::
  "nat \<Rightarrow> (string \<Rightarrow> nat) \<Rightarrow> (string \<Rightarrow> instant) \<Rightarrow> 'v TtlCache \<times> 'v cache_job \<Rightarrow> 'v TtlCache \<times> 'v cache_job \<Rightarrow> bool" where
  "leads shards shard clock x y \<longleftrightarrow> (\<exists>m. ((\<lambda>(c, p). job_step shards shard clock c p) ^^ m) x = y)"

lemma leads_refl: "leads shards shard clock x x"
  unfolding leads_def by (rule exI [of _ 0]) simp

lemma leads_trans:
  assumes "leads shards shard clock x y" "leads shards shard clock y z"
  shows "leads shards shard clock x z"
proof -
  obtain m l where "((\<lambda>(c, p). job_step shards shard clock c p) ^^ m) x = y"
    "((\<lambda>(c, p). job_step shards shard clock c p) ^^ l) y = z"
    using assms unfolding leads_def by blast
  then have "((\<lambda>(c, p). job_step shards shard clock c p) ^^ (l + m)) x = z" by (simp add: funpow_add)
  then show ?thesis unfolding leads_def ..
qed

lemma leads_step:
  "job_step shards shard clock c p = y \<Longrightarrow> leads shards shard clock y z \<Longrightarrow> leads shards shard clock (c, p) z"
  by (rule leads_trans [rotated]) (auto simp: leads_def intro: exI [of _ 1])

lemma leads_then:
  "leads shards shard clock x (c, p) \<Longrightarrow> job_step shards shard clock c p = y \<Longrightarrow> leads shards shard clock x y"
  by (erule leads_trans) (auto intro: leads_step leads_refl)

definition snapshot :: "(string \<Rightarrow> nat) \<Rightarrow> nat \<Rightarrow> 'v TtlCache \<Rightarrow> (string \<times> instant) list" where
  "snapshot shard i c = concat (map (\<lambda>j. map (\<lambda>e. (fst e, inserted (snd e))) (shard_entries shard j c)) [0..<i])"

lemma solo_len:
  "i \<le> shards \<Longrightarrow> leads shards shard clock (c, SetLen k v 0 0) (c, SetLen k v i (length (below shard i c)))"
proof (induction i)
  case (Suc i)
  then have "leads shards shard clock (c, SetLen k v 0 0) (c, SetLen k v i (length (below shard i c)))" by simp
  from leads_then [OF this refl] show ?case using Suc.prems by (simp add: length_below_Suc)
qed (simp add: leads_refl)

lemma solo_len_again:
  "i \<le> shards \<Longrightarrow> leads shards shard clock (c, SetLenAgain k v 0 0) (c, SetLenAgain k v i (length (below shard i c)))"
proof (induction i)
  case (Suc i)
  then have "leads shards shard clock (c, SetLenAgain k v 0 0) (c, SetLenAgain k v i (length (below shard i c)))" by simp
  from leads_then [OF this refl] show ?case using Suc.prems by (simp add: length_below_Suc)
qed (simp add: leads_refl)

definition retain_below :: "(string \<Rightarrow> nat) \<Rightarrow> (string \<Rightarrow> instant) \<Rightarrow> nat \<Rightarrow> 'v TtlCache \<Rightarrow> 'v TtlCache" where
  "retain_below shard clock i c =
     c\<lparr>entries := filter (\<lambda>e. shard (fst e) < i \<longrightarrow> elapsed (clock (fst e)) (inserted (snd e)) \<le> TTL_MAX) (entries c)\<rparr>"

lemma solo_retain:
  "i \<le> shards \<Longrightarrow> leads shards shard clock (c, SetRetain k v 0) (retain_below shard clock i c, SetRetain k v i)"
proof (induction i)
  case 0
  have "retain_below shard clock 0 c = c" by (simp add: retain_below_def)
  then show ?case by (simp add: leads_refl)
next
  case (Suc i)
  have "retain_shard shard clock i (retain_below shard clock i c) = retain_below shard clock (Suc i) c"
    by (auto simp: retain_shard_def retain_below_def less_Suc_eq intro!: filter_cong)
  moreover have "leads shards shard clock (c, SetRetain k v 0) (retain_below shard clock i c, SetRetain k v i)" using Suc by simp
  from leads_then [OF this refl]
  have "leads shards shard clock (c, SetRetain k v 0) (retain_shard shard clock i (retain_below shard clock i c), SetRetain k v (Suc i))"
    using Suc.prems by simp
  ultimately show ?case by simp
qed

lemma retain_below_all: "\<forall>k. shard k < shards \<Longrightarrow> retain_below shard (\<lambda>_. now) shards c = cache_retain now c"
  by (simp add: retain_below_def cache_retain_def)

lemma solo_snapshot:
  "i \<le> shards \<Longrightarrow> leads shards shard clock (c, SetSnapshot k v 0 []) (c, SetSnapshot k v i (snapshot shard i c))"
proof (induction i)
  case (Suc i)
  then have "leads shards shard clock (c, SetSnapshot k v 0 []) (c, SetSnapshot k v i (snapshot shard i c))" by simp
  from leads_then [OF this refl] show ?case using Suc.prems by (simp add: snapshot_def)
qed (simp add: leads_refl snapshot_def)

lemma solo_remove:
  "leads shards shard clock (c, SetRemove k v xs) (foldl (\<lambda>c x. cache_remove x c) c xs, SetInsert k v)"
proof (induction xs arbitrary: c)
  case Nil
  show ?case by (rule leads_step [OF refl]) (simp add: leads_refl)
next
  case (Cons x xs)
  show ?case by (rule leads_step [OF refl]) (simp add: Cons)
qed

text \<open>Up to the choice of the victims the map only loses what is past the maximal age.\<close>

lemma solo_to_check:
  assumes "\<forall>k. shard k < shards"
  shows "leads shards shard clock (c, SetLen k v 0 0)
    (c, if cache_len c < cap c then SetInsert k v else SetContains k v)"
proof -
  have "leads shards shard clock (c, SetLen k v 0 0) (c, SetLen k v shards (cache_len c))"
    using solo_len [of shards shards shard clock c k v] by (simp add: below_all [OF assms(1)] cache_len_def)
  from leads_then [OF this refl] show ?thesis by (auto split: if_splits)
qed

lemma solo_to_second_check:
  assumes "\<forall>k. shard k < shards" "cap c \<le> cache_len c" "map_of (entries c) k = None"
  shows "leads shards shard (\<lambda>_. now) (c, SetLen k v 0 0)
    (cache_retain now c, if cache_len (cache_retain now c) < cap c then SetInsert k v else SetSnapshot k v 0 [])"
proof -
  let ?c = "cache_retain now c"
  let ?leads = "leads shards shard (\<lambda>_. now) (c, SetLen k v 0 0)"
  have cap: "cap ?c = cap c" by (simp add: cache_retain_def)
  have "?leads (c, SetContains k v)" using solo_to_check [OF assms(1), of "\<lambda>_. now" c k v] assms(2) by simp
  from leads_then [OF this refl] have "?leads (c, SetRetain k v 0)" using assms(3) by simp
  from leads_trans [OF this solo_retain [OF order.refl]] have "?leads (?c, SetRetain k v shards)"
    by (simp add: retain_below_all [OF assms(1)])
  from leads_then [OF this refl] have "?leads (?c, SetLenAgain k v 0 0)" by simp
  from leads_trans [OF this solo_len_again [OF order.refl]] have "?leads (?c, SetLenAgain k v shards (cache_len ?c))"
    by (simp add: below_all [OF assms(1)] cache_len_def)
  from leads_then [OF this refl] show ?thesis by (auto simp: cap split: if_splits)
qed

lemma solo_to_victims:
  assumes "\<forall>k. shard k < shards" "cap c \<le> cache_len c" "map_of (entries c) k = None"
    and "cap c \<le> cache_len (cache_retain now c)"
  shows "leads shards shard (\<lambda>_. now) (c, SetLen k v 0 0)
    (cache_retain now c, SetRemove k v (oldest_keys (cap c) (snapshot shard shards (cache_retain now c))))"
proof -
  let ?c = "cache_retain now c"
  let ?leads = "leads shards shard (\<lambda>_. now) (c, SetLen k v 0 0)"
  have "?leads (?c, SetSnapshot k v 0 [])" using solo_to_second_check [OF assms(1-3), of now v] assms(4) by simp
  from leads_trans [OF this solo_snapshot [OF order.refl]]
  have "?leads (?c, SetSnapshot k v shards (snapshot shard shards ?c))" .
  from leads_then [OF this refl] show ?thesis by (simp add: cache_retain_def)
qed

lemma mset_snapshot:
  "mset (snapshot shard i c) = mset (map (\<lambda>e. (fst e, inserted (snd e))) (below shard i c))"
proof (induction i)
  case (Suc i)
  have "mset (filter (\<lambda>e. shard (fst e) < Suc i) es)
      = mset (filter (\<lambda>e. shard (fst e) < i) es) + mset (filter (\<lambda>e. shard (fst e) = i) es)" for es :: "(string \<times> 'a Entry) list"
    by (induction es) (auto simp: less_Suc_eq)
  then have "mset (below shard (Suc i) c) = mset (below shard i c) + mset (shard_entries shard i c)"
    unfolding below_def shard_entries_def by blast
  then show ?case using Suc by (simp add: snapshot_def)
qed (simp add: snapshot_def)

lemma sort_key_unique:
  assumes "mset xs = mset ys" "distinct (map f ys)"
  shows "sort_key f xs = sort_key f ys"
proof (rule map_sorted_distinct_set_unique [of f])
  have sets: "set xs = set ys" using assms(1) by (rule mset_eq_setD)
  show "inj_on f (set (sort_key f xs) \<union> set (sort_key f ys))" using assms(2) sets by (simp add: distinct_map)
  show "set (sort_key f xs) = set (sort_key f ys)" using sets by simp
  have "mset (map f xs) = mset (map f ys)" using assms(1) by simp
  then have "distinct (map f xs)" using assms(2) mset_eq_imp_distinct_iff by blast
  then have "distinct (map f (sort_key f zs))" if "zs = xs \<or> zs = ys" for zs
    using assms(2) that by (auto simp: distinct_map)
  then show "distinct (map f (sort_key f xs))" "distinct (map f (sort_key f ys))" by blast+
qed simp_all

text \<open>
  A call of \<open>set\<close> that runs alone does in its steps what \<open>cache_set\<close> does in one: the same entries, in whatever shards they
  are. The instants of the entries must differ, for among entries of the same instant the order of the shards decides.
\<close>

theorem undisturbed_set_is_cache_set:
  assumes "\<forall>k. shard k < shards" "distinct (map (\<lambda>e. inserted (snd e)) (entries c))"
  shows "leads shards shard (\<lambda>_. now) (c, set_job encode k x) (cache_set encode now k x c, Ended None)"
proof (cases "encode x")
  case None
  then show ?thesis by (simp add: set_job_def cache_set_def leads_refl)
next
  case (Some v)
  let ?leads = "leads shards shard (\<lambda>_. now) (c, SetLen k v 0 0)"
  define full where "full \<longleftrightarrow> cap c \<le> cache_len c \<and> map_of (entries c) k = None"
  have "?leads (if full then cache_evict now c else c, SetInsert k v)"
  proof (cases full)
    case False
    consider "cache_len c < cap c" | "cap c \<le> cache_len c" "map_of (entries c) k \<noteq> None"
      using False unfolding full_def by linarith
    then show ?thesis
    proof cases
      case 1
      then show ?thesis using solo_to_check [OF assms(1), of "\<lambda>_. now" c k v] False by simp
    next
      case 2
      then have "?leads (c, SetContains k v)" using solo_to_check [OF assms(1), of "\<lambda>_. now" c k v] by simp
      from leads_then [OF this refl] show ?thesis using 2 False by simp
    qed
  next
    case True
    let ?c = "cache_retain now c"
    have cap: "cap ?c = cap c" by (simp add: cache_retain_def)
    show ?thesis
    proof (cases "cap c \<le> cache_len ?c")
      case room: False
      then show ?thesis using solo_to_second_check [OF assms(1), of c k now v] True
        by (simp add: full_def cache_evict_def cap Let_def)
    next
      case no_room: True
      let ?age = "map (\<lambda>e. (fst e, inserted (snd e))) (entries ?c)"
      have "distinct (map snd ?age)"
        using assms(2) by (simp add: cache_retain_def comp_def distinct_map_filter)
      moreover have "mset (snapshot shard shards ?c) = mset ?age"
        by (simp add: mset_snapshot below_all [OF assms(1)])
      ultimately have "sort_key snd (snapshot shard shards ?c) = sort_key snd ?age" by (rule sort_key_unique [rotated])
      then have old: "oldest_keys (cap c) (snapshot shard shards ?c) = map fst (take (max (cap c div 10) 1) (sort_key snd ?age))"
        unfolding oldest_keys_def by (rule arg_cong)
      have "?leads (?c, SetRemove k v (oldest_keys (cap c) (snapshot shard shards ?c)))"
        by (rule solo_to_victims [OF assms(1)]) (use True no_room in \<open>simp_all add: full_def\<close>)
      from leads_trans [OF this solo_remove] show ?thesis
        using True no_room unfolding old by (simp add: cache_evict_def cap Let_def foldl_map)
    qed
  qed
  from leads_then [OF this refl] show ?thesis
    by (simp add: set_job_def cache_set_def Some full_def Let_def)
qed

lemma solo_with_room:
  assumes "\<forall>k. shard k < shards" "cache_len c < cap c"
  shows "leads shards shard clock (c, SetLen k v 0 0)
    (c\<lparr>entries := AList.update k \<lparr>inserted = clock k, entry_value = v\<rparr> (entries c)\<rparr>, Ended None)"
proof -
  have "leads shards shard clock (c, SetLen k v 0 0) (c, SetInsert k v)"
    using solo_to_check [OF assms(1), of clock c k v] assms(2) by simp
  from leads_then [OF this refl] show ?thesis by simp
qed

section \<open>When calls of set overlap\<close>

lemma setters_update: "(setting p \<Longrightarrow> setting (ps ! j)) \<Longrightarrow> setters (ps[j := p]) \<le> setters ps"
proof (cases "j < length ps")
  case True
  assume *: "setting p \<Longrightarrow> setting (ps ! j)"
  have "setters ps = setters (take j ps @ ps ! j # drop (Suc j) ps)" using True id_take_nth_drop by metis
  then show ?thesis using * True by (simp add: setters_def upd_conv_take_nth_drop)
qed (simp add: list_update_beyond)

lemma reach_setters: "cache_reach shards shard w callers n s \<Longrightarrow> setters (snd s) \<le> w"
  by (induction rule: cache_reach.induct) (simp_all add: setters_def)

lemma reach_leads:
  assumes "cache_reach shards shard w callers n (c, ps)" "j < length ps" "leads shards shard clock (c, ps ! j) (c', p')"
  shows "cache_reach shards shard w callers n (c', ps[j := p'])"
proof -
  obtain m where "((\<lambda>(c, p). job_step shards shard clock c p) ^^ m) (c, ps ! j) = (c', p')"
    using assms(3) unfolding leads_def by blast
  then show ?thesis
  proof (induction m arbitrary: c' p')
    case 0
    then have "c' = c" "p' = ps ! j" by simp_all
    then show ?case using assms(1) by simp
  next
    case (Suc m)
    obtain c1 p1 where m: "((\<lambda>(c, p). job_step shards shard clock c p) ^^ m) (c, ps ! j) = (c1, p1)" by fastforce
    then have step: "job_step shards shard clock c1 p1 = (c', p')" using Suc.prems by simp
    have reach: "cache_reach shards shard w callers n (c1, ps[j := p1])" by (rule Suc.IH [OF m])
    have "cache_move shards shard (c1, ps[j := p1]) (c', ps[j := p1, j := p'])"
      by (rule advance [where clock = clock]) (use assms(2) step in simp_all)
    moreover have "setters (ps[j := p1, j := p']) \<le> setters (ps[j := p1])"
      by (rule setters_update) (use setting_step [OF step] assms(2) in simp)
    ultimately show ?case using move [OF reach] reach_setters [OF reach] by simp
  qed
qed

text \<open>Two idle callers, and entries made at the same instant, none of them past the maximal age.\<close>

definition same_instant :: "'v TtlCache \<Rightarrow> bool" where
  "same_instant c \<longleftrightarrow> distinct (map fst (entries c)) \<and> (\<forall>e \<in> set (entries c). inserted (snd e) = 0)"

abbreviation insert_now :: "string \<Rightarrow> 'v \<Rightarrow> 'v TtlCache \<Rightarrow> 'v TtlCache" where
  "insert_now k v c \<equiv> c\<lparr>entries := AList.update k \<lparr>inserted = 0, entry_value = v\<rparr> (entries c)\<rparr>"

lemma same_instant_retain: "same_instant c \<Longrightarrow> cache_retain 0 c = c"
  by (simp add: same_instant_def cache_retain_def elapsed_def filter_id_conv)

lemma update_subset: "set (AList.update k x m) \<subseteq> insert (k, x) (set m)"
  by (induction m) auto

lemma same_instant_insert:
  assumes "same_instant c" "k \<notin> fst ` set (entries c)"
  shows "same_instant (insert_now k v c) \<and> cache_len (insert_now k v c) = Suc (cache_len c)"
proof -
  have "inserted (snd e) = 0" if "e \<in> set (AList.update k \<lparr>inserted = 0, entry_value = v\<rparr> (entries c))" for e
    using that update_subset [of k "\<lparr>inserted = 0, entry_value = v\<rparr>" "entries c"] assms(1) by (auto simp: same_instant_def)
  moreover have "distinct (map fst (AList.update k x (entries c)))" for x
    using assms(1) distinct_update [of "entries c" k x] by (simp add: same_instant_def)
  ultimately show ?thesis using assms(2)
    by (simp add: same_instant_def cache_len_def length_update map_of_eq_None_iff)
qed

lemma same_instant_remove:
  assumes "same_instant c" "k \<in> fst ` set (entries c)"
  shows "same_instant (cache_remove k c) \<and> Suc (cache_len (cache_remove k c)) = cache_len c"
proof -
  have "length (AList.delete k m) + 1 = length m" if "distinct (map fst m)" "k \<in> fst ` set m" for m :: "(string \<times> 'a Entry) list"
    using that
  proof (induction m)
    case (Cons e m)
    then show ?case by (cases "fst e = k") (simp_all add: AList.delete_id)
  qed simp
  then have "length (AList.delete k (entries c)) + 1 = length (entries c)" using assms by (simp add: same_instant_def)
  moreover have "distinct (map fst (AList.delete k (entries c)))"
    using assms(1) distinct_delete [of "entries c" k] by (simp add: same_instant_def)
  moreover have "set (AList.delete k (entries c)) \<subseteq> set (entries c)" by (auto simp: AList.delete_eq case_prod_unfold)
  ultimately show ?thesis using assms(1) by (auto simp: same_instant_def cache_len_def)
qed

lemma fresh_key: "\<exists>k :: string. k \<notin> set ks"
  using ex_new_if_finite [OF infinite_UNIV_listI, of "set ks"] by blast

definition idle :: "'v cache_job list" where
  "idle = [Ended None, Ended None]"

lemma set_alone:
  assumes "\<forall>k. shard k < shards" "1 \<le> w" "cache_reach shards shard w 2 n (c, idle)" "cache_len c < cap c"
  shows "cache_reach shards shard w 2 n (insert_now k v c, idle)"
proof -
  have "cache_move shards shard (c, idle) (c, idle[0 := set_job Some k v])"
    by (rule begin_set) (simp_all add: idle_def)
  then have "cache_reach shards shard w 2 n (c, [SetLen k v 0 0, Ended None])"
    using move [OF assms(3)] assms(2) by (simp add: idle_def set_job_def setters_def)
  from reach_leads [OF this, of 0] solo_with_room [OF assms(1,4), of "\<lambda>_. 0" k v] show ?thesis
    by (simp add: idle_def)
qed

lemma capacity_is_reached:
  assumes "\<forall>k. shard k < shards" "1 \<le> w" "m \<le> max n 1"
  shows "\<exists>c :: 'v TtlCache. cache_reach shards shard w 2 n (c, idle) \<and> same_instant c \<and> cache_len c = m \<and> cap c = max n 1"
  using assms(3)
proof (induction m)
  case 0
  have "cache_reach shards shard w 2 n (cache_new n :: 'v TtlCache, idle)"
    using cache_reach.start [of shards shard w 2 n] by (simp add: idle_def numeral_2_eq_2)
  then show ?case by (intro exI [of _ "cache_new n"]) (simp add: same_instant_def cache_new_def cache_len_def)
next
  case (Suc m)
  then obtain c :: "'v TtlCache" where c: "cache_reach shards shard w 2 n (c, idle)" "same_instant c" "cache_len c = m" "cap c = max n 1"
    by auto
  obtain k where k: "k \<notin> fst ` set (entries c)" using fresh_key [of "map fst (entries c)"] by auto
  have "cache_reach shards shard w 2 n (insert_now k undefined c, idle)"
    by (rule set_alone [OF assms(1,2) c(1)]) (use c Suc.prems in simp)
  then show ?case using same_instant_insert [OF c(2) k] c(3,4) by (intro exI [of _ "insert_now k undefined c"]) simp
qed

text \<open>
  Two calls of \<open>set\<close> that both look at a full map choose the same victim, so that one entry makes room for two.
\<close>

lemma overlapping_sets:
  fixes c :: "'v TtlCache"
  assumes "\<forall>k. shard k < shards" "cache_reach shards shard 2 2 n (c, idle)" "same_instant c"
    and "0 < cap c" "cap c < 20" "cap c \<le> cache_len c"
  shows "\<exists>c' :: 'v TtlCache. cache_reach shards shard 2 2 n (c', idle) \<and> same_instant c' \<and> cache_len c' = Suc (cache_len c) \<and> cap c' = cap c"
proof -
  obtain k1 where k1: "k1 \<notin> fst ` set (entries c)" using fresh_key [of "map fst (entries c)"] by auto
  obtain k2 where k2: "k2 \<notin> insert k1 (fst ` set (entries c))" using fresh_key [of "k1 # map fst (entries c)"] by auto
  define v :: 'v where "v = undefined"
  let ?keys = "snapshot shard shards c"
  have one: "max (cap c div 10) 1 = 1" using assms(5) by (simp add: max_def)
  have "fst ` set ?keys = fst ` set (entries c)"
  proof -
    have "mset ?keys = mset (map (\<lambda>e. (fst e, inserted (snd e))) (entries c))"
      using mset_snapshot [of shard shards c] by (simp add: below_all [OF assms(1)])
    then have "set ?keys = set (map (\<lambda>e. (fst e, inserted (snd e))) (entries c))" by (rule mset_eq_setD)
    then show ?thesis by (simp add: image_image)
  qed
  moreover have "entries c \<noteq> []" using assms(4,6) by (auto simp: cache_len_def)
  ultimately obtain x where x: "x \<in> set (oldest_keys (cap c) ?keys)" "x \<in> fst ` set (entries c)"
    using oldest_keys_member [of ?keys "cap c"] by fastforce
  have "length (oldest_keys (cap c) ?keys) \<le> 1" by (simp add: oldest_keys_def one [simplified])
  then have victims: "oldest_keys (cap c) ?keys = [x]" using x(1) by (cases "oldest_keys (cap c) ?keys") auto
  note retain = same_instant_retain [OF assms(3)]
  have to_victims: "leads shards shard (\<lambda>_. 0) (c, SetLen k v 0 0) (c, SetRemove k v [x])" if "k \<notin> fst ` set (entries c)" for k
    using solo_to_victims [OF assms(1,6), of k 0 v] that by (simp add: map_of_eq_None_iff retain assms(6) victims)
  have finish: "leads shards shard (\<lambda>_. 0) (d, SetRemove k v [x]) (insert_now k v (cache_remove x d), Ended None)" for k d
    using leads_then [OF solo_remove refl, of shards shard "\<lambda>_. 0" d k v "[x]"] by simp
  have "cache_move shards shard (c, idle) (c, idle[0 := set_job Some k1 v])" by (rule begin_set) (simp_all add: idle_def)
  then have "cache_reach shards shard 2 2 n (c, [SetLen k1 v 0 0, Ended None])"
    using move [OF assms(2)] by (simp add: idle_def set_job_def setters_def)
  moreover have "cache_move shards shard (c, [SetLen k1 v 0 0, Ended None])
      (c, [SetLen k1 v 0 0, Ended None][1 := set_job Some k2 v])" by (rule begin_set) simp_all
  ultimately have "cache_reach shards shard 2 2 n (c, [SetLen k1 v 0 0, SetLen k2 v 0 0])"
    using move by (fastforce simp: set_job_def setters_def)
  from reach_leads [OF this, of 0] to_victims [of k1] k1
  have "cache_reach shards shard 2 2 n (c, [SetRemove k1 v [x], SetLen k2 v 0 0])" by simp
  from reach_leads [OF this, of 1] to_victims [of k2] k2
  have "cache_reach shards shard 2 2 n (c, [SetRemove k1 v [x], SetRemove k2 v [x]])" by simp
  from reach_leads [OF this, of 0] finish [of c k1]
  have "cache_reach shards shard 2 2 n (insert_now k1 v (cache_remove x c), [Ended None, SetRemove k2 v [x]])" by simp
  from reach_leads [OF this, of 1] finish [of "insert_now k1 v (cache_remove x c)" k2]
  have reach: "cache_reach shards shard 2 2 n
      (insert_now k2 v (cache_remove x (insert_now k1 v (cache_remove x c))), idle)" by (simp add: idle_def)
  let ?c1 = "insert_now k1 v (cache_remove x c)"
  have gone: "k \<notin> fst ` set (entries (cache_remove x c))" if "k \<notin> fst ` set (entries c)" for k
    using that by (auto simp: AList.delete_eq case_prod_unfold)
  have x_gone: "x \<notin> fst ` set (entries (cache_remove x c))" by (auto simp: AList.delete_eq case_prod_unfold)
  have dom1: "fst ` set (entries ?c1) = insert k1 (fst ` set (entries (cache_remove x c)))"
    using dom_update [of k1 _ "entries (cache_remove x c)"] by (simp add: dom_map_of_conv_image_fst)
  have "x \<noteq> k1" using x(2) k1 by auto
  then have same: "cache_remove x ?c1 = ?c1" using dom1 x_gone by (simp add: cache_remove_absent)
  note rem = same_instant_remove [OF assms(3) x(2)]
  note ins = same_instant_insert [OF rem [THEN conjunct1] gone [OF k1], of v]
  have k2': "k2 \<notin> fst ` set (entries ?c1)" using dom1 gone [of k2] k2 by auto
  note ins2 = same_instant_insert [OF ins [THEN conjunct1] k2', of v]
  show ?thesis using reach rem ins ins2 unfolding same by (intro exI [of _ "insert_now k2 v ?c1"]) simp
qed

lemma overlapping_sets_grow:
  assumes "\<forall>k. shard k < shards" "n < 20"
  shows "\<exists>c :: 'v TtlCache. cache_reach shards shard 2 2 n (c, idle) \<and> same_instant c \<and> cache_len c = m \<and> cap c = max n 1"
proof (induction m)
  case 0
  then show ?case using capacity_is_reached [OF assms(1), of 2 0 n] by simp
next
  case (Suc m)
  show ?case
  proof (cases "Suc m \<le> max n 1")
    case True
    then show ?thesis using capacity_is_reached [OF assms(1), of 2] by simp
  next
    case False
    obtain c :: "'v TtlCache" where c: "cache_reach shards shard 2 2 n (c, idle)" "same_instant c" "cache_len c = m" "cap c = max n 1"
      using Suc by blast
    have "max n 1 \<le> m" using False by linarith
    then have "0 < cap c" "cap c < 20" "cap c \<le> cache_len c" using c(3,4) assms(2) by simp_all
    from overlapping_sets [OF assms(1) c(1,2) this] show ?thesis using c(3,4) by simp
  qed
qed

section \<open>Property\<close>

text \<open>
  C38: The capacity is kept while calls of \<open>set\<close> do not overlap, and only then. Any number of callers share a new cache for
  n entries (one if n is zero), whose map is split into shards in any way. As long as at most one call of \<open>set\<close> is in
  progress at a time, whatever calls of \<open>get\<close> do between its steps, the map never holds more entries than its capacity.
  With two callers whose calls of \<open>set\<close> may overlap it does, when the capacity is below twenty, where an eviction has
  one victim: every size is reached, with no call left in progress.
\<close>

theorem capacity_kept_unless_sets_overlap:
  assumes "\<forall>k. shard k < shards"
  shows "(\<forall>(c :: 'v TtlCache) ps. cache_reach shards shard 1 callers n (c, ps) \<longrightarrow> cache_len c \<le> max n 1)
    \<and> (n < 20 \<longrightarrow> (\<forall>m. \<exists>c :: 'v TtlCache. cache_reach shards shard 2 2 n (c, [Ended None, Ended None]) \<and> cache_len c = m))"
proof
  have "cache_len c \<le> max n 1" if "cache_reach shards shard 1 callers n (c, ps)" for c :: "'v TtlCache" and ps
    using serial_sets_fit [OF assms that] by (simp add: caller_inv_def cache_fits_def)
  then show "\<forall>(c :: 'v TtlCache) ps. cache_reach shards shard 1 callers n (c, ps) \<longrightarrow> cache_len c \<le> max n 1" by blast
  have "\<exists>c :: 'v TtlCache. cache_reach shards shard 2 2 n (c, [Ended None, Ended None]) \<and> cache_len c = m" if "n < 20" for m
    using overlapping_sets_grow [OF assms that, of m] by (auto simp: idle_def)
  then show "n < 20 \<longrightarrow> (\<forall>m. \<exists>c :: 'v TtlCache. cache_reach shards shard 2 2 n (c, [Ended None, Ended None]) \<and> cache_len c = m)"
    by blast
qed

theorem capacity_kept_unless_sets_overlap_witness:
  "(\<exists>c :: nat TtlCache. cache_reach 2 (\<lambda>k. length k mod 2) 1 2 4 (c, [Ended None, Ended None]) \<and> cache_len c = 4)
   \<and> (\<exists>c :: nat TtlCache. cache_reach 2 (\<lambda>k. length k mod 2) 2 2 4 (c, [Ended None, Ended None]) \<and> cache_len c = 9
        \<and> \<not> cache_reach 2 (\<lambda>k. length k mod 2) 1 2 4 (c, [Ended None, Ended None]))"
proof
  have shards: "\<forall>k :: string. length k mod 2 < 2" by simp
  show "\<exists>c :: nat TtlCache. cache_reach 2 (\<lambda>k. length k mod 2) 1 2 4 (c, [Ended None, Ended None]) \<and> cache_len c = 4"
    using capacity_is_reached [OF shards, of 1 4 4] by (auto simp: idle_def)
  note both = capacity_kept_unless_sets_overlap [OF shards, where callers = 2 and n = 4 and 'v = nat]
  from both [THEN conjunct2]
  obtain c :: "nat TtlCache" where c: "cache_reach 2 (\<lambda>k. length k mod 2) 2 2 4 (c, [Ended None, Ended None])" "cache_len c = 9"
    by auto
  moreover have "\<not> cache_reach 2 (\<lambda>k. length k mod 2) 1 2 4 (c, [Ended None, Ended None])"
  proof
    assume "cache_reach 2 (\<lambda>k. length k mod 2) 1 2 4 (c, [Ended None, Ended None])"
    then have "cache_len c \<le> max 4 1" using both [THEN conjunct1] by blast
    then show False using c(2) by simp
  qed
  ultimately show "\<exists>c :: nat TtlCache. cache_reach 2 (\<lambda>k. length k mod 2) 2 2 4 (c, [Ended None, Ended None]) \<and> cache_len c = 9
      \<and> \<not> cache_reach 2 (\<lambda>k. length k mod 2) 1 2 4 (c, [Ended None, Ended None])" by blast
qed

end
