(* ===== verification/F64_Order.thy ===== *)
theory F64_Order
  imports F64
begin

text \<open>
  What the executable operations of \<open>F64\<close> compute, in the reals. \<open>RN\<close> rounds a
  positive real to 53 significant bits (fewer below \<open>2^-1022\<close>), half to even; \<open>fround_cases\<close>
  shows that \<open>fround\<close> is \<open>RN\<close> with overflow to an infinity. \<open>rv\<close> values every
  non-NaN number so that the comparisons are those of the reals (\<open>flt_rv\<close>, \<open>fle_rv\<close>) and
  each operation on finite numbers is the rounded real operation (\<open>fadd_finite\<close> to
  \<open>fdiv_finite\<close>); rounding \<open>RS\<close> is monotone and the identity on representable numbers.
\<close>

section \<open>The executable rounding is rounding of reals\<close>

text \<open>Integer powers of two.\<close>

definition pw :: "int \<Rightarrow> real" where
  "pw e = 2 powr real_of_int e"

lemma pw_pos [simp]: "0 < pw e" "0 \<le> pw e" "pw e \<noteq> 0"
  by (simp_all add: pw_def)

lemma pw_add: "pw (a + b) = pw a * pw b"
  by (simp add: pw_def powr_add)

lemma pw_diff: "pw (a - b) = pw a / pw b"
  by (simp add: pw_def powr_diff)

lemma pw_0 [simp]: "pw 0 = 1"
  by (simp add: pw_def)

lemma pw_nat: "0 \<le> e \<Longrightarrow> pw e = 2 ^ nat e"
  by (simp add: pw_def flip: powr_realpow)

lemma pw_neg_nat: "e \<le> 0 \<Longrightarrow> pw e * 2 ^ nat (- e) = 1"
  using pw_add [of e "- e"] by (simp add: pw_nat)

lemma pw_le [simp]: "pw a \<le> pw b \<longleftrightarrow> a \<le> b"
  by (simp add: pw_def)

lemma pw_less [simp]: "pw a < pw b \<longleftrightarrow> a < b"
  by (simp add: pw_def)

lemma pw_Suc: "pw (a + 1) = 2 * pw a"
  by (simp add: pw_def powr_add)

lemma pw_of_nat: "pw (int n) = 2 ^ n"
  by (simp add: pw_nat)

lemma ilog2_bounds: "0 < n \<Longrightarrow> 2 ^ ilog2 n \<le> n \<and> n < 2 ^ Suc (ilog2 n)"
proof (induction n rule: ilog2.induct)
  case (1 n)
  show ?case
  proof (cases "n < 2")
    case True
    with "1.prems" show ?thesis by (simp add: ilog2.simps [of n])
  next
    case False
    then have "2 ^ ilog2 (n div 2) \<le> n div 2 \<and> n div 2 < 2 ^ Suc (ilog2 (n div 2))"
      using "1.IH" by simp
    with False show ?thesis by (simp add: ilog2.simps [of n]) linarith
  qed
qed

lemma ilog2_real:
  assumes "0 < n"
  shows "pw (int (ilog2 n)) \<le> real n" "real n < pw (int (ilog2 n) + 1)"
proof -
  have "real (2 ^ ilog2 n) \<le> real n" using ilog2_bounds [OF assms] by (simp only: of_nat_le_iff)
  then show "pw (int (ilog2 n)) \<le> real n" by (simp add: pw_of_nat)
  have "real n < real (2 ^ Suc (ilog2 n))" using ilog2_bounds [OF assms] by (simp only: of_nat_less_iff)
  then show "real n < pw (int (ilog2 n) + 1)" by (simp add: pw_of_nat pw_Suc)
qed

lemma scaled_le_iff:
  "(if 0 \<le> k then d * 2 ^ nat k \<le> n else d \<le> n * 2 ^ nat (- k)) \<longleftrightarrow> real d * pw k \<le> real n"
proof (cases "0 \<le> k")
  case True
  have "d * 2 ^ nat k \<le> n \<longleftrightarrow> real (d * 2 ^ nat k) \<le> real n"
    by (simp only: of_nat_le_iff)
  also have "real (d * 2 ^ nat k) = real d * pw k" using True by (simp add: pw_nat)
  finally show ?thesis using True by simp
next
  case False
  then have p: "2 ^ nat (- k) = 1 / pw k" using pw_neg_nat [of k] by (simp add: field_simps)
  have "d \<le> n * 2 ^ nat (- k) \<longleftrightarrow> real d \<le> real (n * 2 ^ nat (- k))"
    by (simp only: of_nat_le_iff)
  also have "real (n * 2 ^ nat (- k)) = real n / pw k" by (simp add: p)
  also have "real d \<le> real n / pw k \<longleftrightarrow> real d * pw k \<le> real n" by (simp add: pos_le_divide_eq)
  finally show ?thesis using False by simp
qed

lemma flog2_bounds:
  assumes "0 < n" "0 < d"
  shows "pw (flog2 n d) \<le> real n / real d" "real n / real d < pw (flog2 n d + 1)"
proof -
  define k where "k = int (ilog2 n) - int (ilog2 d)"
  have n: "pw (int (ilog2 n)) \<le> real n" "real n < pw (int (ilog2 n) + 1)"
    and d: "pw (int (ilog2 d)) \<le> real d" "real d < pw (int (ilog2 d) + 1)"
    using assms ilog2_real by blast+
  have dpos: "0 < real d" using assms by simp
  have eq: "flog2 n d = (if real d * pw k \<le> real n then k else k - 1)"
    unfolding flog2_def scaled_le_iff k_def Let_def by simp
  have up: "real n < real d * pw (k + 1)"
  proof -
    have "pw (int (ilog2 n) + 1) = pw (int (ilog2 d)) * pw (k + 1)"
      unfolding k_def by (simp flip: pw_add)
    also have "\<dots> \<le> real d * pw (k + 1)" using d(1) by (intro mult_right_mono) simp_all
    finally show ?thesis using n(2) by linarith
  qed
  have low: "real d * pw (k - 1) \<le> real n"
  proof -
    have "real d * pw (k - 1) \<le> pw (int (ilog2 d) + 1) * pw (k - 1)"
      using d(2) by (intro mult_right_mono) simp_all
    also have "\<dots> = pw (int (ilog2 n))" unfolding k_def by (simp flip: pw_add)
    finally show ?thesis using n(1) by linarith
  qed
  show "pw (flog2 n d) \<le> real n / real d"
    using low dpos by (simp add: eq field_simps)
  show "real n / real d < pw (flog2 n d + 1)"
    using up dpos by (auto simp: eq field_simps)
qed

lemma floor_log_unique: "pw k \<le> x \<Longrightarrow> x < pw (k + 1) \<Longrightarrow> \<lfloor>log 2 x\<rfloor> = k"
proof -
  assume a: "pw k \<le> x" and b: "x < pw (k + 1)"
  have "0 < x" using a pw_pos [of k] by linarith
  then have "real_of_int k \<le> log 2 x" "log 2 x < real_of_int k + 1"
    using a b by (simp_all add: le_log_iff log_less_iff pw_def)
  then show ?thesis by (simp add: floor_eq_iff)
qed

text \<open>Round half to even on the reals.\<close>

definition rnr :: "real \<Rightarrow> int" where
  "rnr y = (let f = \<lfloor>y\<rfloor>; r = y - real_of_int f
            in if 1 / 2 < r \<or> (r = 1 / 2 \<and> odd f) then f + 1 else f)"

lemma rnr_of_int [simp]: "rnr (real_of_int i) = i"
  by (simp add: rnr_def)

lemma rnr_mono:
  assumes "y \<le> z"
  shows "rnr y \<le> rnr z"
proof -
  have fl: "\<lfloor>y\<rfloor> \<le> \<lfloor>z\<rfloor>" using assms by (rule floor_mono)
  show ?thesis
  proof (cases "\<lfloor>y\<rfloor> = \<lfloor>z\<rfloor>")
    case True
    then show ?thesis using assms by (auto simp: rnr_def Let_def)
  next
    case False
    then show ?thesis using fl by (auto simp: rnr_def Let_def)
  qed
qed

lemma rnr_le: "y \<le> real_of_int i \<Longrightarrow> rnr y \<le> i"
  using rnr_mono [of y "real_of_int i"] by simp

lemma rnr_ge: "real_of_int i \<le> y \<Longrightarrow> i \<le> rnr y"
  using rnr_mono [of "real_of_int i" y] by simp

lemma rne_rnr:
  assumes "0 < d"
  shows "int (rne n d) = rnr (real n / real d)"
proof -
  have fl: "\<lfloor>real n / real d\<rfloor> = int (n div d)"
    by (simp add: floor_divide_of_nat_eq)
  have "real n / real d = real (n div d) + real (n mod d) / real d"
    using assms by (simp add: field_simps flip: of_nat_mult of_nat_add)
  then have fr: "real n / real d - real_of_int (int (n div d)) = real (n mod d) / real d"
    by simp
  have half: "1 / 2 < real (n mod d) / real d \<longleftrightarrow> d < 2 * (n mod d)"
  proof -
    have "1 / 2 < real (n mod d) / real d \<longleftrightarrow> real d < 2 * real (n mod d)"
      using assms by (simp add: field_simps)
    also have "\<dots> \<longleftrightarrow> d < 2 * (n mod d)"
      by (metis of_nat_less_iff of_nat_mult of_nat_numeral)
    finally show ?thesis .
  qed
  have tie: "real (n mod d) / real d = 1 / 2 \<longleftrightarrow> 2 * (n mod d) = d"
  proof -
    have "real (n mod d) / real d = 1 / 2 \<longleftrightarrow> 2 * real (n mod d) = real d"
      using assms by (auto simp add: field_simps)
    also have "\<dots> \<longleftrightarrow> 2 * (n mod d) = d"
      by (metis of_nat_eq_iff of_nat_mult of_nat_numeral)
    finally show ?thesis .
  qed
  show ?thesis
    unfolding rne_def rnr_def Let_def fl fr half tie by simp
qed

text \<open>The exponent of the last place at \<open>x\<close>, and rounding of a positive real.\<close>

definition lastp :: "real \<Rightarrow> int" where
  "lastp x = max (- 1074) (\<lfloor>log 2 x\<rfloor> - 52)"

definition RN :: "real \<Rightarrow> real" where
  "RN x = real_of_int (rnr (x / pw (lastp x))) * pw (lastp x)"

lemma floor_log_bounds:
  assumes "0 < x"
  shows "pw \<lfloor>log 2 x\<rfloor> \<le> x" "x < pw (\<lfloor>log 2 x\<rfloor> + 1)"
proof -
  have "x = 2 powr log 2 x" using assms by simp
  moreover have "2 powr real_of_int \<lfloor>log 2 x\<rfloor> \<le> 2 powr log 2 x"
    "2 powr log 2 x < 2 powr real_of_int (\<lfloor>log 2 x\<rfloor> + 1)"
    by (simp_all add: powr_less_cancel_iff)
  ultimately show "pw \<lfloor>log 2 x\<rfloor> \<le> x" "x < pw (\<lfloor>log 2 x\<rfloor> + 1)"
    unfolding pw_def by simp_all
qed

text \<open>Numbers that are multiples of the last place at \<open>x\<close> bound the rounded value as they bound \<open>x\<close>.\<close>

lemma RN_le_multiple:
  assumes "x \<le> real_of_int i * pw (lastp x)"
  shows "RN x \<le> real_of_int i * pw (lastp x)"
proof -
  have "x / pw (lastp x) \<le> real_of_int i" using assms by (simp add: pos_divide_le_eq)
  then have "rnr (x / pw (lastp x)) \<le> i" by (rule rnr_le)
  then show ?thesis unfolding RN_def by (intro mult_right_mono) simp_all
qed

lemma RN_ge_multiple:
  assumes "real_of_int i * pw (lastp x) \<le> x"
  shows "real_of_int i * pw (lastp x) \<le> RN x"
proof -
  have "real_of_int i \<le> x / pw (lastp x)" using assms by (simp add: pos_le_divide_eq)
  then have "i \<le> rnr (x / pw (lastp x))" by (rule rnr_ge)
  then show ?thesis unfolding RN_def by (intro mult_right_mono) simp_all
qed

lemma pw_multiple: "t \<le> k \<Longrightarrow> \<exists>i. pw k = real_of_int i * pw t"
proof -
  assume "t \<le> k"
  then have "pw k = pw (k - t) * pw t" by (simp flip: pw_add)
  also have "pw (k - t) = real_of_int (2 ^ nat (k - t))"
    using \<open>t \<le> k\<close> by (simp add: pw_nat)
  finally show ?thesis by blast
qed

lemma RN_upper:
  assumes "0 < x"
  shows "RN x \<le> pw (max (- 1074) (\<lfloor>log 2 x\<rfloor> + 1))"
proof -
  have "lastp x \<le> max (- 1074) (\<lfloor>log 2 x\<rfloor> + 1)" unfolding lastp_def by linarith
  then obtain i where i: "pw (max (- 1074) (\<lfloor>log 2 x\<rfloor> + 1)) = real_of_int i * pw (lastp x)"
    using pw_multiple by blast
  have "pw (\<lfloor>log 2 x\<rfloor> + 1) \<le> pw (max (- 1074) (\<lfloor>log 2 x\<rfloor> + 1))" by simp
  then have "x \<le> real_of_int i * pw (lastp x)"
    using floor_log_bounds(2) [OF assms] i by linarith
  then show ?thesis using RN_le_multiple i by metis
qed

lemma RN_lower:
  assumes "pw k \<le> x" "- 1074 \<le> k"
  shows "pw k \<le> RN x"
proof -
  have xpos: "0 < x" using assms(1) pw_pos [of k] by linarith
  define j where "j = \<lfloor>log 2 x\<rfloor>"
  have "k \<le> j"
  proof -
    have "pw k < pw (j + 1)" using assms(1) floor_log_bounds(2) [OF xpos] unfolding j_def by linarith
    then show ?thesis by simp
  qed
  then have "lastp x \<le> j" using assms(2) unfolding lastp_def j_def by linarith
  then obtain i where i: "pw j = real_of_int i * pw (lastp x)" using pw_multiple by blast
  have "pw j \<le> x" using floor_log_bounds(1) [OF xpos] unfolding j_def .
  then have "pw j \<le> RN x" using RN_ge_multiple i by metis
  moreover have "pw k \<le> pw j" using \<open>k \<le> j\<close> by simp
  ultimately show ?thesis by linarith
qed

lemma RN_nonneg: "0 < x \<Longrightarrow> 0 \<le> RN x"
  using RN_ge_multiple [of 0 x] by simp

lemma RN_mono:
  assumes "0 < x" "x \<le> y"
  shows "RN x \<le> RN y"
proof (cases "lastp x = lastp y")
  case True
  have "x / pw (lastp x) \<le> y / pw (lastp y)" using assms True by (simp add: divide_right_mono)
  then show ?thesis unfolding RN_def True by (intro mult_right_mono) (simp_all add: rnr_mono)
next
  case False
  have y: "0 < y" using assms by simp
  have "log 2 x \<le> log 2 y" using assms by simp
  then have le: "\<lfloor>log 2 x\<rfloor> \<le> \<lfloor>log 2 y\<rfloor>" by (rule floor_mono)
  then have lt: "\<lfloor>log 2 x\<rfloor> + 1 \<le> \<lfloor>log 2 y\<rfloor>" and "- 1074 \<le> \<lfloor>log 2 y\<rfloor>"
    using False unfolding lastp_def by linarith+
  have "RN x \<le> pw (max (- 1074) (\<lfloor>log 2 x\<rfloor> + 1))" using assms(1) by (rule RN_upper)
  also have "\<dots> \<le> pw \<lfloor>log 2 y\<rfloor>" using lt \<open>- 1074 \<le> \<lfloor>log 2 y\<rfloor>\<close> by simp
  also have "\<dots> \<le> RN y"
    using floor_log_bounds(1) [OF y] \<open>- 1074 \<le> \<lfloor>log 2 y\<rfloor>\<close> by (rule RN_lower)
  finally show ?thesis .
qed

lemma RN_id:
  assumes "x = real m * pw e" "0 < m" "m < 2 ^ 53" "- 1074 \<le> e"
  shows "RN x = x"
proof -
  have "0 < x" using assms by simp
  have "real m < real (2 ^ 53)" using assms(3) by (simp only: of_nat_less_iff)
  then have "x < pw (53 + e)" unfolding pw_add by (simp add: assms(1) pw_nat)
  moreover have "pw \<lfloor>log 2 x\<rfloor> \<le> x" using \<open>0 < x\<close> by (rule floor_log_bounds)
  ultimately have "pw \<lfloor>log 2 x\<rfloor> < pw (53 + e)" by linarith
  then have "lastp x \<le> e" using assms(4) unfolding lastp_def by simp
  then obtain i where "pw e = real_of_int i * pw (lastp x)" using pw_multiple by blast
  then have x: "x = real_of_int (int m * i) * pw (lastp x)" by (simp add: assms(1))
  then show ?thesis using RN_le_multiple [of x "int m * i"] RN_ge_multiple [of "int m * i" x] by linarith
qed

lemma RN_pw: "- 1074 \<le> k \<Longrightarrow> RN (pw k) = pw k"
  by (rule RN_id [where m = 1 and e = k]) simp_all

lemma flog2_lastp:
  assumes "0 < n" "0 < d"
  shows "\<lfloor>log 2 (real n / real d * pw e)\<rfloor> = flog2 n d + e"
proof (rule floor_log_unique)
  show "pw (flog2 n d + e) \<le> real n / real d * pw e"
    unfolding pw_add using flog2_bounds [OF assms] by (intro mult_right_mono) simp_all
  have "pw (flog2 n d + e + 1) = pw (flog2 n d + 1) * pw e"
    by (simp add: pw_add [symmetric] ac_simps)
  also have "real n / real d * pw e < \<dots>"
    using flog2_bounds [OF assms] by (intro mult_strict_right_mono) simp_all
  finally show "real n / real d * pw e < pw (flog2 n d + e + 1)" .
qed

lemma rne_scaled:
  assumes "0 < d"
  shows "int (if 0 \<le> sh then rne (n * 2 ^ nat sh) d else rne n (d * 2 ^ nat (- sh)))
    = rnr (real n / real d * pw sh)"
proof (cases "0 \<le> sh")
  case True
  then show ?thesis using assms by (simp add: rne_rnr pw_nat)
next
  case False
  then have "2 ^ nat (- sh) = 1 / pw sh" using pw_neg_nat [of sh] by (simp add: field_simps)
  with False assms show ?thesis by (simp add: rne_rnr)
qed

text \<open>The significand before the carry into the next binade: at most 53 bits, at least 53 above the least exponent.\<close>

lemma rnr_significand:
  assumes "0 < x"
  shows "rnr (x / pw (lastp x)) \<le> 2 ^ 53"
    and "0 \<le> rnr (x / pw (lastp x))"
    and "- 1074 < lastp x \<Longrightarrow> 2 ^ 52 \<le> rnr (x / pw (lastp x))"
proof -
  have "x < pw (\<lfloor>log 2 x\<rfloor> + 1)" using assms by (rule floor_log_bounds)
  also have "\<dots> \<le> pw (53 + lastp x)" unfolding lastp_def by simp
  finally have "x / pw (lastp x) \<le> real_of_int (2 ^ 53)"
    by (simp add: pos_divide_le_eq pw_add pw_nat)
  then show "rnr (x / pw (lastp x)) \<le> 2 ^ 53" by (rule rnr_le)
  have "real_of_int 0 \<le> x / pw (lastp x)" using assms by simp
  then show "0 \<le> rnr (x / pw (lastp x))" by (rule rnr_ge)
  assume "- 1074 < lastp x"
  then have "lastp x + 52 = \<lfloor>log 2 x\<rfloor>" unfolding lastp_def by linarith
  then have "pw (52 + lastp x) \<le> x" using floor_log_bounds(1) [OF assms] by (simp add: add.commute)
  then have "real_of_int (2 ^ 52) \<le> x / pw (lastp x)"
    by (simp add: pos_le_divide_eq pw_add pw_nat)
  then show "2 ^ 52 \<le> rnr (x / pw (lastp x))" by (rule rnr_ge)
qed

lemma fround_unfold:
  assumes "0 < n" "0 < d"
    and x_def: "x = real n / real d * pw e"
    and q_def: "q = nat (rnr (x / pw (lastp x)))"
  shows "fround s n d e =
    (let (q', t') = (if q < 2 ^ 53 then (q, lastp x) else (2 ^ 52, lastp x + 1))
     in if 971 < t' then FInf s else FNum s q' t')"
proof -
  have t: "max (- 1074) (flog2 n d + e - 52) = lastp x"
    unfolding lastp_def x_def flog2_lastp [OF assms(1,2)] ..
  have xd: "x / pw (lastp x) = real n / real d * pw (e - lastp x)"
    by (simp add: x_def pw_diff)
  have q: "(if 0 \<le> e - lastp x then rne (n * 2 ^ nat (e - lastp x)) d
      else rne n (d * 2 ^ nat (- (e - lastp x)))) = q"
    unfolding q_def xd using rne_scaled [OF assms(2), of "e - lastp x" n] by simp
  show ?thesis
    unfolding fround_def t Let_def q using assms(1) by simp
qed

lemma fround_cases:
  assumes "0 < n" "0 < d"
    and x_def: "x = real n / real d * pw e"
  obtains (finite) m t where "fround s n d e = FNum s m t" "f64_ok (FNum s m t)"
      "real m * pw t = RN x" "RN x < pw 1024"
  | (overflow) "fround s n d e = FInf s" "pw 1024 \<le> RN x"
proof -
  have x: "0 < x" using assms by simp
  define q where "q = nat (rnr (x / pw (lastp x)))"
  have RN: "RN x = real q * pw (lastp x)"
    using rnr_significand(2) [OF x] by (simp add: RN_def q_def)
  have q53: "q \<le> 2 ^ 53" using rnr_significand(1) [OF x] by (simp add: q_def nat_le_iff)
  have q52: "2 ^ 52 \<le> q" if "- 1074 < lastp x"
    using rnr_significand(3) [OF x that] by (simp add: q_def)
  define p where "p = (if q < 2 ^ 53 then (q, lastp x) else (2 ^ 52, lastp x + 1))"
  obtain q' t' where p': "p = (q', t')" by (cases p)
  have fr: "fround s n d e = (if 971 < t' then FInf s else FNum s q' t')"
    using fround_unfold [OF assms(1,2) x_def q_def, of s] p' unfolding p_def by simp
  have lp: "- 1074 \<le> lastp x" "lastp x = - 1074 \<or> - 1074 < lastp x" by (auto simp: lastp_def)
  have val: "real q' * pw t' = RN x"
    using p' q53 by (auto simp: p_def RN pw_Suc split: if_splits)
  have bounds: "q' < 2 ^ 53" "- 1074 \<le> t'" "q' < 2 ^ 52 \<longrightarrow> t' = - 1074"
    using lp(2) p' q52 lp(1) by (auto simp: p_def split: if_splits)
  show thesis
  proof (cases "971 < t'")
    case True
    then have "2 ^ 52 \<le> q'" using bounds by linarith
    then have "real (2 ^ 52) \<le> real q'" by (simp only: of_nat_le_iff)
    then have "pw 52 \<le> real q'" by (simp add: pw_nat)
    moreover have "pw 972 \<le> pw t'" using True by simp
    ultimately have "pw 52 * pw 972 \<le> real q' * pw t'" by (intro mult_mono) simp_all
    then have "pw 1024 \<le> RN x" by (simp add: val pw_add [symmetric])
    with True show thesis using fr by (intro overflow) simp_all
  next
    case False
    have "real q' < real (2 ^ 53)" using bounds by (simp only: of_nat_less_iff)
    then have "real q' < pw 53" by (simp add: pw_nat)
    moreover have "pw t' \<le> pw 971" using False by simp
    ultimately have "real q' * pw t' < pw 53 * pw 971" by (intro mult_less_le_imp_less) simp_all
    then have "RN x < pw 1024" by (simp add: val pw_add [symmetric])
    with False show thesis using fr bounds val by (intro finite) auto
  qed
qed

section \<open>Real proxies of all non-NaN values\<close>

definition sg :: "bool \<Rightarrow> real" where
  "sg s = (if s then - 1 else 1)"

text \<open>
  The real value of a finite number; an infinity is valued at \<open>\<plusminus>2^1024\<close>, just outside the
  finite range, which makes the order of the floats that of the reals.
\<close>

fun rv :: "f64 \<Rightarrow> real" where
  "rv FNaN = 0"
| "rv (FInf s) = sg s * pw 1024"
| "rv (FNum s m e) = sg s * real m * pw e"

text \<open>A number a program can hold that is not a NaN.\<close>

definition good :: "f64 \<Rightarrow> bool" where
  "good a \<longleftrightarrow> f64_ok a \<and> \<not> is_nan a"

text \<open>Rounding of any real, saturating at the infinities.\<close>

definition RS :: "real \<Rightarrow> real" where
  "RS y = (if y = 0 then 0 else sgn y * min (RN \<bar>y\<bar>) (pw 1024))"

lemma RS_0 [simp]: "RS 0 = 0"
  by (simp add: RS_def)

lemma RS_pos: "0 < y \<Longrightarrow> RS y = min (RN y) (pw 1024)"
  by (simp add: RS_def)

lemma RS_minus: "RS (- y) = - RS y"
  by (simp add: RS_def sgn_minus)

lemma RS_nonneg: "0 \<le> y \<Longrightarrow> 0 \<le> RS y"
  using RN_nonneg [of y] by (cases "y = 0") (simp_all add: RS_pos)

lemma RS_mono: "y \<le> z \<Longrightarrow> RS y \<le> RS z"
proof -
  assume le: "y \<le> z"
  consider "0 \<le> y" | "y < 0" "0 \<le> z" | "z < 0" using le by linarith
  then show ?thesis
  proof cases
    case 1
    then show ?thesis
      using le RN_mono [of y z] RS_nonneg [of z] by (cases "y = 0") (auto simp: RS_pos min_def)
  next
    case 2
    then show ?thesis using RS_nonneg [of "- y"] RS_nonneg [of z] RS_minus [of y] by simp
  next
    case 3
    then show ?thesis
      using le RN_mono [of "- z" "- y"] RS_minus [of y] RS_minus [of z] RS_pos [of "- y"] RS_pos [of "- z"]
      by (auto simp: min_def split: if_splits)
  qed
qed

lemma RS_sg: "RS (sg s * y) = sg s * RS y"
  by (simp add: sg_def RS_minus)

lemma real_bound: "m < 2 ^ 53 \<Longrightarrow> e \<le> 971 \<Longrightarrow> real m * pw e < pw 1024"
proof -
  assume "m < 2 ^ 53" "e \<le> 971"
  then have "real m < real (2 ^ 53)" by (simp only: of_nat_less_iff)
  then have "real m < pw 53" by (simp add: pw_nat)
  moreover have "pw e \<le> pw 971" using \<open>e \<le> 971\<close> by simp
  ultimately have "real m * pw e < pw 53 * pw 971" by (intro mult_less_le_imp_less) simp_all
  then show ?thesis by (simp add: pw_add [symmetric])
qed

lemma rv_finite_bound: "f64_ok a \<Longrightarrow> is_finite a \<Longrightarrow> \<bar>rv a\<bar> < pw 1024"
  by (cases a) (auto simp: sg_def abs_mult real_bound)

lemma RS_rv:
  assumes "good a"
  shows "RS (rv a) = rv a"
proof (cases a)
  case FNaN
  then show ?thesis by simp
next
  case (FInf s)
  have "RS (pw 1024) = pw 1024" by (simp add: RS_pos RN_pw)
  then show ?thesis by (simp add: FInf RS_sg)
next
  case (FNum s m e)
  with assms have ok: "m < 2 ^ 53" "- 1074 \<le> e" "e \<le> 971" by (simp_all add: good_def)
  have "RS (real m * pw e) = real m * pw e"
  proof (cases "m = 0")
    case False
    then have "RN (real m * pw e) = real m * pw e" using ok RN_id by blast
    then show ?thesis using False real_bound [OF ok(1,3)] by (simp add: RS_pos min_def)
  qed simp
  then show ?thesis using RS_sg [of s "real m * pw e"] by (simp add: FNum mult.assoc)
qed

lemma fround_good [simp]: "0 < d \<Longrightarrow> good (fround s n d e)"
proof (cases "n = 0")
  case True
  then show ?thesis by (simp add: good_def fround_def)
next
  case False
  assume "0 < d"
  with False have "0 < n" by simp
  then show ?thesis using \<open>0 < d\<close> refl
    by (cases rule: fround_cases [where s = s and e = e]) (simp_all add: good_def)
qed

lemma rv_fround:
  assumes "0 < d"
  shows "rv (fround s n d e) = RS (sg s * (real n / real d * pw e))"
proof (cases "n = 0")
  case True
  then show ?thesis by (simp add: fround_def)
next
  case False
  then have n: "0 < n" by simp
  define x where "x = real n / real d * pw e"
  have x: "0 < x" using n assms by (simp add: x_def)
  have "rv (fround s n d e) = sg s * RS x"
    using n assms x_def
  proof (cases rule: fround_cases [where s = s])
    case (finite m t)
    then show ?thesis using x by (simp add: RS_pos mult.assoc)
  next
    case overflow
    then show ?thesis using x by (simp add: RS_pos min_def)
  qed
  also have "\<dots> = RS (sg s * x)" by (simp only: RS_sg)
  finally show ?thesis by (simp only: x_def)
qed

section \<open>Comparisons are those of the real proxies\<close>

lemma sgnm_scaled: "k \<le> e \<Longrightarrow> real_of_int (sgnm s (m * 2 ^ nat (e - k))) * pw k = sg s * real m * pw e"
  by (simp add: sgnm_def sg_def pw_nat [symmetric] pw_diff)

lemma flt_rv:
  assumes "good a" "good b"
  shows "flt a b \<longleftrightarrow> rv a < rv b"
proof (cases a)
  case FNaN
  with assms show ?thesis by (simp add: good_def)
next
  case (FInf s)
  have fb: "is_finite b \<Longrightarrow> \<bar>rv b\<bar> < pw 1024" using assms rv_finite_bound by (simp add: good_def)
  show ?thesis
  proof (cases "is_finite b")
    case True
    then have "flt a b \<longleftrightarrow> s" using FInf by (cases b) simp_all
    then show ?thesis using fb True by (auto simp: FInf sg_def)
  next
    case False
    then show ?thesis using assms FInf by (cases b) (auto simp: good_def sg_def)
  qed
next
  case (FNum s m e)
  have fa: "\<bar>rv a\<bar> < pw 1024" using assms(1) FNum by (intro rv_finite_bound) (simp_all add: good_def)
  show ?thesis
  proof (cases b)
    case FNaN
    with assms show ?thesis by (simp add: good_def)
  next
    case (FInf s')
    then have "flt a b \<longleftrightarrow> \<not> s'" using FNum by simp
    then show ?thesis using fa unfolding FInf rv.simps sg_def by auto
  next
    case b: (FNum s' m' e')
    define k where "k = min e e'"
    have "flt a b \<longleftrightarrow> real_of_int (sgnm s (m * 2 ^ nat (e - k))) < real_of_int (sgnm s' (m' * 2 ^ nat (e' - k)))"
      by (simp add: FNum b k_def Let_def)
    also have "\<dots> \<longleftrightarrow> real_of_int (sgnm s (m * 2 ^ nat (e - k))) * pw k < real_of_int (sgnm s' (m' * 2 ^ nat (e' - k))) * pw k"
      by simp
    also have "\<dots> \<longleftrightarrow> rv a < rv b" by (simp only: sgnm_scaled k_def min.cobounded1 min.cobounded2 FNum b rv.simps)
    finally show ?thesis .
  qed
qed

lemma good_not_nan [simp]: "good a \<Longrightarrow> \<not> is_nan a"
  by (simp add: good_def)

lemma fle_rv: "good a \<Longrightarrow> good b \<Longrightarrow> fle a b \<longleftrightarrow> rv a \<le> rv b"
  by (auto simp: fle_def flt_rv)

lemma feq_rv: "good a \<Longrightarrow> good b \<Longrightarrow> feq a b \<longleftrightarrow> rv a = rv b"
  by (auto simp: feq_def fle_rv)

lemma flt_nan: "flt a b \<Longrightarrow> \<not> is_nan a \<and> \<not> is_nan b"
  by (cases a; cases b) simp_all

lemma flt_good: "f64_ok a \<Longrightarrow> f64_ok b \<Longrightarrow> flt a b \<Longrightarrow> good a \<and> good b"
  using flt_nan by (simp add: good_def)

lemma fle_good: "f64_ok a \<Longrightarrow> f64_ok b \<Longrightarrow> fle a b \<Longrightarrow> good a \<and> good b"
  by (simp add: good_def fle_def)

lemma flt_irrefl [simp]: "\<not> flt a a"
  by (cases a) (simp_all add: Let_def)

lemma flt_trans: "good a \<Longrightarrow> good b \<Longrightarrow> good c \<Longrightarrow> flt a b \<Longrightarrow> flt b c \<Longrightarrow> flt a c"
  by (simp add: flt_rv)

lemma fle_refl [simp]: "fle a a \<longleftrightarrow> \<not> is_nan a"
  by (simp add: fle_def)

lemma fle_trans: "f64_ok a \<Longrightarrow> f64_ok b \<Longrightarrow> f64_ok c \<Longrightarrow> fle a b \<Longrightarrow> fle b c \<Longrightarrow> fle a c"
  using fle_good [of a b] fle_good [of b c] by (simp add: fle_rv)

lemma flt_imp_fle: "good a \<Longrightarrow> good b \<Longrightarrow> flt a b \<Longrightarrow> fle a b"
  by (simp add: flt_rv fle_rv)

lemma fle_total: "good a \<Longrightarrow> good b \<Longrightarrow> fle a b \<or> fle b a"
  by (auto simp: fle_rv)

lemma not_flt_iff: "good a \<Longrightarrow> good b \<Longrightarrow> \<not> flt a b \<longleftrightarrow> fle b a"
  by (auto simp: flt_rv fle_rv)

section \<open>Arithmetic is rounded real arithmetic\<close>

lemma rv_zero [simp]: "rv fzero = 0" "rv fnegzero = 0"
  by (simp_all add: fzero_def fnegzero_def)

lemma good_zero [simp]: "good fzero" "good fnegzero"
  by (simp_all add: good_def fzero_def fnegzero_def)

lemma f64_ok_neg [simp]: "f64_ok (fneg a) \<longleftrightarrow> f64_ok a"
  by (cases a) simp_all

lemma is_nan_neg [simp]: "is_nan (fneg a) \<longleftrightarrow> is_nan a"
  by (cases a) simp_all

lemma is_finite_neg [simp]: "is_finite (fneg a) \<longleftrightarrow> is_finite a"
  by (cases a) simp_all

lemma rv_neg [simp]: "rv (fneg a) = - rv a"
  by (cases a) (simp_all add: sg_def)

lemma good_neg [simp]: "good (fneg a) \<longleftrightarrow> good a"
  by (simp add: good_def)

lemma rv_abs: "rv (fabs a) = \<bar>rv a\<bar>"
  by (cases a) (simp_all add: sg_def abs_mult)

lemma f64_ok_abs [simp]: "f64_ok (fabs a) \<longleftrightarrow> f64_ok a"
  by (cases a) simp_all

lemma good_abs [simp]: "good (fabs a) \<longleftrightarrow> good a"
  by (cases a) (simp_all add: good_def)

lemma is_finite_abs [simp]: "is_finite (fabs a) \<longleftrightarrow> is_finite a"
  by (cases a) simp_all

lemma fadd_finite:
  assumes "is_finite a" "is_finite b"
  shows "good (fadd a b)" "rv (fadd a b) = RS (rv a + rv b)"
proof -
  obtain s m e where a: "a = FNum s m e" using assms by (cases a) simp_all
  obtain s' m' e' where b: "b = FNum s' m' e'" using assms by (cases b) simp_all
  define k where "k = min e e'"
  define v where "v = sgnm s (m * 2 ^ nat (e - k)) + sgnm s' (m' * 2 ^ nat (e' - k))"
  have sum: "rv a + rv b = real_of_int v * pw k"
    by (simp add: a b v_def distrib_right sgnm_scaled k_def)
  have eq: "fadd a b = (if v = 0 then FNum (s \<and> s') 0 (- 1074) else fround (v < 0) (nat \<bar>v\<bar>) 1 k)"
    unfolding a b v_def k_def by (simp only: fadd.simps Let_def)
  show "good (fadd a b)" unfolding eq by (simp add: good_def [of "FNum _ _ _"])
  have "sg (v < 0) * real (nat \<bar>v\<bar>) = real_of_int v" by (simp add: sg_def)
  then show "rv (fadd a b) = RS (rv a + rv b)"
    unfolding eq sum by (auto simp: rv_fround mult.assoc [symmetric])
qed

lemma fsub_finite:
  assumes "is_finite a" "is_finite b"
  shows "good (fsub a b)" "rv (fsub a b) = RS (rv a - rv b)"
  using fadd_finite [of a "fneg b"] assms by (simp_all add: fsub_def)

lemma fmul_finite:
  assumes "is_finite a" "is_finite b"
  shows "good (fmul a b)" "rv (fmul a b) = RS (rv a * rv b)"
proof -
  obtain s m e where a: "a = FNum s m e" using assms by (cases a) simp_all
  obtain s' m' e' where b: "b = FNum s' m' e'" using assms by (cases b) simp_all
  show "good (fmul a b)" by (simp add: a b)
  have "sg (s \<noteq> s') * (real (m * m') * pw (e + e')) = rv a * rv b"
    by (simp add: a b sg_def pw_add)
  then show "rv (fmul a b) = RS (rv a * rv b)" unfolding a b fmul.simps
    by (simp add: rv_fround del: rv.simps)
qed

lemma fdiv_finite:
  assumes "is_finite a" "is_finite b" "rv b \<noteq> 0"
  shows "good (fdiv a b)" "rv (fdiv a b) = RS (rv a / rv b)"
proof -
  obtain s m e where a: "a = FNum s m e" using assms by (cases a) simp_all
  obtain s' m' e' where b: "b = FNum s' m' e'" using assms by (cases b) simp_all
  have m': "0 < m'" using assms by (simp add: b)
  show "good (fdiv a b)" using m' by (simp add: a b)
  have "sg (s \<noteq> s') * (real m / real m' * pw (e - e')) = rv a / rv b"
    by (simp add: a b sg_def pw_diff)
  then show "rv (fdiv a b) = RS (rv a / rv b)" using m' by (simp add: a b rv_fround)
qed

lemma f64_ok_add [simp]: "f64_ok a \<Longrightarrow> f64_ok b \<Longrightarrow> f64_ok (fadd a b)"
  using fadd_finite [of a b] by (cases a; cases b) (auto simp: good_def simp del: fadd.simps(1))

lemma f64_ok_sub [simp]: "f64_ok a \<Longrightarrow> f64_ok b \<Longrightarrow> f64_ok (fsub a b)"
  by (simp add: fsub_def)

lemma f64_ok_mul [simp]: "f64_ok a \<Longrightarrow> f64_ok b \<Longrightarrow> f64_ok (fmul a b)"
  using fmul_finite [of a b] by (cases a; cases b) (auto simp: good_def simp del: fmul.simps(1))

lemma f64_ok_fround [simp]: "0 < d \<Longrightarrow> f64_ok (fround s n d e)"
  using fround_good by (simp add: good_def)

lemma f64_ok_div [simp]: "f64_ok a \<Longrightarrow> f64_ok b \<Longrightarrow> f64_ok (fdiv a b)"
  by (cases a; cases b) auto

lemma f64_ok_max [simp]: "f64_ok a \<Longrightarrow> f64_ok b \<Longrightarrow> f64_ok (fmax a b)"
  by (simp add: fmax_def)

lemma f64_ok_min [simp]: "f64_ok a \<Longrightarrow> f64_ok b \<Longrightarrow> f64_ok (fmin a b)"
  by (simp add: fmin_def)

lemma good_max [simp]: "good a \<Longrightarrow> good b \<Longrightarrow> good (fmax a b)"
  by (simp add: fmax_def)

lemma good_min [simp]: "good a \<Longrightarrow> good b \<Longrightarrow> good (fmin a b)"
  by (simp add: fmin_def)

lemma rv_max: "good a \<Longrightarrow> good b \<Longrightarrow> rv (fmax a b) = max (rv a) (rv b)"
  by (auto simp: fmax_def flt_rv)

lemma rv_min: "good a \<Longrightarrow> good b \<Longrightarrow> rv (fmin a b) = min (rv a) (rv b)"
  by (auto simp: fmin_def flt_rv)

lemma is_finite_max: "is_finite a \<Longrightarrow> is_finite b \<Longrightarrow> is_finite (fmax a b)"
  by (simp add: fmax_def)

lemma is_finite_min: "is_finite a \<Longrightarrow> is_finite b \<Longrightarrow> is_finite (fmin a b)"
  by (simp add: fmin_def)

lemma finite_good: "f64_ok a \<Longrightarrow> is_finite a \<Longrightarrow> good a"
  by (simp add: good_def)

lemma good_finite_iff: "good a \<Longrightarrow> is_finite a \<longleftrightarrow> \<bar>rv a\<bar> < pw 1024"
  by (cases a) (auto simp: good_def sg_def abs_mult real_bound)

section \<open>Consequences the components use\<close>

text \<open>Every finite number is a multiple of the least positive one.\<close>

lemma rv_multiple: "f64_ok a \<Longrightarrow> is_finite a \<Longrightarrow> \<exists>i. rv a = real_of_int i * pw (- 1074)"
proof (cases a)
  case (FNum s m e)
  assume "f64_ok a"
  then have "- 1074 \<le> e" by (simp add: FNum)
  then obtain j where "pw e = real_of_int j * pw (- 1074)" using pw_multiple by blast
  then have "rv a = real_of_int ((if s then - 1 else 1) * int m * j) * pw (- 1074)"
    by (simp add: FNum sg_def)
  then show ?thesis by blast
qed simp_all

text \<open>Gradual underflow: a difference of distinct numbers is not rounded to zero.\<close>

lemma fsub_pos:
  assumes "f64_ok a" "f64_ok b" "is_finite a" "is_finite b" "flt b a"
  shows "flt fzero (fsub a b)" "good (fsub a b)"
proof -
  obtain i j where ij: "rv a = real_of_int i * pw (- 1074)" "rv b = real_of_int j * pw (- 1074)"
    using assms rv_multiple by metis
  have "rv b < rv a" using assms flt_rv finite_good by blast
  then have "j < i" using ij by simp
  then have "1 * pw (- 1074) \<le> real_of_int (i - j) * pw (- 1074)"
    by (intro mult_right_mono) simp_all
  then have "pw (- 1074) \<le> rv a - rv b" by (simp add: ij left_diff_distrib)
  then have "RS (pw (- 1074)) \<le> RS (rv a - rv b)" by (rule RS_mono)
  moreover have "RS (pw (- 1074)) = pw (- 1074)" by (simp add: RS_pos RN_pw min_def)
  ultimately have "0 < RS (rv a - rv b)" using pw_pos(1) [of "- 1074"] by linarith
  then show "flt fzero (fsub a b)" "good (fsub a b)"
    using fsub_finite [of a b] assms by (simp_all add: flt_rv)
qed

lemma fadd_mono:
  assumes "is_finite a" "is_finite b" "is_finite a'" "is_finite b'"
    and "rv a \<le> rv a'" "rv b \<le> rv b'"
  shows "rv (fadd a b) \<le> rv (fadd a' b')"
  using assms by (simp add: fadd_finite RS_mono)

lemma fadd_nonneg_ge:
  assumes "good a" "is_finite a" "is_finite b" "0 \<le> rv b"
  shows "fle a (fadd a b)"
proof -
  have "RS (rv a) \<le> RS (rv a + rv b)" using assms by (intro RS_mono) simp
  then show ?thesis using assms by (simp add: fle_rv fadd_finite RS_rv)
qed

section \<open>Evaluation with a zero operand\<close>

lemma ilog2_unique: "2 ^ k \<le> n \<Longrightarrow> n < 2 ^ Suc k \<Longrightarrow> ilog2 n = k"
proof -
  assume k: "2 ^ k \<le> n" "n < 2 ^ Suc k"
  have "(0::nat) < 2 ^ k" by simp
  then have "0 < n" using k(1) by linarith
  then have b: "2 ^ ilog2 n \<le> n" "n < 2 ^ Suc (ilog2 n)" using ilog2_bounds by auto
  have "(2::nat) ^ k < 2 ^ Suc (ilog2 n)" "(2::nat) ^ ilog2 n < 2 ^ Suc k" using k b by linarith+
  then show ?thesis by (simp add: power_strict_increasing_iff del: power_Suc)
qed

lemma ilog2_normal:
  assumes "2 ^ 52 \<le> m" "m < 2 ^ 53"
  shows "ilog2 (m * 2 ^ j) = 52 + j"
proof (rule ilog2_unique)
  show "2 ^ (52 + j) \<le> m * 2 ^ j" unfolding power_add using assms(1) by (rule mult_le_mono1)
  have "m * 2 ^ j < 2 ^ 53 * 2 ^ j" using assms(2) by (intro mult_strict_right_mono) simp_all
  then show "m * 2 ^ j < 2 ^ Suc (52 + j)" by (simp add: power_add)
qed

text \<open>A normal number, written with a smaller exponent, rounds to itself.\<close>

lemma fround_normal:
  assumes "2 ^ 52 \<le> m" "m < 2 ^ 53" "- 1074 \<le> e" "e \<le> 971"
  shows "fround s (m * 2 ^ j) 1 (e - int j) = FNum s m e"
proof -
  have m0: "m \<noteq> 0" using assms(1) by (cases m) simp_all
  have "flog2 (m * 2 ^ j) 1 = 52 + int j"
    using ilog2_normal [OF assms(1,2), of j] ilog2_bounds [of "m * 2 ^ j"] m0
    by (simp add: flog2_def ilog2.simps [of "Suc 0"] nat_add_distrib power_add)
  moreover have "rne (m * 2 ^ j) (2 ^ j) = m" by (simp add: rne_def)
  ultimately show ?thesis using assms m0 by (cases "j = 0") (simp_all add: fround_def rne_def)
qed

lemma flt_zero_right: "flt (FNum s m e) (FNum s' 0 e') \<longleftrightarrow> s \<and> m \<noteq> 0"
  by (auto simp: Let_def sgnm_def zero_less_mult_iff mult_less_0_iff)

lemma flt_zero_left: "flt (FNum s' 0 e') (FNum s m e) \<longleftrightarrow> \<not> s \<and> m \<noteq> 0"
  by (auto simp: Let_def sgnm_def zero_less_mult_iff mult_less_0_iff)

lemma fadd_zero_right:
  assumes "2 ^ 52 \<le> m" "m < 2 ^ 53" "- 1074 \<le> e" "e \<le> 971"
  shows "fadd (FNum s m e) (FNum s' 0 (- 1074)) = FNum s m e"
proof -
  define j where "j = nat (e + 1074)"
  have e: "e - int j = - 1074" using assms(3) by (simp add: j_def)
  have k: "min e (- 1074) = - 1074" using assms(3) by simp
  have v: "(sgnm s (m * 2 ^ j) = 0) = False" "(sgnm s (m * 2 ^ j) < 0) = s" "nat \<bar>sgnm s (m * 2 ^ j)\<bar> = m * 2 ^ j"
    using assms(1) by (auto simp: sgnm_def nat_mult_distrib zero_less_mult_iff mult_less_0_iff)
  have "fadd (FNum s m e) (FNum s' 0 (- 1074)) = fround s (m * 2 ^ j) 1 (- 1074)"
    unfolding fadd.simps k Let_def using v by (simp add: j_def sgnm_def [of s'])
  then show ?thesis using fround_normal [OF assms, of s j] by (simp only: e)
qed

text \<open>
  Rules that evaluate closed terms: the ones for zero avoid scaling down to \<open>2^-1074\<close> (with the
  equations \<open>fadd.simps(1)\<close> and \<open>flt.simps(1)\<close> deleted).
\<close>

lemma fadd_commute: "fadd (FNum s m e) (FNum s' m' e') = fadd (FNum s' m' e') (FNum s m e)"
  unfolding fadd.simps Let_def min.commute [of e e'] conj_commute [of s s']
    add.commute [of "sgnm s (m * 2 ^ nat (e - min e' e))"] by (rule refl)

definition normal :: "nat \<Rightarrow> int \<Rightarrow> bool" where
  "normal m e \<longleftrightarrow> 2 ^ 52 \<le> m \<and> m < 2 ^ 53 \<and> - 1074 \<le> e \<and> e \<le> 971"

lemma fadd_zero_normal:
  "normal m e \<Longrightarrow> fadd (FNum s m e) (FNum s' 0 (- 1074)) = FNum s m e"
  "normal m e \<Longrightarrow> fadd (FNum s' 0 (- 1074)) (FNum s m e) = FNum s m e"
  using fadd_zero_right fadd_commute [of s' 0 "- 1074"] by (simp_all only: normal_def)

definition fadd_at :: "bool \<Rightarrow> int \<Rightarrow> int \<Rightarrow> f64" where
  "fadd_at z v k = (if v = 0 then FNum z 0 (- 1074) else fround (v < 0) (nat \<bar>v\<bar>) 1 k)"

definition fpack :: "bool \<Rightarrow> nat \<Rightarrow> int \<Rightarrow> f64" where
  "fpack s q t =
     (case (if q < 2 ^ 53 then (q, t) else (2 ^ 52, t + 1)) of
        (q', t') \<Rightarrow> if 971 < t' then FInf s else FNum s q' t')"

definition fround_at :: "bool \<Rightarrow> nat \<Rightarrow> nat \<Rightarrow> int \<Rightarrow> int \<Rightarrow> f64" where
  "fround_at s n d sh t = fpack s (if 0 \<le> sh then rne (n * 2 ^ nat sh) d else rne n (d * 2 ^ nat (- sh))) t"

lemma fround_fast:
  "fround s n d e =
     (if n = 0 then FNum s 0 (- 1074)
      else fround_at s n d (e - max (- 1074) (flog2 n d + e - 52)) (max (- 1074) (flog2 n d + e - 52)))"
  unfolding fround_def fround_at_def fpack_def Let_def by (rule refl)

definition rne_at :: "nat \<Rightarrow> nat \<Rightarrow> nat \<Rightarrow> nat" where
  "rne_at q r d = (if d < 2 * r \<or> (2 * r = d \<and> odd q) then Suc q else q)"

lemma rne_fast: "rne n d = rne_at (n div d) (n mod d) d"
  by (simp add: rne_def rne_at_def Let_def)

lemma fadd_fast:
  "fadd (FNum s m e) (FNum s' m' e') =
     (if m' = 0 \<and> e' = - 1074 \<and> normal m e then FNum s m e
      else if m = 0 \<and> e = - 1074 \<and> normal m' e' then FNum s' m' e'
      else fadd_at (s \<and> s')
        (sgnm s (m * 2 ^ nat (e - min e e')) + sgnm s' (m' * 2 ^ nat (e' - min e e'))) (min e e'))"
proof -
  consider (right) "m' = 0 \<and> e' = - 1074 \<and> normal m e"
    | (left) "\<not> (m' = 0 \<and> e' = - 1074 \<and> normal m e)" "m = 0 \<and> e = - 1074 \<and> normal m' e'"
    | (other) "\<not> (m' = 0 \<and> e' = - 1074 \<and> normal m e)" "\<not> (m = 0 \<and> e = - 1074 \<and> normal m' e')"
    by blast
  then show ?thesis
  proof cases
    case right
    then show ?thesis unfolding if_P [OF right] using fadd_zero_normal(1) by blast
  next
    case left
    then show ?thesis unfolding if_not_P [OF left(1)] if_P [OF left(2)] using fadd_zero_normal(2) by blast
  next
    case other
    show ?thesis unfolding if_not_P [OF other(1)] if_not_P [OF other(2)] fadd.simps fadd_at_def Let_def by (rule refl)
  qed
qed

lemma flt_fast:
  "flt (FNum s m e) (FNum s' m' e') =
     (if m = 0 then \<not> s' \<and> m' \<noteq> 0 else if m' = 0 then s
      else sgnm s (m * 2 ^ nat (e - min e e')) < sgnm s' (m' * 2 ^ nat (e' - min e e')))"
  using flt_zero_left [of s e s' m' e'] flt_zero_right [of s m e s' e'] by (auto simp: Let_def)

definition flog2_at :: "nat \<Rightarrow> nat \<Rightarrow> int \<Rightarrow> int" where
  "flog2_at n d k = (if (if 0 \<le> k then d * 2 ^ nat k \<le> n else d \<le> n * 2 ^ nat (- k)) then k else k - 1)"

lemma flog2_fast: "flog2 n d = flog2_at n d (int (ilog2 n) - int (ilog2 d))"
  by (simp add: flog2_def flog2_at_def Let_def)

lemmas f64_eval = fsub_def fle_def feq_def fmax_def fmin_def sgnm_def int_part_def has_fraction_def
  ilog2.simps f64_of_nat_def flit_def fone_def fzero_def fclamp_def u32_max_def normal_def
  fadd_fast fadd_at_def flt_fast fround_fast fround_at_def fpack_def rne_fast rne_at_def flog2_fast flog2_at_def

end
