(* ===== verification/Rules_Model.thy ===== *)
theory Rules_Model
  imports Prelude F64_Order
begin

text \<open>
  The versioned trading rules of \<open>crates/trading-rules/src/model.rs\<close> and \<open>lib.rs\<close>: boards found by
  the longest prefix of a code, price limits and lots, the trading calendar, the intraday phases,
  and the fee schedule with its history. A calendar date is the number of days since 1970-01-01, a
  time of day the number of seconds since midnight; the parser of clock times is chrono's and a
  parameter (\<open>hhmm\<close>). Reading the JSON file is outside the model: a rule set is built
  from its parsed data.
\<close>

section \<open>Dates and times\<close>

type_synonym date = int
type_synonym time = nat

definition date_min :: date where "date_min = - 96465292"
definition date_max :: date where "date_max = 95026236"

text \<open>1970-01-01 was a Thursday; 0 is Monday.\<close>

definition weekday :: "date \<Rightarrow> int" where
  "weekday d = (d + 3) mod 7"

definition is_weekend :: "date \<Rightarrow> bool" where
  "is_weekend d \<longleftrightarrow> weekday d = 5 \<or> weekday d = 6"

text \<open>\<open>date += Duration::days(1)\<close> panics after the last date.\<close>

definition date_succ :: "date \<Rightarrow> date option" where
  "date_succ d = (if d + 1 \<le> date_max then Some (d + 1) else None)"

section \<open>The rules file\<close>

record BoardRule =
  br_id :: string
  br_name :: string
  br_market :: string
  br_prefixes :: "string list"
  br_price_limit_pct :: f64
  br_st_price_limit_pct :: f64
  br_ipo_no_limit_days :: u32
  br_min_lot :: u32
  br_lot_step :: u32
  br_t_plus_1 :: bool

record Window =
  w_start :: string
  w_end :: string

record CallAuctionWindow =
  ca_start :: string
  ca_end :: string
  no_cancel_from :: string

record AuctionWindows =
  open_call_auction :: CallAuctionWindow
  continuous_morning :: Window
  continuous_afternoon :: Window
  close_call_auction :: Window
  aw_notes :: "string option"

datatype FeeKind = Commission | StampTax | TransferFee

datatype FeeSide = FBuy | FSell | FBoth

datatype TradeSide = Buy | Sell

fun covers :: "FeeSide \<Rightarrow> TradeSide \<Rightarrow> bool" where
  "covers FBoth side = True"
| "covers FBuy side = (side = Buy)"
| "covers FSell side = (side = Sell)"

record FeeRule =
  fee_kind :: FeeKind
  fee_rate :: f64
  fee_side :: FeeSide
  min_fee :: "f64 option"
  fee_markets :: "string list"
  fee_effective_date :: date
  fee_note :: "string option"

record CalendarRules =
  weekend_closed :: bool
  cal_holidays :: "date list"
  cal_source_url :: "string option"
  verified_at :: "date option"
  cal_note :: "string option"

record RuleSetData =
  version :: string
  effective_date :: date
  source_url :: string
  rules_notes :: "string option"
  boards :: "BoardRule list"
  rules_auction :: AuctionWindows
  fees :: "FeeRule list"
  calendar :: CalendarRules

datatype AuctionPhase =
    Closed | OpenAuctionCancellable | OpenAuctionNoCancel | ContinuousMorning | LunchBreak
  | ContinuousAfternoon | ClosingAuction

section \<open>Board rules\<close>

record BoardRules =
  board_id :: string
  board_name :: string
  market :: string
  min_lot :: u32
  lot_step :: u32
  t_plus_1 :: bool
  ipo_no_limit_days :: u32
  board_limit_pct :: f64
  board_st_limit_pct :: f64

definition price_limit_pct :: "BoardRules \<Rightarrow> bool \<Rightarrow> f64" where
  "price_limit_pct b is_st = (if is_st then board_st_limit_pct b else board_limit_pct b)"

definition round2 :: "f64 \<Rightarrow> f64" where
  "round2 x = fdiv (fround_half (fmul x (f64_of_nat 100))) (f64_of_nat 100)"

definition limit_up_price :: "BoardRules \<Rightarrow> f64 \<Rightarrow> bool \<Rightarrow> f64" where
  "limit_up_price b prev_close is_st = round2 (fmul prev_close (fadd fone (price_limit_pct b is_st)))"

definition limit_down_price :: "BoardRules \<Rightarrow> f64 \<Rightarrow> bool \<Rightarrow> f64" where
  "limit_down_price b prev_close is_st = round2 (fmul prev_close (fsub fone (price_limit_pct b is_st)))"

text \<open>\<open>u32::is_multiple_of\<close>: a multiple of zero is zero.\<close>

definition is_valid_lot :: "BoardRules \<Rightarrow> u32 \<Rightarrow> bool" where
  "is_valid_lot b shares \<longleftrightarrow>
     min_lot b \<le> shares \<and> unat (lot_step b) dvd unat (shares - min_lot b)"

definition from_rule :: "BoardRule \<Rightarrow> BoardRules" where
  "from_rule r =
     \<lparr>board_id = br_id r, board_name = br_name r, market = br_market r, min_lot = br_min_lot r,
      lot_step = br_lot_step r, t_plus_1 = br_t_plus_1 r, ipo_no_limit_days = br_ipo_no_limit_days r,
      board_limit_pct = br_price_limit_pct r, board_st_limit_pct = br_st_price_limit_pct r\<rparr>"

record TradeCost =
  commission :: f64
  stamp_tax :: f64
  transfer_fee :: f64
  total :: f64

section \<open>Loaded rule sets\<close>

datatype rules_error =
    Io string | Parse string | InvalidTime string | UnknownSymbol string | InvalidTimestamp int

record ParsedAuction =
  open_start :: time
  open_no_cancel_from :: time
  open_end :: time
  morning_start :: time
  morning_end :: time
  afternoon_start :: time
  afternoon_end :: time
  close_start :: time
  close_end :: time

record RuleSet =
  data :: RuleSetData
  holidays :: "date set"
  auction :: ParsedAuction

definition parse_hhmm :: "(string \<Rightarrow> time option) \<Rightarrow> string \<Rightarrow> (time, rules_error) result" where
  "parse_hhmm hhmm v = (case hhmm v of Some t \<Rightarrow> Inr t | None \<Rightarrow> Inl (InvalidTime v))"

definition auction_from_data ::
  "(string \<Rightarrow> time option) \<Rightarrow> AuctionWindows \<Rightarrow> (ParsedAuction, rules_error) result" where
  "auction_from_data hhmm w =
     bind_r (parse_hhmm hhmm (ca_start (open_call_auction w))) (\<lambda>os.
     bind_r (parse_hhmm hhmm (no_cancel_from (open_call_auction w))) (\<lambda>on.
     bind_r (parse_hhmm hhmm (ca_end (open_call_auction w))) (\<lambda>oe.
     bind_r (parse_hhmm hhmm (w_start (continuous_morning w))) (\<lambda>ms.
     bind_r (parse_hhmm hhmm (w_end (continuous_morning w))) (\<lambda>me.
     bind_r (parse_hhmm hhmm (w_start (continuous_afternoon w))) (\<lambda>as.
     bind_r (parse_hhmm hhmm (w_end (continuous_afternoon w))) (\<lambda>ae.
     bind_r (parse_hhmm hhmm (w_start (close_call_auction w))) (\<lambda>cs.
     bind_r (parse_hhmm hhmm (w_end (close_call_auction w))) (\<lambda>ce.
       Inr \<lparr>open_start = os, open_no_cancel_from = on, open_end = oe, morning_start = ms,
            morning_end = me, afternoon_start = as, afternoon_end = ae, close_start = cs,
            close_end = ce\<rparr>)))))))))"

text \<open>\<open>RuleSet::from_json\<close> after the JSON parser.\<close>

definition ruleset_from_data ::
  "(string \<Rightarrow> time option) \<Rightarrow> RuleSetData \<Rightarrow> (RuleSet, rules_error) result" where
  "ruleset_from_data hhmm d =
     bind_r (auction_from_data hhmm (rules_auction d)) (\<lambda>a.
       Inr \<lparr>data = d, holidays = set (cal_holidays (calendar d)), auction = a\<rparr>)"

definition normalize_symbol :: "string \<Rightarrow> string" where
  "normalize_symbol s = dropWhile is_ascii_alphabetic (takeWhile (\<lambda>c. c \<noteq> CHR ''.'') (trim s))"

fun scan_prefixes ::
  "string \<Rightarrow> BoardRule \<Rightarrow> string list \<Rightarrow> (BoardRule \<times> nat) option \<Rightarrow> (BoardRule \<times> nat) option" where
  "scan_prefixes code b [] best = best"
| "scan_prefixes code b (p # ps) best =
     scan_prefixes code b ps
       (if starts_with code p \<and> (case best of Some (_, n) \<Rightarrow> n < length p | None \<Rightarrow> True)
        then Some (b, length p) else best)"

definition best_board :: "string \<Rightarrow> BoardRule list \<Rightarrow> (BoardRule \<times> nat) option" where
  "best_board code bs = foldl (\<lambda>best b. scan_prefixes code b (br_prefixes b) best) None bs"

definition for_symbol :: "RuleSet \<Rightarrow> string \<Rightarrow> (BoardRules, rules_error) result" where
  "for_symbol r symbol =
     (case best_board (normalize_symbol symbol) (boards (data r)) of
        Some (b, _) \<Rightarrow> Inr (from_rule b)
      | None \<Rightarrow> Inl (UnknownSymbol symbol))"

definition is_trading_day :: "RuleSet \<Rightarrow> date \<Rightarrow> bool" where
  "is_trading_day r d \<longleftrightarrow> \<not> (weekend_closed (calendar (data r)) \<and> is_weekend d) \<and> d \<notin> holidays r"

text \<open>The search ends at a trading day, or panics after the last date.\<close>

function next_trading_day :: "RuleSet \<Rightarrow> date \<Rightarrow> date option" where
  "next_trading_day r d =
     (case date_succ d of
        None \<Rightarrow> None
      | Some d' \<Rightarrow> if is_trading_day r d' then Some d' else next_trading_day r d')"
  by pat_completeness auto
termination
  by (relation "measure (\<lambda>(_, d). nat (date_max - d))") (auto simp: date_succ_def split: if_splits)

declare next_trading_day.simps [simp del]

definition auction_phase :: "RuleSet \<Rightarrow> time \<Rightarrow> AuctionPhase" where
  "auction_phase r t =
     (let a = auction r in
      if open_start a \<le> t \<and> t < open_no_cancel_from a then OpenAuctionCancellable
      else if open_no_cancel_from a \<le> t \<and> t < open_end a then OpenAuctionNoCancel
      else if morning_start a \<le> t \<and> t < morning_end a then ContinuousMorning
      else if morning_end a \<le> t \<and> t < afternoon_start a then LunchBreak
      else if afternoon_start a \<le> t \<and> t < afternoon_end a then ContinuousAfternoon
      else if close_start a \<le> t \<and> t < close_end a then ClosingAuction
      else Closed)"

section \<open>Fees\<close>

definition fee_applies :: "date \<Rightarrow> string option \<Rightarrow> FeeRule \<Rightarrow> bool" where
  "fee_applies date mkt fee \<longleftrightarrow>
     fee_effective_date fee \<le> date
     \<and> (case mkt of Some m \<Rightarrow> fee_markets fee = [] \<or> m \<in> set (fee_markets fee) | None \<Rightarrow> fee_markets fee = [])"

text \<open>The selected entry of the fee's kind is replaced by a later one, or the fee is appended.\<close>

fun select_fee :: "FeeRule \<Rightarrow> FeeRule list \<Rightarrow> FeeRule list" where
  "select_fee fee [] = [fee]"
| "select_fee fee (f # fs) =
     (if fee_kind f = fee_kind fee
      then (if fee_effective_date f < fee_effective_date fee then fee # fs else f # fs)
      else f # select_fee fee fs)"

definition fees_at :: "RuleSet \<Rightarrow> date \<Rightarrow> string option \<Rightarrow> FeeRule list" where
  "fees_at r date mkt =
     foldl (\<lambda>sel fee. if fee_applies date mkt fee then select_fee fee sel else sel) [] (fees (data r))"

definition fee_value :: "f64 \<Rightarrow> FeeRule \<Rightarrow> f64" where
  "fee_value amount fee =
     (let v = fmul amount (fee_rate fee) in
      case FeeRule.min_fee fee of Some m \<Rightarrow> fmax v m | None \<Rightarrow> v)"

definition add_fee :: "TradeSide \<Rightarrow> f64 \<Rightarrow> TradeCost \<Rightarrow> FeeRule \<Rightarrow> TradeCost" where
  "add_fee side amount c fee =
     (if \<not> covers (fee_side fee) side then c
      else case fee_kind fee of
        Commission \<Rightarrow> c\<lparr>commission := fadd (commission c) (fee_value amount fee)\<rparr>
      | StampTax \<Rightarrow> c\<lparr>stamp_tax := fadd (stamp_tax c) (fee_value amount fee)\<rparr>
      | TransferFee \<Rightarrow> c\<lparr>transfer_fee := fadd (transfer_fee c) (fee_value amount fee)\<rparr>)"

definition trade_cost_at :: "RuleSet \<Rightarrow> TradeSide \<Rightarrow> f64 \<Rightarrow> string option \<Rightarrow> date \<Rightarrow> TradeCost" where
  "trade_cost_at r side amount mkt date =
     (let c = foldl (add_fee side amount)
            \<lparr>commission = fzero, stamp_tax = fzero, transfer_fee = fzero, total = fzero\<rparr> (fees_at r date mkt)
      in c\<lparr>total := fadd (fadd (commission c) (stamp_tax c)) (transfer_fee c)\<rparr>)"

definition latest_fee_date :: "RuleSet \<Rightarrow> date" where
  "latest_fee_date r =
     (case map fee_effective_date (fees (data r)) of
        [] \<Rightarrow> effective_date (data r)
      | d # ds \<Rightarrow> foldl max d ds)"

definition trade_cost_with_market :: "RuleSet \<Rightarrow> TradeSide \<Rightarrow> f64 \<Rightarrow> string \<Rightarrow> TradeCost" where
  "trade_cost_with_market r side amount mkt = trade_cost_at r side amount (Some mkt) (latest_fee_date r)"

definition trade_cost :: "TradeSide \<Rightarrow> f64 \<Rightarrow> RuleSet \<Rightarrow> TradeCost" where
  "trade_cost side amount r = trade_cost_at r side amount None (latest_fee_date r)"

section \<open>The calendar contract\<close>

text \<open>
  What the session mapping relies on: the search returns the first open day after a date, or
  fails when there is none in the calendar's range.
\<close>

locale trading_calendar =
  fixes open_day :: "date \<Rightarrow> bool"
    and next_open :: "date \<Rightarrow> date option"
  assumes next_Some: "next_open d = Some n \<Longrightarrow>
      d < n \<and> open_day n \<and> n \<le> date_max \<and> (\<forall>x. d < x \<and> x < n \<longrightarrow> \<not> open_day x)"
    and next_None: "next_open d = None \<Longrightarrow> d < x \<Longrightarrow> x \<le> date_max \<Longrightarrow> \<not> open_day x"
begin

lemma next_le: "next_open d = Some n \<Longrightarrow> d < x \<Longrightarrow> open_day x \<Longrightarrow> n \<le> x"
  using next_Some by (meson not_le)

lemma next_exists: "d < x \<Longrightarrow> x \<le> date_max \<Longrightarrow> open_day x \<Longrightarrow> \<exists>n. next_open d = Some n \<and> n \<le> x"
  using next_None next_le by (cases "next_open d") auto

lemma next_unique:
  "next_open d = Some n \<longleftrightarrow> d < n \<and> n \<le> date_max \<and> open_day n \<and> (\<forall>x. d < x \<and> x < n \<longrightarrow> \<not> open_day x)"
proof
  assume n: "d < n \<and> n \<le> date_max \<and> open_day n \<and> (\<forall>x. d < x \<and> x < n \<longrightarrow> \<not> open_day x)"
  then obtain m where m: "next_open d = Some m" "m \<le> n" using next_exists by blast
  with next_Some have "open_day m" "d < m" by blast+
  with n m have "m = n" by force
  with m show "next_open d = Some n" by simp
qed (use next_Some in blast)

lemma next_mono: "next_open d = Some n \<Longrightarrow> next_open e = Some m \<Longrightarrow> d \<le> e \<Longrightarrow> n \<le> m"
  using next_Some [of e m] next_le [of d n m] by auto

text \<open>The first day from which an item known at some day can be acted on.\<close>

definition first_usable :: "date \<Rightarrow> bool \<Rightarrow> date option" where
  "first_usable d still_open = (if open_day d \<and> still_open then Some d else next_open d)"

lemma first_usable_open: "first_usable d s = Some n \<Longrightarrow> open_day n \<and> d \<le> n"
  using next_Some [of d n] by (auto simp: first_usable_def split: if_splits)

lemma first_usable_least:
  "first_usable d s = Some n \<Longrightarrow> open_day x \<Longrightarrow> d \<le> x \<Longrightarrow> (x = d \<Longrightarrow> s) \<Longrightarrow> n \<le> x"
  using next_le by (auto simp: first_usable_def le_less split: if_splits)

end

lemma next_trading_day_spec:
  "case next_trading_day r d of
     Some n \<Rightarrow> d < n \<and> is_trading_day r n \<and> n \<le> date_max \<and> (\<forall>x. d < x \<and> x < n \<longrightarrow> \<not> is_trading_day r x)
   | None \<Rightarrow> \<forall>x. d < x \<and> x \<le> date_max \<longrightarrow> \<not> is_trading_day r x"
proof (induction r d rule: next_trading_day.induct)
  case (1 r d)
  show ?case
  proof (cases "d + 1 \<le> date_max \<and> \<not> is_trading_day r (d + 1)")
    case True
    then have "next_trading_day r d = next_trading_day r (d + 1)"
      by (simp add: next_trading_day.simps [of r d] date_succ_def)
    moreover have "d < x \<longleftrightarrow> x = d + 1 \<or> d + 1 < x" for x by auto
    ultimately show ?thesis using 1 [of "d + 1"] True by (auto simp: date_succ_def split: option.splits)
  next
    case False
    then show ?thesis
      by (auto simp: next_trading_day.simps [of r d] date_succ_def split: option.splits)
  qed
qed

interpretation cal: trading_calendar "is_trading_day r" "next_trading_day r" for r
proof unfold_locales
  fix d n x
  show "next_trading_day r d = Some n \<Longrightarrow>
      d < n \<and> is_trading_day r n \<and> n \<le> date_max \<and> (\<forall>x. d < x \<and> x < n \<longrightarrow> \<not> is_trading_day r x)"
    using next_trading_day_spec [where r = r and d = d] by simp
  show "next_trading_day r d = None \<Longrightarrow> d < x \<Longrightarrow> x \<le> date_max \<Longrightarrow> \<not> is_trading_day r x"
    using next_trading_day_spec [where r = r and d = d] by simp
qed

section \<open>The calendar search is short\<close>

lemma weekday_within_three: "\<exists>x. d < x \<and> x \<le> d + 3 \<and> \<not> is_weekend x"
proof -
  have "\<not> is_weekend (d + 1) \<or> \<not> is_weekend (d + 2) \<or> \<not> is_weekend (d + 3)"
    unfolding is_weekend_def weekday_def by presburger
  then show ?thesis
  proof (elim disjE)
    assume "\<not> is_weekend (d + 1)"
    then show ?thesis by (intro exI [of _ "d + 1"]) simp
  next
    assume "\<not> is_weekend (d + 2)"
    then show ?thesis by (intro exI [of _ "d + 2"]) simp
  next
    assume "\<not> is_weekend (d + 3)"
    then show ?thesis by (intro exI [of _ "d + 3"]) simp
  qed
qed

lemma open_day_within:
  "\<exists>x. d < x \<and> x \<le> d + 3 * (int (card (holidays r)) + 1) \<and> is_trading_day r x" if "finite (holidays r)"
proof -
  have "\<forall>j. \<exists>x. d + 3 * int j < x \<and> x \<le> d + 3 * int j + 3 \<and> \<not> is_weekend x"
    using weekday_within_three by blast
  then obtain w where w: "d + 3 * int j < w j" "w j \<le> d + 3 * int j + 3" "\<not> is_weekend (w j)" for j
    by metis
  have "w i < w j" if "i < j" for i j
  proof -
    have "int i + 1 \<le> int j" using that by simp
    then show ?thesis using w(2) [of i] w(1) [of j] by linarith
  qed
  then have "strict_mono w" by (rule strict_monoI)
  then have "inj w" by (rule strict_mono_imp_inj_on)
  then have "card (w ` {..card (holidays r)}) = Suc (card (holidays r))"
    by (simp add: card_image inj_on_subset)
  then have "\<not> w ` {..card (holidays r)} \<subseteq> holidays r"
    using card_mono [OF that, of "w ` {..card (holidays r)}"] by linarith
  then obtain j where j: "j \<le> card (holidays r)" "w j \<notin> holidays r" by auto
  have "d < w j" using w(1) [of j] by simp
  moreover have "w j \<le> d + 3 * (int (card (holidays r)) + 1)" using w(2) [of j] j(1) by simp
  moreover have "is_trading_day r (w j)" using w(3) j(2) by (simp add: is_trading_day_def)
  ultimately show ?thesis by blast
qed

section \<open>Board classification\<close>

definition better_prefix ::
  "string \<Rightarrow> (BoardRule \<times> nat) option \<Rightarrow> BoardRule \<times> string \<Rightarrow> (BoardRule \<times> nat) option" where
  "better_prefix code best bp =
     (if starts_with code (snd bp) \<and> (case best of Some (_, n) \<Rightarrow> n < length (snd bp) | None \<Rightarrow> True)
      then Some (fst bp, length (snd bp)) else best)"

definition board_prefixes :: "BoardRule list \<Rightarrow> (BoardRule \<times> string) list" where
  "board_prefixes bs = concat (map (\<lambda>b. map (Pair b) (br_prefixes b)) bs)"

lemma scan_prefixes_foldl:
  "scan_prefixes code b ps best = foldl (better_prefix code) best (map (Pair b) ps)"
proof (induction ps arbitrary: best)
  case (Cons p ps)
  have "better_prefix code best (b, p) =
      (if starts_with code p \<and> (case best of Some (_, n) \<Rightarrow> n < length p | None \<Rightarrow> True)
       then Some (b, length p) else best)"
    by (auto simp: better_prefix_def split: option.splits)
  then show ?case by (simp only: scan_prefixes.simps Cons.IH list.map foldl.simps)
qed simp

lemma best_board_foldl: "best_board code bs = foldl (better_prefix code) None (board_prefixes bs)"
proof -
  have "foldl (\<lambda>best b. scan_prefixes code b (br_prefixes b) best) best bs
      = foldl (better_prefix code) best (board_prefixes bs)" for best
    by (induction bs arbitrary: best) (simp_all add: board_prefixes_def scan_prefixes_foldl)
  then show ?thesis by (simp add: best_board_def)
qed

definition longest_match :: "string \<Rightarrow> (BoardRule \<times> string) list \<Rightarrow> (BoardRule \<times> nat) option \<Rightarrow> bool" where
  "longest_match code bps res =
     (case res of
        None \<Rightarrow> \<forall>bp \<in> set bps. \<not> starts_with code (snd bp)
      | Some (b, n) \<Rightarrow> (\<exists>p. (b, p) \<in> set bps \<and> starts_with code p \<and> length p = n)
          \<and> (\<forall>bp \<in> set bps. starts_with code (snd bp) \<longrightarrow> length (snd bp) \<le> n))"

lemma better_prefix_longest: "longest_match code bps (foldl (better_prefix code) None bps)"
proof (induction bps rule: rev_induct)
  case Nil
  then show ?case by (simp add: longest_match_def)
next
  case (snoc bp bps)
  then show ?case
    by (cases bp) (fastforce simp: longest_match_def better_prefix_def split: option.splits prod.splits)
qed

section \<open>Fee selection\<close>

lemma kinds_select_fee:
  "map fee_kind (select_fee fee fs)
     = (if fee_kind fee \<in> fee_kind ` set fs then map fee_kind fs else map fee_kind fs @ [fee_kind fee])"
  by (induction fs) auto

lemma set_select_fee: "set (select_fee fee fs) \<subseteq> insert fee (set fs)"
  by (induction fs) auto

lemma select_fee_covers:
  "\<exists>g \<in> set (select_fee fee fs). fee_kind g = fee_kind fee \<and> fee_effective_date fee \<le> fee_effective_date g"
  by (induction fs) auto

lemma select_fee_keeps:
  "f \<in> set fs \<Longrightarrow> \<exists>g \<in> set (select_fee fee fs). fee_kind g = fee_kind f \<and> fee_effective_date f \<le> fee_effective_date g"
  by (induction fs) auto

definition selection_ok :: "date \<Rightarrow> string option \<Rightarrow> FeeRule list \<Rightarrow> FeeRule list \<Rightarrow> bool" where
  "selection_ok date mkt all sel \<longleftrightarrow>
     distinct (map fee_kind sel)
     \<and> (\<forall>f \<in> set sel. f \<in> set all \<and> fee_applies date mkt f)
     \<and> (\<forall>f \<in> set all. fee_applies date mkt f \<longrightarrow>
          (\<exists>g \<in> set sel. fee_kind g = fee_kind f \<and> fee_effective_date f \<le> fee_effective_date g))"

lemma selection_ok_foldl:
  "selection_ok date mkt all (foldl (\<lambda>sel fee. if fee_applies date mkt fee then select_fee fee sel else sel) [] all)"
proof (induction all rule: rev_induct)
  case Nil
  then show ?case by (simp add: selection_ok_def)
next
  case (snoc fee all)
  let ?sel = "foldl (\<lambda>sel fee. if fee_applies date mkt fee then select_fee fee sel else sel) [] all"
  have d: "distinct (map fee_kind ?sel)"
    and s: "\<And>f. f \<in> set ?sel \<Longrightarrow> f \<in> set all \<and> fee_applies date mkt f"
    and c: "\<And>f. f \<in> set all \<Longrightarrow> fee_applies date mkt f \<Longrightarrow>
      \<exists>g \<in> set ?sel. fee_kind g = fee_kind f \<and> fee_effective_date f \<le> fee_effective_date g"
    using snoc by (auto simp: selection_ok_def)
  show ?case
  proof (cases "fee_applies date mkt fee")
    case True
    have "\<exists>g \<in> set (select_fee fee ?sel). fee_kind g = fee_kind f \<and> fee_effective_date f \<le> fee_effective_date g"
      if f: "f \<in> set all" "fee_applies date mkt f" for f
    proof -
      obtain g where g: "g \<in> set ?sel" "fee_kind g = fee_kind f" "fee_effective_date f \<le> fee_effective_date g"
        using c [OF f] by blast
      with select_fee_keeps [OF g(1), of fee] show ?thesis by fastforce
    qed
    moreover have "distinct (map fee_kind (select_fee fee ?sel))"
      using d by (auto simp: kinds_select_fee)
    ultimately show ?thesis
      using True s set_select_fee [of fee ?sel] select_fee_covers [of fee ?sel]
      by (auto simp: selection_ok_def)
  next
    case False
    then show ?thesis using d s c by (auto simp: selection_ok_def)
  qed
qed

lemma fees_at_ok: "selection_ok date mkt (fees (data r)) (fees_at r date mkt)"
  by (simp add: fees_at_def selection_ok_foldl)

lemma commission_other:
  "\<forall>f \<in> set fs. fee_kind f \<noteq> Commission \<Longrightarrow> commission (foldl (add_fee side amount) c fs) = commission c"
  by (induction fs arbitrary: c) (auto simp: add_fee_def split: FeeKind.splits)

lemma commission_unique:
  assumes "distinct (map fee_kind fs)" "f \<in> set fs" "fee_kind f = Commission" "covers (fee_side f) side"
  shows "commission (foldl (add_fee side amount) c fs) = fadd (commission c) (fee_value amount f)"
  using assms
proof (induction fs arbitrary: c)
  case (Cons g fs)
  show ?case
  proof (cases "f = g")
    case True
    then have "\<forall>h \<in> set fs. fee_kind h \<noteq> Commission" using Cons.prems by force
    then show ?thesis using True Cons.prems by (simp add: commission_other) (simp add: add_fee_def)
  next
    case False
    then have "fee_kind g \<noteq> Commission" using Cons.prems by force
    then have "commission (add_fee side amount c g) = commission c"
      by (auto simp: add_fee_def split: FeeKind.splits)
    then show ?thesis using Cons False by simp
  qed
qed simp

lemma fadd_zero_value: "good v \<Longrightarrow> good (fadd fzero v) \<and> rv (fadd fzero v) = rv v"
proof (cases "is_finite v")
  case True
  assume "good v"
  then have "f64_ok v" by (simp add: good_def)
  then show ?thesis
    using fadd_finite [of fzero v] True \<open>good v\<close> RS_rv [of v] by simp
next
  case False
  assume "good v"
  with False show ?thesis by (cases v) (auto simp: fzero_def good_def)
qed

section \<open>A small rule set\<close>

text \<open>An instance for the witnesses: the exchange hours, one board, one commission entry.\<close>

definition sample_hhmm :: "string \<Rightarrow> time option" where
  "sample_hhmm = map_of
     [(''09:15'', 33300), (''09:20'', 33600), (''09:25'', 33900), (''09:30'', 34200), (''11:30'', 41400),
      (''13:00'', 46800), (''14:57'', 53820), (''15:00'', 54000)]"

definition sample_windows :: AuctionWindows where
  "sample_windows =
     \<lparr>open_call_auction = \<lparr>ca_start = ''09:15'', ca_end = ''09:25'', no_cancel_from = ''09:20''\<rparr>,
      continuous_morning = \<lparr>w_start = ''09:30'', w_end = ''11:30''\<rparr>,
      continuous_afternoon = \<lparr>w_start = ''13:00'', w_end = ''14:57''\<rparr>,
      close_call_auction = \<lparr>w_start = ''14:57'', w_end = ''15:00''\<rparr>, aw_notes = None\<rparr>"

definition sample_auction :: ParsedAuction where
  "sample_auction =
     \<lparr>open_start = 33300, open_no_cancel_from = 33600, open_end = 33900, morning_start = 34200,
      morning_end = 41400, afternoon_start = 46800, afternoon_end = 53820, close_start = 53820,
      close_end = 54000\<rparr>"

definition sample_board :: BoardRule where
  "sample_board =
     \<lparr>br_id = ''star'', br_name = ''STAR'', br_market = ''SH'', br_prefixes = [''688'', ''689''],
      br_price_limit_pct = flit 2 1, br_st_price_limit_pct = flit 2 1, br_ipo_no_limit_days = 5,
      br_min_lot = 200, br_lot_step = 1, br_t_plus_1 = True\<rparr>"

definition sample_fee :: FeeRule where
  "sample_fee =
     \<lparr>fee_kind = Commission, fee_rate = f64_of_nat 2, fee_side = FBoth, min_fee = Some (f64_of_nat 5),
      fee_markets = [], fee_effective_date = 0, fee_note = None\<rparr>"

definition sample_data :: RuleSetData where
  "sample_data =
     \<lparr>version = ''2025.1'', effective_date = 20089, source_url = ''sse'', rules_notes = None,
      boards = [sample_board], rules_auction = sample_windows, fees = [sample_fee],
      calendar = \<lparr>weekend_closed = True, cal_holidays = [20362, 20363, 20364, 20367, 20368, 20369],
        cal_source_url = None, verified_at = None, cal_note = None\<rparr>\<rparr>"

definition sample_rules :: RuleSet where
  "sample_rules =
     \<lparr>data = sample_data, holidays = {20362, 20363, 20364, 20367, 20368, 20369}, auction = sample_auction\<rparr>"

lemma sample_rules_loaded: "ruleset_from_data sample_hhmm sample_data = Inr sample_rules"
  by (simp add: ruleset_from_data_def auction_from_data_def parse_hhmm_def sample_hhmm_def sample_data_def
      sample_windows_def sample_rules_def sample_auction_def)

lemma sample_next: "next_trading_day sample_rules 20361 = Some 20370"
  by (simp add: next_trading_day.simps date_succ_def date_max_def is_trading_day_def sample_rules_def
      sample_data_def is_weekend_def weekday_def)

section \<open>Properties\<close>

text \<open>
  C21: The next trading day is the first open day after the given one: the search ends, at most
  three calendar days per listed holiday (plus three) later, as long as that range is within
  chrono's calendar, and no open day is skipped.
\<close>

theorem next_trading_day_least:
  assumes "ruleset_from_data hhmm d = Inr r"
    and "day + 3 * (int (length (cal_holidays (calendar d))) + 1) \<le> date_max"
  shows "\<exists>n. next_trading_day r day = Some n \<and> day < n \<and> is_trading_day r n
    \<and> (\<forall>x. day < x \<and> x < n \<longrightarrow> \<not> is_trading_day r x)
    \<and> n \<le> day + 3 * (int (length (cal_holidays (calendar d))) + 1)"
proof -
  have h: "holidays r = set (cal_holidays (calendar d))"
    using assms(1) by (auto simp: ruleset_from_data_def bind_r_Inr_conv)
  then have fin: "finite (holidays r)" and c: "card (holidays r) \<le> length (cal_holidays (calendar d))"
    by (simp_all add: card_length)
  obtain x where x: "day < x" "x \<le> day + 3 * (int (card (holidays r)) + 1)" "is_trading_day r x"
    using open_day_within [OF fin] by blast
  then have le: "x \<le> day + 3 * (int (length (cal_holidays (calendar d))) + 1)" using c by simp
  then have "x \<le> date_max" using assms(2) by linarith
  then obtain n where "next_trading_day r day = Some n" "n \<le> x" using cal.next_exists x(1,3) by blast
  with cal.next_Some le show ?thesis by force
qed

theorem next_trading_day_least_witness:
  "\<exists>n. next_trading_day sample_rules 20361 = Some n \<and> n \<le> 20361 + 21"
  using next_trading_day_least [OF sample_rules_loaded, of 20361]
  by (auto simp: sample_data_def date_max_def)

text \<open>
  A symbol is classified by the longest configured prefix: the board returned has a prefix of
  the normalised code, no board has a longer matching one, and an error means that no prefix of
  any board matches.
\<close>

theorem for_symbol_longest_prefix:
  "case for_symbol r symbol of
     Inr br \<Rightarrow> \<exists>b \<in> set (boards (data r)). \<exists>p \<in> set (br_prefixes b). br = from_rule b
       \<and> starts_with (normalize_symbol symbol) p
       \<and> (\<forall>b' \<in> set (boards (data r)). \<forall>p' \<in> set (br_prefixes b').
            starts_with (normalize_symbol symbol) p' \<longrightarrow> length p' \<le> length p)
   | Inl e \<Rightarrow> e = UnknownSymbol symbol \<and> (\<forall>b \<in> set (boards (data r)). \<forall>p \<in> set (br_prefixes b).
            \<not> starts_with (normalize_symbol symbol) p)"
proof -
  let ?code = "normalize_symbol symbol"
  have set: "(b, p) \<in> set (board_prefixes bs) \<longleftrightarrow> b \<in> set bs \<and> p \<in> set (br_prefixes b)" for b p bs
    by (auto simp: board_prefixes_def)
  have "longest_match ?code (board_prefixes (boards (data r))) (best_board ?code (boards (data r)))"
    by (simp add: best_board_foldl better_prefix_longest)
  then show ?thesis
    by (cases "best_board ?code (boards (data r))")
       (fastforce simp: for_symbol_def longest_match_def set Ball_def split: prod.splits)+
qed

theorem for_symbol_longest_prefix_witness:
  "\<exists>br. for_symbol sample_rules ''688981'' = Inr br \<and> board_id br = ''star''"
proof -
  have c: "normalize_symbol ''688981'' = ''688981''"
  proof -
    have "trim ''688981'' = ''688981''" by code_simp
    then show ?thesis by (simp add: normalize_symbol_def is_ascii_alphabetic_def byte_def)
  qed
  have "for_symbol sample_rules ''688981'' \<noteq> Inl e" for e
    using for_symbol_longest_prefix [where r = sample_rules and symbol = "''688981''"] c
    by (auto simp: sample_rules_def sample_data_def sample_board_def starts_with_def)
  then obtain br where br: "for_symbol sample_rules ''688981'' = Inr br"
    by (cases "for_symbol sample_rules ''688981''") auto
  with for_symbol_longest_prefix [where r = sample_rules and symbol = "''688981''"] have "br = from_rule sample_board"
    by (auto simp: sample_rules_def sample_data_def)
  with br show ?thesis by (simp add: from_rule_def sample_board_def)
qed

text \<open>
  The fee schedule in force: at most one entry per kind is selected, every selected entry is
  in the file, effective and for the market, and for every applicable entry of the file the
  selected entry of its kind is at least as recent.
\<close>

theorem fees_at_latest_per_kind:
  "distinct (map fee_kind (fees_at r date mkt))
   \<and> (\<forall>f \<in> set (fees_at r date mkt). f \<in> set (fees (data r)) \<and> fee_applies date mkt f)
   \<and> (\<forall>f \<in> set (fees (data r)). fee_applies date mkt f \<longrightarrow>
        (\<exists>g \<in> set (fees_at r date mkt). fee_kind g = fee_kind f \<and> fee_effective_date f \<le> fee_effective_date g))"
  using fees_at_ok [of date mkt r] by (simp add: selection_ok_def)

theorem fees_at_latest_per_kind_witness:
  "\<exists>g \<in> set (fees_at sample_rules 20361 (Some ''SH'')). fee_kind g = Commission"
proof -
  have "sample_fee \<in> set (fees (data sample_rules))" "fee_applies 20361 (Some ''SH'') sample_fee"
    by (simp_all add: sample_rules_def sample_data_def sample_fee_def fee_applies_def)
  with fees_at_latest_per_kind [of sample_rules 20361 "Some ''SH''"]
  have "\<exists>g \<in> set (fees_at sample_rules 20361 (Some ''SH'')). fee_kind g = fee_kind sample_fee" by blast
  then show ?thesis by (simp add: sample_fee_def)
qed

text \<open>
  The commission floor holds in floating point: when the commission entry in force covers the
  trade's side and has a minimum, the commission charged is not below that minimum, whatever the
  amount.
\<close>

theorem commission_at_least_minimum:
  assumes "f \<in> set (fees_at r date mkt)" "fee_kind f = Commission" "covers (fee_side f) side"
    and "FeeRule.min_fee f = Some m" "good m" "good (fmul amount (fee_rate f))"
  shows "fle m (commission (trade_cost_at r side amount mkt date))"
proof -
  have v: "good (fee_value amount f)" "rv m \<le> rv (fee_value amount f)"
    using assms(4-6) by (simp_all add: fee_value_def rv_max)
  have "distinct (map fee_kind (fees_at r date mkt))" using fees_at_ok by (simp add: selection_ok_def)
  with assms(1-3) have "commission (trade_cost_at r side amount mkt date) = fadd fzero (fee_value amount f)"
    by (simp add: trade_cost_at_def Let_def commission_unique)
  with fadd_zero_value [OF v(1)] v(2) assms(5) show ?thesis by (simp add: fle_rv)
qed

theorem commission_at_least_minimum_witness:
  "fle (f64_of_nat 5) (commission (trade_cost_at sample_rules Buy (f64_of_nat 1) (Some ''SH'') 20361))"
proof (rule commission_at_least_minimum [of sample_fee])
  show "sample_fee \<in> set (fees_at sample_rules 20361 (Some ''SH''))"
    by (simp add: fees_at_def sample_rules_def sample_data_def sample_fee_def fee_applies_def)
qed (simp_all add: sample_fee_def f64_of_nat_def good_def f64_ops ilog2.simps)

text \<open>
  A quantity is a valid order on a board exactly when it is the minimum lot plus a whole number
  of steps, with no wrap-around for quantities below the minimum.
\<close>

theorem valid_lot_iff:
  "is_valid_lot b shares \<longleftrightarrow> (\<exists>k. unat shares = unat (min_lot b) + k * unat (lot_step b))"
proof (cases "min_lot b \<le> shares")
  case True
  then have "unat (shares - min_lot b) = unat shares - unat (min_lot b)" "unat (min_lot b) \<le> unat shares"
    by (simp_all add: unat_sub word_le_nat_alt)
  then show ?thesis using True by (auto simp: is_valid_lot_def dvd_def mult.commute) (metis le_add_diff_inverse)
next
  case False
  then show ?thesis by (auto simp: is_valid_lot_def word_le_nat_alt)
qed

end
