(* ===== verification/Rules_News.thy ===== *)
theory Rules_News
  imports Rules_Model
begin

text \<open>
  The mapping of news to trading sessions, \<open>crates/trading-rules/src/news_session.rs\<close>: when an item
  could first have influenced a decision, and which session that is. UTC instants are seconds
  since the epoch; the parser of clock times and the rendering of an instant are chrono's and
  parameters. The rationale text is modelled by which of the fixed sentences it joins. Main
  facts: no item is usable before it was published, seen and revised, the event's own time plays
  no part, the target session is the first one still open, and only verified, fresh, original
  reports may raise confidence.
\<close>

section \<open>Data\<close>

datatype PublicationPrecision = ExactTime | DateOnly | Missing

datatype EffectiveSessionRole = SameDayPremarket | Intraday | NextTradingDay | HistoricalOnly

datatype EffectiveMarketPhase =
    Premarket | OpeningAuction | MorningTrading | LunchBreak | AfternoonTrading | ClosingAuction
  | AfterClose | NonTradingDay

datatype NewsEvidenceUse = DecisionEvidence | VerificationLead | HistoricalContext

record NewsSessionInput =
  event_time_utc :: "int option"
  publish_time_utc :: "int option"
  first_seen_time_utc :: int
  revision_time_utc :: "int option"
  input_precision :: PublicationPrecision
  stale :: bool
  verified :: bool
  discovery_only :: bool
  old_republication :: bool

datatype clock_reason = ExactClock | ExactClockMissing | DateOnlyClock | MissingClock
datatype boundary_reason = ClosedDay | AfterCloseBoundary | BeforeAuction | InSession

record EffectiveNewsSession =
  target_trading_date :: date
  role :: EffectiveSessionRole
  session_phase :: EffectiveMarketPhase
  effective_at_utc :: int
  effective_at_china :: string
  session_precision :: PublicationPrecision
  time_uncertain :: bool
  evidence_use :: NewsEvidenceUse
  can_increase_confidence :: bool
  rationale :: "clock_reason \<times> boundary_reason \<times> NewsEvidenceUse"
  rules_version :: string

definition publication_precision_from_source :: "int option \<Rightarrow> string option \<Rightarrow> PublicationPrecision" where
  "publication_precision_from_source publish original =
     (if publish = None then Missing
      else case map_option trim original of
        Some v \<Rightarrow> if length v \<le> 10 \<and> length (filter is_ascii_digit v) = 8 then DateOnly else ExactTime
      | None \<Rightarrow> ExactTime)"

section \<open>China Standard Time\<close>

definition day_secs :: int where "day_secs = 86400"
definition china_offset :: int where "china_offset = 8 * 3600"

text \<open>
  \<open>timestamp_opt\<close> rejects an instant outside chrono's dates; reading the local date of an instant
  whose local date is past the last one panics.
\<close>

definition china_time :: "int \<Rightarrow> (date \<times> time, rules_error) result option" where
  "china_time ts =
     (if ts div day_secs < date_min \<or> date_max < ts div day_secs then Some (Inl (InvalidTimestamp ts))
      else let local = ts + china_offset in
        if date_max < local div day_secs then None
        else Some (Inr (local div day_secs, nat (local mod day_secs))))"

definition at_china_time :: "date \<Rightarrow> time \<Rightarrow> (int, rules_error) result" where
  "at_china_time d t =
     (let utc = d * day_secs + int t - china_offset in
      if utc div day_secs < date_min then Inl (InvalidTimestamp 0) else Inr utc)"

definition news_phase ::
  "(string \<Rightarrow> time option) \<Rightarrow> RuleSet \<Rightarrow> date \<Rightarrow> time \<Rightarrow> (EffectiveMarketPhase, rules_error) result option" where
  "news_phase hhmm r d t =
     (if \<not> is_trading_day r d then Some (Inr NonTradingDay)
      else let w = rules_auction (data r) in
        bind_p (expect (hhmm (ca_start (open_call_auction w)))) (\<lambda>os.
        bind_p (expect (hhmm (ca_end (open_call_auction w)))) (\<lambda>oe.
        bind_p (expect (hhmm (w_start (continuous_morning w)))) (\<lambda>ms.
        bind_p (expect (hhmm (w_end (continuous_morning w)))) (\<lambda>me.
        bind_p (expect (hhmm (w_start (continuous_afternoon w)))) (\<lambda>as.
        bind_p (expect (hhmm (w_end (continuous_afternoon w)))) (\<lambda>ae.
        bind_p (expect (hhmm (w_start (close_call_auction w)))) (\<lambda>cs.
        bind_p (expect (hhmm (w_end (close_call_auction w)))) (\<lambda>ce.
          Some (Inr
            (if t < os \<or> oe \<le> t \<and> t < ms then Premarket
             else if t < oe then OpeningAuction
             else if t < me then MorningTrading
             else if t < as then LunchBreak
             else if t < ae then AfternoonTrading
             else if cs \<le> t \<and> t < ce then ClosingAuction
             else AfterClose)))))))))))"

section \<open>Classification\<close>

definition observed_at :: "NewsSessionInput \<Rightarrow> int" where
  "observed_at i =
     max (case revision_time_utc i of Some t \<Rightarrow> t | None \<Rightarrow> first_seen_time_utc i) (first_seen_time_utc i)"

definition published_or_observed :: "NewsSessionInput \<Rightarrow> int" where
  "published_or_observed i = (case publish_time_utc i of Some t \<Rightarrow> t | None \<Rightarrow> observed_at i)"

definition publication_clock :: "NewsSessionInput \<Rightarrow> (int \<times> bool \<times> clock_reason, rules_error) result option" where
  "publication_clock i =
     (case input_precision i of
        ExactTime \<Rightarrow>
          Some (Inr (published_or_observed i, publish_time_utc i = None,
            if publish_time_utc i \<noteq> None then ExactClock else ExactClockMissing))
      | DateOnly \<Rightarrow>
          bind_p (china_time (published_or_observed i)) (\<lambda>(d, _).
          bind_p (Some (at_china_time d (15 * 3600))) (\<lambda>t. Some (Inr (t, True, DateOnlyClock))))
      | Missing \<Rightarrow> Some (Inr (observed_at i, True, MissingClock)))"

definition session_target ::
  "RuleSet \<Rightarrow> time \<Rightarrow> time \<Rightarrow> date \<Rightarrow> time
     \<Rightarrow> (date \<times> EffectiveSessionRole \<times> boundary_reason, rules_error) result option" where
  "session_target r opens closes d t =
     (if \<not> is_trading_day r d then
        bind_p (expect (next_trading_day r d)) (\<lambda>n. Some (Inr (n, NextTradingDay, ClosedDay)))
      else if closes \<le> t then
        bind_p (expect (next_trading_day r d)) (\<lambda>n. Some (Inr (n, NextTradingDay, AfterCloseBoundary)))
      else if t < opens then Some (Inr (d, SameDayPremarket, BeforeAuction))
      else Some (Inr (d, Intraday, InSession)))"

definition news_evidence_use :: "NewsSessionInput \<Rightarrow> NewsEvidenceUse" where
  "news_evidence_use i =
     (if old_republication i then HistoricalContext
      else if stale i \<or> \<not> verified i \<or> discovery_only i then VerificationLead
      else DecisionEvidence)"

definition classify_news_session ::
  "(string \<Rightarrow> time option) \<Rightarrow> (int \<Rightarrow> string) \<Rightarrow> RuleSet \<Rightarrow> NewsSessionInput
     \<Rightarrow> (EffectiveNewsSession, rules_error) result option" where
  "classify_news_session hhmm fmt r i =
     bind_p (publication_clock i) (\<lambda>(published_at, uncertain, cr).
     (let effective_at = max published_at (observed_at i) in
     bind_p (china_time effective_at) (\<lambda>(d, t).
     bind_p (news_phase hhmm r d t) (\<lambda>ph.
     bind_p (expect (hhmm (w_end (close_call_auction (rules_auction (data r)))))) (\<lambda>closes.
     bind_p (expect (hhmm (ca_start (open_call_auction (rules_auction (data r)))))) (\<lambda>opens.
     bind_p (session_target r opens closes d t) (\<lambda>(target, base_role, br).
       Some (Inr
         \<lparr>target_trading_date = target,
          role = (if old_republication i then HistoricalOnly else base_role),
          session_phase = ph,
          effective_at_utc = effective_at,
          effective_at_china = fmt effective_at,
          session_precision = input_precision i,
          time_uncertain = uncertain,
          evidence_use = news_evidence_use i,
          can_increase_confidence = (news_evidence_use i = DecisionEvidence),
          rationale = (cr, br, news_evidence_use i),
          rules_version = version (data r)\<rparr>))))))))"

definition target_trading_date_at ::
  "(string \<Rightarrow> time option) \<Rightarrow> (int \<Rightarrow> string) \<Rightarrow> RuleSet \<Rightarrow> int \<Rightarrow> (date, rules_error) result option" where
  "target_trading_date_at hhmm fmt r now =
     bind_p (classify_news_session hhmm fmt r
       \<lparr>event_time_utc = None, publish_time_utc = Some now, first_seen_time_utc = now,
        revision_time_utc = Some now, input_precision = ExactTime, stale = False, verified = True,
        discovery_only = False, old_republication = False\<rparr>)
       (\<lambda>s. Some (Inr (target_trading_date s)))"

definition eligible_for_target_session ::
  "(string \<Rightarrow> time option) \<Rightarrow> (int \<Rightarrow> string) \<Rightarrow> RuleSet \<Rightarrow> NewsSessionInput \<Rightarrow> date
     \<Rightarrow> (bool, rules_error) result option" where
  "eligible_for_target_session hhmm fmt r i target =
     bind_p (classify_news_session hhmm fmt r i)
       (\<lambda>s. Some (Inr (target_trading_date s = target \<and> role s \<noteq> HistoricalOnly)))"

section \<open>Lemmas\<close>

lemma observed_at_ge:
  "first_seen_time_utc i \<le> observed_at i" "revision_time_utc i = Some t \<Longrightarrow> t \<le> observed_at i"
  by (auto simp: observed_at_def split: option.split)

lemma china_time_Inr:
  "china_time ts = Some (Inr (d, t)) \<longleftrightarrow>
     date_min \<le> ts div day_secs \<and> ts div day_secs \<le> date_max
     \<and> d = (ts + china_offset) div day_secs \<and> t = nat ((ts + china_offset) mod day_secs) \<and> d \<le> date_max"
  by (auto simp: china_time_def Let_def)

lemma china_time_split:
  "china_time ts = Some (Inr (d, t)) \<Longrightarrow> ts = d * day_secs + int t - china_offset \<and> int t < day_secs"
  by (auto simp: china_time_Inr day_secs_def)

lemma at_china_time_Inr: "at_china_time d t = Inr x \<Longrightarrow> x = d * day_secs + int t - china_offset"
  by (auto simp: at_china_time_def Let_def split: if_splits)

lemma day_order:
  fixes a b d x :: int
  assumes "0 \<le> a" "a < 86400" "0 \<le> b" "b \<le> 86400"
  shows "d * 86400 + a < x * 86400 + b \<longleftrightarrow> d < x \<or> d = x \<and> a < b"
proof (cases d x rule: linorder_cases)
  case less
  then have "d + 1 \<le> x" by simp
  then show ?thesis using assms less by auto
next
  case greater
  then have "x + 1 \<le> d" by simp
  then show ?thesis using assms greater by auto
qed simp

text \<open>What a successful classification consists of.\<close>

lemma classify_parts:
  assumes "classify_news_session hhmm fmt r i = Some (Inr s)"
  obtains p u cr d t closes opens br base where
    "publication_clock i = Some (Inr (p, u, cr))"
    "effective_at_utc s = max p (observed_at i)"
    "china_time (effective_at_utc s) = Some (Inr (d, t))"
    "news_phase hhmm r d t = Some (Inr (session_phase s))"
    "hhmm (w_end (close_call_auction (rules_auction (data r)))) = Some closes"
    "hhmm (ca_start (open_call_auction (rules_auction (data r)))) = Some opens"
    "session_target r opens closes d t = Some (Inr (target_trading_date s, base, br))"
    "role s = (if old_republication i then HistoricalOnly else base)"
    "evidence_use s = news_evidence_use i"
    "can_increase_confidence s = (news_evidence_use i = DecisionEvidence)"
  using assms by (auto simp: classify_news_session_def bind_p_Inr_conv Let_def)

lemma session_target_usable:
  "session_target r opens closes d t = Some (Inr (n, base, br)) \<Longrightarrow> cal.first_usable r d (t < closes) = Some n"
  by (auto simp: session_target_def cal.first_usable_def bind_p_Inr_conv split: if_splits)

lemma auction_close_parsed:
  assumes "ruleset_from_data hhmm dta = Inr r"
  shows "data r = dta" "hhmm (w_end (close_call_auction (rules_auction dta))) = Some (close_end (auction r))"
    "hhmm (ca_start (open_call_auction (rules_auction dta))) = Some (open_start (auction r))"
  using assms
  by (auto simp: ruleset_from_data_def auction_from_data_def parse_hhmm_def bind_r_Inr_conv split: option.splits)

section \<open>Properties\<close>

text \<open>
  C6: No look-ahead: an item is never effective before it was first seen, before its revision, or
  before its stated publication time (for a date-only source, before 15:00 China time that day).
\<close>

theorem news_never_early:
  assumes "classify_news_session hhmm fmt r i = Some (Inr s)"
  shows "first_seen_time_utc i \<le> effective_at_utc s
    \<and> (\<forall>t. revision_time_utc i = Some t \<longrightarrow> t \<le> effective_at_utc s)
    \<and> (\<forall>t. publish_time_utc i = Some t \<and> input_precision i = ExactTime \<longrightarrow> t \<le> effective_at_utc s)
    \<and> (\<forall>t d tod. publish_time_utc i = Some t \<and> input_precision i = DateOnly
         \<and> china_time t = Some (Inr (d, tod)) \<longrightarrow> d * 86400 + 7 * 3600 \<le> effective_at_utc s)"
proof -
  from assms obtain p u cr where c: "publication_clock i = Some (Inr (p, u, cr))"
    and e: "effective_at_utc s = max p (observed_at i)" by (rule classify_parts)
  have "t \<le> p" if "publish_time_utc i = Some t" "input_precision i = ExactTime" for t
    using c that by (simp add: publication_clock_def published_or_observed_def)
  moreover have "d * 86400 + 7 * 3600 \<le> p"
    if "publish_time_utc i = Some t" "input_precision i = DateOnly" "china_time t = Some (Inr (d, tod))" for t d tod
    using c that
    by (auto simp: publication_clock_def published_or_observed_def bind_p_Inr_conv day_secs_def
        china_offset_def dest!: at_china_time_Inr)
  ultimately show ?thesis using e observed_at_ge [of i] by (fastforce simp: le_max_iff_disj)
qed

text \<open>
  The event's own time never moves an item: the classification does not depend on it.
\<close>

theorem event_time_is_ignored:
  "classify_news_session hhmm fmt r (i\<lparr>event_time_utc := e\<rparr>) = classify_news_session hhmm fmt r i"
proof -
  have o: "observed_at (i\<lparr>event_time_utc := e\<rparr>) = observed_at i"
    by (cases "revision_time_utc i") (simp_all add: observed_at_def)
  then have "publication_clock (i\<lparr>event_time_utc := e\<rparr>) = publication_clock i"
    by (cases "publish_time_utc i"; cases "input_precision i")
       (simp_all add: publication_clock_def published_or_observed_def)
  moreover have "news_evidence_use (i\<lparr>event_time_utc := e\<rparr>) = news_evidence_use i"
    by (simp add: news_evidence_use_def)
  ultimately show ?thesis using o by (simp add: classify_news_session_def)
qed

text \<open>
  C1: The target is the first session that is still open when the item becomes usable: it is a
  trading day whose close (China time) is strictly after the effective instant, and no earlier
  trading day has such a close.
\<close>

theorem target_is_first_open_session:
  assumes "ruleset_from_data hhmm dta = Inr r" and "int (close_end (auction r)) \<le> day_secs"
    and "classify_news_session hhmm fmt r i = Some (Inr s)"
  shows "is_trading_day r (target_trading_date s)
    \<and> effective_at_utc s < target_trading_date s * day_secs + int (close_end (auction r)) - china_offset
    \<and> (\<forall>x. is_trading_day r x
         \<and> effective_at_utc s < x * day_secs + int (close_end (auction r)) - china_offset
           \<longrightarrow> target_trading_date s \<le> x)"
proof -
  let ?c = "close_end (auction r)"
  let ?n = "target_trading_date s"
  from assms(3) obtain d t closes opens br base where
      ct: "china_time (effective_at_utc s) = Some (Inr (d, t))"
    and cl: "hhmm (w_end (close_call_auction (rules_auction (data r)))) = Some closes"
    and st: "session_target r opens closes d t = Some (Inr (?n, base, br))"
    by (rule classify_parts)
  have closes: "closes = ?c" using cl auction_close_parsed [OF assms(1)] by simp
  have e: "effective_at_utc s = d * day_secs + int t - china_offset" and t: "int t < day_secs"
    using china_time_split [OF ct] by simp_all
  have fu: "cal.first_usable r d (t < ?c) = Some ?n" using session_target_usable [OF st] closes by simp
  then have n: "is_trading_day r ?n" "d \<le> ?n" using cal.first_usable_open by blast+
  have before: "effective_at_utc s < x * day_secs + int ?c - china_offset \<longleftrightarrow> d < x \<or> d = x \<and> t < ?c" for x
  proof -
    have "d * 86400 + int t < x * 86400 + int ?c \<longleftrightarrow> d < x \<or> d = x \<and> int t < int ?c"
      using t assms(2) unfolding day_secs_def by (intro day_order) simp_all
    then show ?thesis unfolding e day_secs_def by simp
  qed
  have "?n = d \<Longrightarrow> t < ?c"
    using fu cal.next_Some [of r d d] by (auto simp: cal.first_usable_def split: if_splits)
  then have "d < ?n \<or> d = ?n \<and> t < ?c" using n(2) by (cases "d = ?n") simp_all
  then have lt: "effective_at_utc s < ?n * day_secs + int ?c - china_offset" unfolding before .
  have least: "?n \<le> x" if "is_trading_day r x" "effective_at_utc s < x * day_secs + int ?c - china_offset" for x
  proof (rule cal.first_usable_least [OF fu that(1)])
    show "d \<le> x" "x = d \<Longrightarrow> t < ?c" using that(2) unfolding before by auto
  qed
  show ?thesis using n(1) lt least by blast
qed

text \<open>
  Only verified, fresh, original reporting may raise confidence; a stale, unverified or
  discovery-only item is a lead, an old republication is history and never eligible for a
  session.
\<close>

theorem confidence_needs_verified_fresh_original:
  assumes "classify_news_session hhmm fmt r i = Some (Inr s)"
  shows "(can_increase_confidence s \<longleftrightarrow>
       verified i \<and> \<not> stale i \<and> \<not> discovery_only i \<and> \<not> old_republication i)
    \<and> (old_republication i \<longrightarrow> eligible_for_target_session hhmm fmt r i d = Some (Inr False))"
proof -
  from assms obtain base where "role s = (if old_republication i then HistoricalOnly else base)"
    and "can_increase_confidence s = (news_evidence_use i = DecisionEvidence)"
    by (rule classify_parts)
  then show ?thesis
    using assms by (auto simp: news_evidence_use_def eligible_for_target_session_def)
qed

text \<open>An item on the eve of the autumn holidays, after the close.\<close>

definition sample_input :: NewsSessionInput where
  "sample_input =
     \<lparr>event_time_utc = None, publish_time_utc = Some 1759219200, first_seen_time_utc = 1759219260,
      revision_time_utc = None, input_precision = ExactTime, stale = False, verified = True,
      discovery_only = False, old_republication = False\<rparr>"

lemma sample_facts:
  "rules_auction (data sample_rules) = sample_windows" "is_trading_day sample_rules 20361"
  by (simp_all add: is_trading_day_def sample_rules_def sample_data_def is_weekend_def weekday_def)

lemma sample_classified:
  "\<exists>s. classify_news_session sample_hhmm (\<lambda>_. []) sample_rules sample_input = Some (Inr s)
     \<and> target_trading_date s = 20370 \<and> effective_at_utc s = 1759219260"
  by (simp add: classify_news_session_def publication_clock_def published_or_observed_def observed_at_def
      sample_input_def china_time_def day_secs_def china_offset_def date_min_def date_max_def news_phase_def
      session_target_def sample_next sample_facts sample_windows_def sample_hhmm_def)

theorem news_never_early_witness:
  "\<exists>s. classify_news_session sample_hhmm (\<lambda>_. []) sample_rules sample_input = Some (Inr s)
     \<and> 1759219260 \<le> effective_at_utc s"
proof -
  obtain s where s: "classify_news_session sample_hhmm (\<lambda>_. []) sample_rules sample_input = Some (Inr s)"
    using sample_classified by blast
  with news_never_early [OF s] show ?thesis by (auto simp: sample_input_def)
qed

theorem target_is_first_open_session_witness:
  "\<exists>s. classify_news_session sample_hhmm (\<lambda>_. []) sample_rules sample_input = Some (Inr s)
     \<and> is_trading_day sample_rules (target_trading_date s) \<and> target_trading_date s = 20370"
proof -
  obtain s where s: "classify_news_session sample_hhmm (\<lambda>_. []) sample_rules sample_input = Some (Inr s)"
    "target_trading_date s = 20370"
    using sample_classified by blast
  have "int (close_end (auction sample_rules)) \<le> day_secs"
    by (simp add: sample_rules_def sample_auction_def day_secs_def)
  from target_is_first_open_session [OF sample_rules_loaded this s(1)] s show ?thesis by blast
qed

theorem confidence_needs_verified_fresh_original_witness:
  "\<exists>s. classify_news_session sample_hhmm (\<lambda>_. []) sample_rules sample_input = Some (Inr s)
     \<and> can_increase_confidence s"
proof -
  obtain s where s: "classify_news_session sample_hhmm (\<lambda>_. []) sample_rules sample_input = Some (Inr s)"
    using sample_classified by blast
  with confidence_needs_verified_fresh_original [OF s] show ?thesis by (auto simp: sample_input_def)
qed

end
