(* ===== verification/Rules_Exit.thy ===== *)
theory Rules_Exit
  imports Prelude F64_Order
begin

text \<open>
  Exit and risk rules, \<open>crates/trading-rules/src/exit.rs\<close>: the incremental average true range,
  R-multiple targets and staged profit taking, the stop that only moves up, the trailing stop and
  the order-size ceiling with its shrink loop. All prices are IEEE doubles, computed with the
  source's operations in the source's order. A failed \<open>assert!\<close> is \<open>None\<close>, and so would be a sizing
  loop that does not end. Main facts: stops and peaks never move down, stages fire once and in
  order, the sizing loop always ends with a size whose cost and reserve were checked, and a size
  whose computation did not wrap is the largest whole number of lots that passes the checks.
\<close>

section \<open>Average true range\<close>

record Ohlc =
  high :: f64
  low :: f64
  close :: f64

definition true_range :: "f64 \<Rightarrow> f64 \<Rightarrow> f64 option \<Rightarrow> f64" where
  "true_range h l prev =
     (case prev of
        Some pc \<Rightarrow> fmax (fmax (fsub h l) (fabs (fsub h pc))) (fabs (fsub l pc))
      | None \<Rightarrow> fsub h l)"

record WilderAtr =
  period :: nat
  seen :: nat
  tr_sum :: f64
  atr :: "f64 option"
  prev_close :: "f64 option"

definition atr_new :: "nat \<Rightarrow> WilderAtr option" where
  "atr_new p =
     (if 1 \<le> p then Some \<lparr>period = p, seen = 0, tr_sum = fzero, atr = None, prev_close = None\<rparr> else None)"

definition atr_update :: "WilderAtr \<Rightarrow> Ohlc \<Rightarrow> WilderAtr \<times> f64 option" where
  "atr_update a bar =
     (let tr = true_range (high bar) (low bar) (prev_close a);
          a = a\<lparr>prev_close := Some (close bar), seen := seen a + 1\<rparr>
      in if seen a < period a then (a\<lparr>tr_sum := fadd (tr_sum a) tr\<rparr>, None)
         else let v = (if seen a = period a then fdiv (fadd (tr_sum a) tr) (f64_of_nat (period a))
                else fdiv (fadd (fmul (case atr a of Some x \<Rightarrow> x | None \<Rightarrow> fzero) (f64_of_nat (period a - 1))) tr)
                       (f64_of_nat (period a)))
              in (a\<lparr>atr := Some v\<rparr>, Some v))"

definition atr_value :: "WilderAtr \<Rightarrow> f64 option" where
  "atr_value a = atr a"

definition wilder_atr :: "Ohlc list \<Rightarrow> nat \<Rightarrow> f64 option option" where
  "wilder_atr bars p =
     map_option (\<lambda>a. snd (foldl (\<lambda>(a, last) b. atr_update a b) (a, None) bars)) (atr_new p)"

section \<open>R multiples\<close>

record RMultiple =
  entry_price :: f64
  initial_stop :: f64

definition rmultiple_new :: "f64 \<Rightarrow> f64 \<Rightarrow> RMultiple option" where
  "rmultiple_new entry stop =
     (if is_finite entry \<and> is_finite stop \<and> flt fzero stop \<and> flt stop entry
      then Some \<lparr>entry_price = entry, initial_stop = stop\<rparr> else None)"

definition risk_per_share :: "RMultiple \<Rightarrow> f64" where
  "risk_per_share rm = fsub (entry_price rm) (initial_stop rm)"

definition target_price :: "RMultiple \<Rightarrow> f64 \<Rightarrow> f64" where
  "target_price rm r = fadd (entry_price rm) (fmul r (risk_per_share rm))"

section \<open>Staged profit taking\<close>

record ScaleOutStage =
  stage_r :: f64
  stage_ratio :: f64

datatype ScaleOutConfigError = EmptyStages | NonPositiveR | NotAscending | BadRatio | RatiosExceedOne

record ScaledTakeProfit =
  stages :: "ScaleOutStage list"
  next_index :: nat

fun check_stages :: "f64 option \<Rightarrow> f64 \<Rightarrow> ScaleOutStage list \<Rightarrow> (f64, ScaleOutConfigError) result" where
  "check_stages prev acc [] = Inr acc"
| "check_stages prev acc (s # ss) =
     (if \<not> is_finite (stage_r s) \<or> fle (stage_r s) fzero then Inl NonPositiveR
      else if (case prev of Some p \<Rightarrow> fle (stage_r s) p | None \<Rightarrow> False) then Inl NotAscending
      else if \<not> is_finite (stage_ratio s) \<or> fle (stage_ratio s) fzero \<or> fgt (stage_ratio s) fone then Inl BadRatio
      else check_stages (Some (stage_r s)) (fadd acc (stage_ratio s)) ss)"

definition take_profit_new :: "ScaleOutStage list \<Rightarrow> (ScaledTakeProfit, ScaleOutConfigError) result" where
  "take_profit_new ss =
     (if ss = [] then Inl EmptyStages
      else bind_r (check_stages None fzero ss) (\<lambda>acc.
        if fgt acc (fadd fone (flit 1 1000000000)) then Inl RatiosExceedOne
        else Inr \<lparr>stages = ss, next_index = 0\<rparr>))"

definition next_stage :: "ScaledTakeProfit \<Rightarrow> ScaleOutStage option" where
  "next_stage t = (if next_index t < length (stages t) then Some (stages t ! next_index t) else None)"

definition exhausted :: "ScaledTakeProfit \<Rightarrow> bool" where
  "exhausted t \<longleftrightarrow> length (stages t) \<le> next_index t"

definition on_price :: "ScaledTakeProfit \<Rightarrow> RMultiple \<Rightarrow> f64 \<Rightarrow> ScaledTakeProfit \<times> ScaleOutStage option" where
  "on_price t rm observed =
     (case next_stage t of
        None \<Rightarrow> (t, None)
      | Some s \<Rightarrow>
          if fge observed (target_price rm (stage_r s)) then (t\<lparr>next_index := next_index t + 1\<rparr>, Some s)
          else (t, None))"

section \<open>Stops\<close>

record StructuralStop =
  stop :: f64

definition stop_new :: "f64 \<Rightarrow> StructuralStop option" where
  "stop_new p = (if is_finite p \<and> fgt p fzero then Some \<lparr>stop = p\<rparr> else None)"

definition stop_raise :: "StructuralStop \<Rightarrow> f64 \<Rightarrow> StructuralStop" where
  "stop_raise s candidate = (if is_finite candidate \<and> fgt candidate (stop s) then s\<lparr>stop := candidate\<rparr> else s)"

definition stop_check :: "StructuralStop \<Rightarrow> f64 \<Rightarrow> f64 \<Rightarrow> f64 option" where
  "stop_check s op lo = (if flt lo (stop s) then Some (fmin op (stop s)) else None)"

record PeakTrailingStop =
  atr_mult :: f64
  peak_close :: f64
  entry_gate :: "f64 option"

definition trailing_new :: "f64 \<Rightarrow> f64 \<Rightarrow> PeakTrailingStop option" where
  "trailing_new k entry =
     (if is_finite k \<and> fgt k fzero \<and> is_finite entry \<and> fgt entry fzero
      then Some \<lparr>atr_mult = k, peak_close = entry, entry_gate = None\<rparr> else None)"

definition with_entry_gate :: "PeakTrailingStop \<Rightarrow> bool \<Rightarrow> PeakTrailingStop" where
  "with_entry_gate t enabled = t\<lparr>entry_gate := (if enabled then Some (peak_close t) else None)\<rparr>"

definition stop_level :: "PeakTrailingStop \<Rightarrow> f64 \<Rightarrow> f64" where
  "stop_level t a = fsub (peak_close t) (fmul (atr_mult t) a)"

definition trailing_update :: "PeakTrailingStop \<Rightarrow> f64 \<Rightarrow> f64 \<Rightarrow> PeakTrailingStop \<times> f64 option" where
  "trailing_update t cl a =
     (let t = (if fgt cl (peak_close t) then t\<lparr>peak_close := cl\<rparr> else t);
          level = stop_level t a;
          gate_ok = (case entry_gate t of None \<Rightarrow> True | Some entry \<Rightarrow> fgt level entry)
      in (t, if gate_ok \<and> fle cl level then Some level else None))"

section \<open>Order size\<close>

record SizingInputs =
  price :: f64
  equity :: f64
  cash :: f64
  current_position_value :: f64
  total_market_value :: f64
  stop_distance_per_share :: f64
  avg_daily_volume_shares :: "f64 option"

record SizingConstraints =
  per_trade_risk_pct :: f64
  total_position_cap_pct :: f64
  single_name_cap_pct :: f64
  liquidity_participation_pct :: "f64 option"
  lot_size :: nat
  buy_fee_rate :: f64
  buy_min_fee :: f64
  cash_reserve_pct :: "f64 option"

datatype BindingConstraint =
    InvalidInputs | PerTradeRiskBudget | StopDistance | TotalExposure | SingleName | Liquidity | Cash
  | CashAfterFees | CashReserveAfterFees

text \<open>The derived order is that of the declaration.\<close>

fun constraint_rank :: "BindingConstraint \<Rightarrow> nat" where
  "constraint_rank InvalidInputs = 0"
| "constraint_rank PerTradeRiskBudget = 1"
| "constraint_rank StopDistance = 2"
| "constraint_rank TotalExposure = 3"
| "constraint_rank SingleName = 4"
| "constraint_rank Liquidity = 5"
| "constraint_rank Cash = 6"
| "constraint_rank CashAfterFees = 7"
| "constraint_rank CashReserveAfterFees = 8"

instantiation BindingConstraint :: linorder
begin

definition less_eq_BindingConstraint :: "BindingConstraint \<Rightarrow> BindingConstraint \<Rightarrow> bool" where
  "a \<le> b \<longleftrightarrow> constraint_rank a \<le> constraint_rank b"

definition less_BindingConstraint :: "BindingConstraint \<Rightarrow> BindingConstraint \<Rightarrow> bool" where
  "a < b \<longleftrightarrow> constraint_rank a < constraint_rank b"

instance
proof
  fix a b c :: BindingConstraint
  show "(a < b) = (a \<le> b \<and> \<not> b \<le> a)"
    by (auto simp: less_eq_BindingConstraint_def less_BindingConstraint_def)
  show "a \<le> a" by (simp add: less_eq_BindingConstraint_def)
  show "a \<le> b \<Longrightarrow> b \<le> c \<Longrightarrow> a \<le> c" by (simp add: less_eq_BindingConstraint_def)
  show "a \<le> b \<Longrightarrow> b \<le> a \<Longrightarrow> a = b"
    by (cases a; cases b) (simp_all add: less_eq_BindingConstraint_def)
  show "a \<le> b \<or> b \<le> a" by (auto simp: less_eq_BindingConstraint_def)
qed

end

record SizingResult =
  shares :: nat
  gross :: f64
  binding :: "BindingConstraint list"

definition tiny :: f64 where "tiny = flit 1 1000000000"
definition tie :: f64 where "tie = flit 1 10000000"

definition inputs_invalid :: "SizingInputs \<Rightarrow> SizingConstraints \<Rightarrow> bool" where
  "inputs_invalid i c \<longleftrightarrow>
     \<not> is_finite (price i) \<or> \<not> is_finite (equity i) \<or> \<not> is_finite (cash i)
     \<or> \<not> is_finite (stop_distance_per_share i) \<or> fle (price i) fzero \<or> fle (equity i) fzero
     \<or> flt (cash i) fzero \<or> fle (stop_distance_per_share i) fzero \<or> lot_size c = 0"

definition sizing_caps :: "SizingInputs \<Rightarrow> SizingConstraints \<Rightarrow> (BindingConstraint \<times> f64) list" where
  "sizing_caps i c =
     (let risk = fmax (fmul (per_trade_risk_pct c) (equity i)) fzero;
          loss = fdiv (stop_distance_per_share i) (price i)
      in [(PerTradeRiskBudget, fmax (fdiv risk loss) fzero),
          (StopDistance, fmul (fmax (fdiv risk (stop_distance_per_share i)) fzero) (price i)),
          (TotalExposure, fmax (fsub (fmul (total_position_cap_pct c) (equity i)) (total_market_value i)) fzero),
          (SingleName, fmax (fsub (fmul (single_name_cap_pct c) (equity i)) (current_position_value i)) fzero),
          (Cash, fmax (cash i) fzero)]
         @ (case (liquidity_participation_pct c, avg_daily_volume_shares i) of
              (Some part, Some vol) \<Rightarrow> [(Liquidity, fmax (fmul (fmul part vol) (price i)) fzero)]
            | _ \<Rightarrow> []))"

definition gross_limit :: "(BindingConstraint \<times> f64) list \<Rightarrow> f64" where
  "gross_limit caps = foldl fmin (FInf False) (map snd caps)"

text \<open>\<open>u32\<close> arithmetic wraps in a release build.\<close>

definition u32_mul :: "nat \<Rightarrow> nat \<Rightarrow> nat" where
  "u32_mul a b = (a * b) mod 4294967296"

definition u32_sub :: "nat \<Rightarrow> nat \<Rightarrow> nat" where
  "u32_sub a b = (a + 4294967296 - b) mod 4294967296"

definition whole_lots :: "f64 \<Rightarrow> f64 \<Rightarrow> nat \<Rightarrow> nat" where
  "whole_lots limit p lot = f64_as_u32 (fmax (ffloor (fdiv (fdiv limit p) (f64_of_nat lot))) fzero)"

definition est_fee :: "SizingConstraints \<Rightarrow> f64 \<Rightarrow> f64" where
  "est_fee c g = fmax (fmul g (buy_fee_rate c)) (buy_min_fee c)"

definition clamp01 :: "f64 \<Rightarrow> f64" where
  "clamp01 x = (case fclamp x fzero fone of Some y \<Rightarrow> y | None \<Rightarrow> x)"

definition exceeds_cash :: "SizingInputs \<Rightarrow> SizingConstraints \<Rightarrow> nat \<Rightarrow> bool" where
  "exceeds_cash i c n =
     (let g = fmul (f64_of_nat n) (price i) in fgt (fadd g (est_fee c g)) (fadd (cash i) tiny))"

definition breaches_reserve :: "SizingInputs \<Rightarrow> SizingConstraints \<Rightarrow> nat \<Rightarrow> bool" where
  "breaches_reserve i c n =
     (case cash_reserve_pct c of
        None \<Rightarrow> False
      | Some pct \<Rightarrow>
          (let g = fmul (f64_of_nat n) (price i);
               fee = est_fee c g;
               equity_after = fmax (fsub (equity i) fee) fzero;
               cash_after = fsub (fsub (cash i) g) fee;
               needed = fmul (clamp01 pct) equity_after
           in flt (fadd cash_after tiny) needed))"

partial_function (option) shrink ::
  "SizingInputs \<Rightarrow> SizingConstraints \<Rightarrow> nat \<Rightarrow> bool \<Rightarrow> bool \<Rightarrow> (nat \<times> bool \<times> bool) option" where
  "shrink i c n for_cash for_reserve =
     (if n = 0 then Some (n, for_cash, for_reserve)
      else if exceeds_cash i c n then shrink i c (u32_sub n (lot_size c)) True for_reserve
      else if breaches_reserve i c n then shrink i c (u32_sub n (lot_size c)) for_cash True
      else Some (n, for_cash, for_reserve))"

definition risk_order_ceiling :: "SizingInputs \<Rightarrow> SizingConstraints \<Rightarrow> SizingResult option" where
  "risk_order_ceiling i c =
     (if inputs_invalid i c then Some \<lparr>shares = 0, gross = fzero, binding = [InvalidInputs]\<rparr>
      else
        (let caps = sizing_caps i c;
             limit = gross_limit caps;
             bound = map fst (filter (\<lambda>(_, v). fle (fabs (fsub v limit)) tie) caps);
             start = u32_mul (whole_lots limit (price i) (lot_size c)) (lot_size c)
         in case shrink i c start False False of
              None \<Rightarrow> None
            | Some (n, for_cash, for_reserve) \<Rightarrow>
                (let bound = (if for_cash \<or> for_reserve
                       then (if for_cash then [CashAfterFees] else []) @ (if for_reserve then [CashReserveAfterFees] else [])
                       else bound)
                 in Some \<lparr>shares = n, gross = fmul (f64_of_nat n) (price i), binding = dedup (sort bound)\<rparr>)))"

datatype SameBarTouch = Neither | StopOnly | TargetOnly | BothStopFirst

definition same_bar_conservative :: "f64 \<Rightarrow> f64 \<Rightarrow> f64 \<Rightarrow> f64 \<Rightarrow> SameBarTouch" where
  "same_bar_conservative lo hi st target =
     (case (fle lo st, fge hi target) of
        (True, True) \<Rightarrow> BothStopFirst
      | (True, False) \<Rightarrow> StopOnly
      | (False, True) \<Rightarrow> TargetOnly
      | (False, False) \<Rightarrow> Neither)"

section \<open>The shrink loop\<close>

definition admissible :: "SizingInputs \<Rightarrow> SizingConstraints \<Rightarrow> nat \<Rightarrow> bool" where
  "admissible i c n \<longleftrightarrow> \<not> exceeds_cash i c n \<and> \<not> breaches_reserve i c n"

lemma numeral_pow_u32: "n < 2 ^ 32 \<longleftrightarrow> n < (4294967296 :: nat)"
  by simp

lemma u32_sub_lot:
  "lot < 4294967296 \<Longrightarrow> u32_sub (u32_mul (Suc w) lot) lot = u32_mul w lot"
proof -
  assume lot: "lot < 4294967296"
  have "u32_sub (u32_mul (Suc w) lot) lot = ((Suc w * lot) mod 4294967296 + (4294967296 - lot)) mod 4294967296"
    using lot by (simp add: u32_sub_def u32_mul_def)
  also have "\<dots> = (Suc w * lot + (4294967296 - lot)) mod 4294967296" by (rule mod_add_left_eq)
  also have "Suc w * lot + (4294967296 - lot) = w * lot + 4294967296" using lot by simp
  finally show ?thesis by (simp add: u32_mul_def)
qed

lemma u32_mul_0 [simp]: "u32_mul 0 lot = 0"
  by (simp add: u32_mul_def)

text \<open>Subtracting lots from \<open>w\<close> lots reaches zero, wrapped or not.\<close>

lemma shrink_returns:
  assumes "lot_size c < 4294967296"
  shows "\<exists>k a' b'. shrink i c (u32_mul w (lot_size c)) a b = Some (u32_mul k (lot_size c), a', b') \<and> k \<le> w
    \<and> (u32_mul k (lot_size c) = 0 \<or> admissible i c (u32_mul k (lot_size c)))
    \<and> (\<forall>j. k < j \<and> j \<le> w \<longrightarrow> \<not> admissible i c (u32_mul j (lot_size c)))
    \<and> (k < w \<longrightarrow> a' \<or> b') \<and> (k = w \<longrightarrow> a' = a \<and> b' = b)"
proof (induction w arbitrary: a b)
  case 0
  show ?case by (subst shrink.simps) simp
next
  case (Suc w)
  let ?n = "u32_mul (Suc w) (lot_size c)"
  show ?case
  proof (cases "?n = 0 \<or> admissible i c ?n")
    case True
    then have "shrink i c ?n a b = Some (?n, a, b)"
      by (subst shrink.simps) (auto simp: admissible_def)
    then show ?thesis using True by auto
  next
    case False
    define a' where "a' = (a \<or> exceeds_cash i c ?n)"
    define b' where "b' = (b \<or> \<not> exceeds_cash i c ?n)"
    have "shrink i c ?n a b = shrink i c (u32_mul w (lot_size c)) a' b'"
      using False by (subst shrink.simps) (auto simp: admissible_def u32_sub_lot assms a'_def b'_def)
    moreover have ab: "a' \<or> b'" unfolding a'_def b'_def by blast
    moreover obtain k a2 b2 where
      "shrink i c (u32_mul w (lot_size c)) a' b' = Some (u32_mul k (lot_size c), a2, b2)" and k: "k \<le> w"
      and "u32_mul k (lot_size c) = 0 \<or> admissible i c (u32_mul k (lot_size c))"
      and larger: "\<forall>j. k < j \<and> j \<le> w \<longrightarrow> \<not> admissible i c (u32_mul j (lot_size c))"
      and less: "k < w \<longrightarrow> a2 \<or> b2" and eq: "k = w \<longrightarrow> a2 = a' \<and> b2 = b'"
      using Suc.IH [of a' b'] by blast
    moreover have "\<forall>j. k < j \<and> j \<le> Suc w \<longrightarrow> \<not> admissible i c (u32_mul j (lot_size c))"
      using larger False by (auto simp: le_Suc_eq)
    moreover have "a2 \<or> b2" using less eq k ab by (cases "k = w") auto
    ultimately show ?thesis using k by (metis Suc_n_not_le_n le_SucI)
  qed
qed

section \<open>The order-size ceiling\<close>

abbreviation order_lots :: "SizingInputs \<Rightarrow> SizingConstraints \<Rightarrow> nat" where
  "order_lots i c \<equiv> whole_lots (gross_limit (sizing_caps i c)) (price i) (lot_size c)"

definition cap_names :: "SizingInputs \<Rightarrow> SizingConstraints \<Rightarrow> BindingConstraint list" where
  "cap_names i c =
     map fst (filter (\<lambda>(_, v). fle (fabs (fsub v (gross_limit (sizing_caps i c)))) tie) (sizing_caps i c))"

lemma ceiling_valid:
  assumes "\<not> inputs_invalid i c" "lot_size c < 4294967296"
  obtains k a b bs where
    "risk_order_ceiling i c = Some \<lparr>shares = u32_mul k (lot_size c),
       gross = fmul (f64_of_nat (u32_mul k (lot_size c))) (price i), binding = dedup (sort bs)\<rparr>"
    "k \<le> order_lots i c"
    "u32_mul k (lot_size c) = 0 \<or> admissible i c (u32_mul k (lot_size c))"
    "\<forall>j. k < j \<and> j \<le> order_lots i c \<longrightarrow> \<not> admissible i c (u32_mul j (lot_size c))"
    "k = order_lots i c \<Longrightarrow> bs = cap_names i c"
    "k < order_lots i c \<Longrightarrow> bs \<noteq> [] \<and> set bs \<subseteq> {CashAfterFees, CashReserveAfterFees}"
proof -
  obtain k a b where
    run: "shrink i c (u32_mul (order_lots i c) (lot_size c)) False False = Some (u32_mul k (lot_size c), a, b)"
    and k: "k \<le> order_lots i c"
      "u32_mul k (lot_size c) = 0 \<or> admissible i c (u32_mul k (lot_size c))"
      "\<forall>j. k < j \<and> j \<le> order_lots i c \<longrightarrow> \<not> admissible i c (u32_mul j (lot_size c))"
      "k < order_lots i c \<longrightarrow> a \<or> b" "k = order_lots i c \<longrightarrow> \<not> a \<and> \<not> b"
    using shrink_returns [OF assms(2), of i "order_lots i c" False False] by auto
  define bs where "bs = (if a \<or> b
     then (if a then [CashAfterFees] else []) @ (if b then [CashReserveAfterFees] else []) else cap_names i c)"
  have "risk_order_ceiling i c = Some \<lparr>shares = u32_mul k (lot_size c),
      gross = fmul (f64_of_nat (u32_mul k (lot_size c))) (price i), binding = dedup (sort bs)\<rparr>"
    using assms(1) run by (simp add: risk_order_ceiling_def cap_names_def bs_def Let_def)
  moreover have "k = order_lots i c \<Longrightarrow> bs = cap_names i c" using k(5) by (simp add: bs_def)
  moreover have "k < order_lots i c \<Longrightarrow> bs \<noteq> [] \<and> set bs \<subseteq> {CashAfterFees, CashReserveAfterFees}"
    using k(4) by (auto simp: bs_def)
  ultimately show ?thesis using k(1-3) that by blast
qed

lemma u32_mul_le: "u32_mul k lot \<le> k * lot"
  by (simp add: u32_mul_def)

text \<open>
  C11: Order sizing always returns. The size is zero, or its cost with the estimated fees is within the
  available cash and it leaves the configured cash reserve; it is never more than the whole lots that
  the tightest cap admits, also when the 32-bit share count has wrapped.
\<close>

theorem order_size_checked:
  assumes "lot_size c < 2 ^ 32"
  shows "\<exists>r. risk_order_ceiling i c = Some r \<and> gross r = (if inputs_invalid i c then fzero else fmul (f64_of_nat (shares r)) (price i))
    \<and> (shares r = 0 \<or> \<not> exceeds_cash i c (shares r) \<and> \<not> breaches_reserve i c (shares r))
    \<and> shares r \<le> whole_lots (gross_limit (sizing_caps i c)) (price i) (lot_size c) * lot_size c"
proof (cases "inputs_invalid i c")
  case True
  then show ?thesis by (simp add: risk_order_ceiling_def)
next
  case False
  then obtain k bs where r: "risk_order_ceiling i c = Some \<lparr>shares = u32_mul k (lot_size c),
       gross = fmul (f64_of_nat (u32_mul k (lot_size c))) (price i), binding = dedup (sort bs)\<rparr>"
    and k: "k \<le> order_lots i c" "u32_mul k (lot_size c) = 0 \<or> admissible i c (u32_mul k (lot_size c))"
    using assms ceiling_valid [of i c] by (metis numeral_pow_u32)
  have "u32_mul k (lot_size c) \<le> order_lots i c * lot_size c"
    using k(1) u32_mul_le [of k "lot_size c"] mult_le_mono1 order_trans by blast
  then show ?thesis using False r k(2) by (simp add: admissible_def)
qed

text \<open>
  C19: When the share count fits in 32 bits the size is a whole number of lots, and every larger number of
  whole lots within the tightest cap costs more than the cash or breaches the reserve.
\<close>

theorem order_size_largest:
  assumes "\<not> inputs_invalid i c" "lot_size c < 2 ^ 32"
    and "whole_lots (gross_limit (sizing_caps i c)) (price i) (lot_size c) * lot_size c < 2 ^ 32"
  shows "\<exists>r. risk_order_ceiling i c = Some r \<and> lot_size c dvd shares r
    \<and> (\<forall>n. lot_size c dvd n \<and> shares r < n \<and> n \<le> whole_lots (gross_limit (sizing_caps i c)) (price i) (lot_size c) * lot_size c
          \<longrightarrow> exceeds_cash i c n \<or> breaches_reserve i c n)"
proof -
  obtain k bs where r: "risk_order_ceiling i c = Some \<lparr>shares = u32_mul k (lot_size c),
       gross = fmul (f64_of_nat (u32_mul k (lot_size c))) (price i), binding = dedup (sort bs)\<rparr>"
    and k: "k \<le> order_lots i c" "\<forall>j. k < j \<and> j \<le> order_lots i c \<longrightarrow> \<not> admissible i c (u32_mul j (lot_size c))"
    using assms(1,2) ceiling_valid [of i c] by (metis numeral_pow_u32)
  have fits: "u32_mul j (lot_size c) = j * lot_size c" if "j \<le> order_lots i c" for j
  proof -
    have "j * lot_size c \<le> order_lots i c * lot_size c" using that by (rule mult_le_mono1)
    then have "j * lot_size c < 4294967296"
      using le_less_trans [OF _ assms(3)] numeral_pow_u32 by blast
    then show ?thesis unfolding u32_mul_def by (rule mod_less)
  qed
  have "exceeds_cash i c n \<or> breaches_reserve i c n"
    if n: "lot_size c dvd n" "k * lot_size c < n" "n \<le> order_lots i c * lot_size c" for n
  proof -
    obtain j where j: "n = j * lot_size c" using n(1) by (metis dvdE mult.commute)
    then have "k < j" "j \<le> order_lots i c" using n(2,3) by auto
    then show ?thesis using k(2) fits j by (auto simp: admissible_def)
  qed
  then show ?thesis using r fits [OF k(1)] by auto
qed

text \<open>A sample order: price 10, a million of equity and of cash, one percent at risk, a stop 50 cents away.\<close>

definition sample_inputs :: SizingInputs where
  "sample_inputs = \<lparr>price = f64_of_nat 10, equity = f64_of_nat 1000000, cash = f64_of_nat 1000000,
     current_position_value = fzero, total_market_value = fzero, stop_distance_per_share = flit 1 2,
     avg_daily_volume_shares = None\<rparr>"

definition sample_constraints :: SizingConstraints where
  "sample_constraints = \<lparr>per_trade_risk_pct = flit 1 100, total_position_cap_pct = fone,
     single_name_cap_pct = flit 1 5, liquidity_participation_pct = None, lot_size = 100,
     buy_fee_rate = flit 3 10000, buy_min_fee = f64_of_nat 5, cash_reserve_pct = Some (flit 1 10)\<rparr>"

lemmas sizing_defs = sizing_caps_def gross_limit_def whole_lots_def sample_inputs_def sample_constraints_def

lemma sample_arithmetic:
  "f64_of_nat 10 = FNum False 5629499534213120 (- 49)"
  "f64_of_nat 1000000 = FNum False 8589934592000000 (- 33)"
  "f64_of_nat 100 = FNum False 7036874417766400 (- 46)"
  "flit 1 2 = FNum False 4503599627370496 (- 53)"
  "flit 1 100 = FNum False 5764607523034235 (- 59)"
  "flit 1 5 = FNum False 7205759403792794 (- 55)"
  "fone = FNum False 4503599627370496 (- 52)"
  "fzero = FNum False 0 (- 1074)"
  "fmul (FNum False 5764607523034235 (- 59)) (FNum False 8589934592000000 (- 33)) = FNum False 5497558138880000 (- 39)"
  "fmax (FNum False 5497558138880000 (- 39)) (FNum False 0 (- 1074)) = FNum False 5497558138880000 (- 39)"
  "fdiv (FNum False 4503599627370496 (- 53)) (FNum False 5629499534213120 (- 49)) = FNum False 7205759403792794 (- 57)"
  "fdiv (FNum False 5497558138880000 (- 39)) (FNum False 7205759403792794 (- 57)) = FNum False 6871947673600000 (- 35)"
  "fmax (FNum False 6871947673600000 (- 35)) (FNum False 0 (- 1074)) = FNum False 6871947673600000 (- 35)"
  "fdiv (FNum False 5497558138880000 (- 39)) (FNum False 4503599627370496 (- 53)) = FNum False 5497558138880000 (- 38)"
  "fmax (FNum False 5497558138880000 (- 38)) (FNum False 0 (- 1074)) = FNum False 5497558138880000 (- 38)"
  "fmul (FNum False 5497558138880000 (- 38)) (FNum False 5629499534213120 (- 49)) = FNum False 6871947673600000 (- 35)"
  "fmul (FNum False 4503599627370496 (- 52)) (FNum False 8589934592000000 (- 33)) = FNum False 8589934592000000 (- 33)"
  "fsub (FNum False 8589934592000000 (- 33)) (FNum False 0 (- 1074)) = FNum False 8589934592000000 (- 33)"
  "fmax (FNum False 8589934592000000 (- 33)) (FNum False 0 (- 1074)) = FNum False 8589934592000000 (- 33)"
  "fmul (FNum False 7205759403792794 (- 55)) (FNum False 8589934592000000 (- 33)) = FNum False 6871947673600000 (- 35)"
  "fsub (FNum False 6871947673600000 (- 35)) (FNum False 0 (- 1074)) = FNum False 6871947673600000 (- 35)"
  "fmin (FInf False) (FNum False 6871947673600000 (- 35)) = FNum False 6871947673600000 (- 35)"
  "fmin (FNum False 6871947673600000 (- 35)) (FNum False 6871947673600000 (- 35)) = FNum False 6871947673600000 (- 35)"
  "fmin (FNum False 6871947673600000 (- 35)) (FNum False 8589934592000000 (- 33)) = FNum False 6871947673600000 (- 35)"
  "fdiv (FNum False 6871947673600000 (- 35)) (FNum False 5629499534213120 (- 49)) = FNum False 5497558138880000 (- 38)"
  "fdiv (FNum False 5497558138880000 (- 38)) (FNum False 7036874417766400 (- 46)) = FNum False 7036874417766400 (- 45)"
  "ffloor (FNum False 7036874417766400 (- 45)) = FNum False 7036874417766400 (- 45)"
  "fmax (FNum False 7036874417766400 (- 45)) (FNum False 0 (- 1074)) = FNum False 7036874417766400 (- 45)"
  "f64_as_u32 (FNum False 7036874417766400 (- 45)) = 200"
  by (simp_all add: f64_eval del: fadd.simps(1) flt.simps(1))

lemma sample_valid: "\<not> inputs_invalid sample_inputs sample_constraints"
  by (simp add: inputs_invalid_def sample_inputs_def sample_constraints_def f64_eval del: fadd.simps(1) flt.simps(1))

lemma sample_lots: "order_lots sample_inputs sample_constraints = 200"
  by (simp add: sizing_defs sample_arithmetic Let_def
    del: One_nat_def fmul.simps fdiv.simps ffloor.simps f64_as_u32.simps)

lemma order_size_checked_witness:
  "\<exists>r. risk_order_ceiling sample_inputs sample_constraints = Some r
    \<and> (shares r = 0 \<or> \<not> exceeds_cash sample_inputs sample_constraints (shares r)
          \<and> \<not> breaches_reserve sample_inputs sample_constraints (shares r)) \<and> shares r \<le> 20000"
proof -
  have lot: "lot_size sample_constraints = 100" by (simp add: sample_constraints_def)
  then have "lot_size sample_constraints < 2 ^ 32" by simp
  from order_size_checked [OF this, of sample_inputs] show ?thesis
    unfolding sample_lots unfolding lot by simp blast
qed

lemma order_size_largest_witness:
  "\<exists>r. risk_order_ceiling sample_inputs sample_constraints = Some r \<and> 100 dvd shares r"
proof -
  have lot: "lot_size sample_constraints = 100" by (simp add: sample_constraints_def)
  have fits: "order_lots sample_inputs sample_constraints * lot_size sample_constraints < 2 ^ 32"
    unfolding sample_lots unfolding lot by simp
  have "lot_size sample_constraints < 2 ^ 32" by (simp add: lot)
  from order_size_largest [OF sample_valid this fits] show ?thesis unfolding lot by blast
qed

text \<open>The whole-account order: a price of 1, as much cash as 42949674 lots of 100 cost.\<close>

definition wrapping_inputs :: SizingInputs where
  "wrapping_inputs = sample_inputs\<lparr>price := fone, equity := f64_of_nat 4294967400, cash := f64_of_nat 4294967400,
     stop_distance_per_share := fone\<rparr>"

definition wrapping_constraints :: SizingConstraints where
  "wrapping_constraints = sample_constraints\<lparr>per_trade_risk_pct := fone, single_name_cap_pct := fone,
     buy_fee_rate := fzero, buy_min_fee := fzero, cash_reserve_pct := None\<rparr>"

lemmas wrapping_defs = wrapping_inputs_def wrapping_constraints_def sample_inputs_def sample_constraints_def

lemma wrapping_arithmetic:
  "f64_of_nat 4294967400 = FNum False 4503599736422400 (- 20)"
  "fmul (FNum False 4503599627370496 (- 52)) (FNum False 4503599736422400 (- 20)) = FNum False 4503599736422400 (- 20)"
  "fdiv (FNum False 4503599627370496 (- 52)) (FNum False 4503599627370496 (- 52)) = FNum False 4503599627370496 (- 52)"
  "fdiv (FNum False 4503599736422400 (- 20)) (FNum False 4503599627370496 (- 52)) = FNum False 4503599736422400 (- 20)"
  "fmul (FNum False 4503599736422400 (- 20)) (FNum False 4503599627370496 (- 52)) = FNum False 4503599736422400 (- 20)"
  "fsub (FNum False 4503599736422400 (- 20)) (FNum False 0 (- 1074)) = FNum False 4503599736422400 (- 20)"
  "fmax (FNum False 4503599736422400 (- 20)) (FNum False 0 (- 1074)) = FNum False 4503599736422400 (- 20)"
  "fmin (FInf False) (FNum False 4503599736422400 (- 20)) = FNum False 4503599736422400 (- 20)"
  "fmin (FNum False 4503599736422400 (- 20)) (FNum False 4503599736422400 (- 20)) = FNum False 4503599736422400 (- 20)"
  "fdiv (FNum False 4503599736422400 (- 20)) (FNum False 7036874417766400 (- 46)) = FNum False 5764607662620672 (- 27)"
  "ffloor (FNum False 5764607662620672 (- 27)) = FNum False 5764607662620672 (- 27)"
  "fmax (FNum False 5764607662620672 (- 27)) (FNum False 0 (- 1074)) = FNum False 5764607662620672 (- 27)"
  "f64_as_u32 (FNum False 5764607662620672 (- 27)) = 42949674"
  by (simp_all add: f64_eval del: fadd.simps(1) flt.simps(1))

lemma wrapping_shrink:
  "shrink wrapping_inputs wrapping_constraints 104 False False = Some (104, False, False)"
proof -
  have "\<not> exceeds_cash wrapping_inputs wrapping_constraints 104"
    by (simp add: exceeds_cash_def est_fee_def wrapping_defs tiny_def f64_eval del: fadd.simps(1) flt.simps(1))
  moreover have "\<not> breaches_reserve wrapping_inputs wrapping_constraints 104"
    by (simp add: breaches_reserve_def wrapping_defs)
  ultimately show ?thesis by (subst shrink.simps) simp
qed

lemma wrapping_valid: "\<not> inputs_invalid wrapping_inputs wrapping_constraints"
  by (simp add: inputs_invalid_def wrapping_defs f64_eval del: fadd.simps(1) flt.simps(1))

lemma wrapping_start:
  "order_lots wrapping_inputs wrapping_constraints = 42949674"
  by (simp add: sizing_defs wrapping_inputs_def wrapping_constraints_def sample_arithmetic wrapping_arithmetic Let_def
    del: One_nat_def fmul.simps fdiv.simps ffloor.simps f64_as_u32.simps)

text \<open>
  Without the bound the size need not be a whole number of lots: an account that could buy
  4294967400 shares in lots of 100 is given an order of 104 shares.
\<close>

theorem order_size_wraps:
  "map_option shares (risk_order_ceiling wrapping_inputs wrapping_constraints) = Some 104
   \<and> lot_size wrapping_constraints = 100"
proof -
  have lot: "lot_size wrapping_constraints = 100"
    by (simp add: wrapping_constraints_def sample_constraints_def)
  then have "u32_mul (order_lots wrapping_inputs wrapping_constraints) (lot_size wrapping_constraints) = 104"
    unfolding wrapping_start by (simp add: u32_mul_def)
  then show ?thesis using wrapping_valid wrapping_shrink lot
    by (simp add: risk_order_ceiling_def Let_def)
qed

section \<open>The binding constraints\<close>

lemma fold_fmin_member:
  "foldl fmin a vs = a \<or> foldl fmin a vs \<in> set vs"
proof (induction vs arbitrary: a)
  case (Cons v vs)
  have "fmin a v = a \<or> fmin a v = v" by (auto simp: fmin_def)
  then show ?case using Cons [of "fmin a v"] by auto
qed simp

lemma fold_fmin_bounded:
  assumes "is_finite v" "v \<in> set vs"
  shows "foldl fmin a vs \<noteq> FInf False \<and> foldl fmin a vs \<noteq> FNaN"
proof -
  have step: "fmin x y \<noteq> FInf False \<and> fmin x y \<noteq> FNaN" if "x \<noteq> FInf False \<and> x \<noteq> FNaN" for x y
    using that by (cases x; cases y) (auto simp: fmin_def)
  have keep: "foldl fmin x ws \<noteq> FInf False \<and> foldl fmin x ws \<noteq> FNaN" if "x \<noteq> FInf False \<and> x \<noteq> FNaN" for x ws
    using that by (induction ws arbitrary: x) (simp_all add: step)
  have here: "fmin x v \<noteq> FInf False \<and> fmin x v \<noteq> FNaN" for x
    using assms(1) by (cases x; cases v) (auto simp: fmin_def)
  obtain us ws where "vs = us @ v # ws" using assms(2) by (meson split_list)
  then show ?thesis using keep here by simp
qed

lemma fsub_self: "is_finite v \<Longrightarrow> fabs (fsub v v) = fzero"
  by (cases v) (auto simp: fsub_def fzero_def sgnm_def)

lemma fmax_zero_nonneg: "\<not> flt (fmax x fzero) fzero"
  by (cases x) (auto simp: fmax_def fzero_def flt_fast simp del: flt.simps(1))

lemma fround_nonneg: "s \<longrightarrow> n = 0 \<Longrightarrow> \<not> flt (fround s n d e) fzero"
  by (cases "n = 0") (simp_all add: fround_def fzero_def Let_def flt_zero_right split: prod.split del: flt.simps(1))

lemma fmul_nonneg:
  assumes "\<not> flt x fzero" "flt fzero p"
  shows "\<not> flt (fmul x p) fzero"
proof (cases x)
  case (FNum s m e)
  then have "s \<longrightarrow> m = 0" using assms(1) flt_zero_right [of s m e] by (simp add: fzero_def del: flt.simps(1))
  then show ?thesis using FNum assms(2) fround_nonneg
    by (cases p) (auto simp: fzero_def flt_zero_left simp del: flt.simps(1))
next
  case (FInf s)
  then show ?thesis using assms
    by (cases p) (auto simp: fzero_def flt_zero_left simp del: flt.simps(1))
qed simp

text \<open>Every cap is at least zero, so the limit, bounded by the cash, is finite.\<close>

lemma caps_nonneg:
  assumes "\<not> inputs_invalid i c" "f64_ok (price i)" "v \<in> snd ` set (sizing_caps i c)"
  shows "\<not> flt v fzero"
proof -
  have "good (price i)" using assms(1,2) by (simp add: inputs_invalid_def finite_good)
  moreover have "\<not> fle (price i) fzero" using assms(1) by (simp add: inputs_invalid_def)
  ultimately have "flt fzero (price i)" using not_flt_iff [OF good_zero(1)] by blast
  then have "\<not> flt (fmul (fmax x fzero) (price i)) fzero" for x
    using fmul_nonneg fmax_zero_nonneg by blast
  then show ?thesis using assms(3)
    by (auto simp: sizing_caps_def Let_def fmax_zero_nonneg split: option.splits)
qed

lemma gross_limit_finite:
  assumes "\<not> inputs_invalid i c" "f64_ok (price i)"
  shows "is_finite (gross_limit (sizing_caps i c))"
    and "gross_limit (sizing_caps i c) \<in> snd ` set (sizing_caps i c)"
proof -
  let ?l = "gross_limit (sizing_caps i c)"
  have "is_finite (fmax (cash i) fzero)"
    using assms(1) by (simp add: inputs_invalid_def is_finite_max)
  moreover have "fmax (cash i) fzero \<in> set (map snd (sizing_caps i c))"
    by (simp add: sizing_caps_def Let_def)
  ultimately have b: "?l \<noteq> FInf False" "?l \<noteq> FNaN"
    unfolding gross_limit_def using fold_fmin_bounded by blast+
  then show mem: "?l \<in> snd ` set (sizing_caps i c)"
    using fold_fmin_member [of "FInf False" "map snd (sizing_caps i c)"] by (auto simp: gross_limit_def)
  have "\<not> flt ?l fzero" using caps_nonneg [OF assms mem] .
  then show "is_finite ?l" using b by (cases ?l) (auto simp: fzero_def)
qed

lemma cap_names_nonempty:
  assumes "\<not> inputs_invalid i c" "f64_ok (price i)"
  shows "cap_names i c \<noteq> []"
proof -
  obtain k where "(k, gross_limit (sizing_caps i c)) \<in> set (sizing_caps i c)"
    using gross_limit_finite(2) [OF assms] by auto
  moreover have "fle fzero tie" by (simp add: tie_def f64_eval del: fadd.simps(1) flt.simps(1))
  ultimately have "k \<in> set (cap_names i c)"
    using gross_limit_finite(1) [OF assms] by (force simp: cap_names_def fsub_self)
  then show ?thesis by auto
qed

text \<open>
  A sizing result always names what bound it: a sorted list without repetitions that is never
  empty; the fee and reserve reasons appear exactly when the loop has taken lots away, and then alone.
\<close>

theorem order_size_binding:
  assumes "f64_ok (price i)" "lot_size c < 2 ^ 32"
  shows "\<exists>r. risk_order_ceiling i c = Some r \<and> binding r \<noteq> [] \<and> sorted (binding r) \<and> distinct (binding r)
    \<and> (set (binding r) \<inter> {CashAfterFees, CashReserveAfterFees} = {} \<or> set (binding r) \<subseteq> {CashAfterFees, CashReserveAfterFees})"
proof (cases "inputs_invalid i c")
  case True
  then show ?thesis by (simp add: risk_order_ceiling_def)
next
  case False
  then obtain k bs where r: "risk_order_ceiling i c = Some \<lparr>shares = u32_mul k (lot_size c),
       gross = fmul (f64_of_nat (u32_mul k (lot_size c))) (price i), binding = dedup (sort bs)\<rparr>"
    and k: "k \<le> order_lots i c" "k = order_lots i c \<Longrightarrow> bs = cap_names i c"
      "k < order_lots i c \<Longrightarrow> bs \<noteq> [] \<and> set bs \<subseteq> {CashAfterFees, CashReserveAfterFees}"
    using assms(2) ceiling_valid [of i c] numeral_pow_u32 by metis
  have "set (cap_names i c) \<inter> {CashAfterFees, CashReserveAfterFees} = {}"
    by (auto simp: cap_names_def sizing_caps_def Let_def split: option.splits)
  then have "bs \<noteq> [] \<and> (set bs \<inter> {CashAfterFees, CashReserveAfterFees} = {} \<or> set bs \<subseteq> {CashAfterFees, CashReserveAfterFees})"
    using k cap_names_nonempty [OF False assms(1)] by (cases "k = order_lots i c") auto
  moreover have "dedup (sort bs) = [] \<longleftrightarrow> bs = []"
    by (metis set_dedup set_empty set_sort)
  ultimately show ?thesis using r by (simp add: sorted_dedup distinct_dedup)
qed

lemma order_size_binding_witness:
  "\<exists>r. risk_order_ceiling sample_inputs sample_constraints = Some r \<and> binding r \<noteq> []"
proof -
  have "f64_ok (price sample_inputs)" by (simp add: sample_inputs_def sample_arithmetic)
  moreover have "lot_size sample_constraints < 2 ^ 32" by (simp add: sample_constraints_def)
  ultimately show ?thesis using order_size_binding [of sample_inputs sample_constraints] by blast
qed

section \<open>Stages fire once and in order\<close>

definition fire_run :: "RMultiple \<Rightarrow> ScaledTakeProfit \<Rightarrow> f64 list \<Rightarrow> ScaledTakeProfit \<times> ScaleOutStage list" where
  "fire_run rm t ps =
     foldl (\<lambda>(t, fired) p. (fst (on_price t rm p), fired @ (case snd (on_price t rm p) of Some s \<Rightarrow> [s] | None \<Rightarrow> [])))
       (t, []) ps"

lemma fire_run_Nil [simp]: "fire_run rm t [] = (t, [])"
  by (simp add: fire_run_def)

lemma fire_run_snoc:
  "fire_run rm t (ps @ [p]) =
     (let (u, fired) = fire_run rm t ps
      in (fst (on_price u rm p), fired @ (case snd (on_price u rm p) of Some s \<Rightarrow> [s] | None \<Rightarrow> [])))"
  by (simp add: fire_run_def case_prod_beta Let_def)

lemma on_price_cases:
  obtains (fired) s where "next_stage t = Some s" "fle (target_price rm (stage_r s)) p"
      "on_price t rm p = (t\<lparr>next_index := next_index t + 1\<rparr>, Some s)"
  | (idle) "on_price t rm p = (t, None)"
proof (cases "next_stage t")
  case None
  then show ?thesis using idle by (simp add: on_price_def)
next
  case (Some s)
  then show ?thesis using fired [of s] idle
    by (cases "fle (target_price rm (stage_r s)) p") (simp_all add: on_price_def)
qed

lemma fire_run_prefix:
  assumes "next_index t = 0"
  shows "stages (fst (fire_run rm t ps)) = stages t
    \<and> next_index (fst (fire_run rm t ps)) \<le> length (stages t)
    \<and> snd (fire_run rm t ps) = take (next_index (fst (fire_run rm t ps))) (stages t)
    \<and> (\<forall>s \<in> set (snd (fire_run rm t ps)). \<exists>p \<in> set ps. fle (target_price rm (stage_r s)) p)"
proof (induction ps rule: rev_induct)
  case Nil
  then show ?case using assms by simp
next
  case (snoc p ps)
  obtain u fired where run: "fire_run rm t ps = (u, fired)" by fastforce
  show ?case
  proof (cases rule: on_price_cases [of u rm p])
    case (fired s)
    then have "next_index u < length (stages u)" "s = stages u ! next_index u"
      by (auto simp: next_stage_def split: if_splits)
    then show ?thesis using snoc fired run by (auto simp: fire_run_snoc take_Suc_conv_app_nth)
  next
    case idle
    then show ?thesis using snoc run by (auto simp: fire_run_snoc)
  qed
qed

lemma check_stages_ok:
  assumes "check_stages prev acc ss = Inr total_ratio" "list_all (\<lambda>s. f64_ok (stage_r s)) ss" "\<forall>p. prev = Some p \<longrightarrow> good p"
  shows "sorted_wrt (\<lambda>a b. flt (stage_r a) (stage_r b)) ss
    \<and> (\<forall>s \<in> set ss. good (stage_r s) \<and> flt fzero (stage_r s) \<and> (\<forall>p. prev = Some p \<longrightarrow> flt p (stage_r s))
          \<and> is_finite (stage_ratio s) \<and> \<not> fle (stage_ratio s) fzero \<and> \<not> flt fone (stage_ratio s))
    \<and> total_ratio = foldl fadd acc (map stage_ratio ss)"
  using assms
proof (induction ss arbitrary: prev acc)
  case (Cons s ss)
  let ?r = "stage_r s"
  have r: "good ?r" "\<not> fle ?r fzero" "\<forall>p. prev = Some p \<longrightarrow> \<not> fle ?r p"
    and rec: "check_stages (Some ?r) (fadd acc (stage_ratio s)) ss = Inr total_ratio"
    and q: "is_finite (stage_ratio s)" "\<not> fle (stage_ratio s) fzero" "\<not> flt fone (stage_ratio s)"
    using Cons.prems by (auto simp: good_def split: if_splits)
  have lt: "flt p ?r" if "prev = Some p \<or> p = fzero" for p
    using r that Cons.prems(3) not_flt_iff [of p ?r] by auto
  have IH: "sorted_wrt (\<lambda>a b. flt (stage_r a) (stage_r b)) ss"
    "\<forall>x \<in> set ss. good (stage_r x) \<and> flt fzero (stage_r x) \<and> flt ?r (stage_r x)
          \<and> is_finite (stage_ratio x) \<and> \<not> fle (stage_ratio x) fzero \<and> \<not> flt fone (stage_ratio x)"
    "total_ratio = foldl fadd (fadd acc (stage_ratio s)) (map stage_ratio ss)"
    using Cons.IH [OF rec] Cons.prems(2) r(1) by auto
  moreover have "flt p (stage_r x)" if "prev = Some p" "x \<in> set ss" for p x
    using that IH(2) lt r(1) Cons.prems(3) flt_trans by blast
  ultimately show ?case using r(1) lt q by auto
qed simp

text \<open>
  A configuration that is accepted has stages with strictly ascending positive multiples, each
  ratio above zero and at most one, and ratios that add up, rounded, to no more than one and a
  billionth.
\<close>

theorem take_profit_config:
  assumes "take_profit_new ss = Inr t" "list_all (\<lambda>s. f64_ok (stage_r s)) ss"
  shows "stages t = ss \<and> next_index t = 0 \<and> ss \<noteq> []
    \<and> sorted_wrt (\<lambda>a b. flt (stage_r a) (stage_r b)) ss
    \<and> (\<forall>s \<in> set ss. flt fzero (stage_r s) \<and> \<not> fle (stage_ratio s) fzero \<and> \<not> flt fone (stage_ratio s))
    \<and> \<not> flt (fadd fone (flit 1 1000000000)) (foldl fadd fzero (map stage_ratio ss))"
  using assms check_stages_ok [of None fzero ss]
  by (auto simp: take_profit_new_def bind_r_Inr_conv split: if_splits)

definition sample_stages :: "ScaleOutStage list" where
  "sample_stages = [\<lparr>stage_r = fone, stage_ratio = flit 1 2\<rparr>, \<lparr>stage_r = f64_of_nat 2, stage_ratio = flit 1 2\<rparr>]"

lemma sample_stages_accepted: "take_profit_new sample_stages = Inr \<lparr>stages = sample_stages, next_index = 0\<rparr>"
  by (simp add: take_profit_new_def sample_stages_def f64_eval del: fadd.simps(1) flt.simps(1))

lemma take_profit_config_witness:
  "sorted_wrt (\<lambda>a b. flt (stage_r a) (stage_r b)) sample_stages"
proof -
  have "list_all (\<lambda>s. f64_ok (stage_r s)) sample_stages"
    by (simp add: sample_stages_def f64_eval del: fadd.simps(1) flt.simps(1))
  from take_profit_config [OF sample_stages_accepted this] show ?thesis by blast
qed

text \<open>
  Along any run of observed prices the stages that have fired are the first ones of the plan, in
  its order and each once, and every one of them had its target reached by an observed price.
\<close>

theorem stages_fire_in_order:
  assumes "take_profit_new ss = Inr t"
  shows "\<exists>k \<le> length ss. snd (fire_run rm t ps) = take k ss
    \<and> (exhausted (fst (fire_run rm t ps)) \<longleftrightarrow> snd (fire_run rm t ps) = ss)
    \<and> (\<forall>s \<in> set (snd (fire_run rm t ps)). \<exists>p \<in> set ps. fge p (target_price rm (stage_r s)))"
proof -
  have t: "stages t = ss" "next_index t = 0"
    using assms by (auto simp: take_profit_new_def bind_r_Inr_conv split: if_splits)
  from fire_run_prefix [OF t(2), of rm ps] show ?thesis
    by (intro exI [of _ "next_index (fst (fire_run rm t ps))"]) (auto simp: exhausted_def t)
qed

lemma stages_fire_in_order_witness:
  "\<exists>k \<le> 2. snd (fire_run \<lparr>entry_price = f64_of_nat 10, initial_stop = f64_of_nat 9\<rparr>
      \<lparr>stages = sample_stages, next_index = 0\<rparr> [f64_of_nat 13, f64_of_nat 13]) = take k sample_stages"
proof -
  have "length sample_stages = 2" by (simp add: sample_stages_def)
  with stages_fire_in_order [OF sample_stages_accepted] show ?thesis by metis
qed

section \<open>Stops and peaks never move down\<close>

abbreviation finite_ok :: "f64 \<Rightarrow> bool" where
  "finite_ok a \<equiv> f64_ok a \<and> is_finite a"

interpretation raised: monotone_machine stop_raise "\<lambda>s :: StructuralStop. finite_ok (stop s)" f64_ok stop fle
proof unfold_locales
  fix s :: StructuralStop and c assume "finite_ok (stop s)" "f64_ok c"
  then show "finite_ok (stop (stop_raise s c))" "fle (stop s) (stop (stop_raise s c))"
    by (auto simp: stop_raise_def finite_good flt_imp_fle)
qed (auto intro: fle_trans)

lemma stop_raise_covers:
  "finite_ok (stop s) \<Longrightarrow> finite_ok c \<Longrightarrow> fle c (stop (stop_raise s c))"
  by (auto simp: stop_raise_def finite_good not_flt_iff)

lemma stop_run_member: "stop (foldl stop_raise s cs) \<in> insert (stop s) (set cs)"
proof (induction cs arbitrary: s)
  case (Cons c cs)
  have "stop (stop_raise s c) = stop s \<or> stop (stop_raise s c) = c" by (simp add: stop_raise_def)
  then show ?case using Cons [of "stop_raise s c"] by auto
qed simp

text \<open>
  After any sequence of attempts to raise it a structural stop is the highest of its initial value and
  the finite candidates: it is one of them, none of them is above it, and it never went down.
\<close>

theorem structural_stop_is_highest:
  assumes "stop_new p = Some s" "f64_ok p" "list_all f64_ok cs"
  shows "stop (foldl stop_raise s cs) \<in> insert p (set cs)
    \<and> fle p (stop (foldl stop_raise s cs))
    \<and> (\<forall>c \<in> set cs. is_finite c \<longrightarrow> fle c (stop (foldl stop_raise s cs)))"
proof -
  have s: "stop s = p" "finite_ok p" using assms by (auto simp: stop_new_def split: if_splits)
  have "fle c (stop (foldl stop_raise s cs))" if c: "c \<in> set cs" "is_finite c" for c
  proof -
    obtain as bs where cs: "cs = as @ c # bs" using c(1) by (meson split_list)
    have ok: "f64_ok c" "list_all f64_ok as" "list_all f64_ok bs" using assms(3) cs by simp_all
    let ?u = "foldl stop_raise s as"
    have u: "finite_ok (stop ?u)" "finite_ok (stop (stop_raise ?u c))"
      using raised.run_inv [OF _ ok(2), of s] raised.step_inv [of ?u c] s ok(1) by auto
    have "fle c (stop (stop_raise ?u c))" using stop_raise_covers u(1) ok(1) c(2) by blast
    moreover have "fle (stop (stop_raise ?u c)) (stop (foldl stop_raise (stop_raise ?u c) bs))"
      using raised.run_le [OF u(2) ok(3)] .
    moreover have "finite_ok (stop (foldl stop_raise (stop_raise ?u c) bs))"
      using raised.run_inv [OF u(2) ok(3)] .
    ultimately show ?thesis using fle_trans ok(1) u(2) by (simp add: cs) blast
  qed
  then show ?thesis using s stop_run_member [of s cs] raised.run_le [of s cs] assms(3) by auto
qed

lemma structural_stop_is_highest_witness:
  "fle (f64_of_nat 11) (stop (foldl stop_raise \<lparr>stop = f64_of_nat 10\<rparr> [f64_of_nat 9, f64_of_nat 11]))"
proof -
  have "stop_new (f64_of_nat 10) = Some \<lparr>stop = f64_of_nat 10\<rparr>" "f64_ok (f64_of_nat 10)"
    "list_all f64_ok [f64_of_nat 9, f64_of_nat 11]" "is_finite (f64_of_nat 11)"
    by (simp_all add: stop_new_def f64_eval del: fadd.simps(1) flt.simps(1))
  from structural_stop_is_highest [OF this(1-3)] this(4) show ?thesis by auto
qed

text \<open>The trailing stop's peak: the entry price and the closes seen so far.\<close>

definition trail :: "PeakTrailingStop \<Rightarrow> f64 \<times> f64 \<Rightarrow> PeakTrailingStop" where
  "trail t bar = fst (trailing_update t (fst bar) (snd bar))"

lemma trail_fields [simp]:
  "atr_mult (trail t bar) = atr_mult t" "entry_gate (trail t bar) = entry_gate t"
  "peak_close (trail t bar) = (if flt (peak_close t) (fst bar) then fst bar else peak_close t)"
  by (simp_all add: trail_def trailing_update_def Let_def)

interpretation trailing: monotone_machine trail "\<lambda>t :: PeakTrailingStop. good (peak_close t)"
  "\<lambda>bar. f64_ok (fst bar)" peak_close fle
proof unfold_locales
  fix t :: PeakTrailingStop and bar :: "f64 \<times> f64"
  assume "good (peak_close t)" "f64_ok (fst bar)"
  then show "good (peak_close (trail t bar))" "fle (peak_close t) (peak_close (trail t bar))"
    using flt_nan by (auto simp: good_def flt_imp_fle)
next
  fix s t u :: PeakTrailingStop
  assume "good (peak_close s)" "good (peak_close t)" "good (peak_close u)"
    "fle (peak_close s) (peak_close t)" "fle (peak_close t) (peak_close u)"
  then show "fle (peak_close s) (peak_close u)" by (auto simp: good_def intro: fle_trans)
qed simp

lemma trail_gate: "entry_gate (foldl trail t bars) = entry_gate t"
  by (induction bars arbitrary: t) simp_all

text \<open>
  A trailing stop's peak never goes below the entry price or an earlier peak. When it fires, the
  close is at or below the reported level, which is the peak less the multiple of the true range;
  with the entry gate it fires only at a level above the entry price.
\<close>

theorem trailing_stop_fires:
  assumes "trailing_new k entry = Some t" "f64_ok entry" "list_all (\<lambda>bar. f64_ok (fst bar)) bars"
    and "trailing_update (foldl trail (with_entry_gate t gate) bars) cl a = (u, Some level)"
  shows "fle entry (peak_close (foldl trail (with_entry_gate t gate) bars)) \<and> fle cl level
    \<and> level = fsub (peak_close u) (fmul (atr_mult u) a) \<and> (gate \<longrightarrow> flt entry level)"
proof -
  let ?s = "with_entry_gate t gate"
  have t: "peak_close t = entry" "good entry"
    using assms(1,2) by (auto simp: trailing_new_def good_def split: if_splits)
  have s: "good (peak_close ?s)" "peak_close ?s = entry" using t by (simp_all add: with_entry_gate_def)
  have "entry_gate (foldl trail ?s bars) = (if gate then Some entry else None)"
    using t by (simp add: trail_gate with_entry_gate_def)
  then show ?thesis using assms(4) trailing.run_le [OF s(1) assms(3)] s(2)
    by (auto simp: trailing_update_def stop_level_def Let_def split: if_splits)
qed

lemma trailing_stop_fires_witness:
  "\<exists>u level. trailing_update (with_entry_gate \<lparr>atr_mult = fone, peak_close = f64_of_nat 10, entry_gate = None\<rparr> False)
      (f64_of_nat 8) fone = (u, Some level) \<and> fle (f64_of_nat 8) level"
proof -
  let ?t = "\<lparr>atr_mult = fone, peak_close = f64_of_nat 10, entry_gate = None\<rparr>"
  have new: "trailing_new fone (f64_of_nat 10) = Some ?t" "f64_ok (f64_of_nat 10)"
    by (simp_all add: trailing_new_def f64_eval del: fadd.simps(1) flt.simps(1))
  obtain u level where up: "trailing_update (with_entry_gate ?t False) (f64_of_nat 8) fone = (u, Some level)"
    by (simp add: trailing_update_def with_entry_gate_def stop_level_def f64_eval del: fadd.simps(1) flt.simps(1))
  then have "trailing_update (foldl trail (with_entry_gate ?t False) []) (f64_of_nat 8) fone = (u, Some level)" by simp
  from trailing_stop_fires [OF new _ this] up show ?thesis by auto
qed

section \<open>Average true range\<close>

definition atr_run :: "WilderAtr \<Rightarrow> Ohlc list \<Rightarrow> WilderAtr \<times> f64 option" where
  "atr_run a bars = foldl (\<lambda>(a, last) b. atr_update a b) (a, None) bars"

lemma atr_run_snoc: "atr_run a (bars @ [b]) = atr_update (fst (atr_run a bars)) b"
  by (simp add: atr_run_def case_prod_beta)

text \<open>The true ranges of a run of bars, the first against the previous close, if any.\<close>

fun true_ranges :: "f64 option \<Rightarrow> Ohlc list \<Rightarrow> f64 list" where
  "true_ranges prev [] = []"
| "true_ranges prev (b # bs) = true_range (high b) (low b) prev # true_ranges (Some (close b)) bs"

lemma true_ranges_snoc:
  "true_ranges prev (bs @ [b]) =
     true_ranges prev bs @ [true_range (high b) (low b) (if bs = [] then prev else Some (close (last bs)))]"
  by (induction bs arbitrary: prev) auto

text \<open>Wilder's definition: the mean of the first \<open>p\<close> true ranges, then smoothing.\<close>

fun wilder :: "nat \<Rightarrow> f64 \<Rightarrow> f64 list \<Rightarrow> f64" where
  "wilder p v [] = v"
| "wilder p v (tr # trs) = wilder p (fdiv (fadd (fmul v (f64_of_nat (p - 1))) tr) (f64_of_nat p)) trs"

lemma wilder_snoc:
  "wilder p v (trs @ [tr]) = fdiv (fadd (fmul (wilder p v trs) (f64_of_nat (p - 1))) tr) (f64_of_nat p)"
  by (induction trs arbitrary: v) simp_all

definition wilder_reference :: "nat \<Rightarrow> f64 list \<Rightarrow> f64 option" where
  "wilder_reference p trs =
     (if length trs < p then None
      else Some (wilder p (fdiv (foldl fadd fzero (take p trs)) (f64_of_nat p)) (drop p trs)))"

lemma length_true_ranges [simp]: "length (true_ranges prev bs) = length bs"
  by (induction bs arbitrary: prev) simp_all

lemma wilder_reference_snoc:
  assumes "1 \<le> p"
  shows "wilder_reference p (trs @ [tr]) =
    (if length trs + 1 < p then None
     else if length trs + 1 = p then Some (fdiv (fadd (foldl fadd fzero trs) tr) (f64_of_nat p))
     else map_option (\<lambda>v. fdiv (fadd (fmul v (f64_of_nat (p - 1))) tr) (f64_of_nat p)) (wilder_reference p trs))"
  using assms by (auto simp: wilder_reference_def wilder_snoc)

lemma atr_run_reference:
  assumes "1 \<le> p" "atr_new p = Some a"
  shows "period (fst (atr_run a bars)) = p \<and> seen (fst (atr_run a bars)) = length bars
    \<and> prev_close (fst (atr_run a bars)) = (if bars = [] then None else Some (close (last bars)))
    \<and> tr_sum (fst (atr_run a bars)) = foldl fadd fzero (take (p - 1) (true_ranges None bars))
    \<and> atr (fst (atr_run a bars)) = wilder_reference p (true_ranges None bars)
    \<and> (bars \<noteq> [] \<longrightarrow> snd (atr_run a bars) = wilder_reference p (true_ranges None bars))"
proof (induction bars rule: rev_induct)
  case Nil
  then show ?case using assms by (auto simp: atr_run_def atr_new_def wilder_reference_def)
next
  case (snoc b bars)
  let ?u = "fst (atr_run a bars)"
  let ?trs = "true_ranges None bars"
  consider "length bars + 1 < p" | "length bars + 1 = p" | "p < length bars + 1" by linarith
  then show ?case
  proof cases
    case 1
    moreover from 1 have "wilder_reference p ?trs = None" by (simp add: wilder_reference_def)
    ultimately show ?thesis using snoc assms(1)
      by (simp add: atr_run_snoc atr_update_def Let_def true_ranges_snoc wilder_reference_snoc)
  next
    case 2
    then have "p - 1 = length bars" by simp
    with 2 show ?thesis using snoc assms(1)
      by (simp add: atr_run_snoc atr_update_def Let_def true_ranges_snoc wilder_reference_snoc)
  next
    case 3
    then have "\<exists>v. wilder_reference p ?trs = Some v" "p - Suc (length bars) = 0"
      by (simp_all add: wilder_reference_def)
    with 3 show ?thesis using snoc assms(1)
      by (auto simp: atr_run_snoc atr_update_def Let_def true_ranges_snoc wilder_reference_snoc)
  qed
qed

text \<open>
  C32: The incremental average true range equals Wilder's definition on the whole series: nothing before
  the period is complete, the mean of the first true ranges then, smoothing after. A period of zero
  panics.
\<close>

theorem atr_equals_reference:
  "wilder_atr bars p =
     (if p = 0 then None else Some (wilder_reference p (true_ranges None bars)))"
proof (cases "p = 0")
  case False
  then obtain a where a: "atr_new p = Some a" by (simp add: atr_new_def)
  have "wilder_atr bars p = Some (snd (atr_run a bars))" by (simp add: wilder_atr_def a atr_run_def)
  moreover have "bars = [] \<Longrightarrow> snd (atr_run a bars) = wilder_reference p (true_ranges None bars)"
    using False by (simp add: atr_run_def wilder_reference_def)
  ultimately show ?thesis using False atr_run_reference [OF _ a, of bars] by auto
qed (simp add: wilder_atr_def atr_new_def)

end
