(* ===== verification/Compute_Lang.thy ===== *)
theory Compute_Lang
  imports Stores F64_Order
begin

text \<open>
  The financial calculation language of \<open>crates/compute/src/lib.rs\<close>: programs, expressions and
  validation. Expressions are the typed JSON tree the crate deserialises (deserialisation itself is
  serde's); names are byte strings, input values optional IEEE doubles. The validator threads the
  node counter through the tree as the source does. Main fact: it accepts a program exactly when a
  declarative description of well-formedness holds.
\<close>

section \<open>Limits\<close>

definition LANGUAGE_VERSION :: u8 where "LANGUAGE_VERSION = 1"
definition MAX_INPUTS :: nat where "MAX_INPUTS = 32"
definition MAX_SERIES_LEN :: nat where "MAX_SERIES_LEN = 5000"
definition MAX_TOTAL_INPUT_POINTS :: nat where "MAX_TOTAL_INPUT_POINTS = 100000"
definition MAX_BINDINGS :: nat where "MAX_BINDINGS = 64"
definition MAX_OUTPUTS :: nat where "MAX_OUTPUTS = 32"
definition MAX_AST_NODES :: nat where "MAX_AST_NODES = 1024"
definition MAX_AST_DEPTH :: nat where "MAX_AST_DEPTH = 32"
definition MAX_FUEL :: nat where "MAX_FUEL = 5000000"

lemmas compute_limits = LANGUAGE_VERSION_def MAX_INPUTS_def MAX_SERIES_LEN_def MAX_TOTAL_INPUT_POINTS_def
  MAX_BINDINGS_def MAX_OUTPUTS_def MAX_AST_NODES_def MAX_AST_DEPTH_def MAX_FUEL_def

section \<open>Programs\<close>

type_synonym observations = "f64 option list"

datatype Expr =
    Scalar f64
  | Var string
  | Add Expr Expr
  | Sub Expr Expr
  | Mul Expr Expr
  | Div Expr Expr
  | Neg Expr
  | Abs Expr
  | Clip Expr f64 f64
  | Lag Expr nat
  | Diff Expr
  | Returns Expr
  | LogReturns Expr
  | CumulativeReturn Expr
  | Sma Expr nat
  | Ema Expr nat
  | RollingStd Expr nat "f64 option"
  | Zscore Expr nat
  | Rsi Expr nat
  | Tail Expr nat
  | Mean Expr
  | Std Expr
  | SumOf Expr
  | MinOf Expr
  | MaxOf Expr
  | LastOf Expr
  | CountOf Expr
  | Correlation Expr Expr
  | MaxDrawdown Expr

record Binding =
  binding_name :: string
  binding_expr :: Expr

text \<open>The two \<open>BTreeMap\<close>s are association lists in key order.\<close>

record Program =
  version :: u8
  inputs :: "(string \<times> observations) list"
  bindings :: "Binding list"
  outputs :: "(string \<times> Expr) list"

datatype ComputeError =
    Invalid string
  | UnknownVariable string
  | TypeError string
  | Limit string
  | Fingerprint string

section \<open>Validation\<close>

definition quoted :: "string \<Rightarrow> string" where
  "quoted s = ''`'' @ s @ ''`''"

definition unreasonable :: "f64 \<Rightarrow> bool" where
  "unreasonable v \<longleftrightarrow> \<not> is_finite v \<or> fgt (fabs v) (flit (10 ^ 100) 1)"

definition is_name_char :: "char \<Rightarrow> bool" where
  "is_name_char c \<longleftrightarrow> is_ascii_alphanumeric c \<or> byte c = 95"

definition validate_name :: "string \<Rightarrow> (unit, ComputeError) result" where
  "validate_name s =
     (case s of
        [] \<Rightarrow> Inl (Invalid ''calculation identifiers must not be empty'')
      | c # cs \<Rightarrow>
          if 64 < length s \<or> \<not> (is_ascii_alphabetic c \<or> byte c = 95) \<or> \<not> list_all is_name_char cs
          then Inl (Invalid (quoted s @ '' is not a valid calculation identifier''))
          else Inr ())"

definition validate_window :: "nat \<Rightarrow> (unit, ComputeError) result" where
  "validate_window w =
     ensure (1 \<le> w \<and> w \<le> MAX_SERIES_LEN)
       (Limit (''rolling window must be between 1 and '' @ show_nat MAX_SERIES_LEN))"

text \<open>The head of \<open>validate_expr\<close>: count the node, then check both limits.\<close>

definition enter :: "nat \<Rightarrow> nat \<Rightarrow> (nat, ComputeError) result" where
  "enter depth nodes =
     (let nodes = usize_saturating_add nodes 1
      in if MAX_AST_NODES < nodes then Inl (Limit (''AST exceeds '' @ show_nat MAX_AST_NODES @ '' nodes''))
         else if MAX_AST_DEPTH < depth then Inl (Limit (''AST exceeds depth '' @ show_nat MAX_AST_DEPTH))
         else Inr nodes)"

fun validate_expr :: "Expr \<Rightarrow> nat \<Rightarrow> nat \<Rightarrow> (nat, ComputeError) result" where
  "validate_expr (Scalar v) d n = bind_r (enter d n) (\<lambda>n. if unreasonable v
     then Inl (Invalid ''scalar must be finite and reasonably bounded'') else Inr n)"
| "validate_expr (Var s) d n = bind_r (enter d n) (\<lambda>n. bind_r (validate_name s) (\<lambda>_. Inr n))"
| "validate_expr (Add l r) d n = bind_r (enter d n) (\<lambda>n. bind_r (validate_expr l (d + 1) n) (\<lambda>n. validate_expr r (d + 1) n))"
| "validate_expr (Sub l r) d n = bind_r (enter d n) (\<lambda>n. bind_r (validate_expr l (d + 1) n) (\<lambda>n. validate_expr r (d + 1) n))"
| "validate_expr (Mul l r) d n = bind_r (enter d n) (\<lambda>n. bind_r (validate_expr l (d + 1) n) (\<lambda>n. validate_expr r (d + 1) n))"
| "validate_expr (Div l r) d n = bind_r (enter d n) (\<lambda>n. bind_r (validate_expr l (d + 1) n) (\<lambda>n. validate_expr r (d + 1) n))"
| "validate_expr (Correlation l r) d n = bind_r (enter d n) (\<lambda>n. bind_r (validate_expr l (d + 1) n) (\<lambda>n. validate_expr r (d + 1) n))"
| "validate_expr (Neg e) d n = bind_r (enter d n) (\<lambda>n. validate_expr e (d + 1) n)"
| "validate_expr (Abs e) d n = bind_r (enter d n) (\<lambda>n. validate_expr e (d + 1) n)"
| "validate_expr (Diff e) d n = bind_r (enter d n) (\<lambda>n. validate_expr e (d + 1) n)"
| "validate_expr (Returns e) d n = bind_r (enter d n) (\<lambda>n. validate_expr e (d + 1) n)"
| "validate_expr (LogReturns e) d n = bind_r (enter d n) (\<lambda>n. validate_expr e (d + 1) n)"
| "validate_expr (CumulativeReturn e) d n = bind_r (enter d n) (\<lambda>n. validate_expr e (d + 1) n)"
| "validate_expr (Mean e) d n = bind_r (enter d n) (\<lambda>n. validate_expr e (d + 1) n)"
| "validate_expr (Std e) d n = bind_r (enter d n) (\<lambda>n. validate_expr e (d + 1) n)"
| "validate_expr (SumOf e) d n = bind_r (enter d n) (\<lambda>n. validate_expr e (d + 1) n)"
| "validate_expr (MinOf e) d n = bind_r (enter d n) (\<lambda>n. validate_expr e (d + 1) n)"
| "validate_expr (MaxOf e) d n = bind_r (enter d n) (\<lambda>n. validate_expr e (d + 1) n)"
| "validate_expr (LastOf e) d n = bind_r (enter d n) (\<lambda>n. validate_expr e (d + 1) n)"
| "validate_expr (CountOf e) d n = bind_r (enter d n) (\<lambda>n. validate_expr e (d + 1) n)"
| "validate_expr (MaxDrawdown e) d n = bind_r (enter d n) (\<lambda>n. validate_expr e (d + 1) n)"
| "validate_expr (Clip e lo hi) d n = bind_r (enter d n) (\<lambda>n. 
     if \<not> is_finite lo \<or> \<not> is_finite hi \<or> fgt lo hi
     then Inl (Invalid ''clip bounds must be finite and ordered'') else validate_expr e (d + 1) n)"
| "validate_expr (Lag e k) d n = bind_r (enter d n) (\<lambda>n. 
     if MAX_SERIES_LEN < k then Inl (Limit (''lag cannot exceed '' @ show_nat MAX_SERIES_LEN @ '' periods''))
     else validate_expr e (d + 1) n)"
| "validate_expr (Sma e w) d n = bind_r (enter d n) (\<lambda>n. bind_r (validate_window w) (\<lambda>_. validate_expr e (d + 1) n))"
| "validate_expr (Ema e w) d n = bind_r (enter d n) (\<lambda>n. bind_r (validate_window w) (\<lambda>_. validate_expr e (d + 1) n))"
| "validate_expr (Zscore e w) d n = bind_r (enter d n) (\<lambda>n. bind_r (validate_window w) (\<lambda>_. validate_expr e (d + 1) n))"
| "validate_expr (Rsi e w) d n = bind_r (enter d n) (\<lambda>n. bind_r (validate_window w) (\<lambda>_. validate_expr e (d + 1) n))"
| "validate_expr (RollingStd e w a) d n = bind_r (enter d n) (\<lambda>n. bind_r (validate_window w) (\<lambda>_.
     if (case a of Some v \<Rightarrow> \<not> is_finite v \<or> fle v fzero \<or> fgt v (f64_of_nat 100000) | None \<Rightarrow> False)
     then Inl (Invalid ''annualization must be finite and between 0 and 100000'') else validate_expr e (d + 1) n))"
| "validate_expr (Tail e k) d n = bind_r (enter d n) (\<lambda>n. 
     if k = 0 \<or> MAX_SERIES_LEN < k
     then Inl (Limit (''tail count must be between 1 and '' @ show_nat MAX_SERIES_LEN)) else validate_expr e (d + 1) n)"

fun validate_exprs :: "Expr list \<Rightarrow> nat \<Rightarrow> (nat, ComputeError) result" where
  "validate_exprs [] n = Inr n"
| "validate_exprs (e # es) n = bind_r (validate_expr e 1 n) (validate_exprs es)"

fun check_inputs ::
  "string set \<Rightarrow> nat \<Rightarrow> (string \<times> observations) list \<Rightarrow> (string set, ComputeError) result" where
  "check_inputs names points [] = Inr names"
| "check_inputs names points ((s, vs) # rest) =
     bind_r (validate_name s) (\<lambda>_.
       if vs = [] \<or> MAX_SERIES_LEN < length vs
       then Inl (Limit (''input '' @ quoted s @ '' must contain 1-'' @ show_nat MAX_SERIES_LEN @ '' observations''))
       else let points = usize_saturating_add points (length vs)
         in if MAX_TOTAL_INPUT_POINTS < points
            then Inl (Limit (''inputs exceed '' @ show_nat MAX_TOTAL_INPUT_POINTS @ '' total observations''))
            else if list_ex (\<lambda>v. case v of Some x \<Rightarrow> unreasonable x | None \<Rightarrow> False) vs
            then Inl (Invalid (''input '' @ quoted s @ '' contains a non-finite or unreasonable value''))
            else check_inputs (insert s names) points rest)"

fun check_bindings :: "string set \<Rightarrow> Binding list \<Rightarrow> (unit, ComputeError) result" where
  "check_bindings names [] = Inr ()"
| "check_bindings names (b # bs) =
     bind_r (validate_name (binding_name b)) (\<lambda>_.
       if binding_name b \<in> names
       then Inl (Invalid (''variable '' @ quoted (binding_name b) @ '' is declared more than once''))
       else check_bindings (insert (binding_name b) names) bs)"

fun check_names :: "string list \<Rightarrow> (unit, ComputeError) result" where
  "check_names [] = Inr ()"
| "check_names (s # ss) = bind_r (validate_name s) (\<lambda>_. check_names ss)"

definition validate :: "Program \<Rightarrow> (unit, ComputeError) result" where
  "validate p =
     (if version p \<noteq> LANGUAGE_VERSION
      then Inl (Invalid (''version must be '' @ show_nat (unat LANGUAGE_VERSION)))
      else if MAX_INPUTS < length (inputs p)
      then Inl (Limit (''at most '' @ show_nat MAX_INPUTS @ '' input series are allowed''))
      else if MAX_BINDINGS < length (bindings p)
      then Inl (Limit (''at most '' @ show_nat MAX_BINDINGS @ '' bindings are allowed''))
      else if outputs p = [] \<or> MAX_OUTPUTS < length (outputs p)
      then Inl (Limit (''outputs must contain 1-'' @ show_nat MAX_OUTPUTS @ '' values''))
      else bind_r (check_inputs {} 0 (inputs p)) (\<lambda>names.
        bind_r (check_bindings names (bindings p)) (\<lambda>_.
          bind_r (check_names (map fst (outputs p))) (\<lambda>_.
            bind_r (validate_exprs (map binding_expr (bindings p) @ map snd (outputs p)) 0) (\<lambda>_. Inr ())))))"

section \<open>Well-formed programs\<close>

fun children :: "Expr \<Rightarrow> Expr list" where
  "children (Scalar _) = []"
| "children (Var _) = []"
| "children (Add l r) = [l, r]"
| "children (Sub l r) = [l, r]"
| "children (Mul l r) = [l, r]"
| "children (Div l r) = [l, r]"
| "children (Correlation l r) = [l, r]"
| "children (Neg e) = [e]"
| "children (Abs e) = [e]"
| "children (Clip e _ _) = [e]"
| "children (Lag e _) = [e]"
| "children (Diff e) = [e]"
| "children (Returns e) = [e]"
| "children (LogReturns e) = [e]"
| "children (CumulativeReturn e) = [e]"
| "children (Sma e _) = [e]"
| "children (Ema e _) = [e]"
| "children (RollingStd e _ _) = [e]"
| "children (Zscore e _) = [e]"
| "children (Rsi e _) = [e]"
| "children (Tail e _) = [e]"
| "children (Mean e) = [e]"
| "children (Std e) = [e]"
| "children (SumOf e) = [e]"
| "children (MinOf e) = [e]"
| "children (MaxOf e) = [e]"
| "children (LastOf e) = [e]"
| "children (CountOf e) = [e]"
| "children (MaxDrawdown e) = [e]"

lemma size_children [termination_simp]: "c \<in> set (children e) \<Longrightarrow> size c < size e"
  by (cases e) auto

fun node_count :: "Expr \<Rightarrow> nat" where
  "node_count e = Suc (sum_list (map node_count (children e)))"

fun depth_of :: "Expr \<Rightarrow> nat" where
  "depth_of e = Suc (foldr max (map depth_of (children e)) 0)"

fun subexprs :: "Expr \<Rightarrow> Expr list" where
  "subexprs e = e # concat (map subexprs (children e))"

declare node_count.simps [simp del] depth_of.simps [simp del] subexprs.simps [simp del]

lemma expr_induct [case_names node]:
  assumes "\<And>e. (\<And>c. c \<in> set (children e) \<Longrightarrow> P c) \<Longrightarrow> P e"
  shows "P e"
  by (induction e rule: measure_induct_rule [where f = size]) (use assms size_children in blast)

definition is_identifier :: "string \<Rightarrow> bool" where
  "is_identifier s \<longleftrightarrow> s \<noteq> [] \<and> length s \<le> 64 \<and> list_all is_name_char s \<and> \<not> is_ascii_digit (hd s)"

lemma validate_name_iff [simp]: "validate_name s = Inr u \<longleftrightarrow> is_identifier s"
  by (auto simp: validate_name_def is_identifier_def is_name_char_def is_ascii_alphanumeric_def ascii_defs
      split: list.splits)

fun local_ok :: "Expr \<Rightarrow> bool" where
  "local_ok (Scalar v) \<longleftrightarrow> \<not> unreasonable v"
| "local_ok (Var s) \<longleftrightarrow> is_identifier s"
| "local_ok (Clip _ lo hi) \<longleftrightarrow> is_finite lo \<and> is_finite hi \<and> \<not> flt hi lo"
| "local_ok (Lag _ k) \<longleftrightarrow> k \<le> MAX_SERIES_LEN"
| "local_ok (Sma _ w) \<longleftrightarrow> 1 \<le> w \<and> w \<le> MAX_SERIES_LEN"
| "local_ok (Ema _ w) \<longleftrightarrow> 1 \<le> w \<and> w \<le> MAX_SERIES_LEN"
| "local_ok (Zscore _ w) \<longleftrightarrow> 1 \<le> w \<and> w \<le> MAX_SERIES_LEN"
| "local_ok (Rsi _ w) \<longleftrightarrow> 1 \<le> w \<and> w \<le> MAX_SERIES_LEN"
| "local_ok (RollingStd _ w a) \<longleftrightarrow> 1 \<le> w \<and> w \<le> MAX_SERIES_LEN
     \<and> (\<forall>v. a = Some v \<longrightarrow> is_finite v \<and> \<not> fle v fzero \<and> \<not> flt (f64_of_nat 100000) v)"
| "local_ok (Tail _ k) \<longleftrightarrow> 1 \<le> k \<and> k \<le> MAX_SERIES_LEN"
| "local_ok _ \<longleftrightarrow> True"

definition expr_ok :: "Expr \<Rightarrow> bool" where
  "expr_ok e \<longleftrightarrow> list_all local_ok (subexprs e)"

lemma expr_ok_iff: "expr_ok e \<longleftrightarrow> local_ok e \<and> (\<forall>c \<in> set (children e). expr_ok c)"
  by (auto simp: expr_ok_def subexprs.simps [of e] list_all_iff)

lemma enter_Inr [simp]:
  "enter d n = Inr n' \<longleftrightarrow> n' = n + 1 \<and> n' \<le> MAX_AST_NODES \<and> d \<le> MAX_AST_DEPTH"
  by (auto simp: enter_def usize_saturating_add_def u64_max_def MAX_AST_NODES_def Let_def)

text \<open>The validator's traversal, for every kind of node at once.\<close>

fun validate_list :: "Expr list \<Rightarrow> nat \<Rightarrow> nat \<Rightarrow> (nat, ComputeError) result" where
  "validate_list [] d n = Inr n"
| "validate_list (e # es) d n = bind_r (validate_expr e d n) (\<lambda>n. validate_list es d n)"

lemma validate_window_Inr [simp]: "validate_window w = Inr u \<longleftrightarrow> 1 \<le> w \<and> w \<le> MAX_SERIES_LEN"
  by (simp add: validate_window_def)

lemma validate_expr_node:
  "validate_expr e d n = Inr n' \<longleftrightarrow>
     (\<exists>k. enter d n = Inr k \<and> local_ok e \<and> validate_list (children e) (d + 1) k = Inr n')"
  by (cases e) (auto simp: bind_r_Inr_conv simp del: enter_Inr split: option.splits)

lemma foldr_max_le: "foldr max xs (0 :: nat) \<le> k \<longleftrightarrow> (\<forall>x \<in> set xs. x \<le> k)"
  by (induction xs) auto

lemma depth_of_le: "d + depth_of e \<le> Suc k \<longleftrightarrow> d \<le> k \<and> (\<forall>c \<in> set (children e). Suc d + depth_of c \<le> Suc k)"
proof -
  have "d + depth_of e \<le> Suc k \<longleftrightarrow> d \<le> k \<and> foldr max (map depth_of (children e)) 0 \<le> k - d"
    by (auto simp: depth_of.simps [of e])
  moreover have "(\<forall>c \<in> set (children e). depth_of c \<le> k - d) \<longleftrightarrow> (\<forall>c \<in> set (children e). Suc d + depth_of c \<le> Suc k)"
    if "d \<le> k" using that by (simp add: le_diff_conv2 add.commute)
  ultimately show ?thesis by (auto simp: foldr_max_le)
qed

lemma validate_list_iff:
  assumes "\<And>c d n n'. c \<in> set cs \<Longrightarrow> validate_expr c d n = Inr n' \<longleftrightarrow>
      expr_ok c \<and> n' = n + node_count c \<and> n' \<le> MAX_AST_NODES \<and> d + depth_of c \<le> Suc MAX_AST_DEPTH"
  shows "validate_list cs d n = Inr n' \<longleftrightarrow>
      (\<forall>c \<in> set cs. expr_ok c \<and> d + depth_of c \<le> Suc MAX_AST_DEPTH)
      \<and> n' = n + sum_list (map node_count cs) \<and> (cs \<noteq> [] \<longrightarrow> n' \<le> MAX_AST_NODES)"
  using assms
proof (induction cs arbitrary: n)
  case (Cons c cs)
  have tail: "validate_list cs d k = Inr n' \<longleftrightarrow>
      (\<forall>c \<in> set cs. expr_ok c \<and> d + depth_of c \<le> Suc MAX_AST_DEPTH)
      \<and> n' = k + sum_list (map node_count cs) \<and> (cs \<noteq> [] \<longrightarrow> n' \<le> MAX_AST_NODES)" for k
    using Cons by simp
  have head: "validate_expr c d n = Inr k \<longleftrightarrow>
      expr_ok c \<and> k = n + node_count c \<and> k \<le> MAX_AST_NODES \<and> d + depth_of c \<le> Suc MAX_AST_DEPTH" for k
    using Cons.prems by simp
  show ?case unfolding validate_list.simps bind_r_Inr_conv head tail by auto
qed auto

lemma validate_expr_iff:
  "validate_expr e d n = Inr n' \<longleftrightarrow>
     expr_ok e \<and> n' = n + node_count e \<and> n' \<le> MAX_AST_NODES \<and> d + depth_of e \<le> Suc MAX_AST_DEPTH"
proof (induction e arbitrary: d n n' rule: expr_induct)
  case (node e)
  have cs: "validate_list (children e) (d + 1) k = Inr n' \<longleftrightarrow>
      (\<forall>c \<in> set (children e). expr_ok c \<and> (d + 1) + depth_of c \<le> Suc MAX_AST_DEPTH)
      \<and> n' = k + sum_list (map node_count (children e)) \<and> (children e \<noteq> [] \<longrightarrow> n' \<le> MAX_AST_NODES)" for k n'
    by (rule validate_list_iff) (use node in blast)
  have "validate_expr e d n = Inr n' \<longleftrightarrow>
      n + 1 \<le> MAX_AST_NODES \<and> d \<le> MAX_AST_DEPTH \<and> local_ok e \<and> validate_list (children e) (d + 1) (n + 1) = Inr n'"
    by (auto simp: validate_expr_node)
  then show ?case unfolding cs
    by (auto simp: expr_ok_iff [of e] depth_of_le [of d e MAX_AST_DEPTH] node_count.simps [of e])
qed

lemma validate_exprs_iff:
  "validate_exprs es n = Inr n' \<longleftrightarrow>
     (\<forall>e \<in> set es. expr_ok e \<and> depth_of e \<le> MAX_AST_DEPTH) \<and> n' = n + sum_list (map node_count es)
     \<and> (es \<noteq> [] \<longrightarrow> n' \<le> MAX_AST_NODES)"
proof (induction es arbitrary: n)
  case (Cons e es)
  show ?case unfolding validate_exprs.simps bind_r_Inr_conv validate_expr_iff Cons.IH by auto
qed auto

definition input_ok :: "string \<times> observations \<Rightarrow> bool" where
  "input_ok i \<longleftrightarrow> is_identifier (fst i) \<and> snd i \<noteq> [] \<and> length (snd i) \<le> MAX_SERIES_LEN
     \<and> list_all (\<lambda>v. case v of Some x \<Rightarrow> \<not> unreasonable x | None \<Rightarrow> True) (snd i)"

lemma check_inputs_iff:
  "points \<le> MAX_TOTAL_INPUT_POINTS \<Longrightarrow>
   check_inputs names points is = Inr names' \<longleftrightarrow>
     list_all input_ok is \<and> points + sum_list (map (length \<circ> snd) is) \<le> MAX_TOTAL_INPUT_POINTS
     \<and> names' = names \<union> fst ` set is"
proof (induction "is" arbitrary: names points)
  case (Cons i "is")
  obtain s vs where i: "i = (s, vs)" by fastforce
  define points' where "points' = usize_saturating_add points (length vs)"
  have pts: "points' \<le> MAX_TOTAL_INPUT_POINTS \<longleftrightarrow> points + length vs \<le> MAX_TOTAL_INPUT_POINTS"
    "points' \<le> MAX_TOTAL_INPUT_POINTS \<Longrightarrow> points' = points + length vs"
    by (auto simp: points'_def usize_saturating_add_def u64_max_def MAX_TOTAL_INPUT_POINTS_def)
  have ok: "list_ex (\<lambda>v. case v of Some x \<Rightarrow> unreasonable x | None \<Rightarrow> False) vs \<longleftrightarrow>
      \<not> list_all (\<lambda>v. case v of Some x \<Rightarrow> \<not> unreasonable x | None \<Rightarrow> True) vs"
    by (auto simp: list_ex_iff list_all_iff split: option.splits)
  show ?case
  proof (cases "points' \<le> MAX_TOTAL_INPUT_POINTS")
    case True
    then show ?thesis using Cons.IH [OF True] pts
      by (auto simp: i input_ok_def bind_r_Inr_conv ok points'_def [symmetric] Let_def)
  next
    case False
    then show ?thesis using pts(1)
      by (auto simp: i bind_r_Inr_conv points'_def [symmetric] Let_def)
  qed
qed auto

lemma check_bindings_iff:
  "check_bindings names bs = Inr u \<longleftrightarrow>
     list_all is_identifier (map binding_name bs) \<and> distinct (map binding_name bs)
     \<and> names \<inter> set (map binding_name bs) = {}"
  by (induction bs arbitrary: names) (auto simp: bind_r_Inr_conv)

lemma check_names_iff: "check_names ss = Inr u \<longleftrightarrow> list_all is_identifier ss"
  by (induction ss) (auto simp: bind_r_Inr_conv)

definition program_exprs :: "Program \<Rightarrow> Expr list" where
  "program_exprs p = map binding_expr (bindings p) @ map snd (outputs p)"

definition program_ok :: "Program \<Rightarrow> bool" where
  "program_ok p \<longleftrightarrow>
     version p = 1 \<and> length (inputs p) \<le> 32 \<and> length (bindings p) \<le> 64
     \<and> 1 \<le> length (outputs p) \<and> length (outputs p) \<le> 32
     \<and> list_all input_ok (inputs p) \<and> sum_list (map (length \<circ> snd) (inputs p)) \<le> 100000
     \<and> list_all is_identifier (map binding_name (bindings p) @ map fst (outputs p))
     \<and> distinct (map binding_name (bindings p))
     \<and> set (map fst (inputs p)) \<inter> set (map binding_name (bindings p)) = {}
     \<and> list_all (\<lambda>e. expr_ok e \<and> depth_of e \<le> 32) (program_exprs p)
     \<and> sum_list (map node_count (program_exprs p)) \<le> 1024"

lemma validate_program_ok: "validate p = Inr () \<longleftrightarrow> program_ok p"
proof -
  have len: "outputs p \<noteq> [] \<longleftrightarrow> 1 \<le> length (outputs p)" by (cases "outputs p") auto
  show ?thesis
    unfolding validate_def program_ok_def program_exprs_def
    using len
    by (auto simp: bind_r_Inr_conv check_inputs_iff check_bindings_iff check_names_iff validate_exprs_iff
        compute_limits list_all_iff)
qed

text \<open>
  C40: Validation accepts exactly the well-formed programs: the version, the size and naming limits, names
  declared once, reasonable inputs and literals, parameters in range, at most 32 levels and at most
  1024 nodes over all expressions together.
\<close>

theorem validate_iff_well_formed:
  "validate p = Inr () \<longleftrightarrow> program_ok p"
  by (rule validate_program_ok)

end
