(* ===== verification/Compute_Series.thy ===== *)
theory Compute_Series
  imports Compute_Lang
begin

text \<open>
  The numeric kernels of \<open>crates/compute/src/lib.rs\<close>: the running window, the relative strength
  index, variance, correlation and the sequential reductions, on IEEE doubles in the source's order
  of operations. \<open>powi(2)\<close> is one multiplication, \<open>iter().sum()\<close> starts at \<open>-0\<close>, and the natural
  logarithm, whose rounding the standard library leaves open, is a parameter where it is used.
  Main facts: a window has a value exactly when it is complete and has no missing observation, and
  the kernels keep lengths and, but for two, finiteness.
\<close>

section \<open>Kernels\<close>

definition finite_number :: "f64 \<Rightarrow> f64 option" where
  "finite_number v = (if is_finite v then Some v else None)"

definition zip_number :: "(f64 \<Rightarrow> f64 \<Rightarrow> f64 option) \<Rightarrow> f64 option \<Rightarrow> f64 option \<Rightarrow> f64 option" where
  "zip_number f l r = Option.bind l (\<lambda>l. Option.bind r (f l))"

definition pair_change :: "(f64 \<Rightarrow> f64 \<Rightarrow> f64 option) \<Rightarrow> observations \<Rightarrow> observations" where
  "pair_change f vs =
     (if vs = [] then []
      else None # map (\<lambda>(previous, current). zip_number f current previous) (zip vs (tl vs)))"

definition fsum :: "f64 list \<Rightarrow> f64" where
  "fsum vs = foldl fadd fnegzero vs"

definition variance :: "f64 \<Rightarrow> f64 \<Rightarrow> nat \<Rightarrow> f64" where
  "variance s q n =
     (let count = f64_of_nat n; mean = fdiv s count
      in fmax (fsub (fdiv q count) (fmul mean mean)) fzero)"

text \<open>The running window: sum, sum of squares and the number of missing observations.\<close>

type_synonym window = "f64 \<times> f64 \<times> nat"

fun window_add :: "f64 option \<Rightarrow> window \<Rightarrow> window" where
  "window_add (Some x) (s, q, missing) = (fadd s x, fadd q (fmul x x), missing)"
| "window_add None (s, q, missing) = (s, q, missing + 1)"

fun window_drop :: "f64 option \<Rightarrow> window \<Rightarrow> window" where
  "window_drop (Some x) (s, q, missing) = (fsub s x, fsub q (fmul x x), missing)"
| "window_drop None (s, q, missing) = (s, q, missing - 1)"

type_synonym window_op = "f64 \<Rightarrow> f64 \<Rightarrow> f64 \<Rightarrow> nat \<Rightarrow> f64 option"

definition window_step ::
  "observations \<Rightarrow> nat \<Rightarrow> window_op \<Rightarrow> window \<times> observations \<Rightarrow> nat \<Rightarrow> window \<times> observations" where
  "window_step vs w f = (\<lambda>(st, out) i.
     (let st = window_add (vs ! i) st;
          (s, q, missing) = (if w \<le> i then window_drop (vs ! (i - w)) st else st)
      in ((s, q, missing),
          out @ [if w \<le> i + 1 \<and> missing = 0 then Option.bind (vs ! i) (\<lambda>x. f x s q w) else None])))"

definition rolling_with_current :: "observations \<Rightarrow> nat \<Rightarrow> window_op \<Rightarrow> observations" where
  "rolling_with_current vs w f =
     snd (foldl (window_step vs w f) ((fzero, fzero, 0), []) [0..<length vs])"

definition rolling :: "observations \<Rightarrow> nat \<Rightarrow> (f64 \<Rightarrow> f64 \<Rightarrow> nat \<Rightarrow> f64 option) \<Rightarrow> observations" where
  "rolling vs w f = rolling_with_current vs w (\<lambda>_. f)"

text \<open>
  \<open>gains[1..]\<close> and \<open>losses[1..]\<close>. The window is at least one (a window of zero, which validation
  excludes, would index before the first element).
\<close>

definition gains :: "observations \<Rightarrow> observations" where
  "gains vs = map (\<lambda>(previous, current). zip_number (\<lambda>c p. Some (fmax (fsub c p) fzero)) current previous) (zip vs (tl vs))"

definition losses :: "observations \<Rightarrow> observations" where
  "losses vs =
     map (\<lambda>(previous, current). zip_number (\<lambda>c p. Some (fmax (fneg (fsub c p)) fzero)) current previous) (zip vs (tl vs))"

definition rsi_value :: "f64 option \<Rightarrow> f64 option \<Rightarrow> f64 option" where
  "rsi_value gain loss =
     zip_number (\<lambda>gain loss.
       if feq loss fzero then Some (if feq gain fzero then f64_of_nat 50 else f64_of_nat 100)
       else Some (fsub (f64_of_nat 100) (fdiv (f64_of_nat 100) (fadd fone (fdiv gain loss))))) gain loss"

definition rsi :: "observations \<Rightarrow> nat \<Rightarrow> observations" where
  "rsi vs w =
     (if length vs \<le> w then replicate (length vs) None
      else
        (let average = (\<lambda>s _ w. Some (fdiv s (f64_of_nat w)));
             rolling_gains = rolling (gains vs) w average;
             rolling_losses = rolling (losses vs) w average
         in replicate w None
            @ map (\<lambda>i. rsi_value (rolling_gains ! (i - 1)) (rolling_losses ! (i - 1))) [w..<length vs]))"

definition correlation :: "(f64 \<times> f64) list \<Rightarrow> f64 option" where
  "correlation pairs =
     (if length pairs < 2 then None
      else
        (let count = f64_of_nat (length pairs);
             mean_left = fdiv (fsum (map fst pairs)) count;
             mean_right = fdiv (fsum (map snd pairs)) count;
             square = (\<lambda>x. fmul x x);
             covariance = fdiv (fsum (map (\<lambda>p. fmul (fsub (fst p) mean_left) (fsub (snd p) mean_right)) pairs)) count;
             variance_left = fdiv (fsum (map (\<lambda>p. square (fsub (fst p) mean_left)) pairs)) count;
             variance_right = fdiv (fsum (map (\<lambda>p. square (fsub (snd p) mean_right)) pairs)) count;
             denominator = fsqrt (fmul variance_left variance_right)
         in if feq denominator fzero then None else finite_number (fdiv covariance denominator)))"

section \<open>Sequential operations of the evaluator\<close>

definition lag_values :: "observations \<Rightarrow> nat \<Rightarrow> observations" where
  "lag_values vs k =
     (if k < length vs then replicate k None @ take (length vs - k) vs else replicate (length vs) None)"

fun cumulative :: "f64 \<Rightarrow> observations \<Rightarrow> observations" where
  "cumulative wealth [] = []"
| "cumulative wealth (Some v # vs) =
     (if flt (fneg fone) v
      then let wealth = fmul wealth (fadd fone v) in finite_number (fsub wealth fone) # cumulative wealth vs
      else None # cumulative wealth vs)"
| "cumulative wealth (None # vs) = None # cumulative wealth vs"

fun ema_from :: "f64 \<Rightarrow> f64 option \<Rightarrow> observations \<Rightarrow> observations" where
  "ema_from alpha current [] = []"
| "ema_from alpha current (None # vs) = None # ema_from alpha current vs"
| "ema_from alpha None (Some v # vs) = Some v # ema_from alpha (Some v) vs"
| "ema_from alpha (Some previous) (Some v # vs) =
     (let current = finite_number (fadd (fmul alpha v) (fmul (fsub fone alpha) previous))
      in current # ema_from alpha current vs)"

definition ema :: "observations \<Rightarrow> nat \<Rightarrow> observations" where
  "ema vs w = ema_from (fdiv (f64_of_nat 2) (fadd (f64_of_nat w) fone)) None vs"

definition tail_values :: "observations \<Rightarrow> nat \<Rightarrow> observations" where
  "tail_values vs k = drop (length vs - k) vs"

definition present :: "observations \<Rightarrow> f64 list" where
  "present vs = map the (filter (\<lambda>v. v \<noteq> None) vs)"

definition drawdown_step :: "f64 option \<times> f64 \<times> bool \<Rightarrow> f64 \<Rightarrow> f64 option \<times> f64 \<times> bool" where
  "drawdown_step = (\<lambda>(peak, worst, observed) v.
     (let p = (case peak of None \<Rightarrow> v | Some current \<Rightarrow> fmax current v)
      in if feq p fzero then (Some p, worst, observed)
         else (Some p, fmin worst (fsub (fdiv v p) fone), True)))"

definition max_drawdown :: "observations \<Rightarrow> f64 option" where
  "max_drawdown vs =
     (let (_, worst, observed) = foldl drawdown_step (None, fzero, False) (present vs)
      in if observed then Some worst else None)"

definition mean_of :: "f64 list \<Rightarrow> f64 option" where
  "mean_of vs = (if vs = [] then None else finite_number (fdiv (fsum vs) (f64_of_nat (length vs))))"

definition std_of :: "f64 list \<Rightarrow> f64 option" where
  "std_of vs =
     (if vs = [] then None
      else finite_number (fsqrt (variance (fsum vs) (fsum (map (\<lambda>v. fmul v v) vs)) (length vs))))"

definition sum_of :: "f64 list \<Rightarrow> f64 option" where
  "sum_of vs = (if vs = [] then None else Some (fsum vs))"

fun reduce_of :: "(f64 \<Rightarrow> f64 \<Rightarrow> f64) \<Rightarrow> f64 list \<Rightarrow> f64 option" where
  "reduce_of f [] = None"
| "reduce_of f (v # vs) = Some (foldl f v vs)"

definition last_of :: "f64 list \<Rightarrow> f64 option" where
  "last_of vs = (if vs = [] then None else Some (last vs))"

section \<open>Windows\<close>

text \<open>The observations the window of length \<open>w\<close> ending at \<open>i\<close> covers.\<close>

definition window_at :: "observations \<Rightarrow> nat \<Rightarrow> nat \<Rightarrow> observations" where
  "window_at vs w i = drop (Suc i - w) (take (Suc i) vs)"

definition missing_in :: "observations \<Rightarrow> nat" where
  "missing_in vs = length (filter (\<lambda>v. v = None) vs)"

definition missing_of :: "window \<Rightarrow> nat" where
  "missing_of st = snd (snd st)"

lemma missing_of_simps [simp]:
  "missing_of (s, q, m) = m"
  "missing_of (window_add v st) = missing_of st + (if v = None then 1 else 0)"
  "missing_of (window_drop v st) = missing_of st - (if v = None then 1 else 0)"
  by (cases v; cases st; simp add: missing_of_def)+

lemma missing_in_simps [simp]:
  "missing_in [] = 0"
  "missing_in (v # vs) = (if v = None then 1 else 0) + missing_in vs"
  "missing_in (us @ vs) = missing_in us + missing_in vs"
  by (simp_all add: missing_in_def)

lemma window_at_Suc:
  assumes "i < length vs" "1 \<le> w"
  shows "missing_in (drop (i - w) (take i vs)) + (if vs ! i = None then 1 else 0)
    = missing_in (window_at vs w i) + (if w \<le> i \<and> vs ! (i - w) = None then 1 else 0)"
proof -
  have t: "take (Suc i) vs = take i vs @ [vs ! i]" using assms(1) by (rule take_Suc_conv_app_nth)
  show ?thesis
  proof (cases "w \<le> i")
    case True
    then have "drop (i - w) (take i vs) = vs ! (i - w) # drop (Suc i - w) (take i vs)"
      using assms by (subst Cons_nth_drop_Suc [symmetric]) (simp_all add: Suc_diff_le)
    then show ?thesis using True t assms by (simp add: window_at_def)
  next
    case False
    then show ?thesis using t by (simp add: window_at_def not_le Suc_le_eq)
  qed
qed

text \<open>
  After \<open>i\<close> steps the counter is the number of missing observations in the window, so it never
  underflows, and the output so far has a value only where the window was complete.
\<close>

lemma window_run:
  assumes "1 \<le> w" "n \<le> length vs"
  shows "missing_of (fst (foldl (window_step vs w f) ((fzero, fzero, 0), []) [0..<n])) = missing_in (drop (n - w) (take n vs))
    \<and> length (snd (foldl (window_step vs w f) ((fzero, fzero, 0), []) [0..<n])) = n
    \<and> (\<forall>i < n. \<exists>s q. snd (foldl (window_step vs w f) ((fzero, fzero, 0), []) [0..<n]) ! i
          = (if w \<le> i + 1 \<and> None \<notin> set (window_at vs w i) then Option.bind (vs ! i) (\<lambda>x. f x s q w) else None))"
  using assms(2)
proof (induction n)
  case (Suc n)
  obtain st out where run: "foldl (window_step vs w f) ((fzero, fzero, 0), []) [0..<n] = (st, out)" by fastforce
  define st' where "st' = (if w \<le> n then window_drop (vs ! (n - w)) (window_add (vs ! n) st) else window_add (vs ! n) st)"
  define o' where "o' = (case st' of (s, q, missing) \<Rightarrow>
    if w \<le> n + 1 \<and> missing = 0 then Option.bind (vs ! n) (\<lambda>x. f x s q w) else None)"
  have step: "foldl (window_step vs w f) ((fzero, fzero, 0), []) [0..<Suc n] = (st', out @ [o'])"
  proof -
    have "window_step vs w f (st, out) n = (st', out @ [o'])"
      unfolding window_step_def case_prod_conv Let_def st'_def [symmetric] o'_def by (simp split: prod.split)
    then show ?thesis by (simp add: run)
  qed
  have IH: "missing_of st = missing_in (drop (n - w) (take n vs))" "length out = n"
    "\<forall>i < n. \<exists>s q. out ! i
       = (if w \<le> i + 1 \<and> None \<notin> set (window_at vs w i) then Option.bind (vs ! i) (\<lambda>x. f x s q w) else None)"
    using Suc run by auto
  have m: "missing_of st' = missing_in (window_at vs w n)"
    using window_at_Suc [of n vs w] Suc.prems assms(1) IH(1) by (auto simp: st'_def split: if_splits)
  have "missing_of st' = 0 \<longleftrightarrow> None \<notin> set (window_at vs w n)"
    unfolding m missing_in_def length_0_conv filter_empty_conv by metis
  then have "\<exists>s q. o' = (if w \<le> n + 1 \<and> None \<notin> set (window_at vs w n) then Option.bind (vs ! n) (\<lambda>x. f x s q w) else None)"
    by (cases st') (auto simp: o'_def missing_of_def)
  then have "\<forall>i < Suc n. \<exists>s q. (out @ [o']) ! i
       = (if w \<le> i + 1 \<and> None \<notin> set (window_at vs w i) then Option.bind (vs ! i) (\<lambda>x. f x s q w) else None)"
    using IH(2,3) by (simp add: nth_append less_Suc_eq)
  then show ?case using m IH(2) unfolding step by (simp add: window_at_def)
qed simp

text \<open>
  A rolling indicator has one output per observation; the output at \<open>i\<close> is computed exactly when the
  window ending at \<open>i\<close> is complete and no observation in it is missing.
\<close>

theorem rolling_needs_complete_window:
  assumes "1 \<le> w"
  shows "length (rolling_with_current vs w f) = length vs
    \<and> (\<forall>i < length vs. \<exists>s q. rolling_with_current vs w f ! i
          = (if w \<le> i + 1 \<and> None \<notin> set (drop (Suc i - w) (take (Suc i) vs)) then Option.bind (vs ! i) (\<lambda>x. f x s q w) else None))"
  using window_run [OF assms order.refl, of vs f] unfolding rolling_with_current_def window_at_def by blast

lemma rolling_needs_complete_window_witness:
  "rolling_with_current [Some fone, None, Some fone] 1 (\<lambda>x s q w. Some x) ! 1 = None"
  using rolling_needs_complete_window [of 1 "[Some fone, None, Some fone]" "\<lambda>x s q w. Some x"] by fastforce

lemma rolling_with_current_run:
  assumes "1 \<le> w"
  shows "length (rolling_with_current vs w f) = length vs"
    "\<And>i. i < length vs \<Longrightarrow> rolling_with_current vs w f ! i = None \<or> (\<exists>x s q. rolling_with_current vs w f ! i = f x s q w)"
proof -
  have run: "length (rolling_with_current vs w f) = length vs
    \<and> (\<forall>i < length vs. \<exists>s q. rolling_with_current vs w f ! i
          = (if w \<le> i + 1 \<and> None \<notin> set (window_at vs w i) then Option.bind (vs ! i) (\<lambda>x. f x s q w) else None))"
    using window_run [OF assms order.refl, of vs f] unfolding rolling_with_current_def by blast
  then show "length (rolling_with_current vs w f) = length vs" by blast
  fix i assume "i < length vs"
  then obtain s q where "rolling_with_current vs w f ! i
          = (if w \<le> i + 1 \<and> None \<notin> set (window_at vs w i) then Option.bind (vs ! i) (\<lambda>x. f x s q w) else None)"
    using run by blast
  then show "rolling_with_current vs w f ! i = None \<or> (\<exists>x s q. rolling_with_current vs w f ! i = f x s q w)"
    by (cases "vs ! i") (auto split: if_splits)
qed

section \<open>Lengths\<close>

lemma length_pair_change [simp]: "length (pair_change f vs) = length vs"
  by (cases vs) (simp_all add: pair_change_def)

lemma length_lag_values [simp]: "length (lag_values vs k) = length vs"
  by (simp add: lag_values_def)

lemma length_cumulative [simp]: "length (cumulative w vs) = length vs"
  by (induction w vs rule: cumulative.induct) (simp_all add: Let_def)

lemma length_ema_from [simp]: "length (ema_from a c vs) = length vs"
  by (induction a c vs rule: ema_from.induct) (simp_all add: Let_def)

lemma length_tail_values [simp]: "length (tail_values vs k) = min k (length vs)"
  by (simp add: tail_values_def)

lemma length_rolling_with_current [simp]: "length (rolling_with_current vs w f) = length vs"
proof -
  have "length (snd (foldl (window_step vs w f) st is)) = length (snd st) + length is" for st "is"
    by (induction "is" arbitrary: st) (simp_all add: window_step_def Let_def split: prod.split)
  then show ?thesis by (simp add: rolling_with_current_def)
qed

lemma length_rolling [simp]: "length (rolling vs w f) = length vs"
  by (simp add: rolling_def)

lemma length_rsi [simp]: "length (rsi vs w) = length vs"
  by (simp add: rsi_def Let_def)

section \<open>Finiteness\<close>

definition all_finite :: "observations \<Rightarrow> bool" where
  "all_finite vs \<longleftrightarrow> list_all (pred_option is_finite) vs"

lemma all_finite_simps [simp]:
  "all_finite []"
  "all_finite (v # vs) \<longleftrightarrow> pred_option is_finite v \<and> all_finite vs"
  "all_finite (us @ vs) \<longleftrightarrow> all_finite us \<and> all_finite vs"
  "all_finite (replicate n None)"
  by (auto simp: all_finite_def list_all_iff)

lemma all_finite_nth: "all_finite vs \<longleftrightarrow> (\<forall>i < length vs. pred_option is_finite (vs ! i))"
  by (simp add: all_finite_def list_all_length)

lemma all_finite_take_drop: "all_finite vs \<Longrightarrow> all_finite (take n vs)" "all_finite vs \<Longrightarrow> all_finite (drop n vs)"
  by (auto simp: all_finite_def list_all_iff dest: in_set_takeD in_set_dropD)

lemma finite_number_finite [simp]: "pred_option is_finite (finite_number v)"
  by (simp add: finite_number_def)

lemma zip_number_finite:
  "(\<And>a b. is_finite a \<Longrightarrow> is_finite b \<Longrightarrow> pred_option is_finite (f a b)) \<Longrightarrow>
   pred_option is_finite l \<Longrightarrow> pred_option is_finite r \<Longrightarrow> pred_option is_finite (zip_number f l r)"
  by (cases l; cases r) (simp_all add: zip_number_def)

lemma pair_change_finite:
  assumes "\<And>a b. is_finite a \<Longrightarrow> is_finite b \<Longrightarrow> pred_option is_finite (f a b)" "all_finite vs"
  shows "all_finite (pair_change f vs)"
proof -
  have "pred_option is_finite (zip_number f c p)" if "(p, c) \<in> set (zip vs (tl vs))" for p c
    using that assms zip_number_finite [of f c p] set_zip_leftD [OF that] set_zip_rightD [OF that]
    by (cases vs) (auto simp: all_finite_def list_all_iff)
  then show ?thesis by (auto simp: pair_change_def all_finite_def list_all_iff)
qed

lemma lag_finite: "all_finite vs \<Longrightarrow> all_finite (lag_values vs k)"
  by (simp add: lag_values_def all_finite_take_drop)

lemma tail_finite: "all_finite vs \<Longrightarrow> all_finite (tail_values vs k)"
  by (simp add: tail_values_def all_finite_take_drop)

lemma cumulative_finite: "all_finite (cumulative w vs)"
  by (induction w vs rule: cumulative.induct) (simp_all add: Let_def)

lemma ema_from_finite: "all_finite vs \<Longrightarrow> all_finite (ema_from a c vs)"
  by (induction a c vs rule: ema_from.induct) (simp_all add: Let_def)

lemma rolling_finite:
  assumes "1 \<le> w" "\<And>x s q. pred_option is_finite (f x s q w)"
  shows "all_finite (rolling_with_current vs w f)"
  unfolding all_finite_nth
proof (intro allI impI)
  fix i assume "i < length (rolling_with_current vs w f)"
  then have "i < length vs" using rolling_with_current_run(1) [OF assms(1)] by simp
  then have "rolling_with_current vs w f ! i = None \<or> (\<exists>x s q. rolling_with_current vs w f ! i = f x s q w)"
    by (rule rolling_with_current_run(2) [OF assms(1)])
  then show "pred_option is_finite (rolling_with_current vs w f ! i)" using assms(2) by auto
qed

lemma correlation_finite [simp]: "pred_option is_finite (correlation ps)"
  by (simp add: correlation_def Let_def)

end
