(* ===== verification/Compute_Eval.thy ===== *)
theory Compute_Eval
  imports Compute_Series "HOL-Library.List_Lexorder" "HOL-Library.Char_ord"
begin

text \<open>
  The fuel-metered evaluator and \<open>execute\<close> of \<open>crates/compute/src/lib.rs\<close>. A metered computation
  takes the fuel used so far and gives a value and the fuel used after it, or an error; the
  environment is a \<open>BTreeMap\<close>. The natural logarithm and the fingerprint (serde's rendering and
  SHA-256) are parameters. Main facts: metering is transparent (a value does not depend on the fuel
  used before it, costs add up, and the limit is the only thing fuel changes), every result is
  bounded in length, and, apart from two operations, only finite numbers come out.
\<close>

section \<open>Values and fuel\<close>

datatype ComputedValue = VScalar "f64 option" | VSeries observations

definition value_cost :: "ComputedValue \<Rightarrow> nat" where
  "value_cost v = (case v of VScalar _ \<Rightarrow> 1 | VSeries vs \<Rightarrow> max (length vs) 1)"

type_synonym 'a metered = "nat \<Rightarrow> ('a \<times> nat, ComputeError) result"

definition fuel_exhausted :: ComputeError where
  "fuel_exhausted = Limit (''program consumed more than '' @ show_nat MAX_FUEL @ '' fuel units'')"

definition pay :: "nat \<Rightarrow> unit metered" where
  "pay amount = (\<lambda>used.
     let used = usize_saturating_add used (max amount 1)
     in if MAX_FUEL < used then Inl fuel_exhausted else Inr ((), used))"

definition give :: "'a \<Rightarrow> 'a metered" where
  "give a = (\<lambda>used. Inr (a, used))"

definition fail :: "ComputeError \<Rightarrow> 'a metered" where
  "fail e = (\<lambda>used. Inl e)"

definition and_then :: "'a metered \<Rightarrow> ('a \<Rightarrow> 'b metered) \<Rightarrow> 'b metered" where
  "and_then m k = (\<lambda>used. bind_r (m used) (\<lambda>(a, used). k a used))"

section \<open>Operations\<close>

definition eval_series :: "string \<Rightarrow> ComputedValue metered \<Rightarrow> observations metered" where
  "eval_series operation m = and_then m (\<lambda>v.
     case v of VSeries vs \<Rightarrow> give vs | VScalar _ \<Rightarrow> fail (TypeError (operation @ '' requires a series'')))"

definition unary :: "(f64 \<Rightarrow> f64 option) \<Rightarrow> ComputedValue metered \<Rightarrow> ComputedValue metered" where
  "unary f m = and_then m (\<lambda>v. and_then (pay (value_cost v)) (\<lambda>_.
     give (case v of
         VScalar x \<Rightarrow> VScalar (Option.bind x f)
       | VSeries vs \<Rightarrow> VSeries (map (\<lambda>x. Option.bind x f) vs))))"

definition binary ::
  "(f64 \<Rightarrow> f64 \<Rightarrow> f64 option) \<Rightarrow> ComputedValue metered \<Rightarrow> ComputedValue metered \<Rightarrow> ComputedValue metered" where
  "binary f ml mr = and_then ml (\<lambda>l. and_then mr (\<lambda>r.
     and_then (pay (max (value_cost l) (value_cost r))) (\<lambda>_.
       case (l, r) of
         (VScalar x, VScalar y) \<Rightarrow> give (VScalar (zip_number f x y))
       | (VSeries xs, VScalar y) \<Rightarrow> give (VSeries (map (\<lambda>x. zip_number f x y) xs))
       | (VScalar x, VSeries ys) \<Rightarrow> give (VSeries (map (\<lambda>y. zip_number f x y) ys))
       | (VSeries xs, VSeries ys) \<Rightarrow>
           if length xs \<noteq> length ys
           then fail (TypeError ''binary series operands must have equal lengths'')
           else give (VSeries (map (\<lambda>(x, y). zip_number f x y) (zip xs ys))))))"

text \<open>A point operation on a series: evaluate, pay one unit per observation, transform.\<close>

definition on_series :: "string \<Rightarrow> (observations \<Rightarrow> ComputedValue) \<Rightarrow> ComputedValue metered \<Rightarrow> ComputedValue metered" where
  "on_series operation f m = and_then (eval_series operation m) (\<lambda>vs.
     and_then (pay (length vs)) (\<lambda>_. give (f vs)))"

definition reduce :: "string \<Rightarrow> (f64 list \<Rightarrow> f64 option) \<Rightarrow> ComputedValue metered \<Rightarrow> ComputedValue metered" where
  "reduce operation f = on_series operation (\<lambda>vs. VScalar (Option.bind (f (present vs)) finite_number))"

definition rolling_std_op :: "f64 option \<Rightarrow> f64 \<Rightarrow> f64 \<Rightarrow> nat \<Rightarrow> f64 option" where
  "rolling_std_op annualization s q w =
     finite_number (fmul (fsqrt (variance s q w))
       (fsqrt (case annualization of Some a \<Rightarrow> a | None \<Rightarrow> fone)))"

definition zscore_op :: "f64 \<Rightarrow> f64 \<Rightarrow> f64 \<Rightarrow> nat \<Rightarrow> f64 option" where
  "zscore_op current s q w =
     (let std = fsqrt (variance s q w)
      in if feq std fzero then None
         else finite_number (fdiv (fsub current (fdiv s (f64_of_nat w))) std))"

type_synonym environment = "(string \<times> ComputedValue) list"

text \<open>
  \<open>clamp\<close> panics on unordered bounds, which validation excludes; \<open>fclamp\<close> has no value there.
\<close>

fun eval :: "(f64 \<Rightarrow> f64) \<Rightarrow> environment \<Rightarrow> Expr \<Rightarrow> ComputedValue metered" where
  "eval flog env (Scalar v) = and_then (pay 1) (\<lambda>_. give (VScalar (Some v)))"
| "eval flog env (Var s) =
     (case map_of env s of
        None \<Rightarrow> fail (UnknownVariable s)
      | Some v \<Rightarrow> and_then (pay (value_cost v)) (\<lambda>_. give v))"
| "eval flog env (Add l r) = binary (\<lambda>a b. finite_number (fadd a b)) (eval flog env l) (eval flog env r)"
| "eval flog env (Sub l r) = binary (\<lambda>a b. finite_number (fsub a b)) (eval flog env l) (eval flog env r)"
| "eval flog env (Mul l r) = binary (\<lambda>a b. finite_number (fmul a b)) (eval flog env l) (eval flog env r)"
| "eval flog env (Div l r) =
     binary (\<lambda>a b. if feq b fzero then None else finite_number (fdiv a b)) (eval flog env l) (eval flog env r)"
| "eval flog env (Neg e) = unary (\<lambda>v. finite_number (fneg v)) (eval flog env e)"
| "eval flog env (Abs e) = unary (\<lambda>v. finite_number (fabs v)) (eval flog env e)"
| "eval flog env (Clip e lo hi) = unary (\<lambda>v. fclamp v lo hi) (eval flog env e)"
| "eval flog env (Lag e k) = on_series ''lag'' (\<lambda>vs. VSeries (lag_values vs k)) (eval flog env e)"
| "eval flog env (Diff e) =
     on_series ''diff'' (\<lambda>vs. VSeries (pair_change (\<lambda>c p. finite_number (fsub c p)) vs)) (eval flog env e)"
| "eval flog env (Returns e) =
     on_series ''returns'' (\<lambda>vs. VSeries (pair_change
       (\<lambda>c p. if feq p fzero then None else finite_number (fsub (fdiv c p) fone)) vs)) (eval flog env e)"
| "eval flog env (LogReturns e) =
     on_series ''log_returns'' (\<lambda>vs. VSeries (pair_change
       (\<lambda>c p. if fle c fzero \<or> fle p fzero then None else finite_number (flog (fdiv c p))) vs)) (eval flog env e)"
| "eval flog env (CumulativeReturn e) =
     on_series ''cumulative_return'' (\<lambda>vs. VSeries (cumulative fone vs)) (eval flog env e)"
| "eval flog env (Sma e w) =
     on_series ''sma'' (\<lambda>vs. VSeries (rolling vs w (\<lambda>s _ w. finite_number (fdiv s (f64_of_nat w))))) (eval flog env e)"
| "eval flog env (Ema e w) = on_series ''ema'' (\<lambda>vs. VSeries (ema vs w)) (eval flog env e)"
| "eval flog env (RollingStd e w a) =
     on_series ''rolling_std'' (\<lambda>vs. VSeries (rolling vs w (rolling_std_op a))) (eval flog env e)"
| "eval flog env (Zscore e w) =
     on_series ''zscore'' (\<lambda>vs. VSeries (rolling_with_current vs w zscore_op)) (eval flog env e)"
| "eval flog env (Rsi e w) = on_series ''rsi'' (\<lambda>vs. VSeries (rsi vs w)) (eval flog env e)"
| "eval flog env (Tail e k) =
     and_then (eval_series ''tail'' (eval flog env e)) (\<lambda>vs.
       and_then (pay (min k (length vs))) (\<lambda>_. give (VSeries (tail_values vs k))))"
| "eval flog env (Mean e) = reduce ''mean'' mean_of (eval flog env e)"
| "eval flog env (Std e) = reduce ''std'' std_of (eval flog env e)"
| "eval flog env (SumOf e) = reduce ''sum'' sum_of (eval flog env e)"
| "eval flog env (MinOf e) = reduce ''min'' (reduce_of fmin) (eval flog env e)"
| "eval flog env (MaxOf e) = reduce ''max'' (reduce_of fmax) (eval flog env e)"
| "eval flog env (LastOf e) = reduce ''last'' last_of (eval flog env e)"
| "eval flog env (CountOf e) = reduce ''count'' (\<lambda>vs. Some (f64_of_nat (length vs))) (eval flog env e)"
| "eval flog env (Correlation l r) =
     and_then (eval_series ''correlation'' (eval flog env l)) (\<lambda>xs.
       and_then (eval_series ''correlation'' (eval flog env r)) (\<lambda>ys.
         if length xs \<noteq> length ys then fail (TypeError ''correlation series must have equal lengths'')
         else and_then (pay (length xs)) (\<lambda>_.
           give (VScalar (correlation
             (map (\<lambda>(x, y). (the x, the y)) (filter (\<lambda>(x, y). x \<noteq> None \<and> y \<noteq> None) (zip xs ys))))))))"
| "eval flog env (MaxDrawdown e) = on_series ''max_drawdown'' (\<lambda>vs. VScalar (max_drawdown vs)) (eval flog env e)"

section \<open>Programs\<close>

record Execution =
  language :: string
  language_version :: u8
  program_sha256 :: string
  fuel_used :: nat
  results :: "(string \<times> ComputedValue) list"
  semantics :: "string list"

definition semantics_notes :: "string list" where
  "semantics_notes =
     [''all series operations are oldest-to-newest'',
      ''missing observations propagate through point operations'',
      ''rolling windows require a complete finite window'',
      ''std and correlation use population moments'',
      ''division by zero and undefined numeric results become null'',
      ''no filesystem, network, clock, random, process or arbitrary code access'']"

fun run_bindings :: "(f64 \<Rightarrow> f64) \<Rightarrow> Binding list \<Rightarrow> environment \<Rightarrow> environment metered" where
  "run_bindings flog [] env = give env"
| "run_bindings flog (b # bs) env = and_then (eval flog env (binding_expr b)) (\<lambda>v.
     run_bindings flog bs (btree_insert (binding_name b) v env))"

fun run_outputs ::
  "(f64 \<Rightarrow> f64) \<Rightarrow> environment \<Rightarrow> (string \<times> Expr) list \<Rightarrow> (string \<times> ComputedValue) list
    \<Rightarrow> (string \<times> ComputedValue) list metered" where
  "run_outputs flog env [] out = give out"
| "run_outputs flog env ((s, e) # rest) out = and_then (eval flog env e) (\<lambda>v.
     run_outputs flog env rest (btree_insert s v out))"

definition input_env :: "Program \<Rightarrow> environment" where
  "input_env p = foldl (\<lambda>env (s, vs). btree_insert s (VSeries vs) env) [] (inputs p)"

definition run_program :: "(f64 \<Rightarrow> f64) \<Rightarrow> Program \<Rightarrow> (string \<times> ComputedValue) list metered" where
  "run_program flog p = and_then (run_bindings flog (bindings p) (input_env p)) (\<lambda>env.
     run_outputs flog env (outputs p) [])"

definition execute ::
  "(f64 \<Rightarrow> f64) \<Rightarrow> (Program \<Rightarrow> (string, ComputeError) result) \<Rightarrow> Program \<Rightarrow> (Execution, ComputeError) result" where
  "execute flog fingerprint p =
     bind_r (validate p) (\<lambda>_.
       bind_r (fingerprint p) (\<lambda>sha.
         bind_r (run_program flog p 0) (\<lambda>(out, used).
           Inr \<lparr>language = ''astock-finance-calc'', language_version = LANGUAGE_VERSION, program_sha256 = sha,
             fuel_used = used, results = out, semantics = semantics_notes\<rparr>)))"

section \<open>Metering is transparent\<close>

text \<open>
  A computation is uniform when some result and some cost, both independent of the fuel used before,
  explain every run: it gives that result and adds that cost, or fails because the limit is passed.
\<close>

definition runs_as :: "'a metered \<Rightarrow> ('a, ComputeError) result \<Rightarrow> nat \<Rightarrow> bool" where
  "runs_as m r cost \<longleftrightarrow>
     (\<forall>used \<le> MAX_FUEL. m used =
        (if MAX_FUEL < used + cost then Inl fuel_exhausted
         else case r of Inl e \<Rightarrow> Inl e | Inr a \<Rightarrow> Inr (a, used + cost)))"

lemma runs_give: "runs_as (give a) (Inr a) 0"
  by (simp add: runs_as_def give_def)

lemma runs_fail: "runs_as (fail e) (Inl e) 0"
  by (simp add: runs_as_def fail_def)

lemma runs_pay: "runs_as (pay n) (Inr ()) (max n 1)"
  by (auto simp: runs_as_def pay_def Let_def usize_saturating_add_def u64_max_def MAX_FUEL_def)

lemma runs_then:
  assumes "runs_as m r c" "\<And>a. r = Inr a \<Longrightarrow> runs_as (k a) (r' a) (c' a)"
  shows "runs_as (and_then m k) (bind_r r r') (c + (case r of Inl _ \<Rightarrow> 0 | Inr a \<Rightarrow> c' a))"
  using assms by (cases r) (auto simp: runs_as_def and_then_def add.assoc split: sum.splits)

text \<open>Each node of an expression costs at least one unit.\<close>

definition metered_ok :: "nat \<Rightarrow> 'a metered \<Rightarrow> bool" where
  "metered_ok n m \<longleftrightarrow> (\<exists>r c. runs_as m r c \<and> ((\<exists>a. r = Inr a) \<longrightarrow> n \<le> c))"

lemma metered_ok_give [intro]: "metered_ok 0 (give a)"
  using runs_give [of a] by (auto simp: metered_ok_def)

lemma metered_ok_fail [intro]: "metered_ok n (fail e)"
  using runs_fail [of e] by (fastforce simp: metered_ok_def)

lemma metered_ok_pay [intro]: "metered_ok 1 (pay n)"
  unfolding metered_ok_def using runs_pay [of n] by fastforce

lemma metered_ok_then:
  assumes "metered_ok a m" "\<And>v. metered_ok b (k v)"
  shows "metered_ok (a + b) (and_then m k)"
proof -
  obtain r c where r: "runs_as m r c" "(\<exists>v. r = Inr v) \<longrightarrow> a \<le> c"
    using assms(1) unfolding metered_ok_def by blast
  obtain r' c' where r': "\<And>v. runs_as (k v) (r' v) (c' v)" "\<And>v. (\<exists>x. r' v = Inr x) \<Longrightarrow> b \<le> c' v"
    using assms(2) unfolding metered_ok_def by metis
  have "runs_as (and_then m k) (bind_r r r') (c + (case r of Inl _ \<Rightarrow> 0 | Inr v \<Rightarrow> c' v))"
    by (rule runs_then [OF r(1) r'(1)])
  moreover have "(\<exists>x. bind_r r r' = Inr x) \<longrightarrow> a + b \<le> c + (case r of Inl _ \<Rightarrow> 0 | Inr v \<Rightarrow> c' v)"
    using r(2) r'(2) by (cases r) (auto intro: add_mono)
  ultimately show ?thesis unfolding metered_ok_def by blast
qed

lemma metered_ok_weaken: "metered_ok b m \<Longrightarrow> a \<le> b \<Longrightarrow> metered_ok a m"
  unfolding metered_ok_def by (meson order_trans)

lemma metered_ok_eval_series: "metered_ok n m \<Longrightarrow> metered_ok n (eval_series operation m)"
  unfolding eval_series_def
  by (rule metered_ok_then [where b = 0, simplified]) (auto split: ComputedValue.split)

lemma metered_ok_on_series: "metered_ok n m \<Longrightarrow> metered_ok (Suc n) (on_series operation f m)"
  unfolding on_series_def
  using metered_ok_then [OF metered_ok_eval_series metered_ok_then [OF metered_ok_pay metered_ok_give]] by force

lemma metered_ok_reduce: "metered_ok n m \<Longrightarrow> metered_ok (Suc n) (reduce operation f m)"
  unfolding reduce_def by (rule metered_ok_on_series)

lemma metered_ok_unary: "metered_ok n m \<Longrightarrow> metered_ok (Suc n) (unary f m)"
  unfolding unary_def
  using metered_ok_then [OF _ metered_ok_then [OF metered_ok_pay metered_ok_give]] by force

lemma metered_ok_binary:
  assumes "metered_ok n ml" "metered_ok k mr"
  shows "metered_ok (Suc (n + k)) (binary f ml mr)"
proof -
  have "metered_ok (n + (k + (1 + 0))) (binary f ml mr)"
    unfolding binary_def
    by (intro metered_ok_then assms metered_ok_pay) (auto split: ComputedValue.split)
  then show ?thesis by simp
qed

lemma eval_metered: "metered_ok (node_count e) (eval flog env e)"
proof (induction e)
  case (Var s)
  then show ?case
    using metered_ok_then [OF metered_ok_pay metered_ok_give]
    by (auto simp: node_count.simps [of "Var s"] split: option.split)
next
  case (Scalar v)
  then show ?case
    using metered_ok_then [OF metered_ok_pay metered_ok_give] by (auto simp: node_count.simps [of "Scalar v"])
next
  case (Tail e k)
  then have "metered_ok (node_count e + (1 + 0)) (eval flog env (Tail e k))"
    unfolding eval.simps by (intro metered_ok_then metered_ok_eval_series metered_ok_pay metered_ok_give)
  then show ?case by (simp add: node_count.simps [of "Tail e k"])
next
  case (Correlation l r)
  then have "metered_ok (node_count l + (node_count r + 1)) (eval flog env (Correlation l r))"
    unfolding eval.simps
    by (intro metered_ok_then metered_ok_eval_series)
      (auto intro: metered_ok_then [OF metered_ok_pay metered_ok_give, simplified])
  then show ?case by (simp add: node_count.simps [of "Correlation l r"])
qed (simp_all add: node_count.simps [of "_ _"] node_count.simps [of "_ _ _"] node_count.simps [of "_ _ _ _"]
    metered_ok_on_series metered_ok_reduce metered_ok_unary metered_ok_binary)

section \<open>What a successful run yields\<close>

definition yields :: "'a metered \<Rightarrow> ('a \<Rightarrow> bool) \<Rightarrow> bool" where
  "yields m P \<longleftrightarrow> (\<forall>used a used'. m used = Inr (a, used') \<longrightarrow> P a)"

lemma yields_give [intro]: "P a \<Longrightarrow> yields (give a) P"
  by (simp add: yields_def give_def)

lemma yields_fail [intro, simp]: "yields (fail e) P"
  by (simp add: yields_def fail_def)

lemma yields_then: "yields m P \<Longrightarrow> (\<And>a. P a \<Longrightarrow> yields (k a) Q) \<Longrightarrow> yields (and_then m k) Q"
  unfolding yields_def and_then_def bind_r_Inr_conv by fastforce

lemma yields_pay [simp]: "yields (pay n) (\<lambda>_. True)"
  by (simp add: yields_def)

lemma yields_pay_then: "yields k Q \<Longrightarrow> yields (and_then (pay n) (\<lambda>_. k)) Q"
  by (rule yields_then [OF yields_pay]) simp

lemma yieldsD: "yields m P \<Longrightarrow> m used = Inr (a, used') \<Longrightarrow> P a"
  unfolding yields_def by blast

text \<open>A predicate on scalars and one on series give one on values.\<close>

definition value_ok :: "(f64 option \<Rightarrow> bool) \<Rightarrow> (observations \<Rightarrow> bool) \<Rightarrow> ComputedValue \<Rightarrow> bool" where
  "value_ok P Q v \<longleftrightarrow> (case v of VScalar x \<Rightarrow> P x | VSeries vs \<Rightarrow> Q vs)"

lemma value_ok_simps [simp]:
  "value_ok P Q (VScalar x) \<longleftrightarrow> P x"
  "value_ok P Q (VSeries vs) \<longleftrightarrow> Q vs"
  by (simp_all add: value_ok_def)

lemma yields_eval_series: "yields m (value_ok P Q) \<Longrightarrow> yields (eval_series operation m) Q"
  unfolding eval_series_def by (erule yields_then) (auto split: ComputedValue.split)

lemma yields_on_series:
  "yields m (value_ok P Q) \<Longrightarrow> (\<And>vs. Q vs \<Longrightarrow> R (f vs)) \<Longrightarrow> yields (on_series operation f m) R"
  unfolding on_series_def by (erule yields_then [OF yields_eval_series]) (auto intro!: yields_pay_then yields_give)

lemma yields_reduce:
  "yields m (value_ok P Q) \<Longrightarrow> (\<And>x. P' (Option.bind x finite_number)) \<Longrightarrow> yields (reduce operation f m) (value_ok P' Q')"
  unfolding reduce_def by (erule yields_on_series) simp

lemma yields_unary:
  assumes "yields m (value_ok P Q)"
    "\<And>x. P x \<Longrightarrow> P' (Option.bind x f)" "\<And>vs. Q vs \<Longrightarrow> Q' (map (\<lambda>x. Option.bind x f) vs)"
  shows "yields (unary f m) (value_ok P' Q')"
  unfolding unary_def
  by (rule yields_then [OF assms(1)], rule yields_pay_then)
    (use assms(2,3) in \<open>auto split: ComputedValue.split\<close>)

lemma yields_binary:
  assumes "yields ml (value_ok P Q)" "yields mr (value_ok P Q)"
    and "\<And>x y. P x \<Longrightarrow> P y \<Longrightarrow> P (zip_number f x y)"
    and "\<And>xs y. Q xs \<Longrightarrow> P y \<Longrightarrow> Q (map (\<lambda>x. zip_number f x y) xs)"
    and "\<And>x ys. P x \<Longrightarrow> Q ys \<Longrightarrow> Q (map (\<lambda>y. zip_number f x y) ys)"
    and "\<And>xs ys. Q xs \<Longrightarrow> Q ys \<Longrightarrow> length xs = length ys \<Longrightarrow> Q (map (\<lambda>(x, y). zip_number f x y) (zip xs ys))"
  shows "yields (binary f ml mr) (value_ok P Q)"
  unfolding binary_def
  by (rule yields_then [OF assms(1)], rule yields_then [OF assms(2)], rule yields_pay_then)
    (use assms(3-6) in \<open>auto split: ComputedValue.split\<close>)

lemma yields_tail:
  "yields m (value_ok P Q) \<Longrightarrow> (\<And>vs. Q vs \<Longrightarrow> Q (tail_values vs k)) \<Longrightarrow>
    yields (and_then (eval_series ''tail'' m) (\<lambda>vs. and_then (pay (min k (length vs))) (\<lambda>_. give (VSeries (tail_values vs k)))))
      (value_ok P Q)"
  by (erule yields_then [OF yields_eval_series]) (auto intro!: yields_pay_then yields_give)

lemma yields_correlation:
  "yields ml (value_ok P Q) \<Longrightarrow> yields mr (value_ok P Q) \<Longrightarrow> (\<And>ps. P (correlation ps)) \<Longrightarrow>
    yields (and_then (eval_series ''correlation'' ml) (\<lambda>xs.
       and_then (eval_series ''correlation'' mr) (\<lambda>ys.
         if length xs \<noteq> length ys then fail (TypeError ''correlation series must have equal lengths'')
         else and_then (pay (length xs)) (\<lambda>_. give (VScalar (correlation (g xs ys)))))))
      (value_ok P Q)"
  by (erule yields_then [OF yields_eval_series], erule yields_then [OF yields_eval_series])
    (auto intro!: yields_pay_then yields_give)

lemma yields_var:
  "(\<And>v. map_of env s = Some v \<Longrightarrow> P v) \<Longrightarrow>
    yields (case map_of env s of None \<Rightarrow> fail (UnknownVariable s)
      | Some v \<Rightarrow> and_then (pay (value_cost v)) (\<lambda>_. give v)) P"
  by (auto split: option.split intro: yields_pay_then)

section \<open>Series never grow\<close>

abbreviation short :: "nat \<Rightarrow> ComputedValue \<Rightarrow> bool" where
  "short n \<equiv> value_ok (\<lambda>_. True) (\<lambda>vs. length vs \<le> n)"

lemma eval_short:
  assumes "\<And>s v. map_of env s = Some v \<Longrightarrow> short n v"
  shows "yields (eval flog env e) (short n)"
proof (induction e)
  case (Var s)
  show ?case unfolding eval.simps by (rule yields_var [OF assms])
next
  case (Scalar v)
  show ?case unfolding eval.simps by (intro yields_pay_then yields_give) simp
next
  case (Tail e k)
  then show ?case unfolding eval.simps by (rule yields_tail) simp
next
  case (Correlation l r)
  then show ?case unfolding eval.simps by (rule yields_correlation) simp
qed (unfold eval.simps, auto intro!: yields_on_series yields_reduce yields_unary yields_binary simp: ema_def)

section \<open>Finite numbers only\<close>

abbreviation finite_value :: "ComputedValue \<Rightarrow> bool" where
  "finite_value \<equiv> value_ok (pred_option is_finite) all_finite"

fun keeps_finite :: "Expr \<Rightarrow> bool" where
  "keeps_finite (Rsi _ _) \<longleftrightarrow> False"
| "keeps_finite (MaxDrawdown _) \<longleftrightarrow> False"
| "keeps_finite _ \<longleftrightarrow> True"

definition plain :: "Expr \<Rightarrow> bool" where
  "plain e \<longleftrightarrow> expr_ok e \<and> list_all keeps_finite (subexprs e)"

lemma plain_node: "plain e \<longleftrightarrow> local_ok e \<and> keeps_finite e \<and> (\<forall>c \<in> set (children e). plain c)"
  using expr_ok_iff [of e] by (auto simp: plain_def subexprs.simps [of e] list_all_iff)

lemma bind_finite:
  "(\<And>a. is_finite a \<Longrightarrow> pred_option is_finite (f a)) \<Longrightarrow> pred_option is_finite x \<Longrightarrow> pred_option is_finite (Option.bind x f)"
  by (cases x) simp_all

lemma map_bind_finite:
  "(\<And>a. is_finite a \<Longrightarrow> pred_option is_finite (f a)) \<Longrightarrow> all_finite vs \<Longrightarrow> all_finite (map (\<lambda>x. Option.bind x f) vs)"
  by (auto simp: all_finite_def list_all_iff intro: bind_finite)

lemma yields_unary_finite:
  "yields m finite_value \<Longrightarrow> (\<And>a. is_finite a \<Longrightarrow> pred_option is_finite (f a)) \<Longrightarrow> yields (unary f m) finite_value"
  by (erule yields_unary) (auto intro: bind_finite map_bind_finite)

lemma yields_binary_finite:
  assumes "yields ml finite_value" "yields mr finite_value"
    and f: "\<And>a b. is_finite a \<Longrightarrow> is_finite b \<Longrightarrow> pred_option is_finite (f a b)"
  shows "yields (binary f ml mr) finite_value"
proof (rule yields_binary [OF assms(1,2)])
  fix xs ys
  assume "all_finite xs" "all_finite ys"
  then have "pred_option is_finite (zip_number f x y)" if "(x, y) \<in> set (zip xs ys)" for x y
    using zip_number_finite [of f x y] f set_zip_leftD [OF that] set_zip_rightD [OF that]
    by (auto simp: all_finite_def list_all_iff)
  then show "all_finite (map (\<lambda>(x, y). zip_number f x y) (zip xs ys))"
    by (auto simp: all_finite_def list_all_iff)
qed (use zip_number_finite [of f] f in \<open>auto simp: all_finite_def list_all_iff\<close>)

lemma reduce_finite: "pred_option is_finite (Option.bind x finite_number)"
  by (cases x) simp_all

lemma fclamp_finite: "is_finite a \<Longrightarrow> is_finite lo \<Longrightarrow> is_finite hi \<Longrightarrow> pred_option is_finite (fclamp a lo hi)"
  by (simp add: fclamp_def)

lemma zscore_finite: "pred_option is_finite (zscore_op x s q w)"
  by (simp add: zscore_op_def Let_def)

lemmas finite_rules = pair_change_finite lag_finite tail_finite cumulative_finite ema_from_finite rolling_finite
  zscore_finite fclamp_finite

lemma eval_finite:
  assumes "\<And>s v. map_of env s = Some v \<Longrightarrow> finite_value v"
  shows "plain e \<Longrightarrow> yields (eval flog env e) finite_value"
proof (induction e rule: expr_induct)
  case (node e)
  have ok: "local_ok e" "keeps_finite e" and kids: "\<And>c. c \<in> set (children e) \<Longrightarrow> yields (eval flog env c) finite_value"
    using node plain_node [of e] by auto
  show ?case
  proof (cases e)
    case (Var s)
    show ?thesis unfolding Var eval.simps by (rule yields_var [OF assms])
  next
    case (Scalar v)
    then show ?thesis using ok(1) unfolding Scalar eval.simps
      by (intro yields_pay_then yields_give) (simp add: unreasonable_def)
  next
    case (Tail a k)
    show ?thesis unfolding Tail eval.simps by (rule yields_tail [OF kids]) (simp_all add: Tail tail_finite)
  next
    case (Correlation l r)
    show ?thesis unfolding Correlation eval.simps
      by (rule yields_correlation [OF kids kids]) (simp_all add: Correlation)
  next
    case (Clip a lo hi)
    show ?thesis unfolding Clip eval.simps
      by (rule yields_unary_finite [OF kids]) (use ok(1) in \<open>simp_all add: Clip fclamp_finite\<close>)
  next
    case (Sma a w)
    show ?thesis unfolding Sma eval.simps
      by (rule yields_on_series [OF kids]) (use ok(1) in \<open>simp_all add: Sma rolling_def rolling_finite\<close>)
  next
    case (RollingStd a w n)
    show ?thesis unfolding RollingStd eval.simps
      by (rule yields_on_series [OF kids]) (use ok(1) in \<open>simp_all add: RollingStd rolling_def rolling_finite rolling_std_op_def\<close>)
  next
    case (Zscore a w)
    show ?thesis unfolding Zscore eval.simps
      by (rule yields_on_series [OF kids]) (use ok(1) in \<open>simp_all add: Zscore rolling_finite zscore_finite\<close>)
  qed (use ok kids in \<open>auto intro!: yields_on_series yields_reduce yields_unary_finite yields_binary_finite reduce_finite
      pair_change_finite lag_finite cumulative_finite ema_from_finite simp: ema_def\<close>)
qed

section \<open>Whole programs\<close>

definition env_ok :: "(ComputedValue \<Rightarrow> bool) \<Rightarrow> environment \<Rightarrow> bool" where
  "env_ok P env \<longleftrightarrow> (\<forall>s v. map_of env s = Some v \<longrightarrow> P v)"

lemma env_ok_Nil [simp]: "env_ok P []"
  by (simp add: env_ok_def)

lemma env_ok_insert: "env_ok P env \<Longrightarrow> P v \<Longrightarrow> env_ok P (btree_insert s v env)"
  by (auto simp: env_ok_def btree.get_put split: if_splits)

lemma run_bindings_yields:
  assumes "\<And>env b. env_ok P env \<Longrightarrow> b \<in> set bs \<Longrightarrow> yields (eval flog env (binding_expr b)) P"
  shows "env_ok P env \<Longrightarrow> yields (run_bindings flog bs env) (env_ok P)"
  using assms
proof (induction bs arbitrary: env)
  case (Cons b bs)
  show ?case unfolding run_bindings.simps
    by (rule yields_then [where P = P]) (use Cons in \<open>auto intro: env_ok_insert\<close>)
qed auto

lemma run_outputs_yields:
  assumes "\<And>s e. (s, e) \<in> set os \<Longrightarrow> yields (eval flog env e) P"
  shows "env_ok P out \<Longrightarrow> set (map fst out) = K \<Longrightarrow>
    yields (run_outputs flog env os out) (\<lambda>out. env_ok P out \<and> set (map fst out) = K \<union> fst ` set os)"
  using assms
proof (induction os arbitrary: out K)
  case (Cons o' os)
  obtain s e where o: "o' = (s, e)" by fastforce
  have "yields (run_outputs flog env os (btree_insert s v out))
      (\<lambda>out. env_ok P out \<and> set (map fst out) = insert s K \<union> fst ` set os)" if "P v" for v
    by (rule Cons.IH) (use Cons.prems that in \<open>auto simp: env_ok_insert\<close>)
  then show ?case unfolding o run_outputs.simps
    by (intro yields_then [where P = P]) (use Cons.prems o in auto)
qed auto

lemma run_program_yields:
  assumes "env_ok P (input_env p)"
    and "\<And>env e. env_ok P env \<Longrightarrow> e \<in> set (program_exprs p) \<Longrightarrow> yields (eval flog env e) P"
  shows "yields (run_program flog p) (\<lambda>out. env_ok P out \<and> set (map fst out) = fst ` set (outputs p))"
proof -
  have "yields (run_bindings flog (bindings p) (input_env p)) (env_ok P)"
    by (rule run_bindings_yields) (use assms in \<open>auto simp: program_exprs_def\<close>)
  moreover have "yields (run_outputs flog env (outputs p) [])
      (\<lambda>out. env_ok P out \<and> set (map fst out) = {} \<union> fst ` set (outputs p))" if "env_ok P env" for env
    by (rule run_outputs_yields) (use assms(2) [OF that] in \<open>force simp: program_exprs_def\<close>)+
  ultimately show ?thesis unfolding run_program_def by (auto intro: yields_then)
qed

lemma input_env_ok:
  assumes "\<And>s vs. (s, vs) \<in> set (inputs p) \<Longrightarrow> P (VSeries vs)"
  shows "env_ok P (input_env p)"
proof -
  have "env_ok P (foldl (\<lambda>env (s, vs). btree_insert s (VSeries vs) env) env is)"
    if "env_ok P env" "\<And>s vs. (s, vs) \<in> set is \<Longrightarrow> P (VSeries vs)" for env "is"
    using that
  proof (induction "is" arbitrary: env)
    case (Cons i "is")
    then show ?case by (cases i) (auto intro: env_ok_insert)
  qed simp
  then show ?thesis using assms by (simp add: input_env_def)
qed

lemma run_bindings_metered:
  "metered_ok (sum_list (map (node_count \<circ> binding_expr) bs)) (run_bindings flog bs env)"
proof (induction bs arbitrary: env)
  case (Cons b bs)
  then show ?case unfolding run_bindings.simps list.map sum_list.Cons o_apply
    by (intro metered_ok_then eval_metered)
qed auto

lemma run_outputs_metered:
  "metered_ok (sum_list (map (node_count \<circ> snd) os)) (run_outputs flog env os out)"
proof (induction os arbitrary: out)
  case (Cons o' os)
  then show ?case unfolding list.map sum_list.Cons o_apply
    by (cases o') (simp del: add_is_0, intro metered_ok_then eval_metered)
qed auto

lemma run_program_metered: "metered_ok (sum_list (map node_count (program_exprs p))) (run_program flog p)"
  unfolding run_program_def program_exprs_def
  using metered_ok_then [OF run_bindings_metered run_outputs_metered] by simp

lemma metered_used:
  assumes "metered_ok n m" "m 0 = Inr (a, used)"
  shows "n \<le> used \<and> used \<le> MAX_FUEL"
proof -
  obtain r c where r: "runs_as m r c" "(\<exists>a. r = Inr a) \<longrightarrow> n \<le> c"
    using assms(1) unfolding metered_ok_def by blast
  have "Inr (a, used) = (if MAX_FUEL < 0 + c then Inl fuel_exhausted
      else case r of Inl e \<Rightarrow> Inl e | Inr a \<Rightarrow> Inr (a, 0 + c))"
    using r(1) assms(2) unfolding runs_as_def by (metis le0)
  then show ?thesis using r(2) by (auto split: if_splits sum.splits)
qed

lemma execute_Inr:
  assumes "execute flog fp p = Inr x"
  shows "program_ok p" "run_program flog p 0 = Inr (results x, fuel_used x)"
  using assms by (auto simp: execute_def bind_r_Inr_conv validate_program_ok)

text \<open>
  C29: Metering is transparent: each expression has, in its environment, one result and one cost that do
  not depend on the fuel used before it. Evaluating it gives that result and adds that cost, or fails
  because the limit would be passed; a successful evaluation has paid for every node.
\<close>

theorem eval_metering_transparent:
  "\<exists>r cost. (\<forall>used \<le> MAX_FUEL. eval flog env e used =
        (if MAX_FUEL < used + cost then Inl fuel_exhausted
         else case r of Inl err \<Rightarrow> Inl err | Inr v \<Rightarrow> Inr (v, used + cost)))
     \<and> ((\<exists>v. r = Inr v) \<longrightarrow> node_count e \<le> cost)"
  using eval_metered [of e flog env] unfolding metered_ok_def runs_as_def .

lemma eval_metering_transparent_witness:
  "\<exists>cost. \<forall>used \<le> MAX_FUEL. eval id [] (Scalar fone) used =
     (if MAX_FUEL < used + cost then Inl fuel_exhausted else Inr (VScalar (Some fone), used + cost))"
proof -
  obtain r cost where r: "\<forall>used \<le> MAX_FUEL. eval id [] (Scalar fone) used =
        (if MAX_FUEL < used + cost then Inl fuel_exhausted
         else case r of Inl err \<Rightarrow> Inl err | Inr v \<Rightarrow> Inr (v, used + cost))"
    using eval_metering_transparent [of id "[]" "Scalar fone"] by blast
  have one: "eval id [] (Scalar fone) 0 = Inr (VScalar (Some fone), 1)"
    by (simp add: and_then_def pay_def give_def usize_saturating_add_def u64_max_def MAX_FUEL_def)
  have "r = Inr (VScalar (Some fone))"
    using r [THEN spec, of 0] unfolding one by (auto simp: fuel_exhausted_def split: if_splits sum.splits)
  then show ?thesis using r by auto
qed

text \<open>
  A program that executes is well-formed, has used at least one unit per node and no more than the
  fuel limit, and gives one value for every output, none of them longer than the longest input.
\<close>

theorem execute_within_limits:
  assumes "execute flog fingerprint p = Inr x"
  shows "program_ok p \<and> sum_list (map node_count (program_exprs p)) \<le> fuel_used x \<and> fuel_used x \<le> 5000000
    \<and> fst ` set (results x) = fst ` set (outputs p)
    \<and> (\<forall>s vs. map_of (results x) s = Some (VSeries vs) \<longrightarrow> length vs \<le> 5000)"
proof -
  note x = execute_Inr [OF assms]
  have "env_ok (short 5000) (input_env p)"
    by (rule input_env_ok) (use x(1) in \<open>fastforce simp: program_ok_def input_ok_def list_all_iff compute_limits\<close>)
  moreover have "yields (eval flog env e) (short 5000)" if "env_ok (short 5000) env" for env e
    by (rule eval_short) (use that in \<open>simp add: env_ok_def\<close>)
  ultimately have "yields (run_program flog p) (\<lambda>out. env_ok (short 5000) out \<and> set (map fst out) = fst ` set (outputs p))"
    by (rule run_program_yields)
  from yieldsD [OF this x(2)] have out: "env_ok (short 5000) (results x)" "fst ` set (results x) = fst ` set (outputs p)"
    by simp_all
  have "length vs \<le> 5000" if "map_of (results x) s = Some (VSeries vs)" for s vs
    using out(1) [unfolded env_ok_def, THEN spec, THEN spec, THEN mp, OF that] by simp
  then show ?thesis using out(2) metered_used [OF run_program_metered x(2)] x(1) by (simp add: MAX_FUEL_def)
qed

text \<open>
  If no expression of the program is a relative strength index or a maximum drawdown, every number it
  outputs is finite: undefined and overflowing results have become null, whatever the logarithm does.
\<close>

theorem execute_finite:
  assumes "execute flog fingerprint p = Inr x"
    and "list_all (\<lambda>e. list_all keeps_finite (subexprs e)) (program_exprs p)"
  shows "\<forall>s v. map_of (results x) s = Some v \<longrightarrow>
    (case v of VScalar n \<Rightarrow> pred_option is_finite n | VSeries vs \<Rightarrow> list_all (pred_option is_finite) vs)"
proof -
  note x = execute_Inr [OF assms(1)]
  have "all_finite vs" if "(s, vs) \<in> set (inputs p)" for s vs
  proof -
    have "input_ok (s, vs)" using x(1) that by (auto simp: program_ok_def list_all_iff)
    then show ?thesis
      by (auto simp: input_ok_def all_finite_def list_all_iff unreasonable_def pred_option_def split: option.splits)
  qed
  then have "env_ok finite_value (input_env p)" by (intro input_env_ok) simp
  moreover have "yields (eval flog env e) finite_value" if "env_ok finite_value env" "e \<in> set (program_exprs p)" for env e
    by (rule eval_finite) (use that assms(2) x(1) in \<open>auto simp: env_ok_def plain_def program_ok_def list_all_iff\<close>)
  ultimately have "yields (run_program flog p) (\<lambda>out. env_ok finite_value out \<and> set (map fst out) = fst ` set (outputs p))"
    by (rule run_program_yields)
  from yieldsD [OF this x(2)] show ?thesis
    unfolding env_ok_def value_ok_def all_finite_def by blast
qed

text \<open>A program with one input and one output: the sum of the input, or its maximum drawdown.\<close>

definition one_output :: "(Expr \<Rightarrow> Expr) \<Rightarrow> observations \<Rightarrow> Program" where
  "one_output f vs = \<lparr>version = 1, inputs = [(''x'', vs)], bindings = [], outputs = [(''y'', f (Var ''x''))]\<rparr>"

lemma identifier_x_y: "is_identifier ''x''" "is_identifier ''y''"
  by (simp_all add: is_identifier_def is_name_char_def ascii_defs)

lemma one_output_ok:
  assumes "input_ok (''x'', vs)" "expr_ok (f (Var ''x''))" "depth_of (f (Var ''x'')) \<le> 32" "node_count (f (Var ''x'')) \<le> 1024"
  shows "program_ok (one_output f vs)"
  using assms by (simp add: program_ok_def one_output_def program_exprs_def identifier_x_y input_ok_def compute_limits)

lemma one_output_execute:
  assumes "program_ok (one_output f vs)" "eval flog [(''x'', VSeries vs)] (f (Var ''x'')) 0 = Inr (v, used)"
  shows "execute flog (\<lambda>_. Inr ''sha'') (one_output f vs) = Inr
    \<lparr>language = ''astock-finance-calc'', language_version = LANGUAGE_VERSION, program_sha256 = ''sha'',
     fuel_used = used, results = [(''y'', v)], semantics = semantics_notes\<rparr>"
proof -
  have "validate (one_output f vs) = Inr ()" using assms(1) by (simp add: validate_program_ok)
  moreover have "run_program flog (one_output f vs) 0 = Inr ([(''y'', v)], used)"
    using assms(2) by (simp add: run_program_def one_output_def input_env_def and_then_def give_def)
  ultimately show ?thesis by (simp add: execute_def)
qed

lemmas metered_defs = and_then_def pay_def give_def fail_def on_series_def eval_series_def reduce_def value_cost_def
  usize_saturating_add_def u64_max_def MAX_FUEL_def

definition unit_series :: observations where
  "unit_series = [Some fone, Some fone]"

lemma unit_series_ok: "input_ok (''x'', unit_series)"
  by (simp add: input_ok_def identifier_x_y unit_series_def unreasonable_def compute_limits f64_eval
      del: fadd.simps(1) flt.simps(1))

lemma count_var: "node_count (Var s) = 1" "depth_of (Var s) = 1" "subexprs (Var s) = [Var s]"
  by (simp_all add: node_count.simps [of "Var s"] depth_of.simps [of "Var s"] subexprs.simps [of "Var s"])

lemma last_ok:
  "expr_ok (LastOf (Var ''x''))" "depth_of (LastOf (Var ''x'')) = 2" "node_count (LastOf (Var ''x'')) = 2"
  "subexprs (LastOf (Var ''x'')) = [LastOf (Var ''x''), Var ''x'']"
  by (simp_all add: expr_ok_def subexprs.simps [of "LastOf _"] depth_of.simps [of "LastOf _"] node_count.simps [of "LastOf _"]
      count_var identifier_x_y)

lemma last_executes:
  "execute id (\<lambda>_. Inr ''sha'') (one_output LastOf unit_series) = Inr
    \<lparr>language = ''astock-finance-calc'', language_version = LANGUAGE_VERSION, program_sha256 = ''sha'',
     fuel_used = 4, results = [(''y'', VScalar (Some fone))], semantics = semantics_notes\<rparr>"
proof (rule one_output_execute)
  show "program_ok (one_output LastOf unit_series)" by (rule one_output_ok) (simp_all add: unit_series_ok last_ok)
  have "is_finite fone" by (simp add: fone_def)
  then show "eval id [(''x'', VSeries unit_series)] (LastOf (Var ''x'')) 0 = Inr (VScalar (Some fone), 4)"
    by (simp add: metered_defs unit_series_def present_def last_of_def finite_number_def)
qed

lemma execute_within_limits_witness: "program_ok (one_output LastOf unit_series)"
  using execute_within_limits [OF last_executes] by blast

lemma execute_finite_witness:
  "\<exists>x n. execute id (\<lambda>_. Inr ''sha'') (one_output LastOf unit_series) = Inr x
     \<and> map_of (results x) ''y'' = Some (VScalar (Some n)) \<and> is_finite n"
proof -
  have "list_all (\<lambda>e. list_all keeps_finite (subexprs e)) (program_exprs (one_output LastOf unit_series))"
    by (simp add: program_exprs_def one_output_def last_ok)
  from execute_finite [OF last_executes this, THEN spec, of "''y''"] last_executes show ?thesis by simp
qed

text \<open>
  The maximum drawdown is outside this guarantee: a drop from the least normal number to \<open>-2^252\<close> is
  reported as minus infinity.
\<close>

definition steep_series :: observations where
  "steep_series = [Some (FNum False 4503599627370496 (- 1074)), Some (FNum True 4503599627370496 200)]"

theorem drawdown_not_finite:
  "map_option results (case execute flog (\<lambda>_. Inr ''sha'') (one_output MaxDrawdown steep_series) of Inl _ \<Rightarrow> None | Inr x \<Rightarrow> Some x)
    = Some [(''y'', VScalar (Some (FInf True)))]"
proof -
  have big: "flit (10 ^ 100) 1 = FNum False 5147557589468029 280" by (simp add: f64_eval)
  have "input_ok (''x'', steep_series)"
    by (simp add: input_ok_def identifier_x_y steep_series_def unreasonable_def compute_limits big [simplified] flt_fast sgnm_def
        del: flt.simps(1))
  then have ok: "program_ok (one_output MaxDrawdown steep_series)"
    by (rule one_output_ok)
      (simp_all add: expr_ok_def subexprs.simps [of "MaxDrawdown _"] depth_of.simps [of "MaxDrawdown _"]
        node_count.simps [of "MaxDrawdown _"] count_var identifier_x_y)
  have "max_drawdown steep_series = Some (FInf True)"
    by (simp add: max_drawdown_def steep_series_def present_def drawdown_step_def f64_eval del: fadd.simps(1) flt.simps(1))
  then have "eval flog [(''x'', VSeries steep_series)] (MaxDrawdown (Var ''x'')) 0 = Inr (VScalar (Some (FInf True)), 4)"
    by (simp add: metered_defs steep_series_def)
  from one_output_execute [OF ok this] show ?thesis by simp
qed

end
