(* ===== verification/Tdx_Codec.thy ===== *)
theory Tdx_Codec
  imports Prelude
begin

text \<open>
  The byte level of the TDX quote protocol, \<open>crates/tdx/src/protocol/varint.rs\<close>, \<open>frame.rs\<close> and
  \<open>constants.rs\<close>: little-endian integers, the signed variable-length integer, the response header
  and the request packets. Bytes are \<open>8 word\<close>s, the decoded integer an \<open>i64\<close> as a \<open>64 word\<close> whose
  shifts are masked as in a release build; unsigned fields are naturals. Main facts: every \<open>i64\<close>
  survives encoding and decoding, decoding always moves forward and stays in the buffer, and packets
  have the lengths the server expects.
\<close>

unbundle bit_operations_syntax

section \<open>Little-endian integers\<close>

type_synonym bytes = "u8 list"

definition le16 :: "nat \<Rightarrow> bytes" where
  "le16 n = [of_nat n, of_nat (n div 256)]"

definition le32 :: "nat \<Rightarrow> bytes" where
  "le32 n = [of_nat n, of_nat (n div 256), of_nat (n div 65536), of_nat (n div 16777216)]"

text \<open>Reading past the end gives zero.\<close>

definition read_u16 :: "bytes \<Rightarrow> nat \<Rightarrow> nat" where
  "read_u16 data pos =
     (if length data < pos + 2 then 0 else unat (data ! pos) + 256 * unat (data ! (pos + 1)))"

definition read_u32 :: "bytes \<Rightarrow> nat \<Rightarrow> nat" where
  "read_u32 data pos =
     (if length data < pos + 4 then 0
      else unat (data ! pos) + 256 * unat (data ! (pos + 1)) + 65536 * unat (data ! (pos + 2))
           + 16777216 * unat (data ! (pos + 3)))"

lemma length_le [simp]: "length (le16 n) = 2" "length (le32 n) = 4"
  by (simp_all add: le16_def le32_def)

lemma unat_u8: "unat (of_nat n :: u8) = n mod 256"
  by (simp add: unat_of_nat)

lemma read_le16: "n < 65536 \<Longrightarrow> read_u16 (pre @ le16 n @ post) (length pre) = n"
  by (simp add: read_u16_def le16_def unat_u8 nth_append mult.commute [of 256])

lemma read_le32: "n < 4294967296 \<Longrightarrow> read_u32 (pre @ le32 n @ post) (length pre) = n"
proof -
  assume n: "n < 4294967296"
  define n1 n2 n3 where "n1 = n div 256" and "n2 = n1 div 256" and "n3 = n2 div 256"
  have d: "n div 65536 = n2" "n div 16777216 = n3" by (simp_all add: n1_def n2_def n3_def div_mult2_eq [symmetric])
  have n3: "n3 < 256" using n d by (simp add: less_mult_imp_div_less flip: d)
  have "n = 256 * n1 + n mod 256" "n1 = 256 * n2 + n1 mod 256" "n2 = 256 * n3 + n2 mod 256"
    by (simp_all add: n1_def n2_def n3_def)
  with n3 have "n mod 256 + 256 * (n div 256 mod 256) + 65536 * (n div 65536 mod 256) + 16777216 * (n div 16777216 mod 256) = n"
    unfolding d n1_def [symmetric] by (simp add: mod_less)
  moreover have "n div 16777216 mod 256 = n div 16777216" using n3 unfolding d by (rule mod_less)
  ultimately show ?thesis by (simp add: read_u32_def le32_def unat_u8 nth_append)
qed

lemma read_u16_less: "read_u16 d p < 65536"
proof -
  have "unat (d ! p) < 256" "unat (d ! Suc p) < 256"
    using unsigned_less [of "d ! p", where 'a = nat] unsigned_less [of "d ! Suc p", where 'a = nat] by simp_all
  then show ?thesis by (simp add: read_u16_def)
qed

section \<open>Variable-length integers\<close>

type_synonym i64 = "64 word"

text \<open>The continuation bytes, from the position after the first byte.\<close>

function price_loop :: "bytes \<Rightarrow> nat \<Rightarrow> i64 \<Rightarrow> nat \<Rightarrow> (i64 \<times> nat) option" where
  "price_loop data pos result shift =
     (let pos = pos + 1
      in if length data \<le> pos then None
         else let b = data ! pos;
                  result = result OR push_bit (shift mod 64) (ucast (b AND 0x7F))
              in if b AND 0x80 = 0 then Some (result, pos) else price_loop data pos result (shift + 7))"
  by pat_completeness auto
termination
  by (relation "measure (\<lambda>(data, pos, _, _). length data - pos)") auto

declare price_loop.simps [simp del]

definition get_price :: "bytes \<Rightarrow> nat \<Rightarrow> i64 \<times> nat" where
  "get_price data pos =
     (if length data \<le> pos then (0, length data)
      else
        (let first = data ! pos;
             sign = (first AND 0x40 \<noteq> 0);
             result = ucast (first AND 0x3F);
             run = (if first AND 0x80 \<noteq> 0 then price_loop data pos result 6 else Some (result, pos))
         in case run of
              None \<Rightarrow> (0, length data)
            | Some (result, pos) \<Rightarrow> (if sign then - result else result, pos + 1)))"

text \<open>The encoding rule, as the crate's own property test states it.\<close>

lemma unat_drop_bit: "unat (drop_bit n (m :: 64 word)) = unat m div 2 ^ n"
  unfolding unsigned_drop_bit_eq take_bit_nat_eq_self [OF unsigned_less] by (rule drop_bit_eq_div)

function encode_rest :: "64 word \<Rightarrow> bytes" where
  "encode_rest mag =
     (if mag = 0 then []
      else let b = ucast (mag AND 0x7F); mag = drop_bit 7 mag
        in (if mag \<noteq> 0 then b OR 0x80 else b) # encode_rest mag)"
  by pat_completeness auto
termination
proof (relation "measure unat")
  fix mag x :: "64 word" and y
  assume "mag \<noteq> 0" "y = drop_bit 7 mag"
  then have "0 < unat mag" "unat y = unat mag div 2 ^ 7" by (simp_all add: unat_gt_0 unat_drop_bit)
  then show "(y, mag) \<in> measure unat" by simp
qed simp

declare encode_rest.simps [simp del]

text \<open>
  The magnitude of a negative value is its negation, which for \<open>i64::MIN\<close> wraps to itself as it does in a release build; a
  build with overflow checks panics there.
\<close>

definition encode_price :: "i64 \<Rightarrow> bytes" where
  "encode_price val =
     (let sign = val <s 0;
          mag = (if sign then - val else val);
          first = ucast (mag AND 0x3F);
          mag = drop_bit 6 mag;
          first = (if sign then first OR 0x40 else first);
          first = (if mag \<noteq> 0 then first OR 0x80 else first)
      in first # encode_rest mag)"

section \<open>Decoding inverts encoding\<close>

lemma masks:
  "(0x7F :: u8) = mask 7" "(0x7F :: 64 word) = mask 7" "(0x3F :: u8) = mask 6" "(0x3F :: 64 word) = mask 6"
  by (simp_all add: mask_eq_exp_minus_1)

lemma single_bits:
  "bit (0x80 :: nat) n \<longleftrightarrow> n = 7" "bit (0x40 :: nat) n \<longleftrightarrow> n = 6"
  "bit (0x80 :: int) n \<longleftrightarrow> n = 7" "bit (0x40 :: int) n \<longleftrightarrow> n = 6"
proof -
  have "(0x80 :: nat) = push_bit 7 1" "(0x40 :: nat) = push_bit 6 1" by simp_all
  then show "bit (0x80 :: nat) n \<longleftrightarrow> n = 7" "bit (0x40 :: nat) n \<longleftrightarrow> n = 6"
    by (simp_all only: bit_push_bit_iff bit_1_iff) auto
  have "(0x80 :: int) = push_bit 7 1" "(0x40 :: int) = push_bit 6 1" by simp_all
  then show "bit (0x80 :: int) n \<longleftrightarrow> n = 7" "bit (0x40 :: int) n \<longleftrightarrow> n = 6"
    by (simp_all only: bit_push_bit_iff bit_1_iff) auto
qed

lemma low7: "ucast ((if c then (ucast (m AND 0x7F) :: u8) OR 0x80 else ucast (m AND 0x7F)) AND 0x7F) = (take_bit 7 m :: 64 word)"
  unfolding masks by (rule bit_word_eqI) (auto simp: bit_simps single_bits)

lemma top7: "(((if c then (ucast (m AND 0x7F :: 64 word) :: u8) OR 0x80 else ucast (m AND 0x7F)) AND 0x80) = 0) \<longleftrightarrow> \<not> c"
proof -
  let ?w = "(if c then (ucast (m AND 0x7F :: 64 word) :: u8) OR 0x80 else ucast (m AND 0x7F)) AND 0x80"
  have bits: "bit ((if c then (ucast (m AND 0x7F :: 64 word) :: u8) OR 0x80 else ucast (m AND 0x7F)) AND 0x80) n \<longleftrightarrow> c \<and> n = 7" for n
    unfolding masks by (auto simp: bit_simps single_bits)
  show ?thesis
  proof (cases c)
    case True
    then have "bit ?w 7" using bits by blast
    then have "?w \<noteq> 0" by (metis bit_0_eq bot_apply bot_bool_def)
    then show ?thesis using True by blast
  next
    case False
    then have "?w = 0" using bits by (intro bit_word_eqI) simp
    then show ?thesis using False by blast
  qed
qed

lemma push_split: "push_bit s m = push_bit s (take_bit 7 m) OR push_bit (s + 7) (drop_bit 7 m)" for m :: "64 word"
proof (rule bit_word_eqI)
  fix n assume "n < LENGTH(64)"
  then show "bit (push_bit s m) n = bit (push_bit s (take_bit 7 m) OR push_bit (s + 7) (drop_bit 7 m)) n"
    by (cases "s + 7 \<le> n") (auto simp: bit_simps)
qed

lemma price_loop_rest:
  "unat m < 2 ^ (64 - s) \<Longrightarrow> s \<le> 64 \<Longrightarrow> m \<noteq> 0 \<Longrightarrow> pre \<noteq> [] \<Longrightarrow>
    price_loop (pre @ encode_rest m @ post) (length pre - 1) r s
    = Some (r OR push_bit s m, length pre + length (encode_rest m) - 1)"
proof (induction m arbitrary: pre r s rule: encode_rest.induct)
  case (1 m)
  let ?h = "drop_bit 7 m"
  let ?b = "if ?h \<noteq> 0 then (ucast (m AND 0x7F) :: u8) OR 0x80 else ucast (m AND 0x7F)"
  have enc: "encode_rest m = ?b # encode_rest ?h"
    using 1 by (simp add: encode_rest.simps [of m] Let_def)
  have s: "s < 64" using 1 by (cases "s = 64") (auto simp: unat_eq_0)
  have len: "Suc (length pre - 1) = length pre" using 1 by (cases pre) simp_all
  have low: "ucast (?b AND 0x7F) = take_bit 7 m" and top: "(?b AND 0x80 = 0) = (\<not> ?h \<noteq> 0)"
    by (rule low7, rule top7)
  have nth: "(pre @ (?b # encode_rest ?h) @ post) ! length pre = ?b" by simp
  have step: "price_loop (pre @ encode_rest m @ post) (length pre - 1) r s =
      (if \<not> ?h \<noteq> 0 then Some (r OR push_bit s (take_bit 7 m), length pre)
       else price_loop (pre @ encode_rest m @ post) (length pre) (r OR push_bit s (take_bit 7 m)) (s + 7))"
    unfolding enc
    by (subst price_loop.simps) (simp only: Let_def Suc_eq_plus1 [symmetric] len nth low top mod_less [OF s], simp)
  show ?case
  proof (cases "?h = 0")
    case True
    then have "push_bit s m = push_bit s (take_bit 7 m)" using push_split [of s m] by simp
    then show ?thesis using step True enc by (simp add: encode_rest.simps [of 0])
  next
    case False
    have "128 \<le> unat m"
    proof (rule ccontr)
      assume "\<not> 128 \<le> unat m"
      then have "unat ?h = 0" by (simp add: unat_drop_bit)
      then show False using False by (simp add: unat_eq_0)
    qed
    moreover have "unat m < 2 ^ (64 - s)" using 1 by simp
    ultimately have "(2 :: nat) ^ 7 < 2 ^ (64 - s)" by simp
    then have s7: "7 < 64 - s" by (simp only: power_strict_increasing_iff)
    have "(2 :: nat) ^ (64 - s) = 2 ^ 7 * 2 ^ (64 - (s + 7))"
    proof -
      have "64 - s = 7 + (64 - (s + 7))" using s7 by simp
      then show ?thesis by (metis power_add)
    qed
    then have h: "unat ?h < 2 ^ (64 - (s + 7))"
      using 1(2) by (simp add: unat_drop_bit less_mult_imp_div_less mult.commute)
    have "price_loop ((pre @ [?b]) @ encode_rest ?h @ post) (length (pre @ [?b]) - 1) (r OR push_bit s (take_bit 7 m)) (s + 7)
      = Some ((r OR push_bit s (take_bit 7 m)) OR push_bit (s + 7) ?h, length (pre @ [?b]) + length (encode_rest ?h) - 1)"
      by (rule 1(1) [OF _ refl refl]) (use 1 False h s7 in auto)
    then show ?thesis using step False enc push_split [of s m] by (simp add: or.assoc)
  qed
qed

text \<open>The first byte: six bits of the magnitude, the sign bit and the continuation bit.\<close>

definition first_byte :: "bool \<Rightarrow> bool \<Rightarrow> 64 word \<Rightarrow> u8" where
  "first_byte sign more mag =
     (let first = ucast (mag AND 0x3F);
          first = (if sign then first OR 0x40 else first)
      in if more then first OR 0x80 else first)"

lemma first_byte_bits:
  "ucast (first_byte sign more mag AND 0x3F) = take_bit 6 mag"
  "first_byte sign more mag AND 0x40 = 0 \<longleftrightarrow> \<not> sign"
  "first_byte sign more mag AND 0x80 = 0 \<longleftrightarrow> \<not> more"
proof -
  show "ucast (first_byte sign more mag AND 0x3F) = take_bit 6 mag"
    unfolding first_byte_def masks Let_def by (rule bit_word_eqI) (auto simp: bit_simps single_bits)
  have b: "bit (first_byte sign more mag AND 0x40) n \<longleftrightarrow> sign \<and> n = 6" "bit (first_byte sign more mag AND 0x80) n \<longleftrightarrow> more \<and> n = 7" for n
    unfolding first_byte_def masks Let_def by (auto simp: bit_simps single_bits)
  have z: "w = 0 \<longleftrightarrow> (\<forall>n. \<not> bit w n)" for w :: u8
    using bit_word_eqI [of w 0] by auto
  show "first_byte sign more mag AND 0x40 = 0 \<longleftrightarrow> \<not> sign" "first_byte sign more mag AND 0x80 = 0 \<longleftrightarrow> \<not> more"
    unfolding z b by simp_all
qed

lemma encode_price_eq:
  "encode_price val =
     (let sign = val <s 0; mag = (if sign then - val else val)
      in first_byte sign (drop_bit 6 mag \<noteq> 0) mag # encode_rest (drop_bit 6 mag))"
  unfolding encode_price_def first_byte_def Let_def by (rule refl)

lemma price_roundtrip_at:
  "get_price (pre @ encode_price val @ post) (length pre) = (val, length pre + length (encode_price val))"
proof -
  define sign mag where "sign = (val <s 0)" and "mag = (if sign then - val else val)"
  let ?f = "first_byte sign (drop_bit 6 mag \<noteq> 0) mag"
  let ?r = "encode_rest (drop_bit 6 mag)"
  have enc: "encode_price val = ?f # ?r" unfolding encode_price_eq Let_def sign_def mag_def by (rule refl)
  have whole: "take_bit 6 mag OR push_bit 6 (drop_bit 6 mag) = mag"
  proof (rule bit_word_eqI)
    fix n assume "n < LENGTH(64)"
    then show "bit (take_bit 6 mag OR push_bit 6 (drop_bit 6 mag)) n = bit mag n"
      by (cases "6 \<le> n") (auto simp: bit_simps)
  qed
  have restored: "(if sign then - mag else mag) = val" by (simp add: mag_def)
  let ?data = "pre @ encode_price val @ post"
  have nth: "?data ! length pre = ?f" by (simp add: enc)
  have start: "get_price ?data (length pre) =
     (case (if drop_bit 6 mag \<noteq> 0 then price_loop ?data (length pre) (take_bit 6 mag) 6 else Some (take_bit 6 mag, length pre)) of
        None \<Rightarrow> (0, length ?data)
      | Some (result, pos) \<Rightarrow> (if sign then - result else result, pos + 1))"
    unfolding get_price_def Let_def nth first_byte_bits by (simp add: enc split: option.split)
  show ?thesis
  proof (cases "drop_bit 6 mag = 0")
    case True
    then have "take_bit 6 mag = mag" using whole by simp
    then show ?thesis using start True restored enc by (simp add: encode_rest.simps [of 0])
  next
    case False
    have "unat mag < 2 ^ 64" using unsigned_less [of mag, where 'a = nat] by simp
    then have "unat (drop_bit 6 mag) < 2 ^ (64 - 6)" by (simp add: unat_drop_bit)
    then have "price_loop ((pre @ [?f]) @ ?r @ post) (length (pre @ [?f]) - 1) (take_bit 6 mag) 6
        = Some (take_bit 6 mag OR push_bit 6 (drop_bit 6 mag), length (pre @ [?f]) + length ?r - 1)"
      by (rule price_loop_rest) (use False in simp_all)
    then have "price_loop ?data (length pre) (take_bit 6 mag) 6 = Some (mag, length pre + length ?r)"
      by (simp add: enc whole)
    then show ?thesis using start False restored enc by simp
  qed
qed

text \<open>
  C22: Every \<open>i64\<close> that is encoded by the protocol's rule, anywhere in a buffer, is decoded to itself, and
  the position after it is the one where the encoding ends.
\<close>

theorem price_roundtrip:
  "get_price (pre @ encode_price val @ post) (length pre) = (val, length pre + length (encode_price val))"
  by (rule price_roundtrip_at)

section \<open>Decoding makes progress\<close>

lemma price_loop_progress: "price_loop data pos r s = Some (v, p) \<Longrightarrow> pos < p \<and> p < length data"
proof (induction data pos r s rule: price_loop.induct)
  case (1 data pos r s)
  show ?case
  proof (cases "length data \<le> pos + 1")
    case True
    then show ?thesis using "1.prems" by (simp add: price_loop.simps [of data pos])
  next
    case False
    then show ?thesis using 1
      by (cases "data ! (pos + 1) AND 0x80 = 0") (fastforce simp: price_loop.simps [of data pos] Let_def)+
  qed
qed

lemma get_price_progress:
  assumes "pos < length data"
  shows "pos < snd (get_price data pos) \<and> snd (get_price data pos) \<le> length data"
proof -
  show ?thesis using assms
    by (auto simp: get_price_def Let_def split: option.splits if_splits dest!: price_loop_progress)
qed

lemma get_price_end: "length data \<le> pos \<Longrightarrow> get_price data pos = (0, length data)"
  by (simp add: get_price_def)

text \<open>
  Decoding at any position inside a buffer, whatever its bytes, moves forward by at least one byte and
  not past the end; at or after the end it gives zero and the end.
\<close>

theorem price_stays_in_buffer:
  "snd (get_price data pos) \<le> length data
   \<and> (if pos < length data then pos < snd (get_price data pos) else get_price data pos = (0, length data))"
  using get_price_progress [of pos data] get_price_end [of data pos] by (cases "pos < length data") auto

section \<open>Frames\<close>

definition RESPONSE_HEADER_SIZE :: nat where "RESPONSE_HEADER_SIZE = 16"
definition MAGIC :: nat where "MAGIC = 268"
definition CMD_SECURITY_BARS :: nat where "CMD_SECURITY_BARS = 1325"
definition CMD_SECURITY_QUOTES :: nat where "CMD_SECURITY_QUOTES = 328254"
definition MAX_QUOTES_COUNT :: nat where "MAX_QUOTES_COUNT = 60"

datatype TdxError = Io string | Timeout | Disconnected | Protocol string | NoServerAvailable

record ResponseHeader =
  seq :: nat
  rh_method :: nat
  zip_size :: nat
  unzip_size :: nat

definition header_parse :: "bytes \<Rightarrow> (ResponseHeader, TdxError) result" where
  "header_parse buf =
     (if length buf < RESPONSE_HEADER_SIZE
      then Inl (Protocol (''response header: expected '' @ show_nat RESPONSE_HEADER_SIZE @ '' bytes, got '' @ show_nat (length buf)))
      else Inr \<lparr>seq = read_u32 buf 0, rh_method = read_u32 buf 4, zip_size = read_u16 buf 12, unzip_size = read_u16 buf 14\<rparr>)"

definition code_bytes :: "bytes \<Rightarrow> bytes" where
  "code_bytes code = take 6 code @ replicate (6 - length code) 0"

definition build_security_bars_packet :: "nat \<Rightarrow> nat \<Rightarrow> bytes \<Rightarrow> nat \<Rightarrow> nat \<Rightarrow> bytes" where
  "build_security_bars_packet category market code start count =
     le16 MAGIC @ le32 0x01016408 @ le16 0x001C @ le16 0x001C @ le16 CMD_SECURITY_BARS @ le16 market @ code_bytes code
     @ le16 category @ le16 0 @ le16 start @ le16 count @ le32 0 @ le32 0 @ le16 0"

definition build_security_count_packet :: "nat \<Rightarrow> bytes" where
  "build_security_count_packet market =
     [0x0c, 0x0c, 0x18, 0x6c, 0x00, 0x01, 0x08, 0x00, 0x08, 0x00, 0x4e, 0x04] @ le16 market @ [0x75, 0xc7, 0x33, 0x01]"

definition build_security_list_packet :: "nat \<Rightarrow> nat \<Rightarrow> bytes" where
  "build_security_list_packet market start =
     [0x0c, 0x01, 0x18, 0x64, 0x01, 0x01, 0x06, 0x00, 0x06, 0x00, 0x50, 0x04] @ le16 market @ le16 start"

definition build_security_quotes_packet :: "(u8 \<times> bytes) list \<Rightarrow> bytes" where
  "build_security_quotes_packet stocks =
     (let stocks = (if MAX_QUOTES_COUNT < length stocks then take MAX_QUOTES_COUNT stocks else stocks);
          stock_len = length stocks mod 65536;
          pkgdatalen = (stock_len * 7 + 12) mod 65536
      in le16 MAGIC @ le32 0x02006320 @ le16 pkgdatalen @ le16 pkgdatalen @ le32 CMD_SECURITY_QUOTES @ le32 0 @ le16 0
         @ le16 stock_len @ concat (map (\<lambda>(market, code). market # code_bytes code) stocks))"

definition build_history_minute_packet :: "u8 \<Rightarrow> bytes \<Rightarrow> nat \<Rightarrow> bytes" where
  "build_history_minute_packet market code date =
     [0x0c, 0x01, 0x30, 0x00, 0x01, 0x01, 0x0d, 0x00, 0x0d, 0x00, 0xb4, 0x0f] @ le32 date @ market # code_bytes code"

lemma length_code_bytes [simp]: "length (code_bytes code) = 6"
  by (simp add: code_bytes_def)

text \<open>
  A quotes packet names at most 60 stocks, and its length fields and its stock count agree with what
  follows: 22 bytes of header and seven bytes a stock.
\<close>

theorem quotes_packet_consistent:
  "length (build_security_quotes_packet stocks) = 22 + 7 * min 60 (length stocks)
   \<and> read_u16 (build_security_quotes_packet stocks) 6 = length (build_security_quotes_packet stocks) - 10
   \<and> read_u16 (build_security_quotes_packet stocks) 20 = min 60 (length stocks)"
proof -
  define ss where "ss = (if 60 < length stocks then take 60 stocks else stocks)"
  have n: "length ss = min 60 (length stocks)" "length ss \<le> 60" by (auto simp: ss_def)
  have small: "length ss mod 65536 = length ss" "(length ss * 7 + 12) mod 65536 = length ss * 7 + 12"
    using n(2) by simp_all
  define body where "body = concat (map (\<lambda>(market, code). market # code_bytes code) ss)"
  have body: "length body = 7 * length ss"
    unfolding body_def by (induction ss) auto
  have pkt: "build_security_quotes_packet stocks =
      le16 MAGIC @ le32 0x02006320 @ le16 (length ss * 7 + 12) @ le16 (length ss * 7 + 12) @ le32 CMD_SECURITY_QUOTES @ le32 0
        @ le16 0 @ le16 (length ss) @ body"
    unfolding build_security_quotes_packet_def Let_def MAX_QUOTES_COUNT_def ss_def [symmetric] small body_def [symmetric] by (rule refl)
  have "read_u16 ((le16 MAGIC @ le32 0x02006320) @ le16 (length ss * 7 + 12) @ (le16 (length ss * 7 + 12)
      @ le32 CMD_SECURITY_QUOTES @ le32 0 @ le16 0 @ le16 (length ss) @ body)) (length (le16 MAGIC @ le32 0x02006320)) = length ss * 7 + 12"
    by (rule read_le16) (use n in simp)
  moreover have "read_u16 ((le16 MAGIC @ le32 0x02006320 @ le16 (length ss * 7 + 12) @ le16 (length ss * 7 + 12)
      @ le32 CMD_SECURITY_QUOTES @ le32 0 @ le16 0) @ le16 (length ss) @ body)
      (length (le16 MAGIC @ le32 0x02006320 @ le16 (length ss * 7 + 12) @ le16 (length ss * 7 + 12)
      @ le32 CMD_SECURITY_QUOTES @ le32 0 @ le16 0)) = length ss"
    by (rule read_le16) (use n in simp)
  ultimately show ?thesis unfolding pkt using n body by simp
qed

end
