(* ===== verification/Tdx_Parse.thy ===== *)
theory Tdx_Parse
  imports Tdx_Codec F64_Order
begin

text \<open>
  The TDX response parsers, \<open>crates/tdx/src/protocol/parse.rs\<close> and \<open>types.rs\<close>: K-line bars, quotes,
  security lists, intraday minutes and the price units. GBK decoding belongs to \<open>encoding_rs\<close> and is
  a parameter; \<open>String::from_utf8_lossy\<close> is written out. Main facts: a stream of bars written by the
  protocol's rule is read back exactly, no response makes a parser return more records than its
  bytes can hold, and parsing ends.
\<close>

section \<open>Strings\<close>

definition as_text :: "bytes \<Rightarrow> string" where
  "as_text bs = map (\<lambda>b. char_of (unat b)) bs"

definition in_range :: "u8 \<Rightarrow> nat \<Rightarrow> nat \<Rightarrow> bool" where
  "in_range b lo hi \<longleftrightarrow> lo \<le> unat b \<and> unat b \<le> hi"

definition byte_at :: "bytes \<Rightarrow> nat \<Rightarrow> u8" where
  "byte_at bs i = (if i < length bs then bs ! i else 0)"

text \<open>A valid first character and its length, or the length of the maximal invalid prefix.\<close>

definition utf8_chunk :: "bytes \<Rightarrow> bool \<times> nat" where
  "utf8_chunk bs =
     (let b0 = byte_at bs 0; b1 = byte_at bs 1; b2 = byte_at bs 2; b3 = byte_at bs 3
      in if in_range b0 0 127 then (True, 1)
         else if in_range b0 194 223 then (if in_range b1 128 191 then (True, 2) else (False, 1))
         else if in_range b0 224 239 then
           (if (unat b0 = 224 \<and> in_range b1 160 191) \<or> (unat b0 = 237 \<and> in_range b1 128 159)
               \<or> (unat b0 \<noteq> 224 \<and> unat b0 \<noteq> 237 \<and> in_range b1 128 191)
            then (if in_range b2 128 191 then (True, 3) else (False, 2))
            else (False, 1))
         else if in_range b0 240 244 then
           (if (unat b0 = 240 \<and> in_range b1 144 191) \<or> (unat b0 = 244 \<and> in_range b1 128 143)
               \<or> (unat b0 \<noteq> 240 \<and> unat b0 \<noteq> 244 \<and> in_range b1 128 191)
            then (if in_range b2 128 191 then (if in_range b3 128 191 then (True, 4) else (False, 3)) else (False, 2))
            else (False, 1))
         else (False, 1))"

lemma utf8_chunk_pos: "0 < snd (utf8_chunk bs)"
  by (simp add: utf8_chunk_def Let_def)

function from_utf8_lossy :: "bytes \<Rightarrow> string" where
  "from_utf8_lossy bs =
     (if bs = [] then []
      else let (ok, k) = utf8_chunk bs
        in (if ok then as_text (take k bs) else utf8 [65533]) @ from_utf8_lossy (drop k bs))"
  by pat_completeness auto
termination
proof (relation "measure length")
  fix bs :: bytes and x ok k
  assume "bs \<noteq> []" "x = utf8_chunk bs" "(ok, k) = x"
  then have "0 < k" using utf8_chunk_pos [of bs] by (metis snd_conv)
  then show "(drop k bs, bs) \<in> measure length" using \<open>bs \<noteq> []\<close> by simp
qed simp

declare from_utf8_lossy.simps [simp del]

definition trim_end_nul :: "string \<Rightarrow> string" where
  "trim_end_nul s = rev (dropWhile (\<lambda>c. byte c = 0) (rev s))"

text \<open>\<open>{:02}\<close>, \<open>{:04}\<close> and \<open>i64::to_string\<close>\<close>

definition padded :: "nat \<Rightarrow> nat \<Rightarrow> string" where
  "padded w n = replicate (w - length (show_nat n)) (char_of (48 :: nat)) @ show_nat n"

definition show_i64 :: "i64 \<Rightarrow> string" where
  "show_i64 v = (if sint v < 0 then ''-'' @ show_nat (nat (- sint v)) else show_nat (nat (sint v)))"

section \<open>Units and volumes\<close>

definition f64_of_i64 :: "i64 \<Rightarrow> f64" where
  "f64_of_i64 v = f64_of_int (sint v)"

definition fpow2 :: "int \<Rightarrow> f64" where
  "fpow2 n = fround False 1 1 n"

text \<open>\<open>vol\<close> is a \<open>u32\<close> read from the wire, so the shifts and masks are divisions.\<close>

definition get_volume :: "nat \<Rightarrow> f64" where
  "get_volume vol =
     (if vol = 0 then fzero
      else
        (let logpoint = int (vol div 16777216);
             hleax = vol div 65536 mod 256;
             lheax = vol div 256 mod 256;
             lleax = vol mod 256;
             ecx = logpoint * 2 - 127;
             edx = logpoint * 2 - 134;
             esi = logpoint * 2 - 142;
             eax = logpoint * 2 - 150;
             xmm6 = (if ecx < 0 then fdiv fone (fpow2 (- ecx)) else fpow2 ecx);
             xmm4 = (if 128 < hleax
               then fadd (fmul (fpow2 edx) (f64_of_nat 128)) (fmul (f64_of_nat (hleax mod 128)) (fpow2 (edx + 1)))
               else if 0 \<le> edx then fmul (fpow2 edx) (f64_of_nat hleax)
               else fmul (fdiv fone (fpow2 (- edx))) (f64_of_nat hleax));
             xmm3 = fmul (fpow2 esi) (f64_of_nat lheax);
             xmm1 = fmul (fpow2 eax) (f64_of_nat lleax);
             (xmm3, xmm1) = (if 128 \<le> hleax then (fmul xmm3 (f64_of_nat 2), fmul xmm1 (f64_of_nat 2)) else (xmm3, xmm1))
         in fadd (fadd (fadd xmm6 xmm4) xmm3) xmm1))"

datatype KlineCategory =
    FiveMin | FifteenMin | ThirtyMin | OneHour | Daily | Weekly | Monthly | ExHqOneMin | OneMin | DailyRiK | Quarterly | Yearly

fun is_minute_level :: "KlineCategory \<Rightarrow> bool" where
  "is_minute_level FiveMin = True"
| "is_minute_level FifteenMin = True"
| "is_minute_level ThirtyMin = True"
| "is_minute_level OneHour = True"
| "is_minute_level ExHqOneMin = True"
| "is_minute_level OneMin = True"
| "is_minute_level _ = False"

definition security_type :: "nat \<Rightarrow> string \<Rightarrow> nat" where
  "security_type market code =
     (if market = 1 then
        (if starts_with code ''60'' \<or> starts_with code ''68'' then 1
         else if starts_with code ''90'' then 2
         else if starts_with code ''519'' then 5
         else if starts_with code ''50'' \<or> starts_with code ''51'' \<or> starts_with code ''58'' then 3
         else if starts_with code ''11'' \<or> starts_with code ''13'' then 4
         else if starts_with code ''000'' then 0
         else 1)
      else if market = 0 then
        (if starts_with code ''39'' then 0
         else if starts_with code ''00'' \<or> starts_with code ''30'' then 1
         else if starts_with code ''20'' then 2
         else if starts_with code ''15'' \<or> starts_with code ''16'' then 3
         else if starts_with code ''10'' \<or> starts_with code ''12'' \<or> starts_with code ''13'' then 4
         else 1)
      else 1)"

definition price_coefficient :: "nat \<Rightarrow> string \<Rightarrow> f64" where
  "price_coefficient market code =
     (let t = security_type market code
      in if t = 2 \<or> t = 3 then flit 1 1000 else if t = 4 then flit 1 10000 else if t = 5 then flit 1 100000 else flit 1 100)"

definition auto_market :: "string \<Rightarrow> nat option" where
  "auto_market code =
     (if length code \<noteq> 6 \<or> \<not> list_all is_ascii_digit code then None
      else if hd code \<in> set ''695'' then Some 1
      else if hd code \<in> set ''0231'' then Some 0
      else None)"

section \<open>Counts and lists\<close>

definition parse_security_count :: "bytes \<Rightarrow> (nat, TdxError) result" where
  "parse_security_count body =
     (if length body < 2 then Inl (Protocol ''count body too short'') else Inr (read_u16 body 0))"

record SecurityInfo =
  si_code :: string
  si_name :: string
  volunit :: nat
  decimal_point :: u8
  pre_close :: f64

definition slice :: "bytes \<Rightarrow> nat \<Rightarrow> nat \<Rightarrow> bytes" where
  "slice body pos n = take n (drop pos body)"

definition read_info :: "(bytes \<Rightarrow> string) \<Rightarrow> bytes \<Rightarrow> nat \<Rightarrow> SecurityInfo" where
  "read_info gbk body pos =
     \<lparr>si_code = trim_end_nul (from_utf8_lossy (slice body pos 6)),
      si_name = trim_end_nul (gbk (slice body (pos + 8) 8)),
      volunit = read_u16 body (pos + 6),
      decimal_point = body ! (pos + 20),
      pre_close = get_volume (read_u32 body (pos + 21))\<rparr>"

fun list_loop :: "(bytes \<Rightarrow> string) \<Rightarrow> bytes \<Rightarrow> nat \<Rightarrow> nat \<Rightarrow> SecurityInfo list" where
  "list_loop gbk body 0 pos = []"
| "list_loop gbk body (Suc n) pos =
     (if length body < pos + 29 then [] else read_info gbk body pos # list_loop gbk body n (pos + 29))"

definition parse_security_list :: "(bytes \<Rightarrow> string) \<Rightarrow> bytes \<Rightarrow> (SecurityInfo list, TdxError) result" where
  "parse_security_list gbk body =
     (if length body < 2 then Inl (Protocol ''security list body too short'')
      else Inr (list_loop gbk body (read_u16 body 0) 2))"

section \<open>Bars\<close>

record SecurityBar =
  sb_datetime :: string
  sb_open :: f64
  sb_close :: f64
  sb_high :: f64
  sb_low :: f64
  sb_vol :: f64
  sb_amount :: f64

definition get_datetime :: "bool \<Rightarrow> bytes \<Rightarrow> nat \<Rightarrow> nat \<times> nat \<times> nat \<times> nat \<times> nat \<times> nat" where
  "get_datetime minute_level buf pos =
     (if minute_level then
        (let zip_day = read_u16 buf pos; minutes = read_u16 buf (pos + 2)
         in (zip_day div 2048 + 2004, zip_day mod 2048 div 100, zip_day mod 2048 mod 100, minutes div 60, minutes mod 60, pos + 4))
      else
        (let zip_day = read_u32 buf pos
         in (zip_day div 10000, zip_day mod 10000 div 100, zip_day mod 100, 0, 0, pos + 4)))"

definition date_plausible :: "nat \<Rightarrow> nat \<Rightarrow> nat \<Rightarrow> bool" where
  "date_plausible y m d \<longleftrightarrow> 1980 \<le> y \<and> y \<le> 2100 \<and> 1 \<le> m \<and> m \<le> 12 \<and> 1 \<le> d \<and> d \<le> 31"

definition bar_datetime :: "bool \<Rightarrow> nat \<Rightarrow> nat \<Rightarrow> nat \<Rightarrow> nat \<Rightarrow> nat \<Rightarrow> string" where
  "bar_datetime minute_level y m d h mi =
     padded 4 y @ ''-'' @ padded 2 m @ ''-'' @ padded 2 d
     @ (if minute_level then '' '' @ padded 2 h @ '':'' @ padded 2 mi else [])"

definition milli :: "i64 \<Rightarrow> f64" where
  "milli v = fdiv (f64_of_i64 v) (f64_of_nat 1000)"

text \<open>One record from \<open>pos\<close>: the bar, the position after it and the next base; \<open>None\<close> ends the loop.\<close>

definition read_bar :: "bytes \<Rightarrow> bool \<Rightarrow> nat \<Rightarrow> i64 \<Rightarrow> (SecurityBar \<times> nat \<times> i64) option" where
  "read_bar body minute_level pos base =
     (if length body < pos + 16 then None
      else
        (let (y, m, d, h, mi, pos) = get_datetime minute_level body pos
         in if \<not> date_plausible y m d then None
            else
              (let (open_diff, pos) = get_price body pos;
                   open_raw = base + open_diff;
                   (close_diff, pos) = get_price body pos;
                   (high_diff, pos) = get_price body pos;
                   (low_diff, pos) = get_price body pos;
                   close_raw = open_raw + close_diff
               in Some (\<lparr>sb_datetime = bar_datetime minute_level y m d h mi,
                    sb_open = milli open_raw, sb_close = milli close_raw,
                    sb_high = milli (open_raw + high_diff), sb_low = milli (open_raw + low_diff),
                    sb_vol = get_volume (read_u32 body pos), sb_amount = get_volume (read_u32 body (pos + 4))\<rparr>,
                  pos + 8, close_raw))))"

fun bars_loop :: "bytes \<Rightarrow> bool \<Rightarrow> nat \<Rightarrow> nat \<Rightarrow> i64 \<Rightarrow> SecurityBar list" where
  "bars_loop body minute_level 0 pos base = []"
| "bars_loop body minute_level (Suc n) pos base =
     (case read_bar body minute_level pos base of
        None \<Rightarrow> []
      | Some (bar, pos, base) \<Rightarrow> bar # bars_loop body minute_level n pos base)"

definition parse_security_bars :: "bytes \<Rightarrow> bool \<Rightarrow> (SecurityBar list, TdxError) result" where
  "parse_security_bars body minute_level =
     (if length body < 2 then Inl (Protocol ''bars body too short'')
      else Inr (bars_loop body minute_level (read_u16 body 0) 2 0))"

section \<open>Quotes\<close>

record TdxQuote =
  q_market :: u8
  q_code :: string
  q_price :: f64
  q_last_close :: f64
  q_open :: f64
  q_high :: f64
  q_low :: f64
  q_servertime :: string
  q_vol :: f64
  q_cur_vol :: f64
  q_amount :: f64
  q_s_vol :: f64
  q_b_vol :: f64
  q_bid :: "(f64 \<times> f64) list"
  q_ask :: "(f64 \<times> f64) list"

text \<open>Consecutive \<open>get_price\<close> calls.\<close>

fun price_list :: "bytes \<Rightarrow> nat \<Rightarrow> nat \<Rightarrow> i64 list \<times> nat" where
  "price_list body 0 pos = ([], pos)"
| "price_list body (Suc n) pos =
     (let (v, pos) = get_price body pos; (vs, pos) = price_list body n pos in (v # vs, pos))"

fun read_levels ::
  "bytes \<Rightarrow> nat \<Rightarrow> nat \<Rightarrow> i64 \<Rightarrow> f64 \<Rightarrow> (f64 \<times> f64) list \<times> (f64 \<times> f64) list \<times> nat" where
  "read_levels body 0 pos price_raw coefficient = ([], [], pos)"
| "read_levels body (Suc n) pos price_raw coefficient =
     (let (bid_diff, pos) = get_price body pos;
          (ask_diff, pos) = get_price body pos;
          (bid_vol, pos) = get_price body pos;
          (ask_vol, pos) = get_price body pos;
          (bids, asks, pos) = read_levels body n pos price_raw coefficient
      in ((fmul (f64_of_i64 (price_raw + bid_diff)) coefficient, f64_of_i64 bid_vol) # bids,
          (fmul (f64_of_i64 (price_raw + ask_diff)) coefficient, f64_of_i64 ask_vol) # asks, pos))"

definition server_time :: "i64 \<Rightarrow> string" where
  "server_time raw =
     (let ts = show_i64 raw
      in if 8 \<le> length ts
         then (let hh = take (length ts - 6) ts; rest = drop (length ts - 6) ts
           in hh @ '':'' @ take 2 rest @ '':'' @ take 2 (drop 2 rest))
         else ts)"

definition read_quote :: "bytes \<Rightarrow> nat \<Rightarrow> (TdxQuote \<times> nat) option" where
  "read_quote body pos =
     (if length body < pos + 30 then None
      else
        (let market = body ! pos;
             code = trim_end_nul (from_utf8_lossy (slice body (pos + 1) 6));
             coefficient = price_coefficient (unat market) code;
             scaled = (\<lambda>v. fmul (f64_of_i64 v) coefficient);
             (ps, pos) = price_list body 9 (pos + 9);
             price_raw = ps ! 0;
             amount = get_volume (read_u32 body pos);
             (qs, pos) = price_list body 4 (pos + 4);
             (bids, asks, pos) = read_levels body 5 pos price_raw coefficient;
             (_, pos) = price_list body 4 (pos + 2)
         in Some (\<lparr>q_market = market, q_code = code, q_price = scaled price_raw,
              q_last_close = scaled (price_raw + ps ! 1), q_open = scaled (price_raw + ps ! 2),
              q_high = scaled (price_raw + ps ! 3), q_low = scaled (price_raw + ps ! 4),
              q_servertime = server_time (ps ! 5), q_vol = f64_of_i64 (ps ! 7), q_cur_vol = f64_of_i64 (ps ! 8),
              q_amount = amount, q_s_vol = f64_of_i64 (qs ! 0), q_b_vol = f64_of_i64 (qs ! 1),
              q_bid = bids, q_ask = asks\<rparr>, pos + 4)))"

fun quotes_loop :: "bytes \<Rightarrow> nat \<Rightarrow> nat \<Rightarrow> TdxQuote list" where
  "quotes_loop body 0 pos = []"
| "quotes_loop body (Suc n) pos =
     (case read_quote body pos of None \<Rightarrow> [] | Some (q, pos) \<Rightarrow> q # quotes_loop body n pos)"

definition parse_security_quotes :: "bytes \<Rightarrow> (TdxQuote list, TdxError) result" where
  "parse_security_quotes body =
     (if length body < 4 then Inl (Protocol ''quotes body too short'')
      else Inr (quotes_loop body (read_u16 body 2) 4))"

section \<open>Intraday minutes\<close>

record MinuteBar =
  mb_time :: string
  mb_price :: f64
  mb_avg_price :: f64
  mb_vol :: f64

definition minute_time_from_index :: "nat \<Rightarrow> string" where
  "minute_time_from_index i =
     (let total = (if i < 120 then 9 * 60 + 31 + i else 13 * 60 + 1 + (i - 120))
      in padded 2 (total div 60) @ '':'' @ padded 2 (total mod 60))"

lemma get_price_at_least: "min (length body) (pos + 1) \<le> snd (get_price body pos)"
  using get_price_progress [of pos body] get_price_end [of body pos] by (cases "pos < length body") auto

lemma get_price_at_most: "snd (get_price body pos) \<le> length body"
  using get_price_progress [of pos body] get_price_end [of body pos] by (cases "pos < length body") auto

lemma pair_position: "(v, p) = get_price body pos \<Longrightarrow> p = snd (get_price body pos)"
  by (metis snd_conv)

function minutes_loop :: "bytes \<Rightarrow> f64 \<Rightarrow> nat \<Rightarrow> nat \<Rightarrow> i64 \<Rightarrow> f64 \<Rightarrow> f64 \<Rightarrow> MinuteBar list" where
  "minutes_loop body coefficient pos index base cum_amount cum_vol =
     (if length body \<le> pos then []
      else
        (let (price_diff, p1) = get_price body pos;
             base = base + price_diff;
             price = fmul (f64_of_i64 base) coefficient;
             (_, p2) = get_price body p1;
             (vol_diff, p3) = get_price body p2
         in if p3 = pos then []
            else
              (let vol = f64_of_i64 vol_diff;
                   cum_amount = fadd cum_amount (fmul price vol);
                   cum_vol = fadd cum_vol vol;
                   avg_price = (if flt fzero cum_vol then fdiv cum_amount cum_vol else price)
               in \<lparr>mb_time = minute_time_from_index index, mb_price = price, mb_avg_price = avg_price, mb_vol = vol\<rparr>
                  # minutes_loop body coefficient p3 (index + 1) base cum_amount cum_vol)))"
  by pat_completeness auto
termination
proof (relation "measure (\<lambda>(body, _, pos, _). length body - pos)", simp, goal_cases)
  case (1 body coefficient pos index base cum_amount cum_vol)
  let ?p1 = "snd (get_price body pos)" and ?p2 = "snd (get_price body (snd (get_price body pos)))"
  have "pos < ?p1" using get_price_progress [of pos body] 1 by simp
  moreover have "?p1 \<le> ?p2" using get_price_at_least [of body ?p1] get_price_at_most [of body pos] by linarith
  moreover have "?p2 \<le> snd (get_price body ?p2)" using get_price_at_least [of body ?p2] get_price_at_most [of body ?p1] by linarith
  ultimately show ?case using 1 by (auto dest!: pair_position)
qed

declare minutes_loop.simps [simp del]

definition parse_history_minute_time :: "bytes \<Rightarrow> nat \<Rightarrow> string \<Rightarrow> (MinuteBar list, TdxError) result" where
  "parse_history_minute_time body market code =
     (if length body < 6 then Inl (Protocol ''minute time body too short'')
      else Inr (minutes_loop body (price_coefficient market code) 6 0 0 fzero fzero))"

section \<open>Bars survive the wire\<close>

record RawBar =
  rb_date :: nat
  rb_open :: i64
  rb_close :: i64
  rb_high :: i64
  rb_low :: i64
  rb_vol :: nat
  rb_amount :: nat

text \<open>A daily record: prices in thousandths, each relative to the previous close or the open.\<close>

definition encode_bar :: "i64 \<Rightarrow> RawBar \<Rightarrow> bytes" where
  "encode_bar base r =
     le32 (rb_date r) @ encode_price (rb_open r - base) @ encode_price (rb_close r - rb_open r)
     @ encode_price (rb_high r - rb_open r) @ encode_price (rb_low r - rb_open r) @ le32 (rb_vol r) @ le32 (rb_amount r)"

fun encode_bars :: "i64 \<Rightarrow> RawBar list \<Rightarrow> bytes" where
  "encode_bars base [] = []"
| "encode_bars base (r # rs) = encode_bar base r @ encode_bars (rb_close r) rs"

definition bar_of :: "RawBar \<Rightarrow> SecurityBar" where
  "bar_of r =
     \<lparr>sb_datetime = bar_datetime False (rb_date r div 10000) (rb_date r mod 10000 div 100) (rb_date r mod 100) 0 0,
      sb_open = milli (rb_open r), sb_close = milli (rb_close r), sb_high = milli (rb_high r), sb_low = milli (rb_low r),
      sb_vol = get_volume (rb_vol r), sb_amount = get_volume (rb_amount r)\<rparr>"

definition raw_ok :: "RawBar \<Rightarrow> bool" where
  "raw_ok r \<longleftrightarrow> rb_date r < 2 ^ 32 \<and> rb_vol r < 2 ^ 32 \<and> rb_amount r < 2 ^ 32
     \<and> date_plausible (rb_date r div 10000) (rb_date r mod 10000 div 100) (rb_date r mod 100)"

lemma get_price_at:
  "body = pre @ encode_price v @ post \<Longrightarrow> pos = length pre \<Longrightarrow> get_price body pos = (v, pos + length (encode_price v))"
  using price_roundtrip_at by blast

lemma encode_price_nonempty: "1 \<le> length (encode_price v)"
  by (simp add: encode_price_def Let_def)

lemma read_encoded_bar:
  assumes "raw_ok r"
  shows "read_bar (pre @ encode_bar base r @ post) False (length pre) base
    = Some (bar_of r, length pre + length (encode_bar base r), rb_close r)"
proof -
  let ?o = "encode_price (rb_open r - base)" and ?c = "encode_price (rb_close r - rb_open r)"
  let ?h = "encode_price (rb_high r - rb_open r)" and ?l = "encode_price (rb_low r - rb_open r)"
  let ?d = "le32 (rb_date r)" and ?v = "le32 (rb_vol r)" and ?a = "le32 (rb_amount r)"
  let ?n = "length pre + 4"
  define body where "body = pre @ encode_bar base r @ post"
  have body: "body = pre @ ?d @ ?o @ ?c @ ?h @ ?l @ ?v @ ?a @ post" by (simp add: body_def encode_bar_def)
  have o: "get_price body ?n = (rb_open r - base, ?n + length ?o)"
    by (rule get_price_at [of _ "pre @ ?d"]) (simp_all add: body)
  have c: "get_price body (?n + length ?o) = (rb_close r - rb_open r, ?n + length ?o + length ?c)"
    by (rule get_price_at [of _ "pre @ ?d @ ?o"]) (simp_all add: body)
  have h: "get_price body (?n + length ?o + length ?c) = (rb_high r - rb_open r, ?n + length ?o + length ?c + length ?h)"
    by (rule get_price_at [of _ "pre @ ?d @ ?o @ ?c"]) (simp_all add: body)
  have l: "get_price body (?n + length ?o + length ?c + length ?h)
      = (rb_low r - rb_open r, ?n + length ?o + length ?c + length ?h + length ?l)"
    by (rule get_price_at [of _ "pre @ ?d @ ?o @ ?c @ ?h"]) (simp_all add: body)
  have d: "read_u32 body (length pre) = rb_date r"
    unfolding body by (rule read_le32) (use assms in \<open>simp add: raw_ok_def\<close>)
  have v: "read_u32 body (?n + length ?o + length ?c + length ?h + length ?l) = rb_vol r"
    using read_le32 [of "rb_vol r" "pre @ ?d @ ?o @ ?c @ ?h @ ?l" "?a @ post"] assms
    by (simp add: body raw_ok_def add.assoc)
  have a: "read_u32 body (?n + length ?o + length ?c + length ?h + length ?l + 4) = rb_amount r"
    using read_le32 [of "rb_amount r" "pre @ ?d @ ?o @ ?c @ ?h @ ?l @ ?v" "post"] assms
    by (simp add: body raw_ok_def add.assoc)
  have "length body \<ge> length pre + 16"
    using encode_price_nonempty [of "rb_open r - base"] encode_price_nonempty [of "rb_close r - rb_open r"]
      encode_price_nonempty [of "rb_high r - rb_open r"] encode_price_nonempty [of "rb_low r - rb_open r"]
    by (simp add: body)
  moreover have "length (encode_bar base r) = 4 + length ?o + length ?c + length ?h + length ?l + 8"
    by (simp add: encode_bar_def)
  moreover have "get_datetime False body (length pre)
      = (rb_date r div 10000, rb_date r mod 10000 div 100, rb_date r mod 100, 0, 0, ?n)"
    by (simp add: get_datetime_def d Let_def)
  ultimately show ?thesis
    using assms o c h l v a by (simp add: body_def [symmetric] read_bar_def raw_ok_def bar_of_def Let_def add.assoc)
qed

lemma bars_loop_encoded:
  "list_all raw_ok rs \<Longrightarrow>
    bars_loop (pre @ encode_bars base rs @ post) False (length rs) (length pre) base = map bar_of rs"
proof (induction rs arbitrary: pre base)
  case (Cons r rs)
  have "read_bar (pre @ encode_bar base r @ encode_bars (rb_close r) rs @ post) False (length pre) base
      = Some (bar_of r, length pre + length (encode_bar base r), rb_close r)"
    by (rule read_encoded_bar) (use Cons.prems in simp)
  moreover have "bars_loop ((pre @ encode_bar base r) @ encode_bars (rb_close r) rs @ post) False (length rs)
      (length (pre @ encode_bar base r)) (rb_close r) = map bar_of rs"
    by (rule Cons.IH) (use Cons.prems in simp)
  ultimately show ?case by simp
qed simp

text \<open>
  C23: A response that carries a count and that many daily bars, written by the protocol's difference
  coding, is parsed to exactly those bars, whatever follows them.
\<close>

theorem bars_roundtrip:
  assumes "list_all raw_ok rs" "length rs < 2 ^ 16"
  shows "parse_security_bars (le16 (length rs) @ encode_bars 0 rs @ trailer) False = Inr (map bar_of rs)"
proof -
  have "read_u16 (le16 (length rs) @ encode_bars 0 rs @ trailer) 0 = length rs"
    using read_le16 [of "length rs" "[]" "encode_bars 0 rs @ trailer"] assms(2) by simp
  moreover have "bars_loop (le16 (length rs) @ encode_bars 0 rs @ trailer) False (length rs) (length (le16 (length rs))) 0 = map bar_of rs"
    by (rule bars_loop_encoded [OF assms(1)])
  ultimately show ?thesis by (simp add: parse_security_bars_def)
qed

lemma bars_roundtrip_witness:
  "parse_security_bars (le16 1 @ encode_bars 0 [\<lparr>rb_date = 20240105, rb_open = 1000, rb_close = 1010, rb_high = 1020,
     rb_low = 990, rb_vol = 0, rb_amount = 0\<rparr>]) False
   = Inr [bar_of \<lparr>rb_date = 20240105, rb_open = 1000, rb_close = 1010, rb_high = 1020, rb_low = 990, rb_vol = 0, rb_amount = 0\<rparr>]"
  using bars_roundtrip [of "[\<lparr>rb_date = 20240105, rb_open = 1000, rb_close = 1010, rb_high = 1020, rb_low = 990,
     rb_vol = 0, rb_amount = 0\<rparr>]" "[]"]
  by (simp add: raw_ok_def date_plausible_def)

section \<open>No parser invents records\<close>

lemma price_step: "get_price body pos = (v, p) \<Longrightarrow> min (length body) (pos + 1) \<le> p \<and> p \<le> length body"
  using get_price_at_least [of body pos] get_price_at_most [of body pos] by simp

lemma read_bar_advances:
  assumes "read_bar body ml pos base = Some (bar, pos', base')"
  shows "pos + 16 \<le> length body \<and> pos + 16 \<le> pos'"
proof -
  obtain v1 p1 where 1: "get_price body (pos + 4) = (v1, p1)" by fastforce
  obtain v2 p2 where 2: "get_price body p1 = (v2, p2)" by fastforce
  obtain v3 p3 where 3: "get_price body p2 = (v3, p3)" by fastforce
  obtain v4 p4 where 4: "get_price body p3 = (v4, p4)" by fastforce
  have "pos + 16 \<le> length body" using assms by (simp add: read_bar_def split: if_splits)
  moreover have "pos' = p4 + 8"
    using assms by (auto simp: read_bar_def get_datetime_def Let_def 1 2 3 4 split: if_splits)
  ultimately show ?thesis using price_step [OF 1] price_step [OF 2] price_step [OF 3] price_step [OF 4] by auto
qed

lemma price_list_step: "snd (price_list body n pos) \<ge> min (length body) (pos + n)"
proof (induction n arbitrary: pos)
  case (Suc n)
  obtain v p where p: "get_price body pos = (v, p)" by fastforce
  have "min (length body) (p + n) \<le> snd (price_list body n p)" by (rule Suc.IH)
  then show ?case using price_step [OF p] by (auto simp: p split: prod.split)
qed simp

lemma read_levels_step: "snd (snd (read_levels body n pos r c)) \<ge> min (length body) pos"
proof (induction n arbitrary: pos)
  case (Suc n)
  obtain v1 p1 where 1: "get_price body pos = (v1, p1)" by fastforce
  obtain v2 p2 where 2: "get_price body p1 = (v2, p2)" by fastforce
  obtain v3 p3 where 3: "get_price body p2 = (v3, p3)" by fastforce
  obtain v4 p4 where 4: "get_price body p3 = (v4, p4)" by fastforce
  have "min (length body) p4 \<le> snd (snd (read_levels body n p4 r c))" by (rule Suc.IH)
  then show ?case using price_step [OF 1] price_step [OF 2] price_step [OF 3] price_step [OF 4]
    by (auto simp: 1 2 3 4 split: prod.split)
qed simp

lemma read_quote_advances:
  assumes "read_quote body pos = Some (q, pos')"
  shows "pos + 30 \<le> length body \<and> pos + 30 \<le> pos'"
proof -
  obtain ps p1 where 1: "price_list body 9 (pos + 9) = (ps, p1)" by fastforce
  obtain qs p2 where 2: "price_list body 4 (p1 + 4) = (qs, p2)" by fastforce
  let ?c = "price_coefficient (unat (body ! pos)) (trim_end_nul (from_utf8_lossy (slice body (pos + 1) 6)))"
  obtain bs as p3 where 3: "read_levels body 5 p2 (ps ! 0) ?c = (bs, as, p3)" by (metis prod_cases3)
  obtain rs p4 where 4: "price_list body 4 (p3 + 2) = (rs, p4)" by fastforce
  have len: "pos + 30 \<le> length body" using assms by (simp add: read_quote_def split: if_splits)
  have "pos' = p4 + 4"
    using assms len unfolding read_quote_def Let_def 1 prod.case 2 3 4 by simp
  moreover have "min (length body) (pos + 18) \<le> p1" "min (length body) (p1 + 8) \<le> p2" "min (length body) p2 \<le> p3"
    "min (length body) (p3 + 6) \<le> p4"
    using price_list_step [of body "pos + 9" 9] price_list_step [of body "p1 + 4" 4] read_levels_step [of body p2 5 "ps ! 0" ?c]
      price_list_step [of body "p3 + 2" 4] 1 2 3 4 by simp_all
  ultimately show ?thesis using len by auto
qed

lemma bars_loop_bound:
  "length (bars_loop body ml n pos base) \<le> n \<and> pos + 16 * length (bars_loop body ml n pos base) \<le> max pos (length body)"
proof (induction n arbitrary: pos base)
  case (Suc n)
  show ?case
  proof (cases "read_bar body ml pos base")
    case (Some r)
    obtain bar pos' base' where r: "r = (bar, pos', base')" by (cases r) auto
    then have "pos + 16 \<le> length body" "pos + 16 \<le> pos'" using read_bar_advances Some by blast+
    moreover have "pos' + 16 * k \<le> max pos' (length body) \<Longrightarrow> pos + 16 \<le> length body \<Longrightarrow> pos + 16 \<le> pos'
        \<Longrightarrow> pos + 16 * Suc k \<le> length body" for k
      by (cases k) (auto simp: max_def split: if_splits)
    ultimately show ?thesis using Some r Suc.IH [of pos' base'] by (simp add: max_def)
  qed simp
qed simp

lemma list_loop_bound:
  "length (list_loop gbk body n pos) \<le> n \<and> pos + 29 * length (list_loop gbk body n pos) \<le> max pos (length body)"
  by (induction gbk body n pos rule: list_loop.induct) (auto simp: max_def split: if_splits)

lemma quotes_loop_bound:
  "length (quotes_loop body n pos) \<le> n \<and> pos + 30 * length (quotes_loop body n pos) \<le> max pos (length body)"
proof (induction n arbitrary: pos)
  case (Suc n)
  show ?case
  proof (cases "read_quote body pos")
    case (Some r)
    obtain q pos' where r: "r = (q, pos')" by (cases r) auto
    then have "pos + 30 \<le> length body" "pos + 30 \<le> pos'" using read_quote_advances Some by blast+
    moreover have "pos' + 30 * k \<le> max pos' (length body) \<Longrightarrow> pos + 30 \<le> length body \<Longrightarrow> pos + 30 \<le> pos'
        \<Longrightarrow> pos + 30 * Suc k \<le> length body" for k
      by (cases k) (auto simp: max_def split: if_splits)
    ultimately show ?thesis using Some r Suc.IH [of pos'] by (simp add: max_def)
  qed simp
qed simp

text \<open>
  No response makes a parser return more records than it announces or than its bytes can hold: at
  most one bar per 16 bytes, one list entry per 29 and one quote per 30.
\<close>

theorem records_bounded:
  "(case parse_security_bars body ml of Inl _ \<Rightarrow> True
      | Inr bars \<Rightarrow> length bars \<le> read_u16 body 0 \<and> 2 + 16 * length bars \<le> length body)
   \<and> (case parse_security_list gbk body of Inl _ \<Rightarrow> True
      | Inr is \<Rightarrow> length is \<le> read_u16 body 0 \<and> 2 + 29 * length is \<le> length body)
   \<and> (case parse_security_quotes body of Inl _ \<Rightarrow> True
      | Inr qs \<Rightarrow> length qs \<le> read_u16 body 2 \<and> 4 + 30 * length qs \<le> length body)"
  using bars_loop_bound [of body ml "read_u16 body 0" 2 0] list_loop_bound [of gbk body "read_u16 body 0" 2]
    quotes_loop_bound [of body "read_u16 body 2" 4]
  by (auto simp: parse_security_bars_def parse_security_list_def parse_security_quotes_def)

end
