(* ===== verification/Json.thy ===== *)
theory Json
  imports Stores Text_Utf8 F64_Order "HOL-Library.List_Lexorder" "HOL-Library.Char_ord"
begin

text \<open>
  \<open>serde_json::Value\<close> and the searches of \<open>str\<close> that several components share. An object keeps its
  fields in key order, as the \<open>BTreeMap\<close> behind \<open>serde_json::Map\<close> does. Reading a field is a map
  lookup; equality of values is equality of numbers, not of their bits. Main facts: equality is an
  equivalence on the values that occur (no NaN), and a split at a pattern is the first one.
\<close>

datatype json =
    JNull
  | JBool bool
  | JInt int
  | JFloat f64
  | JStr string
  | JArr "json list"
  | JObj "(string \<times> json) list"

lemma field_size: "(k, v) \<in> set fs \<Longrightarrow> size v < Suc (size_list (size_prod (\<lambda>_. 0) size) fs)"
  by (induction fs) auto

lemma item_size: "v \<in> set xs \<Longrightarrow> size v < Suc (size_list size xs)"
  by (induction xs) auto

fun jget :: "string \<Rightarrow> json \<Rightarrow> json option" where
  "jget k (JObj fs) = map_of fs k"
| "jget k _ = None"

fun as_str :: "json \<Rightarrow> string option" where
  "as_str (JStr s) = Some s"
| "as_str _ = None"

fun as_bool :: "json \<Rightarrow> bool option" where
  "as_bool (JBool b) = Some b"
| "as_bool _ = None"

fun as_array :: "json \<Rightarrow> json list option" where
  "as_array (JArr xs) = Some xs"
| "as_array _ = None"

fun as_f64 :: "json \<Rightarrow> f64 option" where
  "as_f64 (JInt i) = Some (f64_of_int i)"
| "as_f64 (JFloat x) = Some x"
| "as_f64 _ = None"

text \<open>An object literal: later fields replace earlier ones, the keys are kept in order.\<close>

definition jobject :: "(string \<times> json) list \<Rightarrow> json" where
  "jobject kvs = JObj (fold (\<lambda>(k, v) m. btree_insert k v m) kvs [])"

section \<open>Equality of values\<close>

fun json_eq :: "json \<Rightarrow> json \<Rightarrow> bool" where
  "json_eq JNull JNull = True"
| "json_eq (JBool a) (JBool b) = (a = b)"
| "json_eq (JInt a) (JInt b) = (a = b)"
| "json_eq (JFloat a) (JFloat b) = feq a b"
| "json_eq (JStr a) (JStr b) = (a = b)"
| "json_eq (JArr xs) (JArr ys) = list_all2 json_eq xs ys"
| "json_eq (JObj fs) (JObj gs) = list_all2 (\<lambda>f g. fst f = fst g \<and> json_eq (snd f) (snd g)) fs gs"
| "json_eq _ _ = False"

text \<open>A value that can occur: no float is a NaN.\<close>

fun json_ok :: "json \<Rightarrow> bool" where
  "json_ok (JFloat a) = good a"
| "json_ok (JArr xs) = list_all json_ok xs"
| "json_ok (JObj fs) = list_all (\<lambda>f. json_ok (snd f)) fs"
| "json_ok _ = True"

lemma json_eq_refl: "json_ok v \<Longrightarrow> json_eq v v"
  by (induction v rule: json_ok.induct)
    (auto simp: feq_rv list_all_iff intro!: list.rel_refl_strong)

lemma json_eq_sym: "json_eq v w \<Longrightarrow> json_eq w v"
proof (induction v w rule: json_eq.induct)
  case (6 xs ys)
  then show ?case by (auto simp: list_all2_conv_all_nth)
next
  case (7 fs gs)
  then show ?case by (auto simp: list_all2_conv_all_nth)
qed (auto simp: feq_def)

lemma json_eq_trans:
  "json_eq v w \<Longrightarrow> json_eq w u \<Longrightarrow> json_ok v \<Longrightarrow> json_ok w \<Longrightarrow> json_ok u \<Longrightarrow> json_eq v u"
proof (induction v w arbitrary: u rule: json_eq.induct)
  case (4 a b)
  then show ?case by (cases u) (auto simp: feq_rv)
next
  case (6 xs ys)
  then obtain zs where u: "u = JArr zs" by (cases u) auto
  have "json_eq (xs ! i) (zs ! i)" if i: "i < length xs" for i
  proof (rule "6.IH" [of "xs ! i" "ys ! i"])
    show "xs ! i \<in> set xs" "ys ! i \<in> set ys" using 6 i by (auto simp: list_all2_conv_all_nth)
    show "json_eq (xs ! i) (ys ! i)" "json_eq (ys ! i) (zs ! i)"
      using 6 i u by (auto simp: list_all2_conv_all_nth)
    show "json_ok (xs ! i)" "json_ok (ys ! i)" "json_ok (zs ! i)"
      using 6 i u by (auto simp: list_all2_conv_all_nth list_all_length)
  qed
  then show ?case using 6 u by (auto simp: list_all2_conv_all_nth)
next
  case (7 fs gs)
  then obtain hs where u: "u = JObj hs" by (cases u) auto
  have "json_eq (snd (fs ! i)) (snd (hs ! i))" if i: "i < length fs" for i
  proof (rule "7.IH" [of "fs ! i" "gs ! i"])
    show "fs ! i \<in> set fs" "gs ! i \<in> set gs" using 7 i by (auto simp: list_all2_conv_all_nth)
    show "json_eq (snd (fs ! i)) (snd (gs ! i))" "json_eq (snd (gs ! i)) (snd (hs ! i))"
      using 7 i u by (auto simp: list_all2_conv_all_nth)
    show "json_ok (snd (fs ! i))" "json_ok (snd (gs ! i))" "json_ok (snd (hs ! i))"
      using 7 i u by (auto simp: list_all2_conv_all_nth list_all_length)
  qed
  then show ?case using 7 u by (auto simp: list_all2_conv_all_nth)
qed (auto split: json.splits elim!: json_eq.elims)

section \<open>Searching strings\<close>

text \<open>The text before and after the first occurrence of a pattern, \<open>split_once\<close> or \<open>find\<close>.\<close>

fun split_once :: "string \<Rightarrow> string \<Rightarrow> (string \<times> string) option" where
  "split_once p [] = (if p = [] then Some ([], []) else None)"
| "split_once p (c # cs) =
     (if starts_with (c # cs) p then Some ([], drop (length p) (c # cs))
      else map_option (\<lambda>(a, b). (c # a, b)) (split_once p cs))"

lemma split_once_Some: "split_once p s = Some (a, b) \<Longrightarrow> s = a @ p @ b"
  by (induction p s arbitrary: a rule: split_once.induct) (auto simp: starts_with_iff split: if_splits)

lemma split_once_shorter: "split_once p s = Some (a, b) \<Longrightarrow> p \<noteq> [] \<Longrightarrow> length a + length b < length s"
  by (auto dest!: split_once_Some)

lemma split_once_first:
  "split_once p s = Some (a, b) \<Longrightarrow> p \<noteq> [] \<Longrightarrow> i < length a \<Longrightarrow> \<not> starts_with (drop i s) p"
proof (induction p s arbitrary: a i rule: split_once.induct)
  case (2 p c cs)
  then show ?case by (cases i) (auto split: if_splits)
qed (simp split: if_splits)

lemma split_once_None: "split_once p s = None \<Longrightarrow> \<not> starts_with (drop i s) p"
proof (induction p s arbitrary: i rule: split_once.induct)
  case (1 p)
  then show ?case by (simp add: starts_with_def split: if_splits)
next
  case (2 p c cs)
  then show ?case by (cases i) (auto split: if_splits)
qed

definition contains :: "string \<Rightarrow> string \<Rightarrow> bool" where
  "contains s p \<longleftrightarrow> split_once p s \<noteq> None"

text \<open>\<open>str::lines\<close>: no empty last line, and a carriage return before the line feed is dropped.\<close>

definition newline :: char where
  "newline = char_of (10 :: nat)"

definition strip_cr :: "string \<Rightarrow> string" where
  "strip_cr l = (if l \<noteq> [] \<and> byte (last l) = 13 then butlast l else l)"

function text_lines :: "string \<Rightarrow> string list" where
  "text_lines s =
     (if s = [] then []
      else case split_once [newline] s of
        None \<Rightarrow> [s]
      | Some (l, rest) \<Rightarrow> strip_cr l # text_lines rest)"
  by pat_completeness auto
termination
  by (relation "measure length") (auto dest: split_once_shorter)

declare text_lines.simps [simp del]

lemma split_once_newline:
  "newline \<notin> set l \<Longrightarrow> split_once [newline] (l @ newline # rest) = Some (l, rest)"
  by (induction l) (auto simp: starts_with_def)

lemma text_lines_step:
  "newline \<notin> set l \<Longrightarrow> text_lines (l @ newline # rest) = strip_cr l # text_lines rest"
  by (simp add: text_lines.simps [of "l @ newline # rest"] split_once_newline)

lemma text_lines_concat:
  "\<forall>l \<in> set ls. newline \<notin> set l \<Longrightarrow> text_lines (concat (map (\<lambda>l. l @ [newline]) ls)) = map strip_cr ls"
  by (induction ls) (simp_all add: text_lines_step text_lines.simps [of "[]"])

text \<open>\<open>str::replace\<close> of one byte.\<close>

definition replace_char :: "char \<Rightarrow> string \<Rightarrow> string \<Rightarrow> string" where
  "replace_char c t s = concat (map (\<lambda>d. if d = c then t else [d]) s)"

section \<open>Evaluation of strings\<close>

lemmas char_eval = char_of_def bit_iff_odd

lemma whitespace_literal:
  "whitespace = [[CHR 0x09], [CHR 0x0A], [CHR 0x0B], [CHR 0x0C], [CHR 0x0D], '' '',
  [CHR 0xC2, CHR 0x85], [CHR 0xC2, CHR 0xA0], [CHR 0xE1, CHR 0x9A, CHR 0x80], [CHR 0xE2, CHR 0x80, CHR 0xA8],
  [CHR 0xE2, CHR 0x80, CHR 0xA9], [CHR 0xE2, CHR 0x80, CHR 0xAF], [CHR 0xE2, CHR 0x81, CHR 0x9F], [CHR 0xE3, CHR 0x80, CHR 0x80],
  [CHR 0xE2, CHR 0x80, CHR 0x80], [CHR 0xE2, CHR 0x80, CHR 0x81], [CHR 0xE2, CHR 0x80, CHR 0x82], [CHR 0xE2, CHR 0x80, CHR 0x83],
  [CHR 0xE2, CHR 0x80, CHR 0x84], [CHR 0xE2, CHR 0x80, CHR 0x85], [CHR 0xE2, CHR 0x80, CHR 0x86], [CHR 0xE2, CHR 0x80, CHR 0x87],
  [CHR 0xE2, CHR 0x80, CHR 0x88], [CHR 0xE2, CHR 0x80, CHR 0x89], [CHR 0xE2, CHR 0x80, CHR 0x8A]]"
  by (simp add: whitespace_def char_eval)

lemma newline_literal: "newline = CHR 0x0A"
  by (simp add: newline_def char_eval)

lemma trim_literal:
  "find (starts_with s) whitespace = None \<Longrightarrow> find (ends_with s) whitespace = None \<Longrightarrow> trim s = s"
  by (simp add: trim_def trim_start.simps [of s] trim_end.simps [of s])

lemma split_once_no_newline: "newline \<notin> set s \<Longrightarrow> split_once [newline] s = None"
  by (induction s) (auto simp: starts_with_def)

lemma text_lines_single: "newline \<notin> set s \<Longrightarrow> s \<noteq> [] \<Longrightarrow> text_lines s = [s]"
  by (simp add: text_lines.simps [of s] split_once_no_newline)

end
