(* ===== verification/Evidence_Catalog.thy ===== *)
theory Evidence_Catalog
  imports Json
begin

text \<open>
  The task's evidence catalog, \<open>crates/agent-runtime/src/catalog.rs\<close>, with the descriptor of
  \<open>report.rs\<close>: what every tool result registered, attributed to the security it belongs to, with
  conflicts detected, and a bounded deterministic search over it. Unicode lower-casing and the
  rendering of a JSON value as text are parameters. Main facts: the catalog holds, per identifier,
  the first registration brought up to date, flags exactly the identifiers registered twice with a
  disagreement, never exceeds its capacity, and a search is ordered and bounded.
\<close>

definition MAX_CATALOG_ENTRIES :: nat where "MAX_CATALOG_ENTRIES = 40000"
definition MAX_SEARCH_RESULTS :: nat where "MAX_SEARCH_RESULTS = 50"
definition MAX_VALUE_CHARS :: nat where "MAX_VALUE_CHARS = 160"
definition MAX_HINTS :: nat where "MAX_HINTS = 12"
definition MAX_TITLE_CHARS :: nat where "MAX_TITLE_CHARS = 200"

section \<open>Attribution\<close>

record Attribution =
  at_symbol :: "string option"
  at_document_title :: "string option"
  at_published_at :: "string option"
  at_unit :: "string option"

definition attribution_default :: Attribution where
  "attribution_default = \<lparr>at_symbol = None, at_document_title = None, at_published_at = None, at_unit = None\<rparr>"

definition or_else :: "'a option \<Rightarrow> 'a option \<Rightarrow> 'a option" where
  "or_else a b = (case a of None \<Rightarrow> b | Some _ \<Rightarrow> a)"

text \<open>The first of the keys whose trimmed text is neither empty nor too long.\<close>

definition text_field :: "(string \<times> json) list \<Rightarrow> string list \<Rightarrow> nat \<Rightarrow> string option" where
  "text_field fs keys limit =
     find (\<lambda>v. v \<noteq> [] \<and> char_count v \<le> limit)
       (map trim (List.map_filter as_str (List.map_filter (map_of fs) keys)))"

definition six_digits :: "string \<Rightarrow> bool" where
  "six_digits s \<longleftrightarrow> length s = 6 \<and> list_all is_ascii_digit s"

definition extended :: "Attribution \<Rightarrow> (string \<times> json) list \<Rightarrow> Attribution" where
  "extended a fs =
     \<lparr>at_symbol =
        or_else (case Option.bind (map_of fs ''symbol'') as_str of
            Some s \<Rightarrow> if six_digits s then Some s else None
          | None \<Rightarrow> None) (at_symbol a),
      at_document_title = or_else (text_field fs [''title'', ''headline''] MAX_TITLE_CHARS) (at_document_title a),
      at_published_at = or_else (text_field fs [''published_at'', ''publish_time'', ''pub_time''] 40) (at_published_at a),
      at_unit = or_else (text_field fs [''unit'', ''currency''] 20) (at_unit a)\<rparr>"

definition escape_pointer :: "string \<Rightarrow> string" where
  "escape_pointer s = replace_char CHR ''/'' ''~1'' (replace_char CHR ''~'' ''~0'' s)"

text \<open>The entries \<open>collect_attribution\<close> writes, in the order it writes them.\<close>

function attributions :: "json \<Rightarrow> string \<Rightarrow> Attribution \<Rightarrow> (string \<times> Attribution) list" where
  "attributions (JObj fs) path inherited =
     (let a = extended inherited fs
      in (if a \<noteq> inherited \<and> a \<noteq> attribution_default then [(path, a)] else [])
         @ concat (map (\<lambda>(k, child).
             if k = ''evidence_registry'' then []
             else attributions child (path @ ''/'' @ escape_pointer k) a) fs))"
| "attributions (JArr xs) path inherited =
     concat (map (\<lambda>(i, child). attributions child (path @ ''/'' @ show_nat i) inherited) (enumerate 0 xs))"
| "attributions JNull path inherited = []"
| "attributions (JBool b) path inherited = []"
| "attributions (JInt i) path inherited = []"
| "attributions (JFloat x) path inherited = []"
| "attributions (JStr s) path inherited = []"
  by pat_completeness auto
termination
  by (relation "measure (\<lambda>(v, _, _). size v)") (auto simp: enumerate_eq_zip dest: field_size item_size set_zip_rightD)

declare attributions.simps [simp del]

definition attribution_index :: "json \<Rightarrow> string option \<Rightarrow> (string \<times> Attribution) list" where
  "attribution_index result fallback =
     (let root = attribution_default\<lparr>at_symbol := fallback\<rparr>;
          start = (if root \<noteq> attribution_default then [([], root)] else [])
      in fold (\<lambda>(p, a) m. btree_insert p a m) (start @ attributions result [] root) [])"

definition rfind_slash :: "string \<Rightarrow> nat option" where
  "rfind_slash s = map_option (\<lambda>i. length s - 1 - i) (position (\<lambda>c. c = CHR ''/'') (rev s))"

lemma rfind_slash_less: "rfind_slash s = Some i \<Longrightarrow> i < length s"
  by (cases s) (auto simp: rfind_slash_def)

function attribution_for :: "string \<Rightarrow> (string \<times> Attribution) list \<Rightarrow> Attribution option" where
  "attribution_for candidate index =
     (case map_of index candidate of
        Some a \<Rightarrow> Some a
      | None \<Rightarrow>
          (case rfind_slash candidate of
             Some i \<Rightarrow> attribution_for (take i candidate) index
           | None \<Rightarrow> map_of index []))"
  by pat_completeness auto
termination
  by (relation "measure (\<lambda>(c, _). length c)") (auto dest: rfind_slash_less)

declare attribution_for.simps [simp del]

section \<open>Registered facts\<close>

record RawFact =
  rf_id :: string
  rf_path :: string
  rf_value :: json
  rf_source :: string
  rf_observed_at :: "string option"
  rf_source_version_id :: "string option"
  rf_quality_blocking :: bool

text \<open>An optional text field: missing and \<open>null\<close> are \<open>None\<close>, anything but a string is an error.\<close>

fun optional_text :: "json option \<Rightarrow> string option option" where
  "optional_text None = Some None"
| "optional_text (Some JNull) = Some None"
| "optional_text (Some (JStr s)) = Some (Some s)"
| "optional_text (Some _) = None"

fun bool_or_false :: "json option \<Rightarrow> bool option" where
  "bool_or_false None = Some False"
| "bool_or_false (Some v) = as_bool v"

definition raw_fact_of :: "(nat \<Rightarrow> json option) \<Rightarrow> RawFact option" where
  "raw_fact_of field =
     (case (Option.bind (field 0) as_str, Option.bind (field 1) as_str, field 2, Option.bind (field 3) as_str,
        optional_text (field 4), optional_text (field 5), bool_or_false (field 6)) of
        (Some i, Some p, Some v, Some s, Some observed, Some version, Some b) \<Rightarrow>
          Some \<lparr>rf_id = i, rf_path = p, rf_value = v, rf_source = s, rf_observed_at = observed,
            rf_source_version_id = version, rf_quality_blocking = b\<rparr>
      | _ \<Rightarrow> None)"

definition fact_keys :: "string list" where
  "fact_keys = [''evidence_id'', ''path'', ''value'', ''source'', ''observed_at'', ''source_version_id'', ''quality_blocking'']"

text \<open>\<open>serde_json::from_value\<close>: a struct is read from an object, or from an array of its fields in order.\<close>

fun decode_fact :: "json \<Rightarrow> RawFact option" where
  "decode_fact (JObj fs) = raw_fact_of (\<lambda>i. map_of fs (fact_keys ! i))"
| "decode_fact (JArr xs) =
     (if length fact_keys < length xs then None else raw_fact_of (\<lambda>i. if i < length xs then Some (xs ! i) else None))"
| "decode_fact _ = None"

definition registry_rows :: "(string \<times> json) list \<Rightarrow> json list" where
  "registry_rows fs =
     (case Option.bind (Option.bind (map_of fs ''evidence_registry'') (jget ''facts'')) as_array of
        Some rows \<Rightarrow> rows | None \<Rightarrow> [])"

text \<open>The registry rows of a result, in the order they are visited; both registries' readers walk it.\<close>

function registries :: "json \<Rightarrow> json list" where
  "registries (JObj fs) =
     registry_rows fs @ concat (map (\<lambda>(k, child). if k = ''evidence_registry'' then [] else registries child) fs)"
| "registries (JArr xs) = concat (map registries xs)"
| "registries JNull = []"
| "registries (JBool b) = []"
| "registries (JInt i) = []"
| "registries (JFloat x) = []"
| "registries (JStr s) = []"
  by pat_completeness auto
termination
  by (relation "measure size") (auto dest: field_size item_size)

declare registries.simps [simp del]

definition collect_facts :: "json \<Rightarrow> RawFact list" where
  "collect_facts result = List.map_filter decode_fact (registries result)"

definition materially_disagrees :: "RawFact \<Rightarrow> RawFact \<Rightarrow> bool" where
  "materially_disagrees l r \<longleftrightarrow>
     \<not> json_eq (rf_value l) (rf_value r) \<or> rf_source l \<noteq> rf_source r \<or> rf_path l \<noteq> rf_path r
     \<or> rf_quality_blocking l \<noteq> rf_quality_blocking r \<or> rf_source_version_id l \<noteq> rf_source_version_id r"

text \<open>\<open>a > b\<close> on \<open>Option<String>\<close>\<close>

fun later :: "string option \<Rightarrow> string option \<Rightarrow> bool" where
  "later (Some a) (Some b) = (b < a)"
| "later (Some a) None = True"
| "later None _ = False"

definition admitted :: "RawFact \<Rightarrow> bool" where
  "admitted f \<longleftrightarrow> starts_with (rf_id f) ''evf_'' \<and> length (rf_id f) \<le> 80"

section \<open>The catalog\<close>

record EvidenceDescriptor =
  ed_id :: string
  ed_source :: string
  ed_symbol :: "string option"
  ed_field :: "string option"
  ed_value :: "json option"
  ed_unit :: "string option"
  ed_observed_at :: "string option"
  ed_published_at :: "string option"
  ed_document_title :: "string option"
  ed_document_location :: "string option"
  ed_quality_blocking :: bool
  ed_conflicting :: bool

record EvidenceCatalog =
  descriptors :: "(string \<times> EvidenceDescriptor) list"
  raw :: "(string \<times> RawFact) list"
  conflicting_variants :: "(string \<times> RawFact) list"
  dropped :: nat

definition catalog_empty :: EvidenceCatalog where
  "catalog_empty = \<lparr>descriptors = [], raw = [], conflicting_variants = [], dropped = 0\<rparr>"

text \<open>\<open>get_mut\<close>: change the entry of a key that has one.\<close>

definition at_key :: "'k::linorder \<Rightarrow> ('v \<Rightarrow> 'v) \<Rightarrow> ('k \<times> 'v) list \<Rightarrow> ('k \<times> 'v) list" where
  "at_key k f m = (case map_of m k of None \<Rightarrow> m | Some v \<Rightarrow> btree_insert k (f v) m)"

definition descriptor_of :: "(string \<times> Attribution) list \<Rightarrow> RawFact \<Rightarrow> EvidenceDescriptor" where
  "descriptor_of index f =
     (let a = attribution_for (rf_path f) index
      in \<lparr>ed_id = rf_id f, ed_source = rf_source f, ed_symbol = Option.bind a at_symbol,
          ed_field = Some (rf_path f), ed_value = Some (rf_value f), ed_unit = Option.bind a at_unit,
          ed_observed_at = rf_observed_at f, ed_published_at = Option.bind a at_published_at,
          ed_document_title = Option.bind a at_document_title, ed_document_location = None,
          ed_quality_blocking = rf_quality_blocking f, ed_conflicting = False\<rparr>)"

definition ingest_fact :: "(string \<times> Attribution) list \<Rightarrow> RawFact \<Rightarrow> EvidenceCatalog \<Rightarrow> EvidenceCatalog" where
  "ingest_fact index f c =
     (if \<not> admitted f then c
      else
        (case map_of (raw c) (rf_id f) of
           Some existing \<Rightarrow>
             (if materially_disagrees existing f then
                c\<lparr>descriptors := at_key (rf_id f) (\<lambda>d. d\<lparr>ed_conflicting := True\<rparr>) (descriptors c),
                  conflicting_variants :=
                    (if map_of (conflicting_variants c) (rf_id f) = None
                     then btree_insert (rf_id f) f (conflicting_variants c) else conflicting_variants c)\<rparr>
              else if later (rf_observed_at f) (rf_observed_at existing) then
                c\<lparr>descriptors := at_key (rf_id f) (\<lambda>d. d\<lparr>ed_observed_at := rf_observed_at f\<rparr>) (descriptors c),
                  raw := btree_insert (rf_id f) f (raw c)\<rparr>
              else c)
         | None \<Rightarrow>
             (if MAX_CATALOG_ENTRIES \<le> length (descriptors c)
              then c\<lparr>dropped := usize_saturating_add (dropped c) 1\<rparr>
              else c\<lparr>descriptors := btree_insert (rf_id f) (descriptor_of index f) (descriptors c),
                     raw := btree_insert (rf_id f) f (raw c)\<rparr>)))"

definition ingest :: "json \<Rightarrow> string option \<Rightarrow> EvidenceCatalog \<Rightarrow> EvidenceCatalog" where
  "ingest result fallback c =
     fold (ingest_fact (attribution_index result fallback)) (collect_facts result) c"

text \<open>The registered facts behind a sorted list of cited identifiers.\<close>

definition verifier_facts :: "string list \<Rightarrow> EvidenceCatalog \<Rightarrow> RawFact list" where
  "verifier_facts cited c =
     concat (map (\<lambda>i.
       (case map_of (raw c) i of Some f \<Rightarrow> [f] | None \<Rightarrow> [])
       @ (case map_of (conflicting_variants c) i of Some f \<Rightarrow> [f] | None \<Rightarrow> [])) cited)"

section \<open>Search\<close>

record EvidenceQuery =
  eq_symbol :: "string option"
  eq_source :: "string option"
  eq_field :: "string option"
  eq_keyword :: "string option"
  only_calculations :: "bool option"
  eq_limit :: nat

definition is_calculation :: "EvidenceDescriptor \<Rightarrow> bool" where
  "is_calculation d \<longleftrightarrow> ed_source d = ''astock-compute''"

definition lacks_observation_time :: "EvidenceDescriptor \<Rightarrow> bool" where
  "lacks_observation_time d \<longleftrightarrow>
     \<not> is_calculation d \<and> (case ed_observed_at d of None \<Rightarrow> True | Some t \<Rightarrow> trim t = [])"

definition leaf :: "string \<Rightarrow> string" where
  "leaf path = rev (takeWhile (\<lambda>c. c \<noteq> CHR ''/'') (rev path))"

text \<open>
  \<open>lower\<close> is \<open>str::to_lowercase\<close> and \<open>show_json\<close> is \<open>Value::to_string\<close>. A tuple compared from left to
  right is a list of the same length.
\<close>

definition rank_key :: "(string \<Rightarrow> string) \<Rightarrow> EvidenceDescriptor \<Rightarrow> string option \<Rightarrow> nat list" where
  "rank_key lower d field_query =
     [(case (field_query, ed_field d) of
         (Some q, Some path) \<Rightarrow> of_bool (lower (leaf path) \<noteq> q)
       | _ \<Rightarrow> 1),
      of_bool (ed_conflicting d), of_bool (ed_quality_blocking d), of_bool (lacks_observation_time d)]"

definition row_le ::
  "(string \<Rightarrow> string) \<Rightarrow> string option \<Rightarrow> EvidenceDescriptor \<Rightarrow> EvidenceDescriptor \<Rightarrow> bool" where
  "row_le lower field_query l r \<longleftrightarrow>
     rank_key lower l field_query < rank_key lower r field_query
     \<or> rank_key lower l field_query = rank_key lower r field_query
       \<and> (later (ed_observed_at l) (ed_observed_at r)
          \<or> ed_observed_at l = ed_observed_at r \<and> ed_id l \<le> ed_id r)"

fun render_value :: "(json \<Rightarrow> string) \<Rightarrow> json \<Rightarrow> string" where
  "render_value show_json v =
     (let rendered = (case v of JStr t \<Rightarrow> t | _ \<Rightarrow> show_json v)
      in if char_count rendered \<le> MAX_VALUE_CHARS then rendered
         else take_chars MAX_VALUE_CHARS rendered @ utf8 [8230])"

definition matches_keyword ::
  "(string \<Rightarrow> string) \<Rightarrow> (json \<Rightarrow> string) \<Rightarrow> EvidenceDescriptor \<Rightarrow> string \<Rightarrow> bool" where
  "matches_keyword lower show_json d keyword =
     list_ex (\<lambda>h. case h of Some t \<Rightarrow> contains (lower t) keyword | None \<Rightarrow> False)
       [Some (lower (ed_source d)), map_option lower (ed_field d), map_option lower (ed_document_title d),
        ed_symbol d, map_option (render_value show_json) (ed_value d)]"

definition query_matches ::
  "(string \<Rightarrow> string) \<Rightarrow> (json \<Rightarrow> string) \<Rightarrow> EvidenceQuery \<Rightarrow> EvidenceDescriptor \<Rightarrow> bool" where
  "query_matches lower show_json q d \<longleftrightarrow>
     (case eq_symbol q of Some s \<Rightarrow> ed_symbol d = Some s | None \<Rightarrow> True)
     \<and> (case eq_source q of Some s \<Rightarrow> contains (lower (ed_source d)) (lower s) | None \<Rightarrow> True)
     \<and> (case eq_field q of
          Some f \<Rightarrow> (case ed_field d of Some path \<Rightarrow> contains (lower path) (lower f) | None \<Rightarrow> False)
        | None \<Rightarrow> True)
     \<and> (only_calculations q = Some True \<longrightarrow> is_calculation d)
     \<and> (case eq_keyword q of Some k \<Rightarrow> matches_keyword lower show_json d (lower k) | None \<Rightarrow> True)"

definition search_matches ::
  "(string \<Rightarrow> string) \<Rightarrow> (json \<Rightarrow> string) \<Rightarrow> EvidenceQuery \<Rightarrow> EvidenceCatalog \<Rightarrow> EvidenceDescriptor list" where
  "search_matches lower show_json q c =
     sort_by (row_le lower (map_option lower (eq_field q)))
       (filter (query_matches lower show_json q) (map snd (descriptors c)))"

definition optional_field :: "string \<Rightarrow> string option \<Rightarrow> (string \<times> json) list" where
  "optional_field k v = (case v of Some t \<Rightarrow> [(k, JStr t)] | None \<Rightarrow> [])"

definition search_row :: "(json \<Rightarrow> string) \<Rightarrow> EvidenceDescriptor \<Rightarrow> json" where
  "search_row show_json d =
     jobject ([(''evidence_id'', JStr (ed_id d)), (''source'', JStr (ed_source d))]
       @ optional_field ''field'' (ed_field d)
       @ optional_field ''value'' (map_option (render_value show_json) (ed_value d))
       @ optional_field ''symbol'' (ed_symbol d)
       @ optional_field ''unit'' (ed_unit d)
       @ optional_field ''observed_at'' (ed_observed_at d)
       @ optional_field ''published_at'' (ed_published_at d)
       @ optional_field ''document_title'' (ed_document_title d)
       @ [(''is_calculation'', JBool (is_calculation d))]
       @ (if ed_conflicting d then [(''conflicting'', JBool True)] else [])
       @ (if ed_quality_blocking d then [(''quality_blocking'', JBool True)] else [])
       @ (if lacks_observation_time d then [(''no_observation_time'', JBool True)] else []))"

definition count_names :: "string list \<Rightarrow> (string \<times> nat) list" where
  "count_names names = fold (\<lambda>n m. btree_insert n (Suc (case map_of m n of Some k \<Rightarrow> k | None \<Rightarrow> 0)) m) names []"

definition rank_hints :: "(string \<times> nat) list \<Rightarrow> json list" where
  "rank_hints counts =
     map (\<lambda>(name, count). jobject [(''name'', JStr name), (''facts'', JInt (int count))])
       (take MAX_HINTS (sort_by (\<lambda>l r. snd r < snd l \<or> snd l = snd r \<and> fst l \<le> fst r) counts))"

definition hint_sources :: "EvidenceCatalog \<Rightarrow> json list" where
  "hint_sources c = rank_hints (count_names (map (ed_source \<circ> snd) (descriptors c)))"

definition hint_fields :: "EvidenceCatalog \<Rightarrow> json list" where
  "hint_fields c =
     rank_hints (count_names (filter (\<lambda>l. l \<noteq> [] \<and> \<not> list_all is_ascii_digit l)
       (map leaf (List.map_filter (ed_field \<circ> snd) (descriptors c)))))"

definition search_limit :: "EvidenceQuery \<Rightarrow> nat" where
  "search_limit q = max 1 (min (eq_limit q) MAX_SEARCH_RESULTS)"

definition search ::
  "(string \<Rightarrow> string) \<Rightarrow> (json \<Rightarrow> string) \<Rightarrow> EvidenceQuery \<Rightarrow> EvidenceCatalog \<Rightarrow> json" where
  "search lower show_json q c =
     (let matched = search_matches lower show_json q c;
          matches = length matched;
          rows = map (search_row show_json) (take (search_limit q) matched)
      in jobject ([(''ok'', JBool True), (''catalog_size'', JInt (int (length (descriptors c)))),
           (''matched'', JInt (int matches)), (''returned'', JInt (int (length rows))),
           (''truncated'', JBool (length rows < matches)), (''results'', JArr rows)]
         @ (if search_limit q < matches then [(''note'', JStr
              ''More evidence matched than was returned. Narrow the query by symbol, source or field rather than raising the limit.'')]
            else [])
         @ (if matches = 0 then [(''available_sources'', JArr (hint_sources c)), (''available_fields'', JArr (hint_fields c)),
              (''note'', JStr ''No evidence matched. Use one of the listed sources or field fragments, or gather the data first. Never invent an identifier.'')]
            else [])))"

section \<open>What a sequence of registrations means\<close>

text \<open>
  The abstract register of an evidence store: per identifier, the current registration and the first
  one that disagreed with it.
\<close>

type_synonym register = "string \<Rightarrow> (RawFact \<times> RawFact option) option"

definition register_fact :: "RawFact \<Rightarrow> register \<Rightarrow> register" where
  "register_fact f m =
     (if \<not> admitted f then m
      else case m (rf_id f) of
        None \<Rightarrow> m(rf_id f \<mapsto> (f, None))
      | Some (e, v) \<Rightarrow>
          if materially_disagrees e f then m(rf_id f \<mapsto> (e, or_else v (Some f)))
          else if later (rf_observed_at f) (rf_observed_at e) then m(rf_id f \<mapsto> (f, v))
          else m)"

definition registered :: "RawFact list \<Rightarrow> register" where
  "registered fs = fold register_fact fs Map.empty"

text \<open>
  A store refines an abstract one when its steps do, as long as nothing has been refused: the
  catalog refines the register, and the report verifier the register without the variants.
\<close>

locale register_store =
  fixes step :: "'f \<Rightarrow> 's \<Rightarrow> 's"
    and abstract :: "'f \<Rightarrow> 'r \<Rightarrow> 'r"
    and view :: "'s \<Rightarrow> 'r"
    and intact :: "'s \<Rightarrow> bool"
    and refused :: "'s \<Rightarrow> bool"
  assumes step_intact: "intact s \<Longrightarrow> intact (step f s)"
    and step_refused: "refused s \<Longrightarrow> refused (step f s)"
    and step_abstract: "intact s \<Longrightarrow> \<not> refused (step f s) \<Longrightarrow> view (step f s) = abstract f (view s)"
begin

lemma fold_intact: "intact s \<Longrightarrow> intact (fold step fs s)"
  by (induction fs arbitrary: s) (simp_all add: step_intact)

lemma fold_refused: "refused s \<Longrightarrow> refused (fold step fs s)"
  by (induction fs arbitrary: s) (simp_all add: step_refused)

lemma fold_abstract:
  "intact s \<Longrightarrow> \<not> refused (fold step fs s) \<Longrightarrow> view (fold step fs s) = fold abstract fs (view s)"
proof (induction fs arbitrary: s)
  case (Cons f fs)
  then have "\<not> refused (step f s)" using fold_refused by auto
  then show ?case using Cons step_intact step_abstract by simp
qed simp

end

definition fact_ok :: "RawFact \<Rightarrow> bool" where
  "fact_ok f \<longleftrightarrow> json_ok (rf_value f)"

lemma disagrees_refl: "fact_ok f \<Longrightarrow> \<not> materially_disagrees f f"
  by (simp add: materially_disagrees_def fact_ok_def json_eq_refl)

lemma agrees_trans:
  "\<not> materially_disagrees a b \<Longrightarrow> \<not> materially_disagrees b c \<Longrightarrow> fact_ok a \<Longrightarrow> fact_ok b \<Longrightarrow> fact_ok c \<Longrightarrow>
    \<not> materially_disagrees a c"
  by (auto simp: materially_disagrees_def fact_ok_def intro: json_eq_trans)

lemma disagrees_sym: "materially_disagrees a b \<longleftrightarrow> materially_disagrees b a"
  using json_eq_sym [of "rf_value a" "rf_value b"] json_eq_sym [of "rf_value b" "rf_value a"]
  by (auto simp: materially_disagrees_def)

lemma later_irrefl [simp]: "\<not> later t t"
  by (cases t) simp_all

text \<open>The facts of one identifier, in the order they came.\<close>

definition of_id :: "string \<Rightarrow> RawFact list \<Rightarrow> RawFact list" where
  "of_id i fs = filter (\<lambda>f. admitted f \<and> rf_id f = i) fs"

lemma registered_snoc: "registered (fs @ [f]) = register_fact f (registered fs)"
  by (simp add: registered_def)

text \<open>
  An identifier has an entry when an admitted fact carries it; the current registration is one of those
  facts and agrees with the first; the variant is the first that disagrees.
\<close>

lemma registered_spec:
  assumes "list_all fact_ok fs"
  shows "case of_id i fs of
      [] \<Rightarrow> registered fs i = None
    | e # es \<Rightarrow> \<exists>g. registered fs i = Some (g, find (materially_disagrees e) es) \<and> g \<in> set (e # es)
        \<and> \<not> materially_disagrees e g"
  using assms
proof (induction fs rule: rev_induct)
  case Nil
  then show ?case by (simp add: of_id_def registered_def)
next
  case (snoc f fs)
  have ok: "list_all fact_ok fs" "fact_ok f" using snoc.prems by simp_all
  show ?case
  proof (cases "admitted f \<and> rf_id f = i")
    case False
    then have "of_id i (fs @ [f]) = of_id i fs" by (auto simp: of_id_def)
    moreover have "registered (fs @ [f]) i = registered fs i"
      using False by (auto simp: registered_snoc register_fact_def split: option.splits prod.splits)
    ultimately show ?thesis using snoc.IH [OF ok(1)] by (simp only:)
  next
    case True
    then have ids: "of_id i (fs @ [f]) = of_id i fs @ [f]" by (simp add: of_id_def)
    show ?thesis
    proof (cases "of_id i fs")
      case Nil
      then show ?thesis using snoc.IH [OF ok(1)] True ids disagrees_refl [OF ok(2)]
        by (simp add: registered_snoc register_fact_def)
    next
      case (Cons e es)
      then obtain g where g: "registered fs i = Some (g, find (materially_disagrees e) es)"
        "g \<in> set (e # es)" "\<not> materially_disagrees e g"
        using snoc.IH [OF ok(1)] by auto
      have "set (e # es) \<subseteq> set fs" using Cons by (metis filter_is_subset of_id_def)
      then have mem: "e \<in> set fs" "g \<in> set fs" using g(2) by auto
      then have okeg: "fact_ok e" "fact_ok g" using ok(1) by (auto simp: list_all_iff)
      have same: "materially_disagrees g f \<longleftrightarrow> materially_disagrees e f"
        using agrees_trans [of e g f] agrees_trans [of g e f] g(3) okeg ok(2) disagrees_sym by blast
      have last: "find p (es @ [f]) = or_else (find p es) (if p f then Some f else None)" for p
        by (induction es) (auto simp: or_else_def)
      show ?thesis
      proof (cases "materially_disagrees e f")
        case True
        then show ?thesis using Cons g ids \<open>admitted f \<and> rf_id f = i\<close> same last [of "materially_disagrees e"]
          by (auto simp: registered_snoc register_fact_def)
      next
        case False
        then have "find (materially_disagrees e) (es @ [f]) = find (materially_disagrees e) es"
          using last [of "materially_disagrees e"] by (auto simp: or_else_def split: option.splits)
        then show ?thesis using Cons g ids \<open>admitted f \<and> rf_id f = i\<close> same False
          by (auto simp: registered_snoc register_fact_def)
      qed
    qed
  qed
qed

lemma registered_None: "list_all fact_ok fs \<Longrightarrow> registered fs i = None \<longleftrightarrow> of_id i fs = []"
  using registered_spec [of fs i] by (auto split: list.splits)

text \<open>An identifier is in conflict exactly when two of its registrations disagree.\<close>

lemma registered_conflict:
  assumes "list_all fact_ok fs"
  shows "(\<exists>g v. registered fs i = Some (g, Some v))
    \<longleftrightarrow> (\<exists>a \<in> set (of_id i fs). \<exists>b \<in> set (of_id i fs). materially_disagrees a b)"
proof (cases "of_id i fs")
  case Nil
  then show ?thesis using registered_spec [OF assms, of i] by simp
next
  case (Cons e es)
  then obtain g where g: "registered fs i = Some (g, find (materially_disagrees e) es)"
    using registered_spec [OF assms, of i] by auto
  have ok: "fact_ok a" if "a \<in> set (of_id i fs)" for a
    using that assms by (auto simp: of_id_def list_all_iff)
  have "find (materially_disagrees e) es \<noteq> None \<longleftrightarrow> (\<exists>b \<in> set es. materially_disagrees e b)"
    by (auto simp: find_None_iff)
  moreover have "\<exists>b \<in> set es. materially_disagrees e b"
    if "a \<in> set (of_id i fs)" "b \<in> set (of_id i fs)" "materially_disagrees a b" for a b
  proof (rule ccontr)
    assume none: "\<not> (\<exists>b \<in> set es. materially_disagrees e b)"
    have "\<not> materially_disagrees e c" if "c \<in> set (of_id i fs)" for c
      using that none Cons disagrees_refl [OF ok [of e]] by auto
    then have "\<not> materially_disagrees a e" "\<not> materially_disagrees e b" using that disagrees_sym by blast+
    then show False using agrees_trans [of a e b] ok that Cons by (metis list.set_intros(1))
  qed
  moreover have "e \<in> set (of_id i fs)" "set es \<subseteq> set (of_id i fs)" using Cons by auto
  ultimately show ?thesis using g by (auto 0 4)
qed

section \<open>The catalog implements the register\<close>

definition catalog_view :: "EvidenceCatalog \<Rightarrow> register" where
  "catalog_view c = (\<lambda>i. map_option (\<lambda>f. (f, map_of (conflicting_variants c) i)) (map_of (raw c) i))"

text \<open>A descriptor says of its fact what the catalog knows.\<close>

definition describes :: "EvidenceDescriptor \<Rightarrow> RawFact \<Rightarrow> bool \<Rightarrow> bool" where
  "describes d f conflict \<longleftrightarrow>
     ed_id d = rf_id f \<and> ed_source d = rf_source f \<and> ed_field d = Some (rf_path f)
     \<and> ed_quality_blocking d = rf_quality_blocking f \<and> ed_observed_at d = rf_observed_at f
     \<and> ed_conflicting d = conflict"

fun entry_ok :: "string \<Rightarrow> RawFact option \<Rightarrow> EvidenceDescriptor option \<Rightarrow> RawFact option \<Rightarrow> bool" where
  "entry_ok i None d v \<longleftrightarrow> d = None \<and> v = None"
| "entry_ok i (Some f) None v \<longleftrightarrow> False"
| "entry_ok i (Some f) (Some d) v \<longleftrightarrow> rf_id f = i \<and> admitted f \<and> describes d f (v \<noteq> None)"

definition catalog_ok :: "EvidenceCatalog \<Rightarrow> bool" where
  "catalog_ok c \<longleftrightarrow>
     sorted_wrt (<) (map fst (descriptors c)) \<and> length (descriptors c) \<le> MAX_CATALOG_ENTRIES
     \<and> (\<forall>i. entry_ok i (map_of (raw c) i) (map_of (descriptors c) i) (map_of (conflicting_variants c) i))"

lemma catalog_ok_empty [simp]: "catalog_ok catalog_empty"
  by (simp add: catalog_ok_def catalog_empty_def)

lemma map_of_at_key [simp]:
  "map_of (at_key k f m) j = (if j = k then map_option f (map_of m k) else map_of m j)"
  by (auto simp: at_key_def btree.get_put split: option.split)

lemma sorted_at_key: "sorted_wrt (<) (map fst m) \<Longrightarrow> sorted_wrt (<) (map fst (at_key k f m))"
  by (auto simp: at_key_def btree.wf_put split: option.split)

lemma length_at_key: "sorted_wrt (<) (map fst m) \<Longrightarrow> length (at_key k f m) = length m"
proof -
  assume s: "sorted_wrt (<) (map fst m)"
  show ?thesis
  proof (cases "map_of m k")
    case (Some v)
    then have "k \<in> fst ` set m" by (force dest: map_of_SomeD)
    then show ?thesis using Some length_btree_insert [OF s] by (simp add: at_key_def)
  qed (simp add: at_key_def)
qed

lemma ingest_fact_ok: "catalog_ok c \<Longrightarrow> catalog_ok (ingest_fact index f c)"
proof -
  assume ok: "catalog_ok c"
  have sorted: "sorted_wrt (<) (map fst (descriptors c))" and len: "length (descriptors c) \<le> MAX_CATALOG_ENTRIES"
    using ok by (simp_all add: catalog_ok_def)
  have at: "entry_ok i (map_of (raw c) i) (map_of (descriptors c) i) (map_of (conflicting_variants c) i)" for i
    using ok by (simp add: catalog_ok_def)
  show ?thesis
  proof (cases "admitted f")
    case True
    show ?thesis
    proof (cases "map_of (raw c) (rf_id f)")
      case None
      then have new: "map_of (descriptors c) (rf_id f) = None" "map_of (conflicting_variants c) (rf_id f) = None"
        using at [of "rf_id f"] by simp_all
      show ?thesis
      proof (cases "MAX_CATALOG_ENTRIES \<le> length (descriptors c)")
        case False
        have "rf_id f \<notin> fst ` set (descriptors c)" using new(1) by (simp add: map_of_eq_None_iff)
        then have "length (btree_insert (rf_id f) (descriptor_of index f) (descriptors c)) \<le> MAX_CATALOG_ENTRIES"
          using False length_btree_insert [OF sorted] by simp
        moreover have "describes (descriptor_of index f) f False" by (simp add: describes_def descriptor_of_def Let_def)
        ultimately show ?thesis using None True False new at sorted
          by (simp add: catalog_ok_def ingest_fact_def btree.get_put btree.wf_put)
      qed (use None True ok in \<open>simp add: catalog_ok_def ingest_fact_def\<close>)
    next
      case (Some e)
      then obtain d where e: "rf_id e = rf_id f" "admitted e" "map_of (descriptors c) (rf_id f) = Some d"
        "describes d e (map_of (conflicting_variants c) (rf_id f) \<noteq> None)"
        using at [of "rf_id f"] by (cases "map_of (descriptors c) (rf_id f)") auto
      consider "materially_disagrees e f" | "\<not> materially_disagrees e f" "later (rf_observed_at f) (rf_observed_at e)"
        | "\<not> materially_disagrees e f" "\<not> later (rf_observed_at f) (rf_observed_at e)" by blast
      then show ?thesis
      proof cases
        case 1
        then show ?thesis using Some True e at sorted len
          by (simp add: catalog_ok_def ingest_fact_def btree.get_put sorted_at_key length_at_key describes_def)
      next
        case 2
        then have "rf_source e = rf_source f" "rf_path e = rf_path f" "rf_quality_blocking e = rf_quality_blocking f"
          by (simp_all add: materially_disagrees_def)
        then show ?thesis using 2 Some True e at sorted len
          by (simp add: catalog_ok_def ingest_fact_def btree.get_put sorted_at_key length_at_key describes_def)
      qed (use Some True ok in \<open>simp add: ingest_fact_def\<close>)
    qed
  qed (use ok in \<open>simp add: ingest_fact_def\<close>)
qed

interpretation catalog: register_store "ingest_fact index" register_fact catalog_view catalog_ok "\<lambda>c. dropped c \<noteq> 0" for index
proof unfold_locales
  fix f and c :: EvidenceCatalog
  show "catalog_ok c \<Longrightarrow> catalog_ok (ingest_fact index f c)" by (rule ingest_fact_ok)
  show "dropped c \<noteq> 0 \<Longrightarrow> dropped (ingest_fact index f c) \<noteq> 0"
    by (auto simp: ingest_fact_def usize_saturating_add_def u64_max_def split: option.split)
  assume ok: "catalog_ok c" and room: "\<not> dropped (ingest_fact index f c) \<noteq> 0"
  show "catalog_view (ingest_fact index f c) = register_fact f (catalog_view c)"
  proof (cases "admitted f \<and> map_of (raw c) (rf_id f) = None")
    case True
    then have "map_of (conflicting_variants c) (rf_id f) = None"
      using ok unfolding catalog_ok_def by (metis entry_ok.simps(1))
    moreover have "\<not> MAX_CATALOG_ENTRIES \<le> length (descriptors c)"
      using True room by (auto simp: ingest_fact_def usize_saturating_add_def u64_max_def)
    ultimately show ?thesis using True
      by (auto simp: catalog_view_def ingest_fact_def register_fact_def btree.get_put)
  next
    case False
    show ?thesis
    proof (cases "map_of (raw c) (rf_id f)")
      case None
      then show ?thesis using False by (simp add: ingest_fact_def register_fact_def)
    next
      case (Some e)
      then show ?thesis
        by (cases "map_of (conflicting_variants c) (rf_id f)")
          (auto simp: catalog_view_def ingest_fact_def register_fact_def btree.get_put or_else_def)
    qed
  qed
qed

section \<open>Properties\<close>

definition ingest_all :: "(json \<times> string option) list \<Rightarrow> EvidenceCatalog \<Rightarrow> EvidenceCatalog" where
  "ingest_all rs c = fold (\<lambda>(result, fallback). ingest result fallback) rs c"

definition all_facts :: "(json \<times> string option) list \<Rightarrow> RawFact list" where
  "all_facts rs = concat (map (\<lambda>(result, fallback). collect_facts result) rs)"

lemma ingest_all_ok: "catalog_ok c \<Longrightarrow> catalog_ok (ingest_all rs c)"
  by (induction rs arbitrary: c) (auto simp: ingest_all_def ingest_def catalog.fold_intact)

lemma ingest_all_refused: "dropped c \<noteq> 0 \<Longrightarrow> dropped (ingest_all rs c) \<noteq> 0"
proof (induction rs arbitrary: c)
  case (Cons r rs)
  obtain result fallback where r: "r = (result, fallback)" by fastforce
  have "dropped (ingest result fallback c) \<noteq> 0"
    using catalog.fold_refused [OF Cons.prems] by (simp add: ingest_def)
  then show ?case using Cons.IH r by (simp add: ingest_all_def)
qed (simp add: ingest_all_def)

lemma ingest_all_view:
  "catalog_ok c \<Longrightarrow> dropped (ingest_all rs c) = 0 \<Longrightarrow>
    catalog_view (ingest_all rs c) = fold register_fact (all_facts rs) (catalog_view c)"
proof (induction rs arbitrary: c)
  case (Cons r rs)
  obtain result fallback where r: "r = (result, fallback)" by fastforce
  let ?c = "ingest result fallback c"
  have all: "ingest_all (r # rs) c = ingest_all rs ?c" by (simp add: ingest_all_def r)
  then have "dropped ?c = 0" using Cons.prems(2) ingest_all_refused by metis
  then have "catalog_view ?c = fold register_fact (collect_facts result) (catalog_view c)"
    using catalog.fold_abstract [OF Cons.prems(1)] by (simp add: ingest_def)
  moreover have "catalog_ok ?c" using Cons.prems(1) by (simp add: ingest_def catalog.fold_intact)
  ultimately show ?case using Cons all by (simp add: all_facts_def r)
qed (simp add: ingest_all_def all_facts_def)

lemma catalog_view_empty: "catalog_view catalog_empty = Map.empty"
  by (simp add: catalog_view_def catalog_empty_def)

lemma ingest_all_registered:
  "dropped (ingest_all rs catalog_empty) = 0 \<Longrightarrow>
    catalog_view (ingest_all rs catalog_empty) = registered (all_facts rs)"
  using ingest_all_view [of catalog_empty rs] by (simp add: catalog_view_empty registered_def)

text \<open>
  Whatever results a task absorbs, the catalog stays well-formed and within its capacity: every
  descriptor describes the current registration of its identifier, is flagged when a divergent
  registration is held, and has an admissible identifier.
\<close>

theorem catalog_invariant: "catalog_ok (ingest_all rs catalog_empty)"
  by (rule ingest_all_ok) simp

text \<open>
  C14: While nothing has been dropped, an identifier is in the catalog exactly when an admissible fact
  carries it, and is flagged as conflicting exactly when two of its registrations disagree about
  value, source, path, quality or version, in whatever results and order they came.
\<close>

theorem catalog_flags_disagreements:
  assumes "dropped (ingest_all rs catalog_empty) = 0" and "list_all fact_ok (all_facts rs)"
  shows "case map_of (descriptors (ingest_all rs catalog_empty)) i of
      None \<Rightarrow> of_id i (all_facts rs) = []
    | Some d \<Rightarrow> of_id i (all_facts rs) \<noteq> []
        \<and> (ed_conflicting d \<longleftrightarrow>
             (\<exists>a \<in> set (of_id i (all_facts rs)). \<exists>b \<in> set (of_id i (all_facts rs)). materially_disagrees a b))"
proof -
  let ?c = "ingest_all rs catalog_empty"
  have v: "registered (all_facts rs) i = map_option (\<lambda>f. (f, map_of (conflicting_variants ?c) i)) (map_of (raw ?c) i)"
    using ingest_all_registered [OF assms(1)] by (simp add: catalog_view_def fun_eq_iff)
  have ok: "entry_ok i (map_of (raw ?c) i) (map_of (descriptors ?c) i) (map_of (conflicting_variants ?c) i)"
    using ingest_all_ok [OF catalog_ok_empty, of rs] by (simp add: catalog_ok_def)
  show ?thesis
  proof (cases "map_of (raw ?c) i")
    case None
    then show ?thesis using ok v registered_None [OF assms(2), of i] by simp
  next
    case (Some f)
    then obtain d where d: "map_of (descriptors ?c) i = Some d" "describes d f (map_of (conflicting_variants ?c) i \<noteq> None)"
      using ok by (cases "map_of (descriptors ?c) i") auto
    have "of_id i (all_facts rs) \<noteq> []" using Some v registered_None [OF assms(2), of i] by simp
    moreover have "ed_conflicting d \<longleftrightarrow> (\<exists>g w. registered (all_facts rs) i = Some (g, Some w))"
      using d(2) Some v by (auto simp: describes_def)
    ultimately show ?thesis using d(1) registered_conflict [OF assms(2), of i] by simp
  qed
qed

definition price_fact :: "int \<Rightarrow> json" where
  "price_fact n =
     JObj [(''evidence_registry'', JObj [(''facts'', JArr [JArr [JStr ''evf_p'', JStr ''/price'', JInt n, JStr ''tdx'']])])]"

lemma catalog_flags_disagreements_witness:
  "case map_of (descriptors (ingest_all [(price_fact 1, None), (price_fact 2, None)] catalog_empty)) ''evf_p'' of
      None \<Rightarrow> False
    | Some d \<Rightarrow> ed_conflicting d"
proof -
  let ?rs = "[(price_fact 1, None), (price_fact 2, None)] :: (json \<times> string option) list"
  let ?f = "\<lambda>n. \<lparr>rf_id = ''evf_p'', rf_path = ''/price'', rf_value = JInt n, rf_source = ''tdx'', rf_observed_at = None,
    rf_source_version_id = None, rf_quality_blocking = False\<rparr>"
  have rows: "collect_facts (price_fact n) = [?f n]" for n
    by (simp add: collect_facts_def price_fact_def registries.simps registry_rows_def fact_keys_def raw_fact_of_def)
  have facts: "all_facts ?rs = [?f 1, ?f 2]" by (simp add: all_facts_def rows)
  have adm: "admitted (?f n)" for n by (simp add: admitted_def starts_with_def)
  have "dropped (ingest_all ?rs catalog_empty) = 0"
    by (simp add: ingest_all_def ingest_def rows catalog_empty_def ingest_fact_def adm MAX_CATALOG_ENTRIES_def
        materially_disagrees_def)
  moreover have "list_all fact_ok (all_facts ?rs)" by (simp add: facts fact_ok_def)
  ultimately have "case map_of (descriptors (ingest_all ?rs catalog_empty)) ''evf_p'' of
      None \<Rightarrow> of_id ''evf_p'' (all_facts ?rs) = []
    | Some d \<Rightarrow> of_id ''evf_p'' (all_facts ?rs) \<noteq> []
        \<and> (ed_conflicting d \<longleftrightarrow> (\<exists>a \<in> set (of_id ''evf_p'' (all_facts ?rs)).
             \<exists>b \<in> set (of_id ''evf_p'' (all_facts ?rs)). materially_disagrees a b))"
    by (rule catalog_flags_disagreements)
  moreover have "of_id ''evf_p'' (all_facts ?rs) = [?f 1, ?f 2]" by (simp add: facts of_id_def adm)
  moreover have "materially_disagrees (?f 1) (?f 2)" by (simp add: materially_disagrees_def)
  ultimately show ?thesis by (simp split: option.splits)
qed

lemma later_trans: "later a b \<Longrightarrow> later b c \<Longrightarrow> later a c"
  by (cases a; cases b; cases c) auto

lemma later_total: "later a b \<or> a = b \<or> later b a"
  by (cases a; cases b) auto

lemma row_le_total: "row_le lower q a b \<or> row_le lower q b a"
  unfolding row_le_def using later_total [of "ed_observed_at a" "ed_observed_at b"]
    linear [of "ed_id a" "ed_id b"] less_linear [of "rank_key lower a q" "rank_key lower b q"] by metis

lemma row_le_trans: "row_le lower q a b \<Longrightarrow> row_le lower q b c \<Longrightarrow> row_le lower q a c"
  unfolding row_le_def using later_trans [of "ed_observed_at a" "ed_observed_at b" "ed_observed_at c"]
    order_trans [of "ed_id a" "ed_id b" "ed_id c"]
    less_trans [of "rank_key lower a q" "rank_key lower b q" "rank_key lower c q"] by metis

text \<open>
  A search over any catalog returns between zero and fifty rows, never more than asked for unless
  nothing was asked for, best first: an exact field match, then evidence without a conflict, without a
  quality block, with an observation time, then the most recent; every row matches the query, and all
  matches are there when they fit.
\<close>

theorem search_ranked_and_bounded:
  "sorted_wrt (row_le lower (map_option lower (eq_field q))) (search_matches lower show_json q c)
   \<and> set (search_matches lower show_json q c) = {d \<in> snd ` set (descriptors c). query_matches lower show_json q d}
   \<and> jget ''results'' (search lower show_json q c)
       = Some (JArr (map (search_row show_json) (take (search_limit q) (search_matches lower show_json q c))))
   \<and> 1 \<le> search_limit q \<and> search_limit q \<le> 50 \<and> search_limit q \<le> max 1 (eq_limit q)"
proof -
  have "sorted_wrt (row_le lower (map_option lower (eq_field q))) (search_matches lower show_json q c)"
    unfolding search_matches_def by (rule sorted_sort_by) (rule row_le_total, rule row_le_trans)
  moreover have "set (search_matches lower show_json q c) = {d \<in> snd ` set (descriptors c). query_matches lower show_json q d}"
    by (auto simp: search_matches_def)
  moreover have "jget ''results'' (search lower show_json q c)
       = Some (JArr (map (search_row show_json) (take (search_limit q) (search_matches lower show_json q c))))"
    by (simp add: search_def Let_def jobject_def btree.get_put)
  ultimately show ?thesis by (auto simp: search_limit_def MAX_SEARCH_RESULTS_def)
qed

end
