(* ===== verification/Report_Verify.thy ===== *)
theory Report_Verify
  imports Evidence_Catalog
begin

text \<open>
  The engine's deterministic report verifier, \<open>crates/engine/src/report_verification.rs\<close>: which
  figures a line asserts, which evidence it cites, and when the evidence supports them. The regular
  expressions (the masking pass over a line and the captures of the quantity pattern) belong to the
  \<open>regex\<close> crate and are parameters, as is the encoded size of a JSON value; parsing a decimal as an
  \<open>f64\<close> is written out. Main facts: a report that passes has every figure reproduced by evidence cited
  on its own line; and the facts the agent's catalog hands over for the cited identifiers
  give the same verdict as every result of the task.
\<close>

section \<open>Decimal numbers\<close>

definition ascii_lower :: "string \<Rightarrow> string" where
  "ascii_lower s = map (\<lambda>c. if 65 \<le> byte c \<and> byte c \<le> 90 then char_of (byte c + 32) else c) s"

definition digits_of :: "string \<Rightarrow> string \<times> string" where
  "digits_of s = (takeWhile is_ascii_digit s, dropWhile is_ascii_digit s)"

definition split_sign :: "string \<Rightarrow> bool \<times> string" where
  "split_sign s =
     (if starts_with s ''-'' then (True, drop 1 s) else if starts_with s ''+'' then (False, drop 1 s) else (False, s))"

definition parse_exponent :: "string \<Rightarrow> int option" where
  "parse_exponent s =
     (if s = [] then Some 0
      else if ascii_lower (take 1 s) \<noteq> ''e'' then None
      else (let (neg, r) = split_sign (drop 1 s); (ds, rest) = digits_of r
        in if ds = [] \<or> rest \<noteq> [] then None
           else Some (if neg then - int (read_digits ds) else int (read_digits ds))))"

text \<open>\<open>str::parse::<f64>\<close>: the double nearest to the decimal.\<close>

definition parse_f64 :: "string \<Rightarrow> f64 option" where
  "parse_f64 s =
     (let (neg, r) = split_sign s
      in if ascii_lower r = ''inf'' \<or> ascii_lower r = ''infinity'' then Some (FInf neg)
         else if ascii_lower r = ''nan'' then Some FNaN
         else (let (ip, r1) = digits_of r;
                   (fp, r2) = (if starts_with r1 ''.'' then digits_of (drop 1 r1) else ([], r1))
           in if ip = [] \<and> fp = [] then None
              else (case parse_exponent r2 of
                  None \<Rightarrow> None
                | Some e \<Rightarrow> Some (fround neg (read_digits (ip @ fp) * 10 ^ nat e) (10 ^ (length fp + nat (- e))) 0))))"

section \<open>Figures\<close>

record ReportNumeral =
  rn_raw :: string
  rn_value :: f64
  rn_unit :: "string option"

definition CJK_WAN :: string where "CJK_WAN = utf8 [19975]"
definition CJK_YI :: string where "CJK_YI = utf8 [20159]"
definition CITE_OPEN :: string where "CITE_OPEN = utf8 [12304] @ ''E:''"
definition CITE_CLOSE :: string where "CITE_CLOSE = utf8 [12305]"

definition approximately_equal :: "f64 \<Rightarrow> f64 \<Rightarrow> bool" where
  "approximately_equal l r =
     fle (fabs (fsub l r)) (fmax (flit 1 100000000) (fmul (fmax (fabs l) (fabs r)) (flit 1 1000000)))"

definition supported_by :: "ReportNumeral \<Rightarrow> f64 \<Rightarrow> bool" where
  "supported_by n v \<longleftrightarrow>
     approximately_equal v (rn_value n)
     \<or> rn_unit n = Some ''%'' \<and> approximately_equal v (fmul (rn_value n) (f64_of_nat 100))"

definition parse_claim_number :: "string \<Rightarrow> string option \<Rightarrow> f64 option" where
  "parse_claim_number number unit =
     map_option (\<lambda>v.
       if unit = Some CJK_WAN then fmul v (f64_of_nat 10000)
       else if unit = Some CJK_YI then fmul v (f64_of_nat 100000000)
       else if unit = Some (CJK_WAN @ CJK_YI) then fmul v (f64_of_nat 1000000000000)
       else if unit = Some ''%'' then fdiv v (f64_of_nat 100)
       else v) (parse_f64 (replace_char CHR '','' [] number))"

function strip_citation_tokens :: "string \<Rightarrow> string" where
  "strip_citation_tokens rest =
     (case split_once CITE_OPEN rest of
        None \<Rightarrow> rest
      | Some (before, after) \<Rightarrow>
          (case split_once CITE_CLOSE after of
             None \<Rightarrow> rest
           | Some (i, rest') \<Rightarrow> before @ '' '' @ strip_citation_tokens rest'))"
  by pat_completeness auto

lemma cite_marks_nonempty [simp]: "CITE_OPEN \<noteq> []" "CITE_CLOSE \<noteq> []"
  by (simp_all add: CITE_OPEN_def CITE_CLOSE_def utf8_def utf8_char_def)

termination strip_citation_tokens
proof (relation "measure length", simp, goal_cases)
  case (1 rest x before after y i rest')
  then have "length after < length rest" "length rest' < length after"
    by (auto dest: split_once_shorter)
  then show ?case by simp
qed

declare strip_citation_tokens.simps [simp del]

function citations :: "string \<Rightarrow> string list" where
  "citations rest =
     (case split_once CITE_OPEN rest of
        None \<Rightarrow> []
      | Some (before, after) \<Rightarrow>
          (case split_once CITE_CLOSE after of
             None \<Rightarrow> []
           | Some (i, rest') \<Rightarrow> (if trim i \<noteq> [] then [trim i] else []) @ citations rest'))"
  by pat_completeness auto
termination
proof (relation "measure length", simp, goal_cases)
  case (1 rest x before after y i rest')
  then have "length after < length rest" "length rest' < length after"
    by (auto dest: split_once_shorter)
  then show ?case by simp
qed

declare citations.simps [simp del]

definition CODE_PREFIXES :: "string list" where
  "CODE_PREFIXES = [''60'', ''68'', ''00'', ''30'', ''43'', ''83'', ''87'', ''88'']"

definition digit_char_group :: "string \<Rightarrow> bool" where
  "digit_char_group g \<longleftrightarrow> length g = 1 \<and> list_all is_ascii_digit g"

definition breaks_code :: "string option \<Rightarrow> bool" where
  "breaks_code g \<longleftrightarrow> (case g of Some g \<Rightarrow> digit_char_group g \<or> g = ''.'' | None \<Rightarrow> False)"

text \<open>\<open>mask_security_codes\<close> over the characters of the line; \<open>prev\<close> is the character before.\<close>

function mask_codes :: "string option \<Rightarrow> string list \<Rightarrow> string" where
  "mask_codes prev cs =
     (if length cs < 6 then concat cs
      else if list_all digit_char_group (take 6 cs) \<and> list_ex (starts_with (concat (take 6 cs))) CODE_PREFIXES
           \<and> \<not> breaks_code prev \<and> \<not> breaks_code (if 6 < length cs then Some (cs ! 6) else None)
      then replicate 6 CHR '' '' @ mask_codes (Some (cs ! 5)) (drop 6 cs)
      else hd cs @ mask_codes (Some (hd cs)) (tl cs))"
  by pat_completeness auto
termination
  by (relation "measure (\<lambda>(_, cs). length cs)") auto

declare mask_codes.simps [simp del]

definition identifier_byte :: "char \<Rightarrow> bool" where
  "identifier_byte c \<longleftrightarrow> is_ascii_alphabetic c \<or> c = CHR ''_''"

definition identifier_adjacent :: "string \<Rightarrow> nat \<Rightarrow> nat \<Rightarrow> bool" where
  "identifier_adjacent t start stop \<longleftrightarrow>
     (take start t \<noteq> [] \<and> identifier_byte (last (take start t)))
     \<or> (drop stop t \<noteq> [] \<and> identifier_byte (hd (drop stop t)))"

definition negative_sign_before :: "string \<Rightarrow> nat \<Rightarrow> bool" where
  "negative_sign_before t start =
     (let before = take start t;
          rest = (if ends_with before ''-'' then Some (butlast before)
                  else if ends_with before (utf8 [8722]) then Some (take (length before - 3) before) else None)
      in case rest of
           None \<Rightarrow> False
         | Some r \<Rightarrow> r = [] \<or> (\<not> is_ascii_digit (last r) \<and> last r \<noteq> CHR ''.''))"

text \<open>
  \<open>mask\<close> is the loop over the masking patterns and \<open>captures\<close> the matches of the quantity pattern:
  start, end, number and unit.
\<close>

record patterns =
  mask :: "string \<Rightarrow> string"
  captures :: "string \<Rightarrow> (nat \<times> nat \<times> string \<times> string option) list"

definition claim_of :: "string \<Rightarrow> nat \<times> nat \<times> string \<times> string option \<Rightarrow> ReportNumeral option" where
  "claim_of claim_text m =
     (let (start, stop, number, unit) = m
      in if identifier_adjacent claim_text start stop then None
         else map_option (\<lambda>v. \<lparr>rn_raw = number,
             rn_value = (if negative_sign_before claim_text start then fneg v else v), rn_unit = unit\<rparr>)
           (parse_claim_number number unit))"

definition financial_numerals :: "patterns \<Rightarrow> string \<Rightarrow> ReportNumeral list" where
  "financial_numerals rx line =
     (let claim_text = mask_codes None (chars (mask rx (strip_citation_tokens line)))
      in List.map_filter (claim_of claim_text) (captures rx claim_text))"

section \<open>The verifier's registry\<close>

text \<open>Both decoders read the same seven fields; this one refuses unknown fields and defaults nothing but options.\<close>

type_synonym EvidenceFact = RawFact

fun decode_strict :: "json \<Rightarrow> EvidenceFact option" where
  "decode_strict (JObj fs) =
     (if fst ` set fs \<subseteq> set fact_keys \<and> map_of fs ''quality_blocking'' \<noteq> None
      then raw_fact_of (\<lambda>i. map_of fs (fact_keys ! i)) else None)"
| "decode_strict (JArr xs) = (if length xs = length fact_keys then raw_fact_of (\<lambda>i. Some (xs ! i)) else None)"
| "decode_strict _ = None"

record registry =
  rg_facts :: "(string \<times> EvidenceFact) list"
  rg_conflicts :: "string list"

definition registry_empty :: registry where
  "registry_empty = \<lparr>rg_facts = [], rg_conflicts = []\<rparr>"

definition registry_fact :: "EvidenceFact \<Rightarrow> registry \<Rightarrow> registry" where
  "registry_fact f r =
     (if \<not> admitted f then r\<lparr>rg_conflicts := List.insert (rf_id f) (rg_conflicts r)\<rparr>
      else
        (case map_of (rg_facts r) (rf_id f) of
           Some existing \<Rightarrow>
             (if materially_disagrees existing f then r\<lparr>rg_conflicts := List.insert (rf_id f) (rg_conflicts r)\<rparr>
              else if later (rf_observed_at f) (rf_observed_at existing)
              then r\<lparr>rg_facts := btree_insert (rf_id f) f (rg_facts r)\<rparr>
              else r)
         | None \<Rightarrow> r\<lparr>rg_facts := btree_insert (rf_id f) f (rg_facts r)\<rparr>))"

definition collect_registries :: "json \<Rightarrow> registry" where
  "collect_registries context = fold registry_fact (List.map_filter decode_strict (registries context)) registry_empty"

section \<open>Support\<close>

fun split_digits :: "string \<Rightarrow> string list \<Rightarrow> string list" where
  "split_digits cur [] = [cur]"
| "split_digits cur (g # gs) = (if digit_char_group g then split_digits (cur @ g) gs else cur # split_digits [] gs)"

definition contract_segments :: "string list" where
  "contract_segments = [''date'', ''time'', ''published_at'', ''observed_at'', ''retrieved_at'', ''investment_horizon'']"

definition text_supports :: "string \<Rightarrow> string \<Rightarrow> ReportNumeral \<Rightarrow> bool" where
  "text_supports path v n =
     (let nv = replace_char CHR '','' [] v; nr = replace_char CHR '','' [] (rn_raw n)
      in case parse_f64 nv of
           Some x \<Rightarrow> approximately_equal x (rn_value n)
             \<or> rn_unit n = Some ''%'' \<and> approximately_equal x (fmul (rn_value n) (f64_of_nat 100))
         | None \<Rightarrow>
             (if rn_unit n \<noteq> None then False
              else nv = nr
                \<or> list_ex (contains (ascii_lower path)) contract_segments \<and> nr \<in> set (split_digits [] (chars nv))))"

definition fact_supports_numeral :: "EvidenceFact \<Rightarrow> ReportNumeral \<Rightarrow> bool" where
  "fact_supports_numeral f n \<longleftrightarrow>
     (case as_f64 (rf_value f) of Some x \<Rightarrow> supported_by n x | None \<Rightarrow> False)
     \<or> (case as_str (rf_value f) of Some v \<Rightarrow> text_supports (rf_path f) v n | None \<Rightarrow> False)"

section \<open>The verdict\<close>

definition MAX_REPORT_CHARS :: nat where "MAX_REPORT_CHARS = 120000"
definition MAX_CONTEXT_BYTES :: nat where "MAX_CONTEXT_BYTES = 6 * 1024 * 1024"

record TaskSpec =
  ts_objective :: string
  ts_security_universe :: "string list"
  ts_as_of :: string
  ts_research_start :: string
  ts_research_end :: string
  ts_investment_horizon :: string
  ts_comparison_benchmark :: string
  ts_output_type :: string
  ts_evidence_requirement :: string

definition task_spec_json :: "TaskSpec \<Rightarrow> json" where
  "task_spec_json t =
     jobject [(''objective'', JStr (ts_objective t)), (''security_universe'', JArr (map JStr (ts_security_universe t))),
       (''as_of'', JStr (ts_as_of t)), (''research_start'', JStr (ts_research_start t)),
       (''research_end'', JStr (ts_research_end t)), (''investment_horizon'', JStr (ts_investment_horizon t)),
       (''comparison_benchmark'', JStr (ts_comparison_benchmark t)), (''output_type'', JStr (ts_output_type t)),
       (''evidence_requirement'', JStr (ts_evidence_requirement t))]"

datatype verify_error = ReportEmptyOrTooLong | ContextTooLarge | ContractMismatch

definition blank :: "string option \<Rightarrow> bool" where
  "blank t \<longleftrightarrow> (case t of None \<Rightarrow> True | Some s \<Rightarrow> trim s = [])"

definition is_derived_calculation :: "EvidenceFact \<Rightarrow> bool" where
  "is_derived_calculation f \<longleftrightarrow> rf_source f = ''astock-compute''"

definition citation_findings :: "registry \<Rightarrow> string \<Rightarrow> string list" where
  "citation_findings r i =
     (if i \<in> set (rg_conflicts r) then [''invalid_or_conflicting_evidence_id:'' @ i]
      else case map_of (rg_facts r) i of
          None \<Rightarrow> [''unknown_evidence_id:'' @ i]
        | Some f \<Rightarrow>
            if rf_quality_blocking f then [''quality_blocking_evidence:'' @ i]
            else if is_derived_calculation f then []
            else if blank (rf_observed_at f) then [''evidence_time_missing:'' @ i]
            else if blank (rf_source_version_id f) then [''evidence_version_missing:'' @ i]
            else if trim (rf_source f) = [] then [''evidence_source_missing:'' @ i]
            else [])"

definition supported_on :: "registry \<Rightarrow> string list \<Rightarrow> ReportNumeral \<Rightarrow> bool" where
  "supported_on r ids n \<longleftrightarrow>
     list_ex (\<lambda>i. case map_of (rg_facts r) i of Some f \<Rightarrow> fact_supports_numeral f n | None \<Rightarrow> False) ids"

definition figure_findings :: "registry \<Rightarrow> nat \<Rightarrow> string list \<Rightarrow> ReportNumeral list \<Rightarrow> string list" where
  "figure_findings r number ids claims =
     (if claims = [] then []
      else if ids = [] then [''numeric_claim_without_evidence:line_'' @ show_nat number]
      else List.map_filter (\<lambda>n. if supported_on r ids n then None
             else Some (''numeric_claim_not_reproduced:line_'' @ show_nat number @ '':''
               @ (if flt (rn_value n) fzero then ''-'' else []) @ rn_raw n)) claims)"

definition line_findings :: "patterns \<Rightarrow> registry \<Rightarrow> nat \<Rightarrow> string \<Rightarrow> string list" where
  "line_findings rx r index line =
     concat (map (citation_findings r) (citations line))
     @ figure_findings r (index + 1) (citations line) (financial_numerals rx line)"

definition report_citations :: "string \<Rightarrow> string list" where
  "report_citations report = concat (map citations (text_lines (trim report)))"

definition report_claims :: "patterns \<Rightarrow> string \<Rightarrow> ReportNumeral list" where
  "report_claims rx report = concat (map (financial_numerals rx) (text_lines (trim report)))"

definition minimum_citations :: "TaskSpec \<Rightarrow> nat" where
  "minimum_citations t = (if ts_evidence_requirement t = ''standard'' then 4 else 8)"

text \<open>The set of findings, as the sorted list a \<open>BTreeSet\<close> iterates over.\<close>

definition findings :: "patterns \<Rightarrow> registry \<Rightarrow> string \<Rightarrow> TaskSpec \<Rightarrow> string list" where
  "findings rx r report t =
     (let cited = length (remdups (report_citations report))
      in dedup (sort (
           concat (map (\<lambda>(index, line). line_findings rx r index line) (enumerate 0 (text_lines (trim report))))
           @ (if cited < minimum_citations t
              then [''insufficient_distinct_evidence:'' @ show_nat cited @ ''<'' @ show_nat (minimum_citations t)] else [])
           @ (if length (report_claims rx report) = 0 then [''report_contains_no_verifiable_numeric_claims''] else []))))"

definition verify ::
  "patterns \<Rightarrow> (json \<Rightarrow> nat) \<Rightarrow> string \<Rightarrow> json \<Rightarrow> TaskSpec \<Rightarrow> (json, verify_error) result" where
  "verify rx json_len report context t =
     (if trim report = [] \<or> MAX_REPORT_CHARS < char_count (trim report) then Inl ReportEmptyOrTooLong
      else if MAX_CONTEXT_BYTES < json_len context then Inl ContextTooLarge
      else if (case jget ''task_spec'' context of Some v \<Rightarrow> \<not> json_eq v (task_spec_json t) | None \<Rightarrow> True)
      then Inl ContractMismatch
      else
        (let r = collect_registries context; fs = findings rx r report t
         in Inr (jobject [(''passed'', JBool (fs = [])), (''findings'', JArr (map JStr fs)),
              (''distinct_citations'', JInt (int (length (remdups (report_citations report))))),
              (''numeric_claims_checked'', JInt (int (length (report_claims rx report)))),
              (''registry_facts'', JInt (int (length (rg_facts r)))),
              (''verification_version'', JStr ''engine-report-verifier-v1'')])))"

section \<open>What passing means\<close>

lemma findings_Nil:
  "findings rx r report t = [] \<longleftrightarrow>
     (\<forall>(index, line) \<in> set (enumerate 0 (text_lines (trim report))). line_findings rx r index line = [])
     \<and> minimum_citations t \<le> length (remdups (report_citations report))
     \<and> report_claims rx report \<noteq> []"
proof -
  have "dedup (sort xs) = [] \<longleftrightarrow> xs = []" for xs :: "string list"
    using set_dedup [of "sort xs"] by (metis set_empty set_sort)
  then show ?thesis unfolding findings_def Let_def by auto
qed

lemma line_findings_Nil:
  "line_findings rx r index line = [] \<longleftrightarrow>
     (\<forall>i \<in> set (citations line). citation_findings r i = [])
     \<and> (\<forall>n \<in> set (financial_numerals rx line). supported_on r (citations line) n)"
  by (auto simp: line_findings_def figure_findings_def supported_on_def map_filter_def filter_empty_conv)

definition sound_evidence :: "registry \<Rightarrow> string \<Rightarrow> bool" where
  "sound_evidence r i \<longleftrightarrow>
     i \<notin> set (rg_conflicts r)
     \<and> (case map_of (rg_facts r) i of
          None \<Rightarrow> False
        | Some f \<Rightarrow> \<not> rf_quality_blocking f
            \<and> (is_derived_calculation f
               \<or> \<not> blank (rf_observed_at f) \<and> \<not> blank (rf_source_version_id f) \<and> trim (rf_source f) \<noteq> []))"

lemma citation_findings_Nil: "citation_findings r i = [] \<longleftrightarrow> sound_evidence r i"
  by (auto simp: citation_findings_def sound_evidence_def split: option.split)

lemma findings_none_iff:
  "findings rx r report t = [] \<longleftrightarrow>
      (\<forall>line \<in> set (text_lines (trim report)).
         (\<forall>i \<in> set (citations line). sound_evidence r i)
         \<and> (\<forall>n \<in> set (financial_numerals rx line). \<exists>i \<in> set (citations line). \<exists>f.
              map_of (rg_facts r) i = Some f \<and> fact_supports_numeral f n))
      \<and> minimum_citations t \<le> card (set (report_citations report))
      \<and> (\<exists>line \<in> set (text_lines (trim report)). financial_numerals rx line \<noteq> [])"
proof -
  let ?ls = "text_lines (trim report)"
  have lines: "(\<forall>(index, line) \<in> set (enumerate 0 ?ls). P line) \<longleftrightarrow> (\<forall>line \<in> set ?ls. P line)" for P
  proof -
    have "snd ` set (enumerate 0 ?ls) = set ?ls" by (metis map_snd_enumerate set_map)
    then show ?thesis by (metis (mono_tags, lifting) case_prod_beta image_iff)
  qed
  have "length (remdups (report_citations report)) = card (set (report_citations report))"
    by (metis List.card_set)
  moreover have "supported_on r ids n \<longleftrightarrow>
      (\<exists>i \<in> set ids. \<exists>f. map_of (rg_facts r) i = Some f \<and> fact_supports_numeral f n)" for ids n
    by (auto simp: supported_on_def list_ex_iff split: option.splits)
  moreover have "report_claims rx report \<noteq> [] \<longleftrightarrow> (\<exists>line \<in> set ?ls. financial_numerals rx line \<noteq> [])"
    by (simp add: report_claims_def)
  ultimately show ?thesis
    unfolding findings_Nil line_findings_Nil citation_findings_Nil lines by simp
qed

lemma verdict_passed:
  "verify rx json_len report context t = Inr verdict \<Longrightarrow>
    jget ''passed'' verdict = Some (JBool (findings rx (collect_registries context) report t = []))"
  by (auto simp: verify_def Let_def jobject_def btree.get_put split: if_splits)

text \<open>
  C7: A report passes exactly when every identifier cited on a line is registered, undisputed, not
  blocked and dated, versioned and sourced unless it is a calculation; every figure a line asserts is
  supported by a fact cited on that same line; there are enough distinct citations and there is
  at least one figure.
\<close>

theorem verify_passes_iff:
  assumes "verify rx json_len report context t = Inr verdict"
  shows "jget ''passed'' verdict = Some (JBool True) \<longleftrightarrow>
      (\<forall>line \<in> set (text_lines (trim report)).
         (\<forall>i \<in> set (citations line). sound_evidence (collect_registries context) i)
         \<and> (\<forall>n \<in> set (financial_numerals rx line). \<exists>i \<in> set (citations line). \<exists>f.
              map_of (rg_facts (collect_registries context)) i = Some f \<and> fact_supports_numeral f n))
      \<and> minimum_citations t \<le> card (set (report_citations report))
      \<and> (\<exists>line \<in> set (text_lines (trim report)). financial_numerals rx line \<noteq> [])"
  unfolding verdict_passed [OF assms] findings_none_iff [symmetric] by simp

definition sample_spec :: TaskSpec where
  "sample_spec =
     \<lparr>ts_objective = ''o'', ts_security_universe = [''600000''], ts_as_of = ''a'', ts_research_start = ''b'',
      ts_research_end = ''c'', ts_investment_horizon = ''h'', ts_comparison_benchmark = ''x'', ts_output_type = ''y'',
      ts_evidence_requirement = ''standard''\<rparr>"

lemma task_spec_json_refl [simp]: "json_eq (task_spec_json t) (task_spec_json t)"
  by (rule json_eq_refl) (simp add: task_spec_json_def jobject_def list_all_iff)

lemma verify_passes_iff_witness:
  "\<exists>verdict. verify \<lparr>mask = id, captures = \<lambda>_. []\<rparr> (\<lambda>_. 0) ''ok'' (JObj [(''task_spec'', task_spec_json sample_spec)])
       sample_spec = Inr verdict
     \<and> jget ''passed'' verdict \<noteq> Some (JBool True)"
proof -
  let ?t = sample_spec
  let ?rx = "\<lparr>mask = id, captures = \<lambda>_. []\<rparr> :: patterns"
  let ?ctx = "JObj [(''task_spec'', task_spec_json ?t)]"
  have "trim ''ok'' = ''ok''" by (rule trim_literal) (simp_all add: whitespace_literal starts_with_def ends_with_def)
  moreover have "char_count ''ok'' = 2" by (simp add: char_count_def byte_def)
  ultimately have "\<exists>verdict. verify ?rx (\<lambda>_. 0) ''ok'' ?ctx ?t = Inr verdict"
    by (simp add: verify_def Let_def MAX_REPORT_CHARS_def)
  then obtain verdict where v: "verify ?rx (\<lambda>_. 0) ''ok'' ?ctx ?t = Inr verdict" by blast
  have "financial_numerals ?rx line = []" for line by (simp add: financial_numerals_def map_filter_def)
  then have "jget ''passed'' verdict \<noteq> Some (JBool True)" unfolding verify_passes_iff [OF v] by simp
  with v show ?thesis by blast
qed

section \<open>The verifier's registry is the register without the variants\<close>

type_synonym flags = "string \<Rightarrow> (EvidenceFact \<times> bool) option"

definition flag_fact :: "EvidenceFact \<Rightarrow> flags \<Rightarrow> flags" where
  "flag_fact f m =
     (if \<not> admitted f then m
      else case m (rf_id f) of
        None \<Rightarrow> m(rf_id f \<mapsto> (f, False))
      | Some (e, b) \<Rightarrow>
          if materially_disagrees e f then m(rf_id f \<mapsto> (e, True))
          else if later (rf_observed_at f) (rf_observed_at e) then m(rf_id f \<mapsto> (f, b))
          else m)"

definition coarse :: "register \<Rightarrow> flags" where
  "coarse m = (\<lambda>i. map_option (\<lambda>(f, v). (f, v \<noteq> None)) (m i))"

lemma coarse_register: "coarse (register_fact f m) = flag_fact f (coarse m)"
  by (auto simp: coarse_def register_fact_def flag_fact_def or_else_def fun_eq_iff split: option.splits)

lemma coarse_fold: "coarse (fold register_fact fs m) = fold flag_fact fs (coarse m)"
  by (induction fs arbitrary: m) (simp_all add: coarse_register)

definition registry_view :: "registry \<Rightarrow> flags" where
  "registry_view r = (\<lambda>i. map_option (\<lambda>f. (f, i \<in> set (rg_conflicts r))) (map_of (rg_facts r) i))"

definition registry_ok :: "registry \<Rightarrow> bool" where
  "registry_ok r \<longleftrightarrow>
     (\<forall>i f. map_of (rg_facts r) i = Some f \<longrightarrow> rf_id f = i \<and> admitted f)
     \<and> (\<forall>i \<in> set (rg_conflicts r). map_of (rg_facts r) i \<noteq> None \<or> \<not> (starts_with i ''evf_'' \<and> length i \<le> 80))"

lemma registry_fact_ok: "registry_ok r \<Longrightarrow> registry_ok (registry_fact f r)"
proof -
  assume ok: "registry_ok r"
  show ?thesis
  proof (cases "admitted f")
    case True
    then show ?thesis using ok
      by (cases "map_of (rg_facts r) (rf_id f)") (auto simp: registry_ok_def registry_fact_def btree.get_put)
  qed (use ok in \<open>auto simp: registry_ok_def registry_fact_def admitted_def\<close>)
qed

lemma admitted_id: "rf_id e = rf_id f \<Longrightarrow> admitted e = admitted f"
  by (simp add: admitted_def)

interpretation verifier: register_store registry_fact flag_fact registry_view registry_ok "\<lambda>_. False"
proof unfold_locales
  fix f and r :: registry
  show "registry_ok r \<Longrightarrow> registry_ok (registry_fact f r)" by (rule registry_fact_ok)
  assume ok: "registry_ok r"
  show "registry_view (registry_fact f r) = flag_fact f (registry_view r)"
  proof (cases "admitted f")
    case False
    then have "map_of (rg_facts r) (rf_id f) = None"
      using ok admitted_id unfolding registry_ok_def by (metis option.exhaust)
    then have "registry_view (registry_fact f r) i = registry_view r i" for i
      using False by (cases "i = rf_id f") (simp_all add: registry_view_def registry_fact_def)
    then show ?thesis using False by (auto simp: flag_fact_def)
  next
    case True
    show ?thesis
    proof (cases "map_of (rg_facts r) (rf_id f)")
      case None
      then have "rf_id f \<notin> set (rg_conflicts r)" using ok True by (auto simp: registry_ok_def admitted_def)
      then show ?thesis using None True
        by (auto simp: registry_view_def registry_fact_def flag_fact_def fun_eq_iff btree.get_put)
    next
      case (Some e)
      then show ?thesis using True
        by (auto simp: registry_view_def registry_fact_def flag_fact_def fun_eq_iff btree.get_put)
    qed
  qed
qed simp

lemma collect_registries_view:
  "registry_view (collect_registries context) = coarse (registered (List.map_filter decode_strict (registries context)))"
proof -
  have "registry_ok registry_empty" by (simp add: registry_ok_def registry_empty_def)
  moreover have "registry_view registry_empty = coarse Map.empty"
    by (simp add: registry_view_def registry_empty_def coarse_def)
  ultimately show ?thesis
    using verifier.fold_abstract [of registry_empty] by (simp add: collect_registries_def registered_def coarse_fold)
qed

lemma collect_registries_ok: "registry_ok (collect_registries context)"
  unfolding collect_registries_def by (rule verifier.fold_intact) (simp add: registry_ok_def registry_empty_def)

lemma conflicts_admitted:
  "list_all admitted fs \<Longrightarrow> i \<in> set (rg_conflicts (fold registry_fact fs r)) \<Longrightarrow>
    i \<in> set (rg_conflicts r) \<or> (\<exists>f \<in> set fs. rf_id f = i)"
proof (induction fs arbitrary: r)
  case (Cons f fs)
  then have "i \<in> set (rg_conflicts (registry_fact f r)) \<or> (\<exists>f \<in> set fs. rf_id f = i)" by simp
  then show ?case by (auto simp: registry_fact_def split: if_splits option.splits)
qed simp

section \<open>The cited facts decide as all facts do\<close>

text \<open>What the agent sends: the registered form of the facts, next to the task.\<close>

fun option_json :: "string option \<Rightarrow> json" where
  "option_json None = JNull"
| "option_json (Some t) = JStr t"

definition encode_fact :: "RawFact \<Rightarrow> json" where
  "encode_fact f =
     jobject [(''evidence_id'', JStr (rf_id f)), (''path'', JStr (rf_path f)), (''value'', rf_value f),
       (''source'', JStr (rf_source f)), (''observed_at'', option_json (rf_observed_at f)),
       (''source_version_id'', option_json (rf_source_version_id f)), (''quality_blocking'', JBool (rf_quality_blocking f))]"

definition verification_context :: "TaskSpec \<Rightarrow> RawFact list \<Rightarrow> json" where
  "verification_context t facts =
     jobject [(''task_spec'', task_spec_json t),
       (''evidence_registry'', jobject [(''facts'', JArr (map encode_fact facts))])]"

text \<open>The context that carries every result of the task.\<close>

definition whole_context :: "TaskSpec \<Rightarrow> json list \<Rightarrow> json" where
  "whole_context t results = jobject [(''task_spec'', task_spec_json t), (''tool_results'', JArr results)]"

lemma optional_text_json [simp]: "optional_text (Some (option_json t)) = Some t"
  by (cases t) simp_all

lemma decode_encode [simp]: "decode_strict (encode_fact f) = Some f"
  by (simp add: encode_fact_def jobject_def fact_keys_def raw_fact_of_def)

lemma registries_strings: "concat (map registries (map JStr ss)) = []"
  by (induction ss) (simp_all add: registries.simps)

lemma registries_task_spec [simp]: "registries (task_spec_json t) = []"
  using registries_strings [of "ts_security_universe t"]
  by (simp add: task_spec_json_def jobject_def registries.simps registry_rows_def del: map_map)

lemma registries_verification: "registries (verification_context t facts) = map encode_fact facts"
  by (simp add: verification_context_def jobject_def registries.simps registry_rows_def)

lemma registries_whole: "registries (whole_context t results) = concat (map registries results)"
  by (simp add: whole_context_def jobject_def registries.simps registry_rows_def)

lemma map_filter_encode: "List.map_filter decode_strict (map encode_fact facts) = facts"
  by (induction facts) (simp_all add: map_filter_simps)

lemma of_id_concat:
  assumes "distinct is" "i \<in> set is" "\<And>j. list_all (\<lambda>f. admitted f \<and> rf_id f = j) (h j)"
  shows "of_id i (concat (map h is)) = h i"
  using assms(1,2)
proof (induction "is")
  case (Cons j js)
  have own: "of_id i (h j) = (if i = j then h j else [])"
    using assms(3) [of j] by (auto simp: of_id_def list_all_iff filter_empty_conv filter_id_conv)
  have app: "of_id i (xs @ ys) = of_id i xs @ of_id i ys" for xs ys by (simp add: of_id_def)
  have none: "i \<notin> set js \<Longrightarrow> of_id i (concat (map h js)) = []"
    using assms(3) by (fastforce simp: of_id_def list_all_iff filter_empty_conv)
  show ?case using Cons none by (auto simp: app own)
qed simp

lemma registered_facts:
  assumes "list_all fact_ok fs" "registered fs i = Some (f, v)"
  shows "f \<in> set (of_id i fs) \<and> (\<forall>w. v = Some w \<longrightarrow> w \<in> set (of_id i fs) \<and> materially_disagrees f w)"
proof (cases "of_id i fs")
  case Nil
  then show ?thesis using registered_spec [OF assms(1), of i] assms(2) by simp
next
  case (Cons e es)
  then have v: "v = find (materially_disagrees e) es" "f \<in> set (e # es)" "\<not> materially_disagrees e f"
    using registered_spec [OF assms(1), of i] assms(2) by auto
  have ok: "fact_ok a" if "a \<in> set (e # es)" for a
    using that Cons assms(1) by (metis filter_is_subset list_all_iff of_id_def subsetD)
  have "materially_disagrees f w \<and> w \<in> set es" if "v = Some w" for w
  proof -
    have w: "w \<in> set es" "materially_disagrees e w" using that v(1) by (auto simp: find_Some_iff)
    then have "materially_disagrees f w" using agrees_trans [of e f w] v ok by auto
    with w show ?thesis by simp
  qed
  then show ?thesis using v(2) Cons by auto
qed

text \<open>What the catalog hands over for one identifier.\<close>

definition held :: "EvidenceCatalog \<Rightarrow> string \<Rightarrow> RawFact list" where
  "held c j = (case map_of (raw c) j of Some f \<Rightarrow> [f] | None \<Rightarrow> [])
     @ (case map_of (conflicting_variants c) j of Some f \<Rightarrow> [f] | None \<Rightarrow> [])"

lemma verifier_facts_held: "verifier_facts cited c = concat (map (held c) cited)"
  unfolding verifier_facts_def held_def by (rule refl)

lemma held_registered:
  assumes "list_all fact_ok fs" "catalog_ok c" "catalog_view c = registered fs"
  shows "set (held c j) \<subseteq> set (of_id j fs)"
    and "registered fs j = map_option (\<lambda>f. (f, map_of (conflicting_variants c) j)) (map_of (raw c) j)"
    and "map_of (raw c) j = None \<Longrightarrow> held c j = []"
proof -
  show view: "registered fs j = map_option (\<lambda>f. (f, map_of (conflicting_variants c) j)) (map_of (raw c) j)"
    using assms(3) by (simp add: catalog_view_def fun_eq_iff)
  have entry: "entry_ok j (map_of (raw c) j) (map_of (descriptors c) j) (map_of (conflicting_variants c) j)"
    using assms(2) by (simp add: catalog_ok_def)
  then show "map_of (raw c) j = None \<Longrightarrow> held c j = []" by (simp add: held_def)
  show "set (held c j) \<subseteq> set (of_id j fs)"
  proof (cases "map_of (raw c) j")
    case None
    then show ?thesis using entry by (simp add: held_def)
  next
    case (Some f)
    then show ?thesis using registered_facts [OF assms(1), of j f "map_of (conflicting_variants c) j"] view
      by (auto simp: held_def split: option.splits)
  qed
qed

lemma held_admitted:
  assumes "list_all fact_ok fs" "catalog_ok c" "catalog_view c = registered fs"
  shows "set (verifier_facts cited c) \<subseteq> set fs" "list_all admitted (verifier_facts cited c)"
  using held_registered(1) [OF assms] by (fastforce simp: verifier_facts_held of_id_def list_all_iff)+

lemma projected_register:
  assumes "list_all fact_ok fs" "catalog_ok c" "catalog_view c = registered fs" "distinct cited" "i \<in> set cited"
  shows "registered (verifier_facts cited c) i = registered fs i"
proof -
  note view = held_registered(2) [OF assms(1-3)] and mem = held_registered(1) [OF assms(1-3)]
  have own: "list_all (\<lambda>f. admitted f \<and> rf_id f = j) (held c j)" for j
    using mem [of j] by (auto simp: list_all_iff of_id_def)
  have ids: "of_id i (verifier_facts cited c) = held c i"
    unfolding verifier_facts_held by (rule of_id_concat [OF assms(4,5) own])
  have ok: "list_all fact_ok (verifier_facts cited c)"
    using held_admitted(1) [OF assms(1-3), of cited] assms(1) by (auto simp: list_all_iff)
  show ?thesis
  proof (cases "map_of (raw c) i")
    case None
    then have "held c i = []" by (rule held_registered(3) [OF assms(1-3)])
    then show ?thesis using registered_None [OF ok, of i] ids None view [of i] by simp
  next
    case (Some f)
    show ?thesis
    proof (cases "map_of (conflicting_variants c) i")
      case None
      then have "held c i = [f]" using Some by (simp add: held_def)
      then show ?thesis using registered_spec [OF ok, of i] ids Some None view [of i] by simp
    next
      case (Some w)
      then have "held c i = [f, w]" using \<open>map_of (raw c) i = Some f\<close> by (simp add: held_def)
      moreover have "materially_disagrees f w"
        using registered_facts [OF assms(1), of i f "Some w"] view [of i] Some \<open>map_of (raw c) i = Some f\<close> by simp
      ultimately show ?thesis
        using registered_spec [OF ok, of i] ids Some \<open>map_of (raw c) i = Some f\<close> view [of i] by auto
    qed
  qed
qed

lemma findings_cong:
  assumes "\<And>i. i \<in> set (report_citations report) \<Longrightarrow> map_of (rg_facts r) i = map_of (rg_facts r') i
      \<and> (i \<in> set (rg_conflicts r) \<longleftrightarrow> i \<in> set (rg_conflicts r'))"
  shows "findings rx r report t = findings rx r' report t"
proof -
  have "line_findings rx r k line = line_findings rx r' k line" if "line \<in> set (text_lines (trim report))" for k line
  proof -
    have eq: "map_of (rg_facts r) i = map_of (rg_facts r') i \<and> (i \<in> set (rg_conflicts r) \<longleftrightarrow> i \<in> set (rg_conflicts r'))"
      if "i \<in> set (citations line)" for i
      using assms that \<open>line \<in> _\<close> by (auto simp: report_citations_def)
    have "map (citation_findings r) (citations line) = map (citation_findings r') (citations line)"
      using eq by (simp add: citation_findings_def)
    moreover have "supported_on r (citations line) n = supported_on r' (citations line) n" for n
      using eq by (simp add: supported_on_def list_ex_iff)
    ultimately show ?thesis unfolding line_findings_def figure_findings_def by (simp only:)
  qed
  moreover have "snd x \<in> set (text_lines (trim report))" if "x \<in> set (enumerate 0 (text_lines (trim report)))" for x
    using that by (metis imageI map_snd_enumerate set_map)
  ultimately have "map (\<lambda>(index, line). line_findings rx r index line) (enumerate 0 (text_lines (trim report)))
      = map (\<lambda>(index, line). line_findings rx r' index line) (enumerate 0 (text_lines (trim report)))"
    by (intro map_cong) (auto simp: case_prod_beta)
  then show ?thesis unfolding findings_def by (simp only:)
qed

text \<open>The register behind a context whose rows all decode to admissible facts.\<close>

lemma registry_lookup:
  assumes "List.map_filter decode_strict (registries context) = fs" "list_all admitted fs"
  shows "map_of (rg_facts (collect_registries context)) i = map_option fst (registered fs i)"
    and "i \<in> set (rg_conflicts (collect_registries context)) \<longleftrightarrow> (\<exists>f v. registered fs i = Some (f, Some v))"
proof -
  let ?r = "collect_registries context"
  have view: "registry_view ?r i = coarse (registered fs) i" using collect_registries_view assms(1) by metis
  then show look: "map_of (rg_facts ?r) i = map_option fst (registered fs i)"
    by (cases "registered fs i"; cases "map_of (rg_facts ?r) i") (auto simp: registry_view_def coarse_def)
  have known: "map_of (rg_facts ?r) i \<noteq> None" if i: "i \<in> set (rg_conflicts ?r)"
  proof -
    have "i \<in> set (rg_conflicts (fold registry_fact fs registry_empty))"
      using i assms(1) by (simp add: collect_registries_def)
    then obtain f where "f \<in> set fs" "rf_id f = i"
      using conflicts_admitted [OF assms(2), of i registry_empty] by (auto simp: registry_empty_def)
    then have "starts_with i ''evf_'' \<and> length i \<le> 80" using assms(2) by (auto simp: list_all_iff admitted_def)
    then show ?thesis using i collect_registries_ok [of "context"] by (auto simp: registry_ok_def)
  qed
  show "i \<in> set (rg_conflicts ?r) \<longleftrightarrow> (\<exists>f v. registered fs i = Some (f, Some v))"
  proof (cases "map_of (rg_facts ?r) i")
    case None
    then show ?thesis using known look by auto
  next
    case (Some f)
    then have "registry_view ?r i = Some (f, i \<in> set (rg_conflicts ?r))" by (simp add: registry_view_def)
    then show ?thesis using view by (auto simp: coarse_def)
  qed
qed

text \<open>
  C16: Handing the verifier only the registered facts of the cited identifiers gives the verdict that
  handing it every tool result gives: the same findings, hence the same decision. It holds when
  nothing was dropped from the catalog, the rows are the engine's own (their strict decoding
  is the lenient one) with admissible identifiers, and every identifier cited in the report is among
  the ones handed over.
\<close>

theorem projection_decides_alike:
  assumes "verify rx json_len report (whole_context t (map fst rs)) t = Inr whole"
    and "verify rx json_len report
           (verification_context t (verifier_facts cited (ingest_all rs catalog_empty))) t = Inr projected"
    and "dropped (ingest_all rs catalog_empty) = 0"
    and "\<forall>r \<in> set rs. \<forall>row \<in> set (registries (fst r)). decode_strict row = decode_fact row"
    and "list_all (\<lambda>f. fact_ok f \<and> admitted f) (all_facts rs)"
    and "distinct cited" "set (report_citations report) \<subseteq> set cited"
  shows "jget ''findings'' projected = jget ''findings'' whole \<and> jget ''passed'' projected = jget ''passed'' whole"
proof -
  let ?c = "ingest_all rs catalog_empty" and ?fs = "all_facts rs"
  let ?p = "verifier_facts cited ?c"
  have ok: "list_all fact_ok ?fs" "list_all admitted ?fs" using assms(5) by (auto simp: list_all_iff)
  have view: "catalog_view ?c = registered ?fs" by (rule ingest_all_registered [OF assms(3)])
  have cat: "catalog_ok ?c" by (rule ingest_all_ok) simp
  have fs: "List.map_filter decode_strict (registries (whole_context t (map fst rs))) = ?fs"
    using assms(4)
    by (induction rs) (auto simp: registries_whole all_facts_def collect_facts_def map_filter_def case_prod_beta
        intro!: arg_cong2 [where f = "(@)"] map_cong filter_cong)
  have ps: "List.map_filter decode_strict (registries (verification_context t ?p)) = ?p"
    by (simp add: registries_verification map_filter_encode)
  have adm: "list_all admitted ?p" by (rule held_admitted(2) [OF ok(1) cat view])
  have same: "registered ?p i = registered ?fs i" if "i \<in> set cited" for i
    by (rule projected_register [OF ok(1) cat view assms(6) that])
  have "findings rx (collect_registries (verification_context t ?p)) report t
      = findings rx (collect_registries (whole_context t (map fst rs))) report t"
  proof (rule findings_cong)
    fix i assume "i \<in> set (report_citations report)"
    then have "registered ?p i = registered ?fs i" using same assms(7) by blast
    then show "map_of (rg_facts (collect_registries (verification_context t ?p))) i
          = map_of (rg_facts (collect_registries (whole_context t (map fst rs)))) i
        \<and> (i \<in> set (rg_conflicts (collect_registries (verification_context t ?p)))
           \<longleftrightarrow> i \<in> set (rg_conflicts (collect_registries (whole_context t (map fst rs)))))"
      by (simp add: registry_lookup [OF ps adm] registry_lookup [OF fs ok(2)])
  qed
  then show ?thesis using assms(1,2)
    by (auto simp: verify_def Let_def jobject_def btree.get_put split: if_splits)
qed

lemma verify_returns:
  "trim report \<noteq> [] \<Longrightarrow> \<not> MAX_REPORT_CHARS < char_count (trim report) \<Longrightarrow> json_len ctx \<le> MAX_CONTEXT_BYTES \<Longrightarrow>
    jget ''task_spec'' ctx = Some (task_spec_json t) \<Longrightarrow> \<exists>verdict. verify rx json_len report ctx t = Inr verdict"
  by (simp add: verify_def Let_def)

definition sample_fact :: RawFact where
  "sample_fact =
     \<lparr>rf_id = ''evf_p'', rf_path = ''/price'', rf_value = JInt 10, rf_source = ''tdx'', rf_observed_at = None,
      rf_source_version_id = None, rf_quality_blocking = False\<rparr>"

lemma decode_fact_encode [simp]: "decode_fact (encode_fact f) = Some f"
  by (simp add: encode_fact_def jobject_def fact_keys_def raw_fact_of_def)

lemma projection_decides_alike_witness:
  "\<exists>whole projected.
     verify \<lparr>mask = id, captures = \<lambda>_. []\<rparr> (\<lambda>_. 0) (CITE_OPEN @ ''evf_p'' @ CITE_CLOSE)
       (whole_context sample_spec [verification_context sample_spec [sample_fact]]) sample_spec = Inr whole
     \<and> verify \<lparr>mask = id, captures = \<lambda>_. []\<rparr> (\<lambda>_. 0) (CITE_OPEN @ ''evf_p'' @ CITE_CLOSE)
         (verification_context sample_spec
           (verifier_facts [''evf_p''] (ingest_all [(verification_context sample_spec [sample_fact], None)] catalog_empty)))
         sample_spec = Inr projected
     \<and> jget ''findings'' projected = jget ''findings'' whole"
proof -
  let ?rx = "\<lparr>mask = id, captures = \<lambda>_. []\<rparr> :: patterns" and ?rp = "CITE_OPEN @ ''evf_p'' @ CITE_CLOSE"
  let ?rs = "[(verification_context sample_spec [sample_fact], None)] :: (json \<times> string option) list"
  have rows: "collect_facts (verification_context sample_spec [sample_fact]) = [sample_fact]"
    by (simp add: collect_facts_def registries_verification map_filter_simps)
  have facts: "all_facts ?rs = [sample_fact]" by (simp add: all_facts_def rows)
  have ok: "fact_ok sample_fact \<and> admitted sample_fact"
    by (simp add: fact_ok_def admitted_def sample_fact_def starts_with_def)
  have marks: "CITE_OPEN = [CHR 0xE3, CHR 0x80, CHR 0x90, CHR ''E'', CHR '':'']" "CITE_CLOSE = [CHR 0xE3, CHR 0x80, CHR 0x91]"
    by (simp_all add: CITE_OPEN_def CITE_CLOSE_def utf8_def utf8_char_def char_eval)
  have trims: "trim ?rp = ?rp" "trim ''evf_p'' = ''evf_p''"
    by (rule trim_literal; simp add: marks whitespace_literal starts_with_def ends_with_def)+
  have len: "trim ?rp \<noteq> []" "\<not> MAX_REPORT_CHARS < char_count (trim ?rp)" "(\<lambda>_. 0) j \<le> MAX_CONTEXT_BYTES" for j :: json
    unfolding trims(1) by (simp_all add: marks MAX_REPORT_CHARS_def char_count_def byte_def)
  have parts: "split_once CITE_OPEN ?rp = Some ([], ''evf_p'' @ CITE_CLOSE)" "split_once CITE_CLOSE (''evf_p'' @ CITE_CLOSE) = Some (''evf_p'', [])"
    by (simp_all add: marks starts_with_def)
  have "citations ?rp = [''evf_p'']"
    by (subst citations.simps, simp only: parts option.case prod.case trims) (simp add: citations.simps [of "[]"] marks)
  moreover have "text_lines ?rp = [?rp]" by (rule text_lines_single) (simp_all add: marks newline_literal)
  ultimately have cites: "report_citations ?rp = [''evf_p'']" unfolding report_citations_def trims(1) by simp
  have ctx: "jget ''task_spec'' (whole_context sample_spec rs) = Some (task_spec_json sample_spec)"
    "jget ''task_spec'' (verification_context sample_spec fs) = Some (task_spec_json sample_spec)" for rs fs
    by (simp_all add: whole_context_def verification_context_def jobject_def)
  obtain whole where w: "verify ?rx (\<lambda>_. 0) ?rp (whole_context sample_spec (map fst ?rs)) sample_spec = Inr whole"
    using verify_returns [of ?rp "\<lambda>_. 0" "whole_context sample_spec (map fst ?rs)" sample_spec ?rx] len ctx by blast
  obtain projected where p: "verify ?rx (\<lambda>_. 0) ?rp (verification_context sample_spec
      (verifier_facts [''evf_p''] (ingest_all ?rs catalog_empty))) sample_spec = Inr projected"
    using verify_returns [of ?rp "\<lambda>_. 0" "verification_context sample_spec
      (verifier_facts [''evf_p''] (ingest_all ?rs catalog_empty))" sample_spec ?rx] len ctx by blast
  have "dropped (ingest_all ?rs catalog_empty) = 0"
    using ok by (simp add: ingest_all_def ingest_def rows ingest_fact_def catalog_empty_def MAX_CATALOG_ENTRIES_def)
  moreover have "\<forall>r \<in> set ?rs. \<forall>row \<in> set (registries (fst r)). decode_strict row = decode_fact row"
    by (simp add: registries_verification)
  moreover have "list_all (\<lambda>f. fact_ok f \<and> admitted f) (all_facts ?rs)" using ok by (simp add: facts)
  moreover have "distinct [''evf_p'']" by simp
  moreover have "set (report_citations ?rp) \<subseteq> set [''evf_p'']" unfolding cites by simp
  ultimately have "jget ''findings'' projected = jget ''findings'' whole \<and> jget ''passed'' projected = jget ''passed'' whole"
    by (rule projection_decides_alike [OF w p])
  then show ?thesis using w p by auto
qed

end
