(* ===== verification/Report_Draft.thy ===== *)
theory Report_Draft
  imports Report_Verify
begin

text \<open>
  The structured report contract, \<open>crates/agent-runtime/src/report.rs\<close>: the draft a model submits and
  its validation against the evidence catalog. Decoding JSON into a draft is serde's; the printing of an
  \<open>f64\<close> is a parameter, and figures in prose are those of the engine's \<open>financial_numerals\<close>. Main
  fact: in a draft without problems every identifier is registered and in scope, every number has
  the provenance its claim's kind permits and the value its evidence holds, and every figure in prose
  is backed.
\<close>

definition REPORT_CONTRACT_VERSION :: string where "REPORT_CONTRACT_VERSION = ''astock-report-contract-v1''"
definition MAX_CLAIMS :: nat where "MAX_CLAIMS = 240"
definition MAX_SECTIONS :: nat where "MAX_SECTIONS = 24"
definition MAX_STATEMENT_CHARS :: nat where "MAX_STATEMENT_CHARS = 2000"
definition MAX_EVIDENCE_PER_CLAIM :: nat where "MAX_EVIDENCE_PER_CLAIM = 12"
definition MAX_NUMERIC_ITEMS_PER_CLAIM :: nat where "MAX_NUMERIC_ITEMS_PER_CLAIM = 16"

section \<open>Drafts\<close>

datatype ClaimKind = ObservedFact | DeterministicCalculation | Inference | Estimate | Scenario | Unknown

datatype NumericProvenance =
    Observed string "string option"
  | Calculated string string "string list"
  | UserAssumption "string option"
  | Estimated string "string list" "(f64 \<times> f64) option"

fun permits :: "ClaimKind \<Rightarrow> NumericProvenance \<Rightarrow> bool" where
  "permits ObservedFact (Observed _ _) = True"
| "permits DeterministicCalculation (Calculated _ _ _) = True"
| "permits DeterministicCalculation (Observed _ _) = True"
| "permits Estimate (Estimated _ _ _) = True"
| "permits Scenario (UserAssumption _) = True"
| "permits Scenario (Calculated _ _ _) = True"
| "permits Scenario (Estimated _ _ _) = True"
| "permits _ _ = False"

fun referenced_evidence :: "NumericProvenance \<Rightarrow> string list" where
  "referenced_evidence (Observed i _) = [i]"
| "referenced_evidence (Calculated i _ ins) = i # ins"
| "referenced_evidence (UserAssumption _) = []"
| "referenced_evidence (Estimated _ basis _) = basis"

record NumericItem =
  ni_value :: f64
  ni_unit :: "string option"
  ni_label :: string
  ni_provenance :: NumericProvenance

record Claim =
  cl_id :: string
  cl_kind :: ClaimKind
  cl_statement :: string
  cl_evidence_ids :: "string list"
  cl_numeric_items :: "NumericItem list"
  cl_confidence :: "string option"
  cl_uncertainty :: "string option"
  cl_assumptions :: "string list"
  cl_disclosed_conflicts :: "string list"

record ReportSection =
  rs_heading :: string
  rs_claim_ids :: "string list"

record VerifiedReportDraft =
  dr_version :: string
  dr_title :: string
  dr_executive_summary :: string
  dr_sections :: "ReportSection list"
  dr_claims :: "Claim list"
  dr_overall_uncertainty :: "string option"
  dr_limitations :: "string list"

datatype DraftProblem =
    ContractVersionMismatch string string
  | Oversized string nat nat
  | DuplicateClaimId string
  | SectionReferencesUnknownClaim string string
  | ClaimNotInAnySection string
  | EmptyStatement string
  | UnknownEvidence string string
  | MissingEvidence string string
  | UnsupportedObservedNumber string string f64
  | MissingCalculationProvenance string string f64
  | InvalidEstimate string string string
  | ScenarioWithoutAssumption string
  | ConflictingEvidence string "string list"
  | EvidenceOutsideTaskScope string string
  | FigureInFreeText "string option" string string
  | AmbiguousNumberReference string
  | UnknownNumberReference string string
  | NumberDisagreesWithEvidence string string f64 string

fun problem_claim_id :: "DraftProblem \<Rightarrow> string option" where
  "problem_claim_id (ContractVersionMismatch _ _) = None"
| "problem_claim_id (Oversized _ _ _) = None"
| "problem_claim_id (AmbiguousNumberReference _) = None"
| "problem_claim_id (DuplicateClaimId c) = Some c"
| "problem_claim_id (ClaimNotInAnySection c) = Some c"
| "problem_claim_id (EmptyStatement c) = Some c"
| "problem_claim_id (UnknownEvidence c _) = Some c"
| "problem_claim_id (MissingEvidence c _) = Some c"
| "problem_claim_id (UnsupportedObservedNumber c _ _) = Some c"
| "problem_claim_id (MissingCalculationProvenance c _ _) = Some c"
| "problem_claim_id (InvalidEstimate c _ _) = Some c"
| "problem_claim_id (ScenarioWithoutAssumption c) = Some c"
| "problem_claim_id (ConflictingEvidence c _) = Some c"
| "problem_claim_id (UnknownNumberReference c _) = Some c"
| "problem_claim_id (NumberDisagreesWithEvidence c _ _ _) = Some c"
| "problem_claim_id (EvidenceOutsideTaskScope c _) = Some c"
| "problem_claim_id (SectionReferencesUnknownClaim _ c) = Some c"
| "problem_claim_id (FigureInFreeText c _ _) = c"

fun problem_code :: "DraftProblem \<Rightarrow> string" where
  "problem_code (ContractVersionMismatch _ _) = ''contract_version_mismatch''"
| "problem_code (Oversized _ _ _) = ''oversized''"
| "problem_code (DuplicateClaimId _) = ''duplicate_claim_id''"
| "problem_code (SectionReferencesUnknownClaim _ _) = ''section_references_unknown_claim''"
| "problem_code (ClaimNotInAnySection _) = ''claim_not_in_any_section''"
| "problem_code (EmptyStatement _) = ''empty_statement''"
| "problem_code (UnknownEvidence _ _) = ''unknown_evidence''"
| "problem_code (MissingEvidence _ _) = ''missing_evidence''"
| "problem_code (UnsupportedObservedNumber _ _ _) = ''unsupported_observed_number''"
| "problem_code (MissingCalculationProvenance _ _ _) = ''missing_calculation_provenance''"
| "problem_code (InvalidEstimate _ _ _) = ''invalid_estimate''"
| "problem_code (ScenarioWithoutAssumption _) = ''scenario_without_assumption''"
| "problem_code (ConflictingEvidence _ _) = ''conflicting_evidence''"
| "problem_code (FigureInFreeText _ _ _) = ''figure_in_free_text''"
| "problem_code (AmbiguousNumberReference _) = ''ambiguous_number_reference''"
| "problem_code (UnknownNumberReference _ _) = ''unknown_number_reference''"
| "problem_code (NumberDisagreesWithEvidence _ _ _ _) = ''number_disagrees_with_evidence''"
| "problem_code (EvidenceOutsideTaskScope _ _) = ''evidence_outside_task_scope''"

type_synonym descriptor_map = "(string \<times> EvidenceDescriptor) list"

section \<open>Placeholders\<close>

function placeholder_labels :: "string \<Rightarrow> string list" where
  "placeholder_labels rest =
     (case split_once ''{'' rest of
        None \<Rightarrow> []
      | Some (before, after) \<Rightarrow>
          (case split_once ''}'' after of
             None \<Rightarrow> []
           | Some (label, rest') \<Rightarrow> (if trim label \<noteq> [] then [trim label] else []) @ placeholder_labels rest'))"
  by pat_completeness auto
termination
proof (relation "measure length", simp, goal_cases)
  case (1 rest x before after y label rest')
  then have "length after < length rest" "length rest' < length after"
    by (auto dest: split_once_shorter)
  then show ?case by simp
qed

declare placeholder_labels.simps [simp del]

function strip_placeholders :: "string \<Rightarrow> string" where
  "strip_placeholders rest =
     (case split_once ''{'' rest of
        None \<Rightarrow> rest
      | Some (before, after) \<Rightarrow>
          (case split_once ''}'' after of
             None \<Rightarrow> rest
           | Some (label, rest') \<Rightarrow> before @ '' '' @ strip_placeholders rest'))"
  by pat_completeness auto
termination
proof (relation "measure length", simp, goal_cases)
  case (1 rest x before after y label rest')
  then have "length after < length rest" "length rest' < length after"
    by (auto dest: split_once_shorter)
  then show ?case by simp
qed

declare strip_placeholders.simps [simp del]

section \<open>Numbers\<close>

fun evidence_number :: "json \<Rightarrow> f64 option" where
  "evidence_number (JInt i) = Some (f64_of_int i)"
| "evidence_number (JFloat x) = Some x"
| "evidence_number (JStr t) = parse_f64 (replace_char CHR '','' [] t)"
| "evidence_number _ = None"

text \<open>Prints an \<open>f64\<close>, and finds the figures of a text.\<close>

record printer =
  show_f64 :: "f64 \<Rightarrow> string"
  rx :: patterns

definition number_token :: "printer \<Rightarrow> NumericItem \<Rightarrow> string" where
  "number_token pr item = show_f64 pr (ni_value item) @ (case ni_unit item of Some u \<Rightarrow> u | None \<Rightarrow> [])"

definition check_value_against_evidence ::
  "printer \<Rightarrow> descriptor_map \<Rightarrow> Claim \<Rightarrow> NumericItem \<Rightarrow> string \<Rightarrow> DraftProblem list" where
  "check_value_against_evidence pr reg c item i =
     (case Option.bind (Option.bind (map_of reg i) ed_value) evidence_number of
        None \<Rightarrow> []
      | Some v \<Rightarrow>
          (case financial_numerals (rx pr) (number_token pr item) of
             [] \<Rightarrow> []
           | n # _ \<Rightarrow> if supported_by n v then []
               else [NumberDisagreesWithEvidence (cl_id c) (ni_label item) (ni_value item) i]))"

definition COMPUTABLE :: "string list" where
  "COMPUTABLE = [utf8 [24066, 20540], ''market_cap'', ''pe'', utf8 [24066, 30408, 29575], ''pb'', utf8 [24066, 20928, 29575],
     utf8 [28072, 36300, 24133], ''change_pct'']"

definition says :: "bool \<Rightarrow> DraftProblem \<Rightarrow> DraftProblem list" where
  "says bad p = (if bad then [p] else [])"

lemma says_Nil [simp]: "says bad p = [] \<longleftrightarrow> \<not> bad"
  by (simp add: says_def)

definition calculation_at :: "descriptor_map \<Rightarrow> string \<Rightarrow> bool option" where
  "calculation_at reg i = map_option is_calculation (map_of reg i)"

definition validate_numeric_item :: "printer \<Rightarrow> descriptor_map \<Rightarrow> Claim \<Rightarrow> NumericItem \<Rightarrow> DraftProblem list" where
  "validate_numeric_item pr reg c item =
     (let cid = cl_id c; label = ni_label item; v = ni_value item
      in says (\<not> permits (cl_kind c) (ni_provenance item)) (UnsupportedObservedNumber cid label v)
         @ (case ni_provenance item of
              Observed i _ \<Rightarrow>
                says (calculation_at reg i = Some True) (MissingCalculationProvenance cid label v)
                @ check_value_against_evidence pr reg c item i
            | Calculated i operation ins \<Rightarrow>
                says (trim operation = [] \<or> ins = []) (MissingCalculationProvenance cid label v)
                @ says (calculation_at reg i = Some False) (MissingCalculationProvenance cid label v)
                @ check_value_against_evidence pr reg c item i
            | UserAssumption _ \<Rightarrow> []
            | Estimated how basis bounds \<Rightarrow>
                says (trim how = [] \<or> basis = [])
                  (InvalidEstimate cid label ''an estimate must name its method and its basis evidence'')
                @ says (list_ex (\<lambda>needle. contains how needle \<or> contains label needle) COMPUTABLE)
                    (InvalidEstimate cid label
                       ''this quantity is deterministically computable; use a calculation rather than an estimate'')
                @ (case bounds of
                     Some (low, high) \<Rightarrow> says (fgt low high) (InvalidEstimate cid label ''range bounds are inverted'')
                   | None \<Rightarrow> [])))"

section \<open>Claims\<close>

definition claim_references :: "Claim \<Rightarrow> string list" where
  "claim_references c = cl_evidence_ids c @ concat (map (referenced_evidence \<circ> ni_provenance) (cl_numeric_items c))"

definition reference_problems :: "descriptor_map \<Rightarrow> string list \<Rightarrow> Claim \<Rightarrow> string \<Rightarrow> DraftProblem list" where
  "reference_problems reg symbols c i =
     (case map_of reg i of
        None \<Rightarrow> [UnknownEvidence (cl_id c) i]
      | Some d \<Rightarrow>
          says (case ed_symbol d of Some s \<Rightarrow> symbols \<noteq> [] \<and> s \<notin> set symbols | None \<Rightarrow> False)
            (EvidenceOutsideTaskScope (cl_id c) i))"

definition conflicting_references :: "descriptor_map \<Rightarrow> Claim \<Rightarrow> string list" where
  "conflicting_references reg c =
     filter (\<lambda>i. case map_of reg i of Some d \<Rightarrow> ed_conflicting d | None \<Rightarrow> False) (claim_references c)"

definition undisclosed :: "descriptor_map \<Rightarrow> Claim \<Rightarrow> string list" where
  "undisclosed reg c = filter (\<lambda>i. i \<notin> set (cl_disclosed_conflicts c)) (conflicting_references reg c)"

fun is_assumption :: "NumericProvenance \<Rightarrow> bool" where
  "is_assumption (UserAssumption _) = True"
| "is_assumption _ = False"

definition kind_problems :: "Claim \<Rightarrow> DraftProblem list" where
  "kind_problems c =
     (if cl_kind c = ObservedFact \<or> cl_kind c = Inference
      then says (cl_evidence_ids c = []) (MissingEvidence (cl_id c) (cl_statement c))
      else if cl_kind c = Scenario
      then says (cl_assumptions c = [] \<and> \<not> list_ex (is_assumption \<circ> ni_provenance) (cl_numeric_items c))
             (ScenarioWithoutAssumption (cl_id c))
      else [])"

definition declares :: "Claim \<Rightarrow> string \<Rightarrow> bool" where
  "declares c label \<longleftrightarrow> label \<in> ni_label ` set (cl_numeric_items c)"

definition validate_claim :: "printer \<Rightarrow> descriptor_map \<Rightarrow> string list \<Rightarrow> Claim \<Rightarrow> DraftProblem list" where
  "validate_claim pr reg symbols c =
     says (trim (cl_statement c) = []) (EmptyStatement (cl_id c))
     @ says (MAX_STATEMENT_CHARS < char_count (cl_statement c))
         (Oversized (''statement of '' @ cl_id c) (char_count (cl_statement c)) MAX_STATEMENT_CHARS)
     @ says (MAX_EVIDENCE_PER_CLAIM < length (cl_evidence_ids c))
         (Oversized (''evidence of '' @ cl_id c) (length (cl_evidence_ids c)) MAX_EVIDENCE_PER_CLAIM)
     @ says (MAX_NUMERIC_ITEMS_PER_CLAIM < length (cl_numeric_items c))
         (Oversized (''numeric items of '' @ cl_id c) (length (cl_numeric_items c)) MAX_NUMERIC_ITEMS_PER_CLAIM)
     @ concat (map (reference_problems reg symbols c) (claim_references c))
     @ says (undisclosed reg c \<noteq> []) (ConflictingEvidence (cl_id c) (undisclosed reg c))
     @ kind_problems c
     @ concat (map (validate_numeric_item pr reg c) (cl_numeric_items c))
     @ map (UnknownNumberReference (cl_id c)) (filter (\<lambda>l. \<not> declares c l) (placeholder_labels (cl_statement c)))"

section \<open>Report-level numbers and free text\<close>

definition same_number :: "NumericItem \<Rightarrow> NumericItem \<Rightarrow> bool" where
  "same_number a b \<longleftrightarrow> ni_value a = ni_value b \<and> ni_unit a = ni_unit b"

definition all_items :: "VerifiedReportDraft \<Rightarrow> NumericItem list" where
  "all_items d = concat (map cl_numeric_items (dr_claims d))"

text \<open>The first item of each label, replaced by later equal ones, and the labels with a different later one.\<close>

fun resolve :: "NumericItem list \<Rightarrow> (string \<times> NumericItem) list \<times> string list \<Rightarrow> (string \<times> NumericItem) list \<times> string list" where
  "resolve [] (m, amb) = (m, amb)"
| "resolve (item # items) (m, amb) =
     (case map_of m (ni_label item) of
        Some e \<Rightarrow> (if \<not> same_number e item then resolve items (m, ni_label item # amb)
                  else resolve items (btree_insert (ni_label item) item m, amb))
      | None \<Rightarrow> resolve items (btree_insert (ni_label item) item m, amb))"

definition report_level_numbers :: "VerifiedReportDraft \<Rightarrow> (string \<times> NumericItem) list" where
  "report_level_numbers d =
     (let (m, amb) = resolve (all_items d) ([], []) in filter (\<lambda>(label, _). label \<notin> set amb) m)"

fun ambiguous_loop :: "NumericItem list \<Rightarrow> (string \<times> f64 \<times> string option) list \<Rightarrow> string list" where
  "ambiguous_loop [] seen = []"
| "ambiguous_loop (item # items) seen =
     (let key = (ni_value item, ni_unit item)
      in case map_of seen (ni_label item) of
           Some e \<Rightarrow> (if e \<noteq> key then ni_label item # ambiguous_loop items seen
                     else ambiguous_loop items (btree_insert (ni_label item) key seen))
         | None \<Rightarrow> ambiguous_loop items (btree_insert (ni_label item) key seen))"

definition ambiguous_report_labels :: "VerifiedReportDraft \<Rightarrow> string list" where
  "ambiguous_report_labels d = ambiguous_loop (all_items d) []"

definition check_references :: "VerifiedReportDraft \<Rightarrow> string \<Rightarrow> string \<Rightarrow> DraftProblem list" where
  "check_references d field t =
     List.map_filter (\<lambda>label.
       if label \<in> set (ambiguous_report_labels d) then Some (AmbiguousNumberReference label)
       else if map_of (report_level_numbers d) label = None then Some (UnknownNumberReference field label)
       else None) (placeholder_labels t)"

definition check_prose :: "printer \<Rightarrow> f64 list \<Rightarrow> string option \<Rightarrow> string \<Rightarrow> string \<Rightarrow> DraftProblem list" where
  "check_prose pr backing c field t =
     map (\<lambda>n. FigureInFreeText c field (rn_raw n))
       (filter (\<lambda>n. \<not> list_ex (supported_by n) backing) (financial_numerals (rx pr) (strip_placeholders t)))"

definition numbered :: "string \<Rightarrow> string list \<Rightarrow> (string \<times> string) list" where
  "numbered name ts = map (\<lambda>(i, t). (name @ ''['' @ show_nat i @ '']'', t)) (enumerate 0 ts)"

text \<open>The report-level prose: fields that may reference numbers, then the headings.\<close>

definition report_fields :: "VerifiedReportDraft \<Rightarrow> (string \<times> string) list" where
  "report_fields d =
     [(''title'', dr_title d), (''executive_summary'', dr_executive_summary d)]
     @ (case dr_overall_uncertainty d of Some u \<Rightarrow> [(''overall_uncertainty'', u)] | None \<Rightarrow> [])
     @ numbered ''limitations'' (dr_limitations d)"

definition heading_fields :: "VerifiedReportDraft \<Rightarrow> (string \<times> string) list" where
  "heading_fields d = map (\<lambda>s. (''sections['' @ rs_heading s @ ''].heading'', rs_heading s)) (dr_sections d)"

definition claim_fields :: "Claim \<Rightarrow> (string \<times> string) list" where
  "claim_fields c =
     [(''statement'', cl_statement c)]
     @ (case cl_uncertainty c of Some u \<Rightarrow> [(''uncertainty'', u)] | None \<Rightarrow> [])
     @ numbered ''assumptions'' (cl_assumptions c)"

definition report_backing :: "VerifiedReportDraft \<Rightarrow> f64 list" where
  "report_backing d = map (ni_value \<circ> snd) (report_level_numbers d)"

definition claim_backing :: "descriptor_map \<Rightarrow> Claim \<Rightarrow> f64 list" where
  "claim_backing reg c =
     map ni_value (cl_numeric_items c)
     @ List.map_filter (\<lambda>i. Option.bind (Option.bind (map_of reg i) ed_value) evidence_number) (cl_evidence_ids c)"

definition validate_free_text :: "printer \<Rightarrow> VerifiedReportDraft \<Rightarrow> descriptor_map \<Rightarrow> DraftProblem list" where
  "validate_free_text pr d reg =
     concat (map (\<lambda>(field, t). check_references d field t) (report_fields d))
     @ concat (map (\<lambda>(field, t). check_prose pr (report_backing d) None field t) (report_fields d @ heading_fields d))
     @ concat (map (\<lambda>c. concat (map (\<lambda>(field, t). check_prose pr (claim_backing reg c) (Some (cl_id c)) field t)
         (claim_fields c))) (dr_claims d))"

section \<open>The draft\<close>

fun duplicate_ids :: "string set \<Rightarrow> Claim list \<Rightarrow> DraftProblem list" where
  "duplicate_ids seen [] = []"
| "duplicate_ids seen (c # cs) =
     says (cl_id c \<in> seen) (DuplicateClaimId (cl_id c)) @ duplicate_ids (insert (cl_id c) seen) cs"

definition validate_draft ::
  "printer \<Rightarrow> VerifiedReportDraft \<Rightarrow> descriptor_map \<Rightarrow> string list \<Rightarrow> DraftProblem list" where
  "validate_draft pr d reg symbols =
     (let ids = set (map cl_id (dr_claims d));
          placed = set (concat (map rs_claim_ids (dr_sections d)))
      in says (dr_version d \<noteq> REPORT_CONTRACT_VERSION) (ContractVersionMismatch (dr_version d) REPORT_CONTRACT_VERSION)
         @ says (MAX_CLAIMS < length (dr_claims d)) (Oversized ''claims'' (length (dr_claims d)) MAX_CLAIMS)
         @ says (MAX_SECTIONS < length (dr_sections d)) (Oversized ''sections'' (length (dr_sections d)) MAX_SECTIONS)
         @ duplicate_ids {} (dr_claims d)
         @ concat (map (\<lambda>s. map (SectionReferencesUnknownClaim (rs_heading s)) (filter (\<lambda>i. i \<notin> ids) (rs_claim_ids s)))
             (dr_sections d))
         @ map (ClaimNotInAnySection \<circ> cl_id) (filter (\<lambda>c. cl_id c \<notin> placed) (dr_claims d))
         @ concat (map (validate_claim pr reg symbols) (dr_claims d))
         @ validate_free_text pr d reg)"

section \<open>What a clean validation gives\<close>

text \<open>The evidence that holds the value of a number, for the provenances that have one.\<close>

fun measured_by :: "NumericProvenance \<Rightarrow> string option" where
  "measured_by (Observed i _) = Some i"
| "measured_by (Calculated i _ _) = Some i"
| "measured_by _ = None"

definition number_sourced :: "printer \<Rightarrow> descriptor_map \<Rightarrow> Claim \<Rightarrow> NumericItem \<Rightarrow> bool" where
  "number_sourced pr reg c item \<longleftrightarrow>
     permits (cl_kind c) (ni_provenance item)
     \<and> (\<forall>i. measured_by (ni_provenance item) = Some i \<longrightarrow>
          (calculation_at reg i \<noteq> None \<longrightarrow>
             calculation_at reg i = Some (\<not> (\<exists>f. ni_provenance item = Observed i f)))
          \<and> (\<forall>v n ns. Option.bind (Option.bind (map_of reg i) ed_value) evidence_number = Some v \<longrightarrow>
               financial_numerals (rx pr) (number_token pr item) = n # ns \<longrightarrow> supported_by n v))"

definition reference_in_scope :: "descriptor_map \<Rightarrow> string list \<Rightarrow> Claim \<Rightarrow> string \<Rightarrow> bool" where
  "reference_in_scope reg symbols c i \<longleftrightarrow>
     (\<exists>e. map_of reg i = Some e
        \<and> (\<forall>s. ed_symbol e = Some s \<longrightarrow> symbols = [] \<or> s \<in> set symbols)
        \<and> (ed_conflicting e \<longrightarrow> i \<in> set (cl_disclosed_conflicts c)))"

definition prose_backed :: "printer \<Rightarrow> f64 list \<Rightarrow> string \<Rightarrow> bool" where
  "prose_backed pr backing t \<longleftrightarrow>
     (\<forall>n \<in> set (financial_numerals (rx pr) (strip_placeholders t)). \<exists>v \<in> set backing. supported_by n v)"

lemma check_value_Nil:
  "check_value_against_evidence pr reg c item i = [] \<longleftrightarrow>
     (\<forall>v n ns. Option.bind (Option.bind (map_of reg i) ed_value) evidence_number = Some v \<longrightarrow>
        financial_numerals (rx pr) (number_token pr item) = n # ns \<longrightarrow> supported_by n v)"
  by (auto simp: check_value_against_evidence_def split: option.split list.split)

lemma validate_numeric_item_Nil:
  "validate_numeric_item pr reg c item = [] \<Longrightarrow> number_sourced pr reg c item"
  by (cases "ni_provenance item")
    (auto simp: validate_numeric_item_def number_sourced_def Let_def check_value_Nil)

lemma duplicate_ids_Nil: "duplicate_ids seen cs = [] \<longleftrightarrow> distinct (map cl_id cs) \<and> seen \<inter> set (map cl_id cs) = {}"
  by (induction seen cs rule: duplicate_ids.induct) auto

lemma reference_problems_Nil:
  "reference_problems reg symbols c i = [] \<longleftrightarrow>
     (\<exists>e. map_of reg i = Some e \<and> (\<forall>s. ed_symbol e = Some s \<longrightarrow> symbols = [] \<or> s \<in> set symbols))"
  by (auto simp: reference_problems_def split: option.splits)

lemma validate_claim_references:
  assumes "validate_claim pr reg symbols c = []" "i \<in> set (claim_references c)"
  shows "reference_in_scope reg symbols c i"
proof -
  have "reference_problems reg symbols c i = []" "undisclosed reg c = []"
    using assms by (auto simp: validate_claim_def)
  then show ?thesis using assms(2)
    by (auto simp: reference_problems_Nil reference_in_scope_def undisclosed_def conflicting_references_def
        filter_empty_conv)
qed

lemma check_prose_Nil: "check_prose pr backing c field t = [] \<longleftrightarrow> prose_backed pr backing t"
  by (auto simp: check_prose_def prose_backed_def filter_empty_conv list_ex_iff)

text \<open>
  C12: A draft without problems is sourced. Its claims have distinct ids, and the sections place exactly
  those; every identifier a claim refers to is registered, belongs to a security of the task when
  it belongs to one, and is disclosed when it is disputed; every number has a provenance its claim's
  kind permits, an observed one does not cite a calculation and a calculated one does, and the evidence
  behind it supports the number as it will be printed; every figure in prose, braces aside, is
  backed by a declared number, or in a claim by the evidence it cites.
\<close>

theorem validated_draft_is_sourced:
  assumes "validate_draft pr d reg symbols = []"
  shows "distinct (map cl_id (dr_claims d))
    \<and> set (concat (map rs_claim_ids (dr_sections d))) = set (map cl_id (dr_claims d))
    \<and> (\<forall>c \<in> set (dr_claims d).
         (\<forall>i \<in> set (claim_references c). reference_in_scope reg symbols c i)
         \<and> (\<forall>item \<in> set (cl_numeric_items c). number_sourced pr reg c item)
         \<and> (\<forall>l \<in> set (placeholder_labels (cl_statement c)). declares c l)
         \<and> (\<forall>(field, t) \<in> set (claim_fields c). prose_backed pr (claim_backing reg c) t))
    \<and> (\<forall>(field, t) \<in> set (report_fields d @ heading_fields d). prose_backed pr (report_backing d) t)"
proof -
  have parts: "duplicate_ids {} (dr_claims d) = []"
    "\<forall>s \<in> set (dr_sections d). \<forall>i \<in> set (rs_claim_ids s). i \<in> set (map cl_id (dr_claims d))"
    "\<forall>c \<in> set (dr_claims d). cl_id c \<in> set (concat (map rs_claim_ids (dr_sections d)))"
    "\<forall>c \<in> set (dr_claims d). validate_claim pr reg symbols c = []"
    "validate_free_text pr d reg = []"
    using assms by (auto simp: validate_draft_def Let_def filter_empty_conv)
  have prose: "\<forall>(field, t) \<in> set (report_fields d @ heading_fields d). prose_backed pr (report_backing d) t"
    "\<forall>c \<in> set (dr_claims d). \<forall>(field, t) \<in> set (claim_fields c). prose_backed pr (claim_backing reg c) t"
    using parts(5) by (auto simp: validate_free_text_def check_prose_Nil) (fastforce simp: check_prose_Nil)
  have claim: "(\<forall>i \<in> set (claim_references c). reference_in_scope reg symbols c i)
      \<and> (\<forall>item \<in> set (cl_numeric_items c). number_sourced pr reg c item)
      \<and> (\<forall>l \<in> set (placeholder_labels (cl_statement c)). declares c l)" if c: "c \<in> set (dr_claims d)" for c
  proof -
    have v: "validate_claim pr reg symbols c = []" using parts(4) c by blast
    then have "\<forall>item \<in> set (cl_numeric_items c). validate_numeric_item pr reg c item = []"
      "\<forall>l \<in> set (placeholder_labels (cl_statement c)). declares c l"
      by (auto simp: validate_claim_def filter_empty_conv)
    then show ?thesis using validate_claim_references [OF v] validate_numeric_item_Nil by blast
  qed
  have "distinct (map cl_id (dr_claims d))" using parts(1) by (simp add: duplicate_ids_Nil)
  moreover have "set (concat (map rs_claim_ids (dr_sections d))) = set (map cl_id (dr_claims d))"
    using parts(2,3) by auto
  ultimately show ?thesis using claim prose by blast
qed

definition sample_item :: NumericItem where
  "sample_item = \<lparr>ni_value = f64_of_nat 10, ni_unit = None, ni_label = ''p'', ni_provenance = Observed ''evf_p'' None\<rparr>"

definition sample_claim :: Claim where
  "sample_claim =
     \<lparr>cl_id = ''c'', cl_kind = ObservedFact, cl_statement = ''at {p}'', cl_evidence_ids = [''evf_p''],
      cl_numeric_items = [sample_item], cl_confidence = None, cl_uncertainty = None, cl_assumptions = [],
      cl_disclosed_conflicts = []\<rparr>"

definition sample_draft :: VerifiedReportDraft where
  "sample_draft =
     \<lparr>dr_version = REPORT_CONTRACT_VERSION, dr_title = ''t'', dr_executive_summary = ''s'',
      dr_sections = [\<lparr>rs_heading = ''h'', rs_claim_ids = [''c'']\<rparr>], dr_claims = [sample_claim],
      dr_overall_uncertainty = None, dr_limitations = []\<rparr>"

definition sample_descriptor :: EvidenceDescriptor where
  "sample_descriptor = (descriptor_of [] sample_fact)\<lparr>ed_symbol := Some ''600000''\<rparr>"

definition plain_printer :: printer where
  "plain_printer = \<lparr>show_f64 = (\<lambda>_. ''10''), rx = \<lparr>mask = id, captures = \<lambda>_. []\<rparr>\<rparr>"

lemma no_figures [simp]: "financial_numerals (rx plain_printer) t = []"
  by (simp add: plain_printer_def financial_numerals_def map_filter_def)

lemma sample_labels [simp]:
  "placeholder_labels ''at {p}'' = [''p'']" "placeholder_labels ''t'' = []" "placeholder_labels ''s'' = []"
proof -
  have "trim ''p'' = ''p''" by (rule trim_literal) (simp_all add: whitespace_literal starts_with_def ends_with_def)
  then show "placeholder_labels ''at {p}'' = [''p'']"
    by (simp add: placeholder_labels.simps starts_with_def)
qed (simp_all add: placeholder_labels.simps starts_with_def)

lemma sample_draft_validates: "validate_draft plain_printer sample_draft [(''evf_p'', sample_descriptor)] [''600000''] = []"
proof -
  have "trim ''at {p}'' = ''at {p}''" by (rule trim_literal) (simp_all add: whitespace_literal starts_with_def ends_with_def)
  then have claim: "validate_claim plain_printer [(''evf_p'', sample_descriptor)] [''600000''] sample_claim = []"
    by (simp add: validate_claim_def sample_claim_def says_def claim_references_def reference_problems_def
        sample_item_def sample_descriptor_def undisclosed_def conflicting_references_def descriptor_of_def kind_problems_def
        validate_numeric_item_def calculation_at_def check_value_against_evidence_def is_calculation_def sample_fact_def
        MAX_STATEMENT_CHARS_def MAX_EVIDENCE_PER_CLAIM_def MAX_NUMERIC_ITEMS_PER_CLAIM_def declares_def
        char_count_def byte_def Let_def split: option.split)
  have "validate_free_text plain_printer sample_draft reg = []" for reg
    by (simp add: validate_free_text_def report_fields_def heading_fields_def claim_fields_def sample_draft_def
        numbered_def check_references_def check_prose_def map_filter_def)
  with claim show ?thesis
    by (simp add: validate_draft_def sample_draft_def MAX_CLAIMS_def MAX_SECTIONS_def says_def sample_claim_def)
qed

lemma validated_draft_is_sourced_witness:
  "number_sourced plain_printer [(''evf_p'', sample_descriptor)] sample_claim sample_item
   \<and> reference_in_scope [(''evf_p'', sample_descriptor)] [''600000''] sample_claim ''evf_p''"
  using validated_draft_is_sourced [OF sample_draft_validates]
  by (simp add: sample_draft_def sample_claim_def sample_item_def claim_references_def)

end
