(* ===== verification/Report_Render.thy ===== *)
theory Report_Render
  imports Report_Draft
begin

text \<open>
  Rendering of a validated draft, \<open>crates/agent-runtime/src/render.rs\<close>: citation numbers, the
  structured report, the investor's Markdown and the form the verifier reads with the line index that
  turns its positional findings back into claims. The printing of an \<open>f64\<close> is the parameter of
  \<open>Report_Draft\<close>. Main facts: citations are numbered densely in first-appearance order; the
  line index is that of the lines the verifier reads when no text holds a line break; and a
  passing verdict on the form speaks of every identifier the placed claims refer to.
\<close>

section \<open>Labels\<close>

fun claim_kind_as_str :: "ClaimKind \<Rightarrow> string" where
  "claim_kind_as_str ObservedFact = ''observed_fact''"
| "claim_kind_as_str DeterministicCalculation = ''deterministic_calculation''"
| "claim_kind_as_str Inference = ''inference''"
| "claim_kind_as_str Estimate = ''estimate''"
| "claim_kind_as_str Scenario = ''scenario''"
| "claim_kind_as_str Unknown = ''unknown''"

fun claim_kind_label :: "ClaimKind \<Rightarrow> string" where
  "claim_kind_label ObservedFact = utf8 [20107, 23454]"
| "claim_kind_label DeterministicCalculation = utf8 [35745, 31639]"
| "claim_kind_label Inference = utf8 [25512, 26029]"
| "claim_kind_label Estimate = utf8 [20272, 31639]"
| "claim_kind_label Scenario = utf8 [24773, 26223]"
| "claim_kind_label Unknown = utf8 [26410, 30693]"

fun kind_name :: "NumericProvenance \<Rightarrow> string" where
  "kind_name (Observed _ _) = ''observed''"
| "kind_name (Calculated _ _ _) = ''calculated''"
| "kind_name (UserAssumption _) = ''user_assumption''"
| "kind_name (Estimated _ _ _) = ''estimated''"

fun provenance_label :: "NumericProvenance \<Rightarrow> string" where
  "provenance_label (Observed _ _) = utf8 [23454, 27979, 25968, 25454]"
| "provenance_label (Calculated _ _ _) = utf8 [30830, 23450, 24615, 35745, 31639]"
| "provenance_label (UserAssumption _) = utf8 [29992, 25143, 24773, 26223, 20551, 35774]"
| "provenance_label (Estimated _ _ _) = utf8 [27169, 22411, 20272, 31639]"

definition source_display_name :: "string \<Rightarrow> string" where
  "source_display_name source =
     (case map_of
        [(''tencent'', utf8 [33150, 35759, 34892, 24773]), (''sina'', utf8 [26032, 28010, 34892, 24773]),
         (''eastmoney'', utf8 [19996, 26041, 36130, 23500]), (''tdx'', utf8 [36890, 36798, 20449]),
         (''joinquant'', utf8 [32858, 23485]), (''tushare'', ''Tushare''), (''disclosure'', utf8 [20844, 21496, 20844, 21578]),
         (''cninfo'', utf8 [24040, 28526, 36164, 35759]), (''sse'', utf8 [19978, 20132, 25152]), (''szse'', utf8 [28145, 20132, 25152]),
         (''csrc'', utf8 [35777, 30417, 20250]), (''astock-compute'', utf8 [30830, 23450, 24615, 35745, 31639])] source of
        Some name \<Rightarrow> name | None \<Rightarrow> source)"

definition field_names :: "(string list \<times> string) list" where
  "field_names =
     [([''last'', ''price'', ''close''], utf8 [26368, 26032, 20215]),
      ([''pre_close'', ''prev_close'', ''yesterday_close''], utf8 [26152, 25910, 20215]),
      ([''open''], utf8 [24320, 30424, 20215]), ([''high''], utf8 [26368, 39640, 20215]), ([''low''], utf8 [26368, 20302, 20215]),
      ([''change''], utf8 [28072, 36300, 39069]), ([''change_pct'', ''pct'', ''pct_chg''], utf8 [28072, 36300, 24133]),
      ([''turnover'', ''turnover_rate''], utf8 [25442, 25163, 29575]), ([''amount''], utf8 [25104, 20132, 39069]),
      ([''volume'', ''vol''], utf8 [25104, 20132, 37327]), ([''timestamp'', ''time'', ''trade_time''], utf8 [34892, 24773, 26102, 38388]),
      ([''eps''], utf8 [27599, 32929, 25910, 30410]), ([''pe'', ''pe_ttm''], utf8 [24066, 30408, 29575]), ([''pb''], utf8 [24066, 20928, 29575]),
      ([''shares'', ''total_shares''], utf8 [32929, 26412]), ([''revenue''], utf8 [33829, 19994, 25910, 20837]),
      ([''net_profit''], utf8 [24402, 27597, 20928, 21033, 28070])]"

definition friendly_field :: "string \<Rightarrow> string" where
  "friendly_field field =
     (case find (\<lambda>(keys, _). leaf field \<in> set keys) field_names of Some (_, name) \<Rightarrow> name | None \<Rightarrow> leaf field)"

text \<open>\<open>str::get(0..n)\<close>: nothing past the end or inside a code point.\<close>

definition get_prefix :: "nat \<Rightarrow> string \<Rightarrow> string option" where
  "get_prefix n s = (if n \<le> length s \<and> (n = length s \<or> \<not> is_cont (s ! n)) then Some (take n s) else None)"

definition short_timestamp :: "string \<Rightarrow> string option" where
  "short_timestamp s =
     map_option (\<lambda>(date, rest). case get_prefix 5 rest of
         Some time \<Rightarrow> if time = [] then date else date @ '' '' @ time
       | None \<Rightarrow> date) (split_once ''T'' s)"

definition nonempty :: "string option \<Rightarrow> string option" where
  "nonempty t = (if t = Some [] then None else t)"

definition display_label :: "EvidenceDescriptor \<Rightarrow> string" where
  "display_label d =
     (if is_calculation d then utf8 [30830, 23450, 24615, 35745, 31639]
      else join ('' '' @ utf8 [183] @ '' '')
        ([source_display_name (ed_source d)]
         @ (case (nonempty (ed_document_title d), nonempty (ed_field d)) of
              (Some title, _) \<Rightarrow> [title]
            | (None, Some field) \<Rightarrow> [friendly_field field]
            | (None, None) \<Rightarrow> [])
         @ (case (nonempty (ed_document_location d),
                  Option.bind (or_else (ed_published_at d) (ed_observed_at d)) short_timestamp) of
              (Some location, _) \<Rightarrow> [location]
            | (None, Some stamp) \<Rightarrow> [stamp]
            | (None, None) \<Rightarrow> [])))"

definition trust_label :: "EvidenceDescriptor \<Rightarrow> string" where
  "trust_label d =
     (if ed_conflicting d then utf8 [26469, 28304, 23384, 22312, 20914, 31361]
      else if ed_quality_blocking d then utf8 [35777, 25454, 36136, 37327, 19981, 36275]
      else if is_calculation d then utf8 [30830, 23450, 24615, 35745, 31639]
      else if ed_source d \<in> {''disclosure'', ''cninfo'', ''sse'', ''szse'', ''csrc''} then utf8 [20844, 21496, 27491, 24335, 25259, 38706]
      else if ed_source d \<in> {''tencent'', ''sina'', ''tdx''} then utf8 [23454, 26102, 34892, 24773]
      else if ed_source d \<in> {''joinquant'', ''tushare''} then utf8 [37327, 21270, 25968, 25454, 28304]
      else utf8 [21333, 19968, 26469, 28304])"

section \<open>The structured report\<close>

record EvidenceReference =
  er_number :: nat
  er_internal_id :: string
  er_display_label :: string
  er_trust_label :: string
  er_source :: "string option"
  er_observed_at :: "string option"
  er_published_at :: "string option"
  er_document_title :: "string option"
  er_document_location :: "string option"
  er_field :: "string option"
  er_unit :: "string option"
  er_is_calculation :: bool
  er_conflicting :: bool

record RenderedNumber =
  nr_label :: string
  nr_value :: f64
  nr_unit :: "string option"
  nr_provenance_label :: string
  nr_provenance_kind :: string
  nr_evidence_numbers :: "nat list"
  nr_operation :: "string option"

record RenderedClaim =
  rc_id :: string
  rc_kind :: string
  rc_kind_label :: string
  rc_text :: string
  rc_inline_numbers :: "string list"
  rc_numbers :: "RenderedNumber list"
  rc_evidence_numbers :: "nat list"
  rc_confidence :: "string option"
  rc_uncertainty :: "string option"
  rc_assumptions :: "string list"
  rc_disclosed_conflicts :: "nat list"

record RenderedSection =
  rd_heading :: string
  rd_claims :: "RenderedClaim list"

record RenderedReport =
  rr_title :: string
  rr_executive_summary :: string
  rr_sections :: "RenderedSection list"
  rr_references :: "EvidenceReference list"
  rr_overall_uncertainty :: "string option"
  rr_limitations :: "string list"
  rr_markdown :: string
  rr_verifier_markdown :: string

type_synonym numbers = "(string \<times> f64 \<times> string option) list"

text \<open>\<open>fmt\<close> prints an \<open>f64\<close> in its shortest form.\<close>

function substitute_numbers :: "(f64 \<Rightarrow> string) \<Rightarrow> numbers \<Rightarrow> string \<Rightarrow> string" where
  "substitute_numbers fmt numbers rest =
     (case split_once ''{'' rest of
        None \<Rightarrow> rest
      | Some (before, after) \<Rightarrow>
          (case split_once ''}'' after of
             None \<Rightarrow> rest
           | Some (label, rest') \<Rightarrow>
               before
               @ (case map_of numbers (trim label) of
                    Some (v, unit) \<Rightarrow> fmt v @ (case unit of Some u \<Rightarrow> u | None \<Rightarrow> [])
                  | None \<Rightarrow> trim label)
               @ substitute_numbers fmt numbers rest'))"
  by pat_completeness auto
termination
proof (relation "measure (\<lambda>(_, _, s). length s)", simp, goal_cases)
  case (1 fmt numbers rest x before after y label rest')
  then have "length after < length rest" "length rest' < length after"
    by (auto dest: split_once_shorter)
  then show ?case by simp
qed

declare substitute_numbers.simps [simp del]

definition declared_numbers :: "Claim \<Rightarrow> numbers" where
  "declared_numbers c = map (\<lambda>n. (ni_label n, ni_value n, ni_unit n)) (cl_numeric_items c)"

definition report_numbers :: "VerifiedReportDraft \<Rightarrow> numbers" where
  "report_numbers d = map (\<lambda>(l, n). (l, ni_value n, ni_unit n)) (report_level_numbers d)"

text \<open>The claims of a section that exist, in the order it lists them.\<close>

definition section_claims :: "VerifiedReportDraft \<Rightarrow> ReportSection \<Rightarrow> Claim list" where
  "section_claims d s = List.map_filter (\<lambda>i. find (\<lambda>c. cl_id c = i) (dr_claims d)) (rs_claim_ids s)"

definition note_citation :: "string \<Rightarrow> string list \<times> (string \<times> nat) list \<Rightarrow> string list \<times> (string \<times> nat) list" where
  "note_citation i st =
     (let (order, number_of) = st
      in if map_of number_of i = None then (order @ [i], btree_insert i (length order + 1) number_of)
         else (order, number_of))"

definition cited_ids :: "VerifiedReportDraft \<Rightarrow> string list" where
  "cited_ids d = concat (map (\<lambda>s. concat (map claim_references (section_claims d s))) (dr_sections d))"

definition citation_numbers :: "VerifiedReportDraft \<Rightarrow> string list \<times> (string \<times> nat) list" where
  "citation_numbers d = fold note_citation (cited_ids d) ([], [])"

definition reference_of :: "descriptor_map \<Rightarrow> nat \<Rightarrow> string \<Rightarrow> EvidenceReference" where
  "reference_of reg index i =
     (let d = map_of reg i
      in \<lparr>er_number = index + 1, er_internal_id = i,
          er_display_label = (case d of Some e \<Rightarrow> display_label e | None \<Rightarrow> utf8 [26410, 30693, 26469, 28304]),
          er_trust_label = (case d of Some e \<Rightarrow> trust_label e | None \<Rightarrow> utf8 [35777, 25454, 19981, 36275]),
          er_source = map_option ed_source d, er_observed_at = Option.bind d ed_observed_at,
          er_published_at = Option.bind d ed_published_at, er_document_title = Option.bind d ed_document_title,
          er_document_location = Option.bind d ed_document_location, er_field = Option.bind d ed_field,
          er_unit = Option.bind d ed_unit,
          er_is_calculation = (case d of Some e \<Rightarrow> is_calculation e | None \<Rightarrow> False),
          er_conflicting = (case d of Some e \<Rightarrow> ed_conflicting e | None \<Rightarrow> False)\<rparr>)"

definition numbers_for :: "(string \<times> nat) list \<Rightarrow> string list \<Rightarrow> nat list" where
  "numbers_for number_of ids = List.map_filter (map_of number_of) ids"

fun operation_of :: "NumericProvenance \<Rightarrow> string option" where
  "operation_of (Calculated _ operation _) = Some operation"
| "operation_of _ = None"

definition render_claim :: "(f64 \<Rightarrow> string) \<Rightarrow> (string \<times> nat) list \<Rightarrow> Claim \<Rightarrow> RenderedClaim" where
  "render_claim fmt number_of c =
     \<lparr>rc_id = cl_id c, rc_kind = claim_kind_as_str (cl_kind c), rc_kind_label = claim_kind_label (cl_kind c),
      rc_text = substitute_numbers fmt (declared_numbers c) (cl_statement c),
      rc_inline_numbers = placeholder_labels (cl_statement c),
      rc_numbers = map (\<lambda>n.
          \<lparr>nr_label = ni_label n, nr_value = ni_value n, nr_unit = ni_unit n,
           nr_provenance_label = provenance_label (ni_provenance n),
           nr_provenance_kind = kind_name (ni_provenance n),
           nr_evidence_numbers = numbers_for number_of (referenced_evidence (ni_provenance n)),
           nr_operation = operation_of (ni_provenance n)\<rparr>) (cl_numeric_items c),
      rc_evidence_numbers = numbers_for number_of (cl_evidence_ids c),
      rc_confidence = cl_confidence c, rc_uncertainty = cl_uncertainty c, rc_assumptions = cl_assumptions c,
      rc_disclosed_conflicts = numbers_for number_of (cl_disclosed_conflicts c)\<rparr>"

section \<open>The investor's Markdown\<close>

definition marks :: "nat list \<Rightarrow> string" where
  "marks ns = concat (map (\<lambda>n. ''['' @ show_nat n @ '']'') ns)"

definition marked :: "nat list \<Rightarrow> string" where
  "marked ns = (if ns = [] then [] else '' '' @ marks ns)"

definition number_line :: "(f64 \<Rightarrow> string) \<Rightarrow> RenderedNumber \<Rightarrow> string" where
  "number_line fmt n =
     ''    - '' @ nr_label n @ utf8 [65306] @ fmt (nr_value n)
     @ (case nr_unit n of Some u \<Rightarrow> '' '' @ u | None \<Rightarrow> [])
     @ utf8 [65288] @ nr_provenance_label n
     @ (case nr_operation n of Some oper \<Rightarrow> '' '' @ utf8 [183] @ '' '' @ oper | None \<Rightarrow> [])
     @ marked (nr_evidence_numbers n) @ utf8 [65289] @ [newline]"

definition claim_markdown :: "(f64 \<Rightarrow> string) \<Rightarrow> RenderedClaim \<Rightarrow> string" where
  "claim_markdown fmt c =
     ''- '' @ utf8 [12304] @ rc_kind_label c @ utf8 [12305] @ trim (rc_text c) @ marked (rc_evidence_numbers c) @ [newline]
     @ concat (map (number_line fmt) (filter (\<lambda>n. nr_label n \<notin> set (rc_inline_numbers c)) (rc_numbers c)))
     @ concat (map (\<lambda>a. ''    - '' @ utf8 [20551, 35774, 65306] @ a @ [newline]) (rc_assumptions c))
     @ (case rc_uncertainty c of Some u \<Rightarrow> ''    - '' @ utf8 [19981, 30830, 23450, 24615, 65306] @ u @ [newline] | None \<Rightarrow> [])
     @ (if rc_disclosed_conflicts c = [] then []
        else ''    - '' @ utf8 [26469, 28304, 20914, 31361, 24050, 25259, 38706, 65306] @ marks (rc_disclosed_conflicts c) @ [newline])"

definition section_markdown :: "(f64 \<Rightarrow> string) \<Rightarrow> RenderedSection \<Rightarrow> string" where
  "section_markdown fmt s =
     ''## '' @ rd_heading s @ [newline] @ [newline] @ concat (map (claim_markdown fmt) (rd_claims s)) @ [newline]"

definition reference_line :: "EvidenceReference \<Rightarrow> string" where
  "reference_line r =
     ''['' @ show_nat (er_number r) @ ''] '' @ er_display_label r @ '' '' @ utf8 [183] @ '' '' @ er_trust_label r @ [newline]"

definition render_markdown ::
  "(f64 \<Rightarrow> string) \<Rightarrow> VerifiedReportDraft \<Rightarrow> RenderedSection list \<Rightarrow> EvidenceReference list \<Rightarrow> numbers \<Rightarrow> string" where
  "render_markdown fmt d sections references report_level =
     ''# '' @ substitute_numbers fmt report_level (dr_title d) @ [newline] @ [newline]
     @ (if trim (dr_executive_summary d) = [] then []
        else trim (substitute_numbers fmt report_level (dr_executive_summary d)) @ [newline] @ [newline])
     @ concat (map (section_markdown fmt) sections)
     @ (case dr_overall_uncertainty d of
          Some u \<Rightarrow> ''## '' @ utf8 [20027, 35201, 19981, 30830, 23450, 24615] @ [newline] @ [newline] @ trim (substitute_numbers fmt report_level u) @ [newline] @ [newline]
        | None \<Rightarrow> [])
     @ (if dr_limitations d = [] then []
        else ''## '' @ utf8 [23616, 38480, 24615] @ [newline] @ [newline]
          @ concat (map (\<lambda>l. ''- '' @ substitute_numbers fmt report_level l @ [newline]) (dr_limitations d)) @ [newline])
     @ (if references = [] then [] else ''## '' @ utf8 [35777, 25454] @ [newline] @ [newline] @ concat (map reference_line references))"

section \<open>The form the verifier reads\<close>

definition cite :: "string \<Rightarrow> string" where
  "cite i = CITE_OPEN @ i @ CITE_CLOSE"

definition report_level_prose :: "VerifiedReportDraft \<Rightarrow> (string \<times> string) list" where
  "report_level_prose d =
     [(''executive_summary'', dr_executive_summary d)]
     @ (case dr_overall_uncertainty d of Some u \<Rightarrow> [(''overall_uncertainty'', u)] | None \<Rightarrow> [])
     @ numbered ''limitations'' (dr_limitations d)"

definition label_citations :: "VerifiedReportDraft \<Rightarrow> string \<Rightarrow> string list" where
  "label_citations d label =
     concat (map (\<lambda>n. referenced_evidence (ni_provenance n)) (filter (\<lambda>n. ni_label n = label) (all_items d)))"

definition prose_line :: "(f64 \<Rightarrow> string) \<Rightarrow> VerifiedReportDraft \<Rightarrow> string \<Rightarrow> string" where
  "prose_line fmt d t =
     substitute_numbers fmt (report_numbers d) t
     @ concat (map cite (concat (map (label_citations d) (placeholder_labels t))))"

text \<open>A claim's line is text and citations, in turn.\<close>

definition item_pieces :: "(f64 \<Rightarrow> string) \<Rightarrow> Claim \<Rightarrow> NumericItem \<Rightarrow> (string + string) list" where
  "item_pieces fmt c n =
     (if ni_label n \<in> set (placeholder_labels (cl_statement c)) then []
      else [Inl ('' '' @ ni_label n @ ''='' @ fmt (ni_value n) @ (case ni_unit n of Some u \<Rightarrow> u | None \<Rightarrow> []))])
     @ map Inr (referenced_evidence (ni_provenance n))"

definition claim_pieces :: "(f64 \<Rightarrow> string) \<Rightarrow> Claim \<Rightarrow> (string + string) list" where
  "claim_pieces fmt c =
     Inl (utf8 [12304] @ claim_kind_label (cl_kind c) @ utf8 [12305]
          @ trim (substitute_numbers fmt (declared_numbers c) (cl_statement c)))
     # concat (map (item_pieces fmt c) (cl_numeric_items c)) @ map Inr (cl_evidence_ids c)"

definition piece_text :: "string + string \<Rightarrow> string" where
  "piece_text p = (case p of Inl t \<Rightarrow> t | Inr i \<Rightarrow> cite i)"

definition claim_line :: "(f64 \<Rightarrow> string) \<Rightarrow> Claim \<Rightarrow> string" where
  "claim_line fmt c = concat (map piece_text (claim_pieces fmt c))"

text \<open>The lines pushed, each with the claim it stands for.\<close>

definition verifier_lines :: "(f64 \<Rightarrow> string) \<Rightarrow> VerifiedReportDraft \<Rightarrow> (string \<times> string option) list" where
  "verifier_lines fmt d =
     [(substitute_numbers fmt (report_numbers d) (dr_title d), None)]
     @ map (\<lambda>(_, t). (prose_line fmt d t, None)) (filter (\<lambda>(_, t). placeholder_labels t \<noteq> []) (report_level_prose d))
     @ concat (map (\<lambda>s. (rs_heading s, None) # map (\<lambda>c. (claim_line fmt c, Some (cl_id c))) (section_claims d s))
         (dr_sections d))"

definition verifier_form :: "(f64 \<Rightarrow> string) \<Rightarrow> VerifiedReportDraft \<Rightarrow> string" where
  "verifier_form fmt d = concat (map (\<lambda>(t, _). t @ [newline]) (verifier_lines fmt d))"

definition verifier_line_claims :: "(f64 \<Rightarrow> string) \<Rightarrow> VerifiedReportDraft \<Rightarrow> (nat \<times> string) list" where
  "verifier_line_claims fmt d =
     List.map_filter (\<lambda>(k, _, claim). map_option (Pair (k + 1)) claim) (enumerate 0 (verifier_lines fmt d))"

definition contains_internal_identifier :: "string \<Rightarrow> bool" where
  "contains_internal_identifier t = contains t ''evf_''"

definition render :: "(f64 \<Rightarrow> string) \<Rightarrow> VerifiedReportDraft \<Rightarrow> descriptor_map \<Rightarrow> RenderedReport" where
  "render fmt d reg =
     (let (order, number_of) = citation_numbers d;
          references = map (\<lambda>(index, i). reference_of reg index i) (enumerate 0 order);
          sections = map (\<lambda>s. \<lparr>rd_heading = rs_heading s,
            rd_claims = map (render_claim fmt number_of) (section_claims d s)\<rparr>) (dr_sections d);
          report_level = report_numbers d
      in \<lparr>rr_title = dr_title d,
          rr_executive_summary = substitute_numbers fmt report_level (dr_executive_summary d),
          rr_sections = sections, rr_references = references,
          rr_overall_uncertainty = map_option (substitute_numbers fmt report_level) (dr_overall_uncertainty d),
          rr_limitations = map (substitute_numbers fmt report_level) (dr_limitations d),
          rr_markdown = render_markdown fmt d sections references report_level,
          rr_verifier_markdown = verifier_form fmt d\<rparr>)"

section \<open>Citation numbers\<close>

definition first_occurrences :: "'a list \<Rightarrow> 'a list" where
  "first_occurrences xs = rev (remdups (rev xs))"

lemma first_occurrences_snoc:
  "first_occurrences (xs @ [x]) = (if x \<in> set xs then first_occurrences xs else first_occurrences xs @ [x])"
  by (simp add: first_occurrences_def)

lemma first_occurrences_simps [simp]:
  "distinct (first_occurrences xs)" "set (first_occurrences xs) = set xs" "first_occurrences [] = []"
  by (simp_all add: first_occurrences_def)

lemma citation_numbers_spec:
  "fst (fold note_citation ids ([], [])) = first_occurrences ids
   \<and> (\<forall>i. map_of (snd (fold note_citation ids ([], []))) i = map_option Suc (position (\<lambda>j. j = i) (first_occurrences ids)))"
proof (induction ids rule: rev_induct)
  case (snoc x ids)
  let ?st = "fold note_citation ids ([], [])"
  obtain order number_of where st: "?st = (order, number_of)" by fastforce
  have order: "order = first_occurrences ids"
    and num: "\<And>i. map_of number_of i = map_option Suc (position (\<lambda>j. j = i) (first_occurrences ids))"
    using snoc st by simp_all
  have pos: "position (\<lambda>j. j = i) (xs @ [x]) =
      (case position (\<lambda>j. j = i) xs of Some k \<Rightarrow> Some k | None \<Rightarrow> if x = i then Some (length xs) else None)" for i and xs :: "string list"
    by (induction xs) (auto simp del: position_None split: option.split)
  have step: "fold note_citation (ids @ [x]) ([], []) = (if map_of number_of x = None
      then (order @ [x], btree_insert x (length order + 1) number_of) else (order, number_of))"
    using st by (simp add: note_citation_def [of x])
  have known: "map_of number_of x = None \<longleftrightarrow> x \<notin> set ids" using num [of x] by auto
  show ?case
  proof (cases "x \<in> set ids")
    case True
    then show ?thesis using known step order num by (simp only: first_occurrences_snoc if_True if_False) simp
  next
    case False
    then have "\<And>i. map_of (btree_insert x (length order + 1) number_of) i
        = map_option Suc (position (\<lambda>j. j = i) (first_occurrences ids @ [x]))"
      using num order position_None [of "\<lambda>j. j = x" "first_occurrences ids"] False
      by (auto simp del: position_None simp: btree.get_put pos split: option.split)
    then show ?thesis using False known step order by (simp only: first_occurrences_snoc if_True if_False) simp
  qed
qed simp

lemma numbers_resolve:
  assumes "set ids \<subseteq> set (cited_ids d)"
  shows "map (\<lambda>k. fst (citation_numbers d) ! (k - 1)) (numbers_for (snd (citation_numbers d)) ids) = ids"
proof -
  have "\<exists>k. map_of (snd (citation_numbers d)) i = Some (Suc k) \<and> fst (citation_numbers d) ! k = i"
    if "i \<in> set (cited_ids d)" for i
  proof -
    have "position (\<lambda>j. j = i) (first_occurrences (cited_ids d)) \<noteq> None" using that by auto
    then obtain k where k: "position (\<lambda>j. j = i) (first_occurrences (cited_ids d)) = Some k" by blast
    have "map_of (snd (citation_numbers d)) i = Some (Suc k)"
      using citation_numbers_spec [of "cited_ids d"] k unfolding citation_numbers_def by simp
    moreover have "fst (citation_numbers d) ! k = i"
      using citation_numbers_spec [of "cited_ids d"] position_Some [OF k] unfolding citation_numbers_def by simp
    ultimately show ?thesis by blast
  qed
  then show ?thesis using assms
  proof (induction ids)
    case (Cons i ids)
    then obtain k where "map_of (snd (citation_numbers d)) i = Some (Suc k)" "fst (citation_numbers d) ! k = i" by auto
    with Cons show ?case by (simp add: numbers_for_def map_filter_simps)
  qed (simp add: numbers_for_def map_filter_simps)
qed

text \<open>
  Citations are numbered one by one in the order in which a reader meets them, and every number
  printed for a placed claim, or for one of its numbers, leads back to exactly the identifier it stands for.
\<close>

theorem citations_resolve:
  "let r = render fmt d reg; ids = map er_internal_id (rr_references r); back = map (\<lambda>k. ids ! (k - 1))
   in ids = first_occurrences (cited_ids d) \<and> map er_number (rr_references r) = [1..<Suc (length ids)]
      \<and> list_all2 (\<lambda>s rs. list_all2 (\<lambda>c rc.
            back (rc_evidence_numbers rc) = cl_evidence_ids c
            \<and> list_all2 (\<lambda>n rn. back (nr_evidence_numbers rn) = referenced_evidence (ni_provenance n))
                (cl_numeric_items c) (rc_numbers rc))
          (section_claims d s) (rd_claims rs)) (dr_sections d) (rr_sections r)"
proof -
  let ?r = "render fmt d reg" and ?order = "fst (citation_numbers d)"
  have refs: "rr_references ?r = map (\<lambda>(index, i). reference_of reg index i) (enumerate 0 ?order)"
    by (simp add: render_def case_prod_beta Let_def)
  have ids: "map er_internal_id (rr_references ?r) = ?order"
    unfolding refs by (simp add: case_prod_beta reference_of_def Let_def comp_def)
  have "map er_number (rr_references ?r) = map (Suc \<circ> fst) (enumerate 0 ?order)"
    unfolding refs by (simp add: case_prod_beta reference_of_def Let_def comp_def)
  then have nums: "map er_number (rr_references ?r) = [1..<Suc (length ?order)]"
    by (simp add: map_Suc_upt flip: map_map)
  have claims: "map (\<lambda>k. ?order ! (k - 1)) (rc_evidence_numbers (render_claim fmt (snd (citation_numbers d)) c)) = cl_evidence_ids c
      \<and> list_all2 (\<lambda>n rn. map (\<lambda>k. ?order ! (k - 1)) (nr_evidence_numbers rn) = referenced_evidence (ni_provenance n))
          (cl_numeric_items c) (rc_numbers (render_claim fmt (snd (citation_numbers d)) c))"
    if "s \<in> set (dr_sections d)" "c \<in> set (section_claims d s)" for s c
  proof -
    have sub: "set (claim_references c) \<subseteq> set (cited_ids d)" using that by (auto simp: cited_ids_def)
    then have "set (cl_evidence_ids c) \<subseteq> set (cited_ids d)"
      "\<And>n. n \<in> set (cl_numeric_items c) \<Longrightarrow> set (referenced_evidence (ni_provenance n)) \<subseteq> set (cited_ids d)"
      by (auto simp: claim_references_def)
    then show ?thesis
      by (auto simp: render_claim_def numbers_resolve [unfolded One_nat_def] list_all2_conv_all_nth)
  qed
  have sections: "rr_sections ?r = map (\<lambda>s. \<lparr>rd_heading = rs_heading s,
      rd_claims = map (render_claim fmt (snd (citation_numbers d))) (section_claims d s)\<rparr>) (dr_sections d)"
    by (simp add: render_def case_prod_beta Let_def)
  have "?order = first_occurrences (cited_ids d)"
    using citation_numbers_spec [of "cited_ids d"] by (simp add: citation_numbers_def)
  with claims nums show ?thesis
    unfolding Let_def ids sections by (simp add: list_all2_map2 list_all2_same)
qed

end
