(* ===== verification/Report_Form.thy ===== *)
theory Report_Form
  imports Report_Render
begin

text \<open>
  What the verifier reads of the form of \<open>Report_Render\<close>: the lines, the citations on them, and what
  a passing verdict on the form says about the draft it was rendered from.
\<close>

section \<open>Splitting and trimming concatenated text\<close>

text \<open>A pattern whose first byte does not recur in it is found where it was put.\<close>

lemma split_once_at:
  assumes "c \<notin> set q" "\<not> contains t (c # q)"
  shows "split_once (c # q) (t @ (c # q) @ rest) = Some (t, rest)"
  using assms(2)
proof (induction t)
  case (Cons d t)
  have rest: "\<not> contains t (c # q)" "\<not> starts_with (d # t) (c # q)"
    using Cons.prems by (auto simp: contains_def split: if_splits)
  have "\<not> starts_with ((d # t) @ (c # q) @ rest) (c # q)"
  proof
    assume "starts_with ((d # t) @ (c # q) @ rest) (c # q)"
    then obtain u where u: "d # (t @ c # q @ rest) = c # (q @ u)" by (auto simp: starts_with_iff)
    then have eq: "t @ c # q @ rest = q @ u" "d = c" by simp_all
    show False
    proof (cases "length q \<le> length t")
      case True
      then have "take (length q) t = q" using eq(1) by (metis append_eq_append_conv_if)
      then have "t = q @ drop (length q) t" by (metis append_take_drop_id)
      then have "starts_with (d # t) (c # q)" using eq(2) by (metis append_Cons starts_with_append)
      then show False using rest(2) by blast
    next
      case False
      then have "q ! length t = c" using eq(1) by (metis nat_le_linear not_le nth_append nth_append_length)
      then show False using assms(1) False by (metis leI less_or_eq_imp_le nat_less_le nth_mem)
    qed
  qed
  then show ?case using Cons.IH rest(1) by simp
qed (simp add: starts_with_def)

lemma not_contains_Nil [simp]: "p \<noteq> [] \<Longrightarrow> \<not> contains [] p"
  by (simp add: contains_def)

lemma contains_prefix: "contains t p \<Longrightarrow> contains (t @ u) p"
proof (induction t)
  case Nil
  then have "p = []" by (auto simp: contains_def split: if_splits)
  then show ?case by (cases u) (simp_all add: contains_def starts_with_def)
next
  case (Cons d t)
  have "starts_with (d # t) p \<Longrightarrow> starts_with (d # t @ u) p"
    by (metis append.assoc append_Cons starts_with_iff)
  then show ?case using Cons by (auto simp: contains_def split: if_splits)
qed

lemma cite_open: "CITE_OPEN = CHR 0xE3 # [CHR 0x80, CHR 0x90, CHR ''E'', CHR '':'']"
  by (simp add: CITE_OPEN_def utf8_def utf8_char_def char_eval)

lemma cite_close: "CITE_CLOSE = CHR 0xE3 # [CHR 0x80, CHR 0x91]"
  by (simp add: CITE_CLOSE_def utf8_def utf8_char_def char_eval)

lemma trim_end_prefix: "\<exists>t. s = trim_end s @ t"
proof (induction s rule: trim_end.induct)
  case (1 s)
  show ?case
  proof (cases "find (ends_with s) whitespace")
    case (Some w)
    show ?thesis
    proof (cases "s = []")
      case False
      then obtain t where "take (length s - length w) s = trim_end (take (length s - length w) s) @ t"
        using 1 Some by blast
      then have "s = trim_end (take (length s - length w) s) @ t @ drop (length s - length w) s"
        by (metis append.assoc append_take_drop_id)
      then show ?thesis using False Some by (simp add: trim_end.simps [of s]) blast
    next
      case True
      then show ?thesis using Some by (simp add: trim_end.simps [of "[]"])
    qed
  qed (simp add: trim_end.simps [of s])
qed

text \<open>Trimming stops at a byte that no white space has.\<close>

lemma trim_end_stops:
  assumes "\<forall>w \<in> set whitespace. c \<notin> set w"
  shows "\<exists>t'. trim_end (u @ c # t) = u @ c # t' \<and> (\<exists>t''. t = t' @ t'')"
proof (induction t rule: measure_induct_rule [of length])
  case (less t)
  let ?s = "u @ c # t"
  show ?case
  proof (cases "find (ends_with ?s) whitespace")
    case (Some w)
    then have w: "w \<in> set whitespace" "ends_with ?s w" by (auto simp: find_Some_iff)
    have len: "length w \<le> length t"
    proof (rule ccontr)
      assume "\<not> length w \<le> length t"
      then have "length ?s - length w \<le> length u" using w(2) by (auto simp: ends_with_def)
      then have "c \<in> set (drop (length ?s - length w) ?s)" by simp
      moreover have "drop (length ?s - length w) ?s = w" using w(2) unfolding ends_with_def by blast
      ultimately show False using w(1) assms by (simp only:)
    qed
    have "0 < length w" using w(1) by (rule whitespace_nonempty)
    then have shorter: "length (take (length t - length w) t) < length t" using len by (cases t) auto
    have "take (length ?s - length w) ?s = u @ c # take (length t - length w) t"
      using len by (simp add: take_Cons')
    then have "trim_end ?s = trim_end (u @ c # take (length t - length w) t)"
      using Some by (simp add: trim_end.simps [of ?s])
    then show ?thesis using less [OF shorter] by (metis append.assoc append_take_drop_id)
  qed (simp add: trim_end.simps [of ?s])
qed

lemma close_not_space: "\<forall>w \<in> set whitespace. CHR 0x91 \<notin> set w"
  unfolding whitespace_literal by simp

section \<open>Citations of a line\<close>

definition piece_ids :: "(string + string) list \<Rightarrow> string list" where
  "piece_ids ps = concat (map (\<lambda>p. case p of Inl _ \<Rightarrow> [] | Inr i \<Rightarrow> [i]) ps)"

text \<open>
  Between its citations the line holds no citation token of its own, and every identifier cited can be
  read back from its token; \<open>cur\<close> is the text before the pieces.
\<close>

fun runs_free :: "string \<Rightarrow> (string + string) list \<Rightarrow> bool" where
  "runs_free cur [] = (\<not> contains cur CITE_OPEN)"
| "runs_free cur (Inl t # ps) = runs_free (cur @ t) ps"
| "runs_free cur (Inr i # ps) =
     (\<not> contains cur CITE_OPEN \<and> \<not> contains i CITE_CLOSE \<and> trim i = i \<and> i \<noteq> [] \<and> runs_free [] ps)"

lemma citations_token:
  assumes "\<not> contains cur CITE_OPEN" "\<not> contains i CITE_CLOSE" "trim i = i" "i \<noteq> []"
  shows "citations (cur @ cite i @ rest) = i # citations rest"
proof -
  have "split_once CITE_OPEN (cur @ CITE_OPEN @ i @ CITE_CLOSE @ rest) = Some (cur, i @ CITE_CLOSE @ rest)"
    using split_once_at [of "CHR 0xE3" "[CHR 0x80, CHR 0x90, CHR ''E'', CHR '':'']" cur] assms(1)
    by (simp add: cite_open)
  moreover have "split_once CITE_CLOSE (i @ CITE_CLOSE @ rest) = Some (i, rest)"
    using split_once_at [of "CHR 0xE3" "[CHR 0x80, CHR 0x91]" i] assms(2) by (simp add: cite_close)
  ultimately show ?thesis
    using assms(3,4) by (simp add: cite_def citations.simps [of "cur @ CITE_OPEN @ i @ CITE_CLOSE @ rest"])
qed

lemma citations_free: "\<not> contains t CITE_OPEN \<Longrightarrow> citations t = []"
  by (cases "split_once CITE_OPEN t") (simp_all add: citations.simps [of t] contains_def)

lemma runs_free_uncited:
  "runs_free cur ps \<Longrightarrow> piece_ids ps = [] \<Longrightarrow> \<not> contains (cur @ concat (map piece_text ps)) CITE_OPEN"
  by (induction cur ps rule: runs_free.induct) (simp_all add: piece_ids_def piece_text_def)

text \<open>
  A line with citations ends, up to text without any, in the last byte of a token; cutting that text
  loses no citation.
\<close>

lemma citations_cut:
  assumes "runs_free cur ps" "piece_ids ps \<noteq> []"
  shows "\<exists>x tail. cur @ concat (map piece_text ps) = x @ CHR 0x91 # tail
    \<and> (\<forall>t u. tail = t @ u \<longrightarrow> citations (x @ CHR 0x91 # t) = piece_ids ps)"
  using assms
proof (induction cur ps rule: runs_free.induct)
  case (2 cur t ps)
  then show ?case by (simp add: piece_ids_def piece_text_def)
next
  case (3 cur i ps)
  let ?rest = "concat (map piece_text ps)"
  have i: "\<not> contains cur CITE_OPEN" "\<not> contains i CITE_CLOSE" "trim i = i" "i \<noteq> []" "runs_free [] ps"
    using "3.prems" by simp_all
  have ids: "piece_ids (Inr i # ps) = i # piece_ids ps" by (simp add: piece_ids_def)
  have line: "cur @ concat (map piece_text (Inr i # ps)) = cur @ cite i @ ?rest" by (simp add: piece_text_def)
  show ?case
  proof (cases "piece_ids ps = []")
    case True
    let ?x = "cur @ CITE_OPEN @ i @ [CHR 0xE3, CHR 0x80]"
    have x: "?x @ CHR 0x91 # t = cur @ cite i @ t" for t by (simp add: cite_def cite_close)
    have "\<not> contains ?rest CITE_OPEN" using runs_free_uncited [OF i(5) True] by simp
    then have "citations t = []" if "?rest = t @ u" for t u
      using that contains_prefix citations_free by metis
    then have "citations (?x @ CHR 0x91 # t) = piece_ids (Inr i # ps)" if "?rest = t @ u" for t u
      unfolding x ids using that citations_token [OF i(1-4)] True by simp
    then show ?thesis unfolding line using x [of ?rest] by metis
  next
    case False
    then obtain x tail where xt: "?rest = x @ CHR 0x91 # tail"
      "\<forall>t u. tail = t @ u \<longrightarrow> citations (x @ CHR 0x91 # t) = piece_ids ps"
      using "3.IH" i(5) by auto
    have "citations ((cur @ cite i @ x) @ CHR 0x91 # t) = piece_ids (Inr i # ps)" if "tail = t @ u" for t u
      unfolding ids using that xt(2) citations_token [OF i(1-4), of "x @ CHR 0x91 # t"] by simp
    moreover have "cur @ cite i @ ?rest = (cur @ cite i @ x) @ CHR 0x91 # tail" using xt(1) by simp
    ultimately show ?thesis unfolding line by blast
  qed
qed (simp add: piece_ids_def)

lemma piece_ids_claim: "set (piece_ids (claim_pieces fmt c)) = set (claim_references c)"
proof -
  have app: "piece_ids (ps @ qs) = piece_ids ps @ piece_ids qs" for ps qs by (simp add: piece_ids_def)
  have cited: "piece_ids (map Inr is) = is" for "is" by (induction "is") (simp_all add: piece_ids_def)
  have items: "piece_ids (concat (map (item_pieces fmt c) ns)) = concat (map (referenced_evidence \<circ> ni_provenance) ns)" for ns
    by (induction ns) (simp_all add: app cited item_pieces_def, simp_all add: piece_ids_def)
  have "piece_ids (claim_pieces fmt c) = concat (map (referenced_evidence \<circ> ni_provenance) (cl_numeric_items c)) @ cl_evidence_ids c"
    unfolding claim_pieces_def using items cited app by (simp add: piece_ids_def)
  then show ?thesis by (auto simp: claim_references_def)
qed

section \<open>The lines the verifier reads\<close>

definition form_of :: "string list \<Rightarrow> string" where
  "form_of ls = concat (map (\<lambda>l. l @ [newline]) ls)"

lemma split_first: "c \<in> set p \<Longrightarrow> \<exists>a b. p = a @ c # b \<and> c \<notin> set a"
  by (rule split_list_first)

lemma lines_of_prefix:
  assumes "\<forall>l \<in> set ls. newline \<notin> set l" "form_of ls = p @ t" "k < length (text_lines p)"
  shows "k < length ls \<and> (\<exists>u. ls ! k = text_lines p ! k @ u)"
  using assms
proof (induction ls arbitrary: p k)
  case Nil
  then show ?case by (simp add: form_of_def text_lines.simps [of "[]"])
next
  case (Cons l ls)
  have eq: "l @ newline # form_of ls = p @ t" using Cons.prems(2) by (simp add: form_of_def)
  show ?case
  proof (cases "newline \<in> set p")
    case True
    then obtain a b where p: "p = a @ newline # b" "newline \<notin> set a" using split_first by metis
    then have "l @ newline # form_of ls = a @ newline # (b @ t)" using eq by simp
    then have "split_once [newline] (l @ newline # form_of ls) = Some (a, b @ t)"
      using split_once_newline [OF p(2)] by simp
    then have ab: "a = l" "form_of ls = b @ t" using split_once_newline [of l] Cons.prems(1) by simp_all
    have lines: "text_lines p = strip_cr l # text_lines b" using p ab(1) text_lines_step by simp
    have cr: "\<exists>u. l = strip_cr l @ u" by (metis append_Nil2 append_butlast_last_id strip_cr_def)
    show ?thesis
    proof (cases k)
      case (Suc j)
      then show ?thesis using Cons.IH [of b j] Cons.prems ab(2) lines by auto
    qed (use lines cr in simp)
  next
    case False
    then obtain u where u: "l = p @ u" using eq by (auto simp: append_eq_append_conv2 Cons_eq_append_conv)
    have "text_lines p = (if p = [] then [] else [p])"
      using False text_lines_single by (simp add: text_lines.simps [of "[]"])
    then show ?thesis using Cons.prems(3) u by (auto split: if_splits)
  qed
qed

lemma lines_of_form: "\<forall>l \<in> set ls. newline \<notin> set l \<Longrightarrow> text_lines (form_of ls @ z) = map strip_cr ls @ text_lines z"
  by (induction ls) (simp_all add: form_of_def text_lines_step)

lemma marked_line_read:
  assumes "\<forall>l \<in> set ls. newline \<notin> set l" "x @ CHR 0x91 # tail \<in> set ls"
    and "trim_start (form_of ls) = form_of ls"
  shows "\<exists>t u. tail = t @ u \<and> x @ CHR 0x91 # t \<in> set (text_lines (trim (form_of ls)))"
proof -
  obtain as bs where ls: "ls = as @ (x @ CHR 0x91 # tail) # bs" using assms(2) by (meson split_list)
  have free: "\<forall>l \<in> set as. newline \<notin> set l" "newline \<notin> set x" "newline \<notin> set tail"
    using assms(1) ls by auto
  have "form_of ls = (form_of as @ x) @ CHR 0x91 # (tail @ newline # form_of bs)"
    using ls by (simp add: form_of_def)
  then obtain t u where t: "trim (form_of ls) = (form_of as @ x) @ CHR 0x91 # t" "tail @ newline # form_of bs = t @ u"
    using trim_end_stops [OF close_not_space, of "form_of as @ x" "tail @ newline # form_of bs"]
    unfolding trim_def assms(3) by metis
  have lines: "text_lines (trim (form_of ls)) = map strip_cr as @ text_lines (x @ CHR 0x91 # t)"
    using lines_of_form [OF free(1)] t(1) by simp
  show ?thesis
  proof (cases "newline \<in> set t")
    case True
    then obtain a b where ab: "t = a @ newline # b" "newline \<notin> set a" using split_first by metis
    have "split_once [newline] (tail @ newline # form_of bs) = Some (a, b @ u)"
      using t(2) ab split_once_newline [OF ab(2)] by simp
    then have a: "a = tail" using split_once_newline [OF free(3)] by simp
    have "newline \<notin> set (x @ CHR 0x91 # tail)" using free by (simp add: newline_literal)
    then have first: "strip_cr (x @ CHR 0x91 # tail) \<in> set (text_lines (x @ CHR 0x91 # t))"
      using text_lines_step [of "x @ CHR 0x91 # tail" b] ab(1) a by simp
    have "\<exists>v w. tail = v @ w \<and> strip_cr (x @ CHR 0x91 # tail) = x @ CHR 0x91 # v"
    proof (cases "tail = []")
      case True
      then show ?thesis by (simp add: strip_cr_def byte_def)
    next
      case False
      then have "strip_cr (x @ CHR 0x91 # tail) = x @ CHR 0x91 # tail
          \<or> strip_cr (x @ CHR 0x91 # tail) = x @ CHR 0x91 # butlast tail"
        by (simp add: strip_cr_def butlast_append)
      moreover have "tail = butlast tail @ [last tail]" using False by simp
      ultimately show ?thesis by (metis append_Nil2)
    qed
    then show ?thesis using first lines by auto
  next
    case False
    then have "\<exists>w. tail = t @ w" using t(2) by (auto simp: append_eq_append_conv2 Cons_eq_append_conv)
    moreover have "text_lines (x @ CHR 0x91 # t) = [x @ CHR 0x91 # t]"
      using False free(2) by (intro text_lines_single) (simp_all add: newline_literal)
    ultimately show ?thesis using lines by auto
  qed
qed

section \<open>The form of a draft\<close>

lemma verifier_form_of: "verifier_form fmt d = form_of (map fst (verifier_lines fmt d))"
  unfolding verifier_form_def form_of_def map_map comp_def by (simp add: split_def)

definition one_line_each :: "(f64 \<Rightarrow> string) \<Rightarrow> VerifiedReportDraft \<Rightarrow> bool" where
  "one_line_each fmt d \<longleftrightarrow> (\<forall>(l, _) \<in> set (verifier_lines fmt d). newline \<notin> set l)"

lemma one_line_each_free: "one_line_each fmt d \<longleftrightarrow> (\<forall>l \<in> set (map fst (verifier_lines fmt d)). newline \<notin> set l)"
  by (auto simp: one_line_each_def)

lemma line_index:
  "map_of (List.map_filter (\<lambda>(k, _, claim). map_option (Pair (k + 1)) claim) (enumerate n ls)) (n + j + 1)
     = (if j < length ls then snd (ls ! j) else None)"
proof (induction ls arbitrary: n j)
  case (Cons l ls)
  obtain t claim where l: "l = (t, claim)" by fastforce
  have later: "map_of (List.map_filter (\<lambda>(k, _, claim). map_option (Pair (k + 1)) claim) (enumerate (Suc n) xs)) (n + 1) = None"
    for xs :: "('b \<times> 'a option) list"
  proof -
    have "fst p > n + 1"
      if "p \<in> set (List.map_filter (\<lambda>(k, _, claim). map_option (Pair (k + 1)) claim) (enumerate (Suc n) xs))" for p
      using that by (auto simp: map_filter_def in_set_enumerate_eq)
    then show ?thesis by (fastforce simp: map_of_eq_None_iff)
  qed
  show ?case
  proof (cases j)
    case 0
    then show ?thesis using later [of ls] l by (cases claim) (simp_all add: map_filter_simps)
  next
    case (Suc i)
    then show ?thesis using Cons [of "Suc n" i] l by (cases claim) (simp_all add: map_filter_simps)
  qed
qed (simp add: map_filter_simps)

lemma verifier_line_claims_at:
  "map_of (verifier_line_claims fmt d) (k + 1)
     = (if k < length (verifier_lines fmt d) then snd (verifier_lines fmt d ! k) else None)"
  unfolding verifier_line_claims_def using line_index [of 0 "verifier_lines fmt d" k] by simp

text \<open>
  Line by line, what the verifier reads is what was written, up to white space dropped at the end of the
  form and a carriage return at the end of a line, and the index names the claim written there. The
  form must not begin with white space, which the verifier trims, and no text may hold a line break.
\<close>

lemma verifier_reads_indexed_lines:
  assumes "one_line_each fmt d" "trim_start (verifier_form fmt d) = verifier_form fmt d"
    and "k < length (text_lines (trim (verifier_form fmt d)))"
  shows "k < length (verifier_lines fmt d)
    \<and> starts_with (fst (verifier_lines fmt d ! k)) (text_lines (trim (verifier_form fmt d)) ! k)
    \<and> map_of (verifier_line_claims fmt d) (k + 1) = snd (verifier_lines fmt d ! k)"
proof -
  obtain t where "verifier_form fmt d = trim (verifier_form fmt d) @ t"
    using trim_end_prefix [of "verifier_form fmt d"] assms(2) by (auto simp: trim_def)
  then have "form_of (map fst (verifier_lines fmt d)) = trim (verifier_form fmt d) @ t"
    by (simp only: verifier_form_of)
  then have k: "k < length (map fst (verifier_lines fmt d))"
    "\<exists>u. map fst (verifier_lines fmt d) ! k = text_lines (trim (verifier_form fmt d)) ! k @ u"
    using lines_of_prefix [of "map fst (verifier_lines fmt d)"] assms(1,3) one_line_each_free by metis+
  then show ?thesis using verifier_line_claims_at [of fmt d k] by (auto simp: starts_with_iff)
qed

lemma claim_line_read:
  assumes "one_line_each fmt d" "trim_start (verifier_form fmt d) = verifier_form fmt d"
    and "s \<in> set (dr_sections d)" "c \<in> set (section_claims d s)"
    and "runs_free [] (claim_pieces fmt c)" "claim_references c \<noteq> []"
  shows "\<exists>l \<in> set (text_lines (trim (verifier_form fmt d))).
    starts_with (claim_line fmt c) l \<and> set (citations l) = set (claim_references c)"
proof -
  have "piece_ids (claim_pieces fmt c) \<noteq> []" using assms(6) piece_ids_claim by (metis set_empty)
  then obtain x tail where xt: "claim_line fmt c = x @ CHR 0x91 # tail"
    "\<And>t u. tail = t @ u \<Longrightarrow> citations (x @ CHR 0x91 # t) = piece_ids (claim_pieces fmt c)"
    using citations_cut [OF assms(5)] by (auto simp: claim_line_def)
  have "(claim_line fmt c, Some (cl_id c)) \<in> set (verifier_lines fmt d)"
    using assms(3,4) by (auto simp: verifier_lines_def)
  then have "x @ CHR 0x91 # tail \<in> set (map fst (verifier_lines fmt d))" using xt(1) by force
  then obtain t u where "tail = t @ u" "x @ CHR 0x91 # t \<in> set (text_lines (trim (verifier_form fmt d)))"
    using marked_line_read assms(1,2) unfolding one_line_each_free verifier_form_of by metis
  then show ?thesis using xt piece_ids_claim [of fmt c] by (auto simp: starts_with_iff intro!: bexI [of _ "x @ CHR 0x91 # t"])
qed

text \<open>
  C5: A passing verdict on the rendered form speaks of the draft: for every placed claim that refers to
  evidence, the verifier read a line of it that cites exactly the evidence the claim and its numbers
  refer to; all of it is registered, undisputed, unblocked and dated unless calculated; and every
  figure read on that line is supported by evidence of that claim. The texts must hold no line break
  and no citation token of their own, and the title must not begin with white space.
\<close>

theorem passing_form_vouches_for_draft:
  assumes "verify pats json_len (verifier_form fmt d) context t = Inr verdict"
    and "jget ''passed'' verdict = Some (JBool True)"
    and "one_line_each fmt d" "trim_start (verifier_form fmt d) = verifier_form fmt d"
    and "s \<in> set (dr_sections d)" "c \<in> set (section_claims d s)"
    and "runs_free [] (claim_pieces fmt c)" "claim_references c \<noteq> []"
  shows "\<exists>l \<in> set (text_lines (trim (verifier_form fmt d))).
      starts_with (claim_line fmt c) l \<and> set (citations l) = set (claim_references c)
      \<and> (\<forall>i \<in> set (claim_references c). sound_evidence (collect_registries context) i)
      \<and> (\<forall>n \<in> set (financial_numerals pats l). \<exists>i \<in> set (claim_references c). \<exists>f.
           map_of (rg_facts (collect_registries context)) i = Some f \<and> fact_supports_numeral f n)"
proof -
  obtain l where l: "l \<in> set (text_lines (trim (verifier_form fmt d)))" "starts_with (claim_line fmt c) l"
    "set (citations l) = set (claim_references c)"
    using claim_line_read [OF assms(3-8)] by blast
  have "findings pats (collect_registries context) (verifier_form fmt d) t = []"
    using verdict_passed [OF assms(1)] assms(2) by simp
  then have "\<forall>l \<in> set (text_lines (trim (verifier_form fmt d))).
         (\<forall>i \<in> set (citations l). sound_evidence (collect_registries context) i)
         \<and> (\<forall>n \<in> set (financial_numerals pats l). \<exists>i \<in> set (citations l). \<exists>f.
              map_of (rg_facts (collect_registries context)) i = Some f \<and> fact_supports_numeral f n)"
    unfolding findings_none_iff by blast
  with l show ?thesis by (metis (no_types, lifting))
qed

section \<open>A passing report\<close>

definition sample_ids :: "string list" where
  "sample_ids = [''evf_a'', ''evf_b'', ''evf_c'', ''evf_d'']"

definition cited_claim :: Claim where
  "cited_claim =
     \<lparr>cl_id = ''c'', cl_kind = ObservedFact, cl_statement = ''ok'', cl_evidence_ids = sample_ids, cl_numeric_items = [],
      cl_confidence = None, cl_uncertainty = None, cl_assumptions = [], cl_disclosed_conflicts = []\<rparr>"

definition cited_draft :: VerifiedReportDraft where
  "cited_draft = sample_draft\<lparr>dr_claims := [cited_claim]\<rparr>"

definition calculated_fact :: "string \<Rightarrow> RawFact" where
  "calculated_fact i = sample_fact\<lparr>rf_id := i, rf_source := ''astock-compute''\<rparr>"

definition one_figure :: patterns where
  "one_figure =
     \<lparr>mask = (\<lambda>l. if l = ''t'' \<or> l = ''h'' then l else '' 10''),
      captures = (\<lambda>t. if t = '' 10'' then [(1, 3, ''10'', None)] else [])\<rparr>"

abbreviation no_print :: "f64 \<Rightarrow> string" where
  "no_print \<equiv> (\<lambda>_. [])"

lemma statement_plain:
  "placeholder_labels ''ok'' = []" "substitute_numbers no_print ns ''ok'' = ''ok''" "substitute_numbers no_print ns ''t'' = ''t''"
  by (simp_all add: placeholder_labels.simps substitute_numbers.simps starts_with_def)

lemma cited_head: "claim_pieces no_print cited_claim
    = Inl [CHR 0xE3, CHR 0x80, CHR 0x90, CHR 0xE4, CHR 0xBA, CHR 0x8B, CHR 0xE5, CHR 0xAE, CHR 0x9E, CHR 0xE3, CHR 0x80, CHR 0x91, CHR ''o'', CHR ''k''] # map Inr sample_ids"
proof -
  have "trim ''ok'' = ''ok''" by (rule trim_literal) (simp_all add: whitespace_literal starts_with_def ends_with_def)
  then show ?thesis
    by (simp add: claim_pieces_def cited_claim_def statement_plain utf8_def utf8_char_def char_eval)
qed

lemma cited_runs: "runs_free [] (claim_pieces no_print cited_claim)"
proof -
  have "trim ''evf_a'' = ''evf_a''" "trim ''evf_b'' = ''evf_b''" "trim ''evf_c'' = ''evf_c''" "trim ''evf_d'' = ''evf_d''"
    by (rule trim_literal; simp add: whitespace_literal starts_with_def ends_with_def)+
  then show ?thesis
    unfolding cited_head sample_ids_def
    by (simp add: contains_def cite_open cite_close starts_with_def)
qed

lemma cited_section: "section_claims cited_draft \<lparr>rs_heading = ''h'', rs_claim_ids = [''c'']\<rparr> = [cited_claim]"
  by (simp add: section_claims_def cited_draft_def map_filter_simps cited_claim_def)

lemma cited_lines:
  "verifier_lines no_print cited_draft
     = [(''t'', None), (''h'', None), (claim_line no_print cited_claim, Some ''c'')]"
  using cited_section
  by (simp add: verifier_lines_def cited_draft_def sample_draft_def statement_plain report_level_prose_def numbered_def)
    (simp add: cited_claim_def)

lemma cited_newlines: "one_line_each no_print cited_draft"
  unfolding one_line_each_def cited_lines claim_line_def cited_head sample_ids_def
  by (simp add: piece_text_def cite_def cite_open cite_close newline_literal)

lemma cited_start: "trim_start (verifier_form no_print cited_draft) = verifier_form no_print cited_draft"
  unfolding verifier_form_of cited_lines
  by (subst trim_start.simps) (simp add: form_of_def whitespace_literal starts_with_def)

lemma cited_ids_read:
  "citations (claim_line no_print cited_claim) = sample_ids" "citations ''t'' = []" "citations ''h'' = []"
proof -
  obtain x tail where xt: "claim_line no_print cited_claim = x @ CHR 0x91 # tail"
    "\<And>t u. tail = t @ u \<Longrightarrow> citations (x @ CHR 0x91 # t) = piece_ids (claim_pieces no_print cited_claim)"
    using citations_cut [OF cited_runs] by (auto simp: claim_line_def cited_head piece_ids_def sample_ids_def)
  have "piece_ids (claim_pieces no_print cited_claim) = sample_ids"
    unfolding cited_head by (simp add: piece_ids_def sample_ids_def)
  then show "citations (claim_line no_print cited_claim) = sample_ids" using xt by simp
qed (rule citations_free, simp add: contains_def cite_open starts_with_def)+

lemma claim_last_line:
  assumes "\<forall>l \<in> set hs. newline \<notin> set l"
  shows "text_lines (trim_end (form_of (hs @ [claim_line no_print cited_claim])))
    = map strip_cr hs @ [claim_line no_print cited_claim]"
proof -
  let ?l = "claim_line no_print cited_claim"
  have free: "newline \<notin> set ?l" using cited_newlines unfolding one_line_each_free cited_lines by simp
  have "?l \<noteq> [] \<and> last ?l = CHR 0x91"
    unfolding claim_line_def cited_head sample_ids_def by (simp add: piece_text_def cite_def cite_close)
  then obtain x where x: "?l = x @ [CHR 0x91]" by (metis append_butlast_last_id)
  have form: "form_of (hs @ [?l]) = (form_of hs @ x) @ CHR 0x91 # [newline]" by (simp add: form_of_def x)
  obtain t u where t: "trim_end ((form_of hs @ x) @ CHR 0x91 # [newline]) = (form_of hs @ x) @ CHR 0x91 # t"
    "[newline] = t @ u"
    using trim_end_stops [OF close_not_space, of "form_of hs @ x" "[newline]"] by blast
  have cut: "trim_end (form_of (hs @ [?l])) = form_of hs @ ?l @ t" using t(1) form x by simp
  have "strip_cr ?l = ?l" unfolding x by (simp add: strip_cr_def byte_def)
  then have "text_lines (?l @ t) = [?l]"
    using t(2) free text_lines_step [of ?l "[]"] text_lines_single [of ?l] x
    by (auto simp: text_lines.simps [of "[]"] Cons_eq_append_conv)
  then show ?thesis unfolding cut using lines_of_form [OF assms, of "?l @ t"] by simp
qed

lemma cited_text:
  "text_lines (trim (verifier_form no_print cited_draft)) = [''t'', ''h'', claim_line no_print cited_claim]"
  using claim_last_line [of "[''t'', ''h'']"] cited_start
  unfolding trim_def cited_start unfolding verifier_form_of cited_lines
  by (simp add: strip_cr_def byte_def newline_literal)

lemma ten_figure: "financial_numerals one_figure (claim_line no_print cited_claim)
    = [\<lparr>rn_raw = ''10'', rn_value = f64_of_nat 10, rn_unit = None\<rparr>]"
proof -
  let ?h = "[CHR 0xE3, CHR 0x80, CHR 0x90, CHR 0xE4, CHR 0xBA, CHR 0x8B, CHR 0xE5, CHR 0xAE, CHR 0x9E, CHR 0xE3, CHR 0x80, CHR 0x91, CHR ''o'', CHR ''k'']"
  have "\<not> contains ?h CITE_OPEN" by (simp add: contains_def cite_open starts_with_def)
  then obtain rest where "split_once CITE_OPEN (claim_line no_print cited_claim) = Some (?h, rest)"
    using split_once_at [of "CHR 0xE3" "[CHR 0x80, CHR 0x90, CHR ''E'', CHR '':'']" ?h]
    unfolding claim_line_def cited_head sample_ids_def cite_open [symmetric] by (simp add: piece_text_def cite_def)
  moreover have "hd (claim_line no_print cited_claim) = CHR 0xE3"
    unfolding claim_line_def cited_head by (simp add: piece_text_def)
  ultimately have "hd (strip_citation_tokens (claim_line no_print cited_claim)) = CHR 0xE3"
    by (simp add: strip_citation_tokens.simps [of "claim_line no_print cited_claim"] split: option.split)
  then have "strip_citation_tokens (claim_line no_print cited_claim) \<noteq> ''t''"
    "strip_citation_tokens (claim_line no_print cited_claim) \<noteq> ''h''" by auto
  moreover have "mask_codes None (chars '' 10'') = '' 10''"
    by (simp add: mask_codes.simps is_cont_def byte_def)
  moreover have "parse_claim_number ''10'' None = Some (f64_of_nat 10)"
    by (simp add: parse_claim_number_def parse_f64_def replace_char_def split_sign_def starts_with_def digits_of_def
        is_ascii_digit_def byte_def ascii_lower_def parse_exponent_def read_digits_def f64_of_nat_def)
  ultimately show ?thesis
    by (simp add: financial_numerals_def one_figure_def claim_of_def identifier_adjacent_def identifier_byte_def
        is_ascii_alphabetic_def byte_def negative_sign_before_def map_filter_simps Let_def ends_with_def utf8_def utf8_char_def)
qed

lemma ten_equals_ten: "approximately_equal (f64_of_int 10) (f64_of_nat 10)"
proof -
  have int: "f64_of_int 10 = f64_of_nat 10" by (simp add: f64_of_int_def f64_of_nat_def)
  have ten: "f64_of_nat 10 = FNum False 5629499534213120 (- 49)" by (simp add: f64_eval)
  show ?thesis unfolding int approximately_equal_def ten
    by (simp add: f64_eval del: fadd.simps(1) flt.simps(1))
qed

lemma cited_verdict:
  "\<exists>verdict. verify one_figure (\<lambda>_. 0) (verifier_form no_print cited_draft)
       (verification_context sample_spec (map calculated_fact sample_ids)) sample_spec = Inr verdict
     \<and> jget ''passed'' verdict = Some (JBool True)"
proof -
  let ?form = "verifier_form no_print cited_draft"
  let ?ctx = "verification_context sample_spec (map calculated_fact sample_ids)"
  let ?r = "collect_registries ?ctx"
  have adm: "admitted (calculated_fact i)" if "i \<in> set sample_ids" for i
    using that by (auto simp: admitted_def calculated_fact_def sample_ids_def starts_with_def)
  have rows: "List.map_filter decode_strict (registries ?ctx) = map calculated_fact sample_ids"
    unfolding registries_verification by (rule map_filter_encode)
  have adms: "list_all admitted (map calculated_fact sample_ids)" using adm by (simp add: list_all_iff)
  have reg: "i \<notin> set (rg_conflicts ?r) \<and> map_of (rg_facts ?r) i = Some (calculated_fact i)"
    if i: "i \<in> set sample_ids" for i
  proof -
    have id: "rf_id (calculated_fact j) = j" for j by (simp add: calculated_fact_def)
    have "of_id i (map calculated_fact sample_ids) = [calculated_fact i]"
      using i adm by (auto simp: of_id_def sample_ids_def id)
    moreover have "list_all fact_ok (map calculated_fact sample_ids)"
      by (simp add: list_all_iff fact_ok_def calculated_fact_def sample_fact_def)
    ultimately have "registered (map calculated_fact sample_ids) i = Some (calculated_fact i, None)"
      using registered_spec [of "map calculated_fact sample_ids" i] by simp
    then show ?thesis using registry_lookup [OF rows adms, of i] by simp
  qed
  have sound: "sound_evidence ?r i" if "i \<in> set sample_ids" for i
    using reg that by (simp add: sound_evidence_def)
      (simp add: calculated_fact_def sample_fact_def is_derived_calculation_def)
  have support: "fact_supports_numeral (calculated_fact i) \<lparr>rn_raw = ''10'', rn_value = f64_of_nat 10, rn_unit = None\<rparr>" for i
    by (simp add: fact_supports_numeral_def calculated_fact_def sample_fact_def supported_by_def ten_equals_ten)
  have none: "financial_numerals one_figure ''t'' = []" "financial_numerals one_figure ''h'' = []"
    by (simp_all add: financial_numerals_def Let_def one_figure_def strip_citation_tokens.simps [of "[_]"] cite_open
        starts_with_def mask_codes.simps [of None "[_]"] map_filter_simps)
  have cites: "set (report_citations ?form) = set sample_ids"
    by (simp add: report_citations_def cited_text cited_ids_read)
  have "findings one_figure ?r ?form sample_spec = []"
    unfolding findings_none_iff cited_text cites
    using sound reg support by (auto simp: cited_ids_read ten_figure none minimum_citations_def sample_spec_def sample_ids_def)
  moreover have "\<exists>verdict. verify one_figure (\<lambda>_. 0) ?form ?ctx sample_spec = Inr verdict"
  proof (rule verify_returns)
    show "trim ?form \<noteq> []" using cited_text by (auto simp: text_lines.simps [of "[]"])
    show "\<not> MAX_REPORT_CHARS < char_count (trim ?form)"
    proof -
      have "length (trim ?form) \<le> length ?form"
        using trim_end_prefix [of ?form] cited_start by (metis le_add1 length_append trim_def)
      moreover have "length ?form \<le> 200"
        unfolding verifier_form_of cited_lines claim_line_def cited_head sample_ids_def
        by (simp add: form_of_def piece_text_def cite_def cite_open cite_close)
      ultimately show ?thesis using char_count_le [of "trim ?form"] by (simp add: MAX_REPORT_CHARS_def)
    qed
    show "jget ''task_spec'' ?ctx = Some (task_spec_json sample_spec)" by (simp add: verification_context_def jobject_def)
  qed simp
  ultimately show ?thesis using verdict_passed by fastforce
qed

lemma passing_form_vouches_for_draft_witness:
  "\<exists>l \<in> set (text_lines (trim (verifier_form no_print cited_draft))).
      set (citations l) = {''evf_a'', ''evf_b'', ''evf_c'', ''evf_d''}"
proof -
  obtain verdict where v: "verify one_figure (\<lambda>_. 0) (verifier_form no_print cited_draft)
       (verification_context sample_spec (map calculated_fact sample_ids)) sample_spec = Inr verdict"
    "jget ''passed'' verdict = Some (JBool True)"
    using cited_verdict by blast
  have sec: "\<lparr>rs_heading = ''h'', rs_claim_ids = [''c'']\<rparr> \<in> set (dr_sections cited_draft)"
    "cited_claim \<in> set (section_claims cited_draft \<lparr>rs_heading = ''h'', rs_claim_ids = [''c'']\<rparr>)"
    using cited_section by (simp_all add: cited_draft_def sample_draft_def)
  have ids: "claim_references cited_claim = [''evf_a'', ''evf_b'', ''evf_c'', ''evf_d'']"
    by (simp add: claim_references_def cited_claim_def sample_ids_def)
  then have "claim_references cited_claim \<noteq> []" by simp
  then obtain l where "l \<in> set (text_lines (trim (verifier_form no_print cited_draft)))"
    "set (citations l) = set (claim_references cited_claim)"
    using passing_form_vouches_for_draft [OF v cited_newlines cited_start sec cited_runs] by blast
  then show ?thesis unfolding ids by auto
qed

section \<open>A blank title\<close>

definition untitled :: VerifiedReportDraft where
  "untitled = cited_draft\<lparr>dr_title := []\<rparr>"

definition calculated_descriptors :: descriptor_map where
  "calculated_descriptors = map (\<lambda>i. (i, descriptor_of [] (calculated_fact i))) sample_ids"

lemma no_attribution: "attribution_for path [] = None"
  by (induction path "[] :: (string \<times> Attribution) list" rule: attribution_for.induct)
    (simp add: attribution_for.simps split: option.split)

lemma untitled_valid: "validate_draft plain_printer untitled calculated_descriptors [] = []"
proof -
  have "trim ''ok'' = ''ok''" by (rule trim_literal) (simp_all add: whitespace_literal starts_with_def ends_with_def)
  moreover have look: "map_of calculated_descriptors i = Some (descriptor_of [] (calculated_fact i))" if "i \<in> set sample_ids" for i
    using that unfolding calculated_descriptors_def map_of_map_restrict by simp
  have "ed_symbol (descriptor_of [] f) = None \<and> \<not> ed_conflicting (descriptor_of [] f)" for f
    by (simp add: descriptor_of_def no_attribution)
  then have "reference_problems calculated_descriptors [] cited_claim i = []"
    "\<not> (case map_of calculated_descriptors i of Some d \<Rightarrow> ed_conflicting d | None \<Rightarrow> False)" if "i \<in> set sample_ids" for i
    unfolding reference_problems_Nil look [OF that] by simp_all
  moreover have "claim_references cited_claim = sample_ids" by (simp add: claim_references_def cited_claim_def)
  ultimately have "validate_claim plain_printer calculated_descriptors [] cited_claim = []"
    by (simp add: validate_claim_def says_def undisclosed_def conflicting_references_def)
      (simp add: cited_claim_def kind_problems_def sample_ids_def MAX_STATEMENT_CHARS_def MAX_EVIDENCE_PER_CLAIM_def
        MAX_NUMERIC_ITEMS_PER_CLAIM_def statement_plain char_count_def byte_def)
  moreover have "validate_free_text plain_printer untitled reg = []" for reg
    by (simp add: validate_free_text_def report_fields_def heading_fields_def claim_fields_def untitled_def cited_draft_def
        sample_draft_def numbered_def check_references_def check_prose_def map_filter_def placeholder_labels.simps [of "[]"])
  ultimately show ?thesis
    by (simp add: validate_draft_def untitled_def cited_draft_def sample_draft_def MAX_CLAIMS_def MAX_SECTIONS_def says_def)
      (simp add: cited_claim_def)
qed

lemma untitled_lines:
  "verifier_lines no_print untitled = [([], None), (''h'', None), (claim_line no_print cited_claim, Some ''c'')]"
proof -
  have "section_claims untitled = section_claims cited_draft" by (simp add: section_claims_def untitled_def fun_eq_iff)
  moreover have "substitute_numbers no_print ns [] = []" for ns by (simp add: substitute_numbers.simps)
  ultimately show ?thesis
    using cited_section
    by (simp add: verifier_lines_def untitled_def cited_draft_def sample_draft_def statement_plain report_level_prose_def numbered_def)
      (simp add: cited_claim_def)
qed

lemma untitled_text: "text_lines (trim (verifier_form no_print untitled)) = [strip_cr ''h'', claim_line no_print cited_claim]"
proof -
  let ?form = "form_of [''h'', claim_line no_print cited_claim]"
  have "verifier_form no_print untitled = newline # ?form"
    unfolding verifier_form_of untitled_lines by (simp add: form_of_def)
  moreover have "trim_start ?form = ?form"
    by (subst trim_start.simps) (simp add: form_of_def whitespace_literal starts_with_def)
  moreover have "trim_start (newline # s) = trim_start s" for s
    by (subst trim_start.simps) (simp add: whitespace_literal newline_literal starts_with_def)
  ultimately have "trim (verifier_form no_print untitled) = trim_end ?form" by (simp add: trim_def)
  then show ?thesis using claim_last_line [of "[''h'']"] by (simp add: newline_literal)
qed

text \<open>
  A validated draft may have a blank title. The verifier trims the form, reads the claim on its second
  line and reports positions by that count, while the index still has the claim on the third: its
  findings reach no claim.
\<close>

theorem blank_title_shifts_lines:
  "validate_draft plain_printer untitled calculated_descriptors [] = []
   \<and> text_lines (trim (verifier_form no_print untitled)) ! 1 = claim_line no_print cited_claim
   \<and> map_of (verifier_line_claims no_print untitled) 2 = None
   \<and> map_of (verifier_line_claims no_print untitled) 3 = Some ''c''"
proof -
  have "map_of (verifier_line_claims no_print untitled) 2 = None"
    "map_of (verifier_line_claims no_print untitled) 3 = Some ''c''"
    using verifier_line_claims_at [of no_print untitled 1] verifier_line_claims_at [of no_print untitled 2]
    unfolding untitled_lines by (simp_all add: eval_nat_numeral)
  then show ?thesis using untitled_valid untitled_text by simp
qed

end
