(* ===== verification/Agent_Finalize.thy ===== *)
theory Agent_Finalize
  imports Report_Form
begin

text \<open>
  Finalization, \<open>crates/agent-runtime/src/finalize.rs\<close>: the ledger that bounds submissions and detects
  resubmission, and the two repair responses (a draft that failed the contract, a draft the verifier
  refused). The fingerprint of a draft is its serialization, a parameter. Main facts: the verdict on the
  n-th rejection is a function of n and of how often that draft came before, and the last permitted
  one always ends; a finding on a figure is addressed by the number of the line it was read on, which
  is the claim's own when no rendered text holds a line break and the form does not begin with a blank line; and the repair response is bounded and counts what it omits.
\<close>

definition MAX_REPORTED_PROBLEMS :: nat where "MAX_REPORTED_PROBLEMS = 40"
definition MAX_REPAIR_TARGETS :: nat where "MAX_REPAIR_TARGETS = 64"
definition MAX_TOKENS_PER_TARGET :: nat where "MAX_TOKENS_PER_TARGET = 24"

section \<open>The ledger\<close>

datatype ExhaustionReason = BudgetSpent | NoProgress

fun exhaustion_as_str :: "ExhaustionReason \<Rightarrow> string" where
  "exhaustion_as_str BudgetSpent = ''finalization_budget_spent''"
| "exhaustion_as_str NoProgress = ''no_progress_identical_resubmission''"

datatype RepairVerdict =
    Retry nat nat bool
  | Exhausted nat ExhaustionReason

fun is_exhausted :: "RepairVerdict \<Rightarrow> bool" where
  "is_exhausted (Exhausted _ _) = True"
| "is_exhausted (Retry _ _ _) = False"

record FinalizationLedger =
  max_attempts :: nat
  attempts :: nat
  seen :: "(string \<times> nat) list"

definition ledger_new :: "nat \<Rightarrow> FinalizationLedger" where
  "ledger_new m = \<lparr>max_attempts = max m 1, attempts = 0, seen = []\<rparr>"

definition record_rejection :: "string \<Rightarrow> FinalizationLedger \<Rightarrow> FinalizationLedger \<times> RepairVerdict" where
  "record_rejection fingerprint l =
     (let n = usize_saturating_add (attempts l) 1;
          repeats = (case map_of (seen l) fingerprint of Some k \<Rightarrow> k | None \<Rightarrow> 0) + 1;
          l' = l\<lparr>attempts := n, seen := btree_insert fingerprint repeats (seen l)\<rparr>
      in (l', if 2 < repeats then Exhausted n NoProgress
              else if max_attempts l \<le> n then Exhausted n BudgetSpent
              else Retry n (max_attempts l - n) (1 < repeats)))"

section \<open>What to do about a problem\<close>

definition validation_actions :: "(string list \<times> string) list" where
  "validation_actions =
   [
    ([''unknown_evidence''],
       ''This identifier is not in the task's evidence catalog. Call search_evidence and use an identifier ''
       @ ''it returns, or restate the claim with kind=unknown. Never guess an identifier.''),
    ([''missing_evidence''],
       ''Attach at least one evidence_id from search_evidence. If no evidence supports it, either gather the ''
       @ ''data first or restate the claim with kind=unknown.''),
    ([''unsupported_observed_number''],
       ''The claim kind does not permit this number's provenance. An observed_fact carries only observed ''
       @ ''numbers, a deterministic_calculation only calculated ones, an estimate only estimated ones; ''
       @ ''inference and unknown carry no numbers at all. Change the kind or change how the number is sourced.''),
    ([''missing_calculation_provenance''],
       ''A calculated number needs the calculation that produced it. Run run_financial_calculation, then ''
       @ ''cite its result as calculation_evidence_id together with operation and input_evidence_ids.''),
    ([''invalid_estimate''],
       ''An estimate must name its method and its basis evidence, and must not stand in for a quantity the ''
       @ ''Engine can compute. Compute it with run_financial_calculation instead, or supply a real method and ''
       @ ''a range.''),
    ([''scenario_without_assumption''],
       ''A scenario must state what is assumed. Put it in assumptions, or mark the driving number with ''
       @ ''provenance=user_assumption.''),
    ([''conflicting_evidence''],
       ''This evidence conflicts with another registration of the same fact. List the identifiers in ''
       @ ''disclosed_conflicts and say in the statement what disagrees. Do not silently pick one side.''),
    ([''number_disagrees_with_evidence''],
       ''The value you declared is not the value the cited evidence contains. Read the value back from ''
       @ ''search_evidence and use it exactly, or cite the identifier that actually holds this figure. Do not ''
       @ ''round: a rounded figure is a different figure.''),
    ([''figure_in_free_text''],
       ''This figure is not declared by the claim and is not in the evidence it cites, so nothing verifies ''
       @ ''it. Declare it as a numeric_item with its provenance, or reference an existing one by label in ''
       @ ''braces: `statement: \"'' @ utf8 [25910, 30424, 20215] @ ''{'' @ utf8 [25910, 30424, 20215] @ ''}'' @ utf8 [65292, 25104, 20132, 39069] @ ''{'' @ utf8 [25104, 20132, 39069] @ ''}\"` with numeric_items labelled `'' @ utf8 [25910, 30424, 20215] @ ''` and `'' @ utf8 [25104, 20132, 39069] @ ''`. The runtime ''
       @ ''substitutes the verified value and unit, so the sentence reads normally and the figure is checked, ''
       @ ''and the number lives in exactly one place. Braces work in statements, and in executive_summary, ''
       @ ''overall_uncertainty and limitations where a label may come from any claim. Do not delete the ''
       @ ''figure: a report that states no checkable quantity is refused as well. Write no formulas in prose; ''
       @ ''put the operation on the numeric_item.''),
    ([''unknown_number_reference''],
       ''This prose references a number in braces that nothing declares. In a statement the label must be ''
       @ ''one of that claim's numeric_items; in executive_summary, overall_uncertainty or limitations it may ''
       @ ''be any claim's label. Add the numeric_item or correct the label.''),
    ([''ambiguous_number_reference''],
       ''Two claims declare this label with different values, so a report-level reference cannot be ''
       @ ''resolved. Give the two numbers distinct labels.''),
    ([''evidence_outside_task_scope''],
       ''This evidence belongs to a different security than the task covers. Remove it, or cite evidence for ''
       @ ''the security under research.''),
    ([''duplicate_claim_id''],
       ''Claim identifiers must be unique within the draft.''),
    ([''section_references_unknown_claim''],
       ''A section lists a claim_id that no claim defines. Add the claim or remove the reference.''),
    ([''claim_not_in_any_section''],
       ''Every claim must appear in at least one section, or it would never be shown. Place it or remove it. ''
       @ ''Listing one claim in several sections renders it several times, so prefer a claim per point.''),
    ([''empty_statement''],
       ''A claim needs a statement in the task output_language.''),
    ([''oversized''],
       ''Split the content so each bound is respected. Nothing is truncated for you.''),
    ([''contract_version_mismatch''],
       ''Send the contract version the schema specifies, unchanged.'')
   ]"

definition validation_action :: "string \<Rightarrow> string" where
  "validation_action code =
     (case find (\<lambda>(codes, _). code \<in> set codes) validation_actions of Some (_, act) \<Rightarrow> act
      | None \<Rightarrow> ''Correct this claim before resubmitting.'')"

definition verification_actions :: "(string list \<times> string) list" where
  "verification_actions =
   [
    ([''numeric_claim_without_evidence''],
       ''This claim states a quantity with no citation on it. Move the figure into a numeric_item with real ''
       @ ''provenance, or attach the evidence_id it came from.''),
    ([''numeric_claim_not_reproduced''],
       ''The independent verifier could not reproduce this figure from the evidence the claim cites. Either ''
       @ ''cite the evidence that actually contains the value, or compute it with run_financial_calculation ''
       @ ''and cite that result. Do not restate it as an estimate to get past this.''),
    ([''invalid_numeric_claim''],
       ''This figure could not be parsed as a quantity. State the number plainly with a unit.''),
    ([''unknown_evidence_id'', ''invalid_or_conflicting_evidence_id''],
       ''The verifier rejected this identifier. Re-run search_evidence and cite what it returns; if it ''
       @ ''reports a conflict, disclose it.''),
    ([''quality_blocking_evidence''],
       ''This evidence is marked quality-blocking and cannot support a published claim. Find an adequate ''
       @ ''source or state the gap.''),
    ([''evidence_time_missing''],
       ''This observation carries no time, so it cannot support a dated or current claim. Cite an identifier ''
       @ ''that has an observation time '' @ utf8 [8212] @ '' search_evidence marks the ones that do not.''),
    ([''evidence_version_missing'', ''evidence_source_missing''],
       ''This evidence lacks source provenance the verifier requires. Cite a different identifier for the ''
       @ ''same fact.''),
    ([''insufficient_distinct_evidence''],
       ''The report cites too few distinct pieces of evidence for its evidence requirement. Cite the ''
       @ ''evidence the research actually used rather than summarising it away.''),
    ([''report_contains_no_verifiable_numeric_claims''],
       ''The report states no checkable quantity. If a previous round asked you to stop writing digits in ''
       @ ''prose, the answer was to declare the figure and reference it by label, not to remove it. A research ''
       @ ''conclusion needs the figures it rests on.'')
   ]"

definition verification_action :: "string \<Rightarrow> string" where
  "verification_action code =
     (case find (\<lambda>(codes, _). code \<in> set codes) verification_actions of Some (_, act) \<Rightarrow> act
      | None \<Rightarrow> ''Resolve this finding before resubmitting.'')"

section \<open>Reading a finding\<close>

definition split_code :: "string \<Rightarrow> string \<times> string option" where
  "split_code finding =
     (case split_once '':'' finding of Some (code, rest) \<Rightarrow> (code, Some rest) | None \<Rightarrow> (finding, None))"

text \<open>\<open>str::parse::<usize>\<close>\<close>

definition parse_usize :: "string \<Rightarrow> nat option" where
  "parse_usize s =
     (let ds = (if starts_with s ''+'' then drop 1 s else s)
      in if ds = [] \<or> \<not> list_all is_ascii_digit ds \<or> u64_max < read_digits ds then None
         else Some (read_digits ds))"

definition first_token :: "string \<Rightarrow> string" where
  "first_token detail = (case split_once '':'' detail of Some (t, _) \<Rightarrow> t | None \<Rightarrow> detail)"

definition claim_for_finding :: "string option \<Rightarrow> (nat \<times> string) list \<Rightarrow> string option" where
  "claim_for_finding detail line_claims =
     Option.bind detail (\<lambda>d.
       if starts_with (first_token d) ''line_''
       then Option.bind (parse_usize (drop 5 (first_token d))) (map_of line_claims) else None)"

section \<open>Repair responses\<close>

text \<open>\<open>BTreeSet::insert\<close> and \<open>entry(k).or_default().insert(v)\<close>\<close>

definition bset_insert :: "'a::linorder \<Rightarrow> 'a list \<Rightarrow> 'a list" where
  "bset_insert x s = (if x \<in> set s then s else insort x s)"

type_synonym groups = "(string \<times> string list) list"

definition group_insert :: "string \<Rightarrow> string \<Rightarrow> groups \<Rightarrow> groups" where
  "group_insert k v m = btree_insert k (bset_insert v (case map_of m k of Some s \<Rightarrow> s | None \<Rightarrow> [])) m"

definition group_all :: "(string \<times> string) list \<Rightarrow> groups" where
  "group_all kvs = fold (\<lambda>(k, v). group_insert k v) kvs []"

definition bset_of :: "string list \<Rightarrow> string list" where
  "bset_of xs = fold bset_insert xs []"

definition json_strings :: "string list \<Rightarrow> json" where
  "json_strings xs = JArr (map JStr xs)"

fun verdict_fields :: "RepairVerdict \<Rightarrow> (string \<times> json) list" where
  "verdict_fields (Retry attempt remaining unchanged) =
     [(''attempt'', JInt (int attempt)), (''attempts_remaining'', JInt (int remaining)),
      (''instruction'', JStr (if unchanged
         then ''You resubmitted a draft identical to the one just rejected, so nothing was repaired. Change ''
           @ ''the listed claims themselves. If a claim cannot be supported, remove it or restate it as ''
           @ ''kind=unknown '' @ utf8 [8212] @ '' that is a valid report, an unsupported figure is not.''
         else ''Repair only the listed claims and resubmit the complete draft. Leave every other claim ''
           @ ''byte-identical. Do not weaken a claim's kind to get past a check.''))]"
| "verdict_fields (Exhausted attempt reason) =
     [(''attempt'', JInt (int attempt)), (''attempts_remaining'', JInt 0),
      (''exhausted'', JStr (exhaustion_as_str reason)),
      (''instruction'', JStr (''No finalization attempts remain. The report will not be published. Nothing ''
         @ ''further is required from you.''))]"

definition envelope :: "string \<Rightarrow> RepairVerdict \<Rightarrow> nat \<Rightarrow> (string \<times> json) list" where
  "envelope stage verdict n =
     [(''ok'', JBool False), (''stage'', JStr stage), (''problem_count'', JInt (int n))] @ verdict_fields verdict"

text \<open>The fields of the targets, before the tokens are added.\<close>

definition repair_targets :: "groups \<Rightarrow> (string \<Rightarrow> string) \<Rightarrow> (string \<times> (string \<times> json) list) list" where
  "repair_targets grouped action_for =
     map (\<lambda>(claim_id, codes).
         (claim_id, [(''claim_id'', JStr claim_id), (''codes'', json_strings codes),
                     (''actions'', json_strings (map action_for codes))]))
       (take MAX_REPAIR_TARGETS grouped)"

definition tokens :: "string \<Rightarrow> nat \<Rightarrow> groups \<Rightarrow> string \<Rightarrow> (string \<times> json) list" where
  "tokens key limit g claim_id =
     (case map_of g claim_id of Some ts \<Rightarrow> [(key, json_strings (take limit ts))] | None \<Rightarrow> [])"

definition report_level_actions :: "(string \<Rightarrow> string) \<Rightarrow> string list \<Rightarrow> (string \<times> json) list" where
  "report_level_actions action_for codes =
     (if codes = [] then []
      else [(''report_level'', JArr (map (\<lambda>c. jobject [(''code'', JStr c), (''action'', JStr (action_for c))]) codes))])"

definition omitted :: "string \<Rightarrow> nat \<Rightarrow> (string \<times> json) list" where
  "omitted key n = (if MAX_REPORTED_PROBLEMS < n then [(key, JInt (int (n - MAX_REPORTED_PROBLEMS)))] else [])"

fun problem_fields :: "DraftProblem \<Rightarrow> (string \<times> json) list" where
  "problem_fields (ContractVersionMismatch supplied expected) = [(''supplied'', JStr supplied), (''expected'', JStr expected)]"
| "problem_fields (Oversized what actual maximum) =
     [(''what'', JStr what), (''actual'', JInt (int actual)), (''maximum'', JInt (int maximum))]"
| "problem_fields (DuplicateClaimId c) = [(''claim_id'', JStr c)]"
| "problem_fields (SectionReferencesUnknownClaim h c) = [(''heading'', JStr h), (''claim_id'', JStr c)]"
| "problem_fields (ClaimNotInAnySection c) = [(''claim_id'', JStr c)]"
| "problem_fields (EmptyStatement c) = [(''claim_id'', JStr c)]"
| "problem_fields (UnknownEvidence c i) = [(''claim_id'', JStr c), (''supplied_id'', JStr i)]"
| "problem_fields (MissingEvidence c s) = [(''claim_id'', JStr c), (''statement'', JStr s)]"
| "problem_fields (UnsupportedObservedNumber c l v) = [(''claim_id'', JStr c), (''label'', JStr l), (''value'', JFloat v)]"
| "problem_fields (MissingCalculationProvenance c l v) = [(''claim_id'', JStr c), (''label'', JStr l), (''value'', JFloat v)]"
| "problem_fields (InvalidEstimate c l r) = [(''claim_id'', JStr c), (''label'', JStr l), (''reason'', JStr r)]"
| "problem_fields (ScenarioWithoutAssumption c) = [(''claim_id'', JStr c)]"
| "problem_fields (ConflictingEvidence c is) = [(''claim_id'', JStr c), (''evidence_ids'', json_strings is)]"
| "problem_fields (EvidenceOutsideTaskScope c i) = [(''claim_id'', JStr c), (''evidence_id'', JStr i)]"
| "problem_fields (FigureInFreeText c f n) =
     [(''claim_id'', option_json c), (''field'', JStr f), (''numeral'', JStr n)]"
| "problem_fields (AmbiguousNumberReference l) = [(''label'', JStr l)]"
| "problem_fields (UnknownNumberReference c l) = [(''claim_id'', JStr c), (''label'', JStr l)]"
| "problem_fields (NumberDisagreesWithEvidence c l v i) =
     [(''claim_id'', JStr c), (''label'', JStr l), (''declared'', JFloat v), (''evidence_id'', JStr i)]"

definition problem_json :: "DraftProblem \<Rightarrow> json" where
  "problem_json p = jobject ((''problem'', JStr (problem_code p)) # problem_fields p)"

definition claim_codes :: "DraftProblem list \<Rightarrow> (string \<times> string) list" where
  "claim_codes problems = List.map_filter (\<lambda>p. map_option (\<lambda>c. (c, problem_code p)) (problem_claim_id p)) problems"

fun figure_token :: "DraftProblem \<Rightarrow> (string \<times> string) option" where
  "figure_token (FigureInFreeText (Some c) fd n) = Some (c, fd @ '': '' @ n)"
| "figure_token _ = None"

fun unknown_token :: "DraftProblem \<Rightarrow> (string \<times> string) option" where
  "unknown_token (UnknownEvidence c i) = Some (c, i)"
| "unknown_token _ = None"

definition validation_repair :: "DraftProblem list \<Rightarrow> RepairVerdict \<Rightarrow> json" where
  "validation_repair problems verdict =
     (let undeclared = group_all (List.map_filter figure_token problems);
          unknown_ids = group_all (List.map_filter unknown_token problems);
          report_level = bset_of (map problem_code (filter (\<lambda>p. problem_claim_id p = None) problems));
          repair = map (\<lambda>(c, fs). jobject (fs @ tokens ''figures_to_move'' MAX_TOKENS_PER_TARGET undeclared c
                       @ tokens ''unknown_evidence_ids'' MAX_TOKENS_PER_TARGET unknown_ids c))
                     (repair_targets (group_all (claim_codes problems)) validation_action)
      in jobject (envelope ''validation'' verdict (length problems)
           @ [(''problems'', JArr (map problem_json (take MAX_REPORTED_PROBLEMS problems)))]
           @ omitted ''problems_omitted'' (length problems)
           @ [(''repair'', JArr repair)]
           @ report_level_actions validation_action report_level))"

text \<open>A finding is about a claim, about an identifier, or about the report.\<close>

definition finding_claim :: "(nat \<times> string) list \<Rightarrow> string \<Rightarrow> string option" where
  "finding_claim line_claims f = claim_for_finding (snd (split_code f)) line_claims"

definition finding_value :: "string \<Rightarrow> string option" where
  "finding_value f =
     (case Option.bind (snd (split_code f)) (split_once '':'') of
        Some (_, v) \<Rightarrow> if v = [] then None else Some v | None \<Rightarrow> None)"

definition finding_evidence :: "string \<Rightarrow> string option" where
  "finding_evidence f = (case snd (split_code f) of Some i \<Rightarrow> if starts_with i ''evf_'' then Some i else None | None \<Rightarrow> None)"

definition verification_repair :: "string list \<Rightarrow> (nat \<times> string) list \<Rightarrow> RepairVerdict \<Rightarrow> json" where
  "verification_repair fs line_claims verdict =
     (let claimed = List.map_filter (\<lambda>f. map_option (\<lambda>c. (c, f)) (finding_claim line_claims f)) fs;
          others = filter (\<lambda>f. finding_claim line_claims f = None) fs;
          grouped = group_all (map (\<lambda>(c, f). (c, fst (split_code f))) claimed);
          unreproduced = group_all (List.map_filter (\<lambda>(c, f). map_option (Pair c) (finding_value f)) claimed);
          evidence_level = group_all (List.map_filter (\<lambda>f. map_option (Pair (fst (split_code f))) (finding_evidence f)) others);
          report_level = bset_of (map (fst \<circ> split_code) (filter (\<lambda>f. finding_evidence f = None) others));
          repair = map (\<lambda>(c, ts). jobject (ts @ tokens ''unverified_values'' 8 unreproduced c))
                     (repair_targets grouped verification_action)
      in jobject (envelope ''verification'' verdict (length fs)
           @ [(''findings'', json_strings (take MAX_REPORTED_PROBLEMS fs))]
           @ omitted ''findings_omitted'' (length fs)
           @ [(''repair'', JArr repair)]
           @ (if evidence_level = [] then []
              else [(''evidence_level'', JArr (map (\<lambda>(code, ids).
                 jobject [(''code'', JStr code), (''evidence_ids'', json_strings (take 12 ids)),
                   (''action'', JStr (verification_action code))]) evidence_level))])
           @ report_level_actions verification_action report_level))"

section \<open>Properties\<close>

text \<open>The verdicts on a run of rejections.\<close>

fun verdicts :: "FinalizationLedger \<Rightarrow> string list \<Rightarrow> RepairVerdict list" where
  "verdicts l [] = []"
| "verdicts l (f # fs) = snd (record_rejection f l) # verdicts (fst (record_rejection f l)) fs"

text \<open>What the verdict must be when the draft \<open>f\<close> is rejected after the drafts \<open>before\<close>.\<close>

definition due_verdict :: "nat \<Rightarrow> string list \<Rightarrow> string \<Rightarrow> RepairVerdict" where
  "due_verdict m before f =
     (let n = Suc (length before)
      in if 2 \<le> count_list before f then Exhausted n NoProgress
         else if max m 1 \<le> n then Exhausted n BudgetSpent
         else Retry n (max m 1 - n) (f \<in> set before))"

definition ledger_after :: "nat \<Rightarrow> string list \<Rightarrow> FinalizationLedger \<Rightarrow> bool" where
  "ledger_after m before l \<longleftrightarrow>
     max_attempts l = max m 1 \<and> attempts l = length before
     \<and> (\<forall>f. map_of (seen l) f = (if f \<in> set before then Some (count_list before f) else None))"

lemma record_rejection_after:
  assumes "ledger_after m before l" "length before < u64_max"
  shows "ledger_after m (before @ [f]) (fst (record_rejection f l)) \<and> snd (record_rejection f l) = due_verdict m before f"
proof -
  have mem: "count_list before f = 0 \<longleftrightarrow> f \<notin> set before" "0 < count_list before f \<longleftrightarrow> f \<in> set before"
    using count_list_0_iff [of before f] by auto
  then have "(case map_of (seen l) f of Some k \<Rightarrow> k | None \<Rightarrow> 0) = count_list before f"
    using assms(1) by (auto simp: ledger_after_def)
  moreover have "usize_saturating_add (attempts l) 1 = Suc (length before)"
    using assms by (simp add: ledger_after_def usize_saturating_add_def)
  ultimately show ?thesis using assms(1) mem
    by (auto simp: record_rejection_def ledger_after_def due_verdict_def Let_def btree.get_put)
qed

lemma verdicts_after:
  "ledger_after m before l \<Longrightarrow> length before + length fs \<le> u64_max \<Longrightarrow> i < length fs \<Longrightarrow>
    verdicts l fs ! i = due_verdict m (before @ take i fs) (fs ! i)"
proof (induction fs arbitrary: before l i)
  case (Cons f fs)
  have step: "ledger_after m (before @ [f]) (fst (record_rejection f l))" "snd (record_rejection f l) = due_verdict m before f"
    using record_rejection_after [OF Cons.prems(1), of f] Cons.prems(2) by simp_all
  show ?case
  proof (cases i)
    case (Suc j)
    then show ?thesis using Cons.IH [OF step(1), of j] Cons.prems(2,3) by simp
  qed (use step in simp)
qed simp

text \<open>
  C33: The verdict on each rejected draft depends only on how many were rejected before and how often it
  was among them: the third time ends finalization, and so does the last permitted attempt; until
  then the attempts used and those remaining add up to the budget. A budget of zero counts as one.
\<close>

theorem ledger_verdicts:
  assumes "length fs \<le> u64_max" "i < length fs"
  shows "verdicts (ledger_new m) fs ! i = due_verdict m (take i fs) (fs ! i)
    \<and> (max m 1 \<le> Suc i \<longrightarrow> is_exhausted (verdicts (ledger_new m) fs ! i))
    \<and> (\<forall>n k b. verdicts (ledger_new m) fs ! i = Retry n k b \<longrightarrow> n = Suc i \<and> 0 < k \<and> n + k = max m 1)"
proof -
  have "ledger_after m [] (ledger_new m)" by (simp add: ledger_after_def ledger_new_def)
  then have v: "verdicts (ledger_new m) fs ! i = due_verdict m (take i fs) (fs ! i)"
    using verdicts_after [of m "[]" "ledger_new m" fs i] assms by simp
  then show ?thesis using assms(2) by (auto simp: due_verdict_def Let_def split: if_splits)
qed

lemma ledger_verdicts_witness:
  "verdicts (ledger_new 5) [''a'', ''a'', ''b'', ''a''] ! 3 = Exhausted 4 NoProgress"
proof -
  have "verdicts (ledger_new 5) [''a'', ''a'', ''b'', ''a''] ! 3
      = due_verdict 5 (take 3 [''a'', ''a'', ''b'', ''a'']) ([''a'', ''a'', ''b'', ''a''] ! 3)"
    using ledger_verdicts [of "[''a'', ''a'', ''b'', ''a'']" 3 5] by (simp add: u64_max_def)
  then show ?thesis by (simp add: due_verdict_def eval_nat_numeral)
qed

section \<open>Findings and claims\<close>

lemma split_once_char: "c \<notin> set l \<Longrightarrow> split_once [c] (l @ c # rest) = Some (l, rest)"
  by (induction l) (auto simp: starts_with_def)

lemma split_once_no_char: "c \<notin> set l \<Longrightarrow> split_once [c] l = None"
  by (induction l) (auto simp: starts_with_def)

lemma parse_show_usize: "n \<le> u64_max \<Longrightarrow> parse_usize (show_nat n) = Some n"
proof -
  assume n: "n \<le> u64_max"
  have "list_all is_ascii_digit (show_nat n)" using show_nat_digits by (auto simp: list_all_iff)
  moreover have "\<not> starts_with (show_nat n) ''+''"
  proof
    assume "starts_with (show_nat n) ''+''"
    then have "CHR ''+'' \<in> set (show_nat n)" by (auto simp: starts_with_iff)
    then show False using show_nat_digits [of "CHR ''+''" n] by (simp add: is_ascii_digit_def byte_def)
  qed
  ultimately show ?thesis using n by (simp add: parse_usize_def)
qed

lemma line_claim:
  assumes "n \<le> u64_max" "tail = [] \<or> (\<exists>t. tail = CHR '':'' # t)"
  shows "claim_for_finding (Some (''line_'' @ show_nat n @ tail)) line_claims = map_of line_claims n"
proof -
  have "first_token (pre @ tail) = pre" if "CHR '':'' \<notin> set pre" for pre
    using assms(2) split_once_char [OF that] split_once_no_char [OF that] by (auto simp: first_token_def)
  moreover have "CHR '':'' \<notin> set (''line_'' @ show_nat n)"
    using show_nat_digits [of "CHR '':''" n] by (auto simp: is_ascii_digit_def byte_def)
  ultimately have "first_token ((''line_'' @ show_nat n) @ tail) = ''line_'' @ show_nat n" by blast
  then show ?thesis using parse_show_usize [OF assms(1)]
    by (simp add: claim_for_finding_def starts_with_def)
qed

lemma split_code_at: "CHR '':'' \<notin> set code \<Longrightarrow> split_code (code @ CHR '':'' # rest) = (code, Some rest)"
  by (simp add: split_code_def split_once_char)

text \<open>
  The lines of the form as text: a piece with line breaks is several lines, all of the same claim.
\<close>

fun broken_lines :: "string \<Rightarrow> string list" where
  "broken_lines [] = [[]]"
| "broken_lines (c # s) =
     (if c = newline then [] # broken_lines s
      else (case broken_lines s of [] \<Rightarrow> [[c]] | l # ls \<Rightarrow> (c # l) # ls))"

definition rendered_lines :: "(f64 \<Rightarrow> string) \<Rightarrow> VerifiedReportDraft \<Rightarrow> (string \<times> string option) list" where
  "rendered_lines fmt d = concat (map (\<lambda>(l, claim). map (\<lambda>p. (p, claim)) (broken_lines l)) (verifier_lines fmt d))"

text \<open>The blank lines it begins with, which the verifier trims away.\<close>

definition blank_lead :: "(f64 \<Rightarrow> string) \<Rightarrow> VerifiedReportDraft \<Rightarrow> nat" where
  "blank_lead fmt d = length (takeWhile (\<lambda>(l, _). trim_start l = []) (rendered_lines fmt d))"

lemma form_of_simps [simp]: "form_of [] = []" "form_of (l # ls) = l @ newline # form_of ls"
  by (simp_all add: form_of_def)

lemma form_of_append: "form_of (ls @ ls') = form_of ls @ form_of ls'"
  by (induction ls) simp_all

lemma broken_lines_not_Nil [simp]: "broken_lines s \<noteq> []"
  by (cases s) (simp_all split: list.split)

lemma form_of_broken [simp]: "form_of (broken_lines s) = s @ [newline]"
  by (induction s) (auto split: list.split)

lemma broken_lines_free: "l \<in> set (broken_lines s) \<Longrightarrow> newline \<notin> set l"
  by (induction s arbitrary: l) (auto split: if_splits list.splits)

lemma broken_lines_one: "newline \<notin> set l \<Longrightarrow> broken_lines l = [l]"
  by (induction l) auto

lemma form_of_concat: "form_of (map fst (concat (map (\<lambda>(l, claim). map (\<lambda>p. (p, claim)) (broken_lines l)) ls))) = form_of (map fst ls)"
  by (induction ls) (auto simp: form_of_append comp_def)

lemma rendered_form: "form_of (map fst (rendered_lines fmt d)) = verifier_form fmt d"
  by (simp add: rendered_lines_def form_of_concat verifier_form_of)

lemma rendered_lines_free: "l \<in> set (rendered_lines fmt d) \<Longrightarrow> newline \<notin> set (fst l)"
  by (auto simp: rendered_lines_def dest: broken_lines_free)

lemma concat_singletons: "\<forall>x \<in> set xs. f x = [x] \<Longrightarrow> concat (map f xs) = xs"
  by (induction xs) simp_all

lemma rendered_lines_one: "one_line_each fmt d \<Longrightarrow> rendered_lines fmt d = verifier_lines fmt d"
  unfolding rendered_lines_def one_line_each_def
  by (rule concat_singletons) (auto simp: broken_lines_one)

text \<open>Trimming the form drops its blank lines, then the white space its first other line begins with.\<close>

lemma whitespace_newline: "w \<in> set whitespace \<Longrightarrow> newline \<in> set w \<Longrightarrow> w = [newline]"
  by (auto simp: whitespace_literal newline_literal)

lemma whitespace_before_break:
  assumes "w \<in> set whitespace" "starts_with (p @ newline # r) w" "p \<noteq> []"
  shows "starts_with p w"
proof -
  obtain t where t: "p @ newline # r = w @ t" using assms(2) by (auto simp: starts_with_iff)
  show ?thesis
  proof (cases "length w \<le> length p")
    case True
    then show ?thesis using t by (auto simp: starts_with_iff append_eq_append_conv2)
  next
    case False
    then have "newline \<in> set w" using t by (auto simp: append_eq_append_conv2 Cons_eq_append_conv append_eq_Cons_conv)
    then have "w = [newline]" by (rule whitespace_newline [OF assms(1)])
    then show ?thesis using False assms(3) by (cases p) auto
  qed
qed

lemma starts_with_longer: "starts_with p w \<Longrightarrow> starts_with (p @ t) w"
  by (auto simp: starts_with_iff)

lemma find_cong_set: "(\<And>w. w \<in> set ws \<Longrightarrow> P w = Q w) \<Longrightarrow> find P ws = find Q ws"
  by (induction ws) auto

lemma trim_start_line:
  "trim_start (p @ newline # r) = (if trim_start p = [] then trim_start r else trim_start p @ newline # r)"
proof (induction p rule: trim_start.induct)
  case (1 p)
  show ?case
  proof (cases "p = []")
    case True
    have "trim_start [] = []" by (simp add: trim_start.simps split: option.split)
    moreover have "trim_start (newline # r) = trim_start r"
      by (subst trim_start.simps) (simp add: whitespace_literal newline_literal starts_with_def)
    ultimately show ?thesis using True by simp
  next
    case ne: False
    have same: "find (starts_with (p @ newline # r)) whitespace = find (starts_with p) whitespace"
      using whitespace_before_break ne starts_with_longer by (intro find_cong_set) blast
    show ?thesis
    proof (cases "find (starts_with p) whitespace")
      case None
      then show ?thesis using same ne by (simp add: trim_start.simps [of p] trim_start.simps [of "p @ newline # r"])
    next
      case (Some w)
      then have "starts_with p w" by (auto simp: find_Some_iff)
      then have "drop (length w) (p @ newline # r) = drop (length w) p @ newline # r" by (auto simp: starts_with_iff)
      moreover have "trim_start p = trim_start (drop (length w) p)" using Some ne by (simp add: trim_start.simps [of p])
      moreover have "trim_start (p @ newline # r) = trim_start (drop (length w) (p @ newline # r))"
        using Some same by (simp add: trim_start.simps [of "p @ newline # r"])
      ultimately show ?thesis using 1 [OF Some ne] by simp
    qed
  qed
qed

lemma trim_start_Nil: "trim_start [] = []"
  by (simp add: trim_start.simps split: option.split)

lemma trim_start_suffix: "\<exists>u. s = u @ trim_start s"
proof (induction s rule: trim_start.induct)
  case (1 s)
  show ?case
  proof (cases "find (starts_with s) whitespace")
    case (Some w)
    then obtain u where u: "s = w @ u" by (auto simp: find_Some_iff starts_with_iff)
    show ?thesis
    proof (cases "s = []")
      case False
      then obtain v where "drop (length w) s = v @ trim_start (drop (length w) s)" using 1 [OF Some] by blast
      moreover have "trim_start s = trim_start (drop (length w) s)" using Some False by (simp add: trim_start.simps [of s])
      ultimately have "s = (w @ v) @ trim_start s" using u by simp
      then show ?thesis ..
    qed (simp add: trim_start_Nil)
  qed (simp add: trim_start.simps [of s])
qed

lemma trim_start_form:
  "trim_start (form_of ls) =
     (case dropWhile (\<lambda>l. trim_start l = []) ls of [] \<Rightarrow> [] | l # ls' \<Rightarrow> form_of (trim_start l # ls'))"
  by (induction ls) (simp_all add: trim_start_line, simp add: trim_start.simps split: option.split)

text \<open>A line the verifier reads is a line of the text, up to the white space it trims and strips.\<close>

lemma verifier_reads_rendered_lines:
  assumes "k < length (text_lines (trim (verifier_form fmt d)))"
  defines "m \<equiv> blank_lead fmt d"
  shows "k + m < length (rendered_lines fmt d)
    \<and> starts_with ((if k = 0 then trim_start else id) (fst (rendered_lines fmt d ! (k + m))))
         (text_lines (trim (verifier_form fmt d)) ! k)"
proof -
  let ?ls = "map fst (rendered_lines fmt d)"
  let ?blank = "\<lambda>l. trim_start l = []"
  have m: "m = length (takeWhile ?blank ?ls)"
    by (simp add: m_def blank_lead_def takeWhile_map comp_def split_def)
  have "dropWhile ?blank ?ls \<noteq> []"
  proof
    assume "dropWhile ?blank ?ls = []"
    then have "trim (verifier_form fmt d) = trim_end []"
      using trim_start_form [of ?ls] unfolding trim_def rendered_form by (simp only: list.case)
    also have "\<dots> = []" by (simp add: trim_end.simps split: option.split)
    finally show False using assms(1) by (simp add: text_lines.simps [of "[]"])
  qed
  then obtain l ls' where drop: "dropWhile ?blank ?ls = l # ls'" by (cases "dropWhile ?blank ?ls") auto
  then have ls: "?ls = takeWhile ?blank ?ls @ l # ls'" by (metis takeWhile_dropWhile_id)
  have start: "trim_start (verifier_form fmt d) = form_of (trim_start l # ls')"
    using trim_start_form [of ?ls] drop by (simp add: rendered_form)
  have "set (l # ls') \<subseteq> set ?ls" using ls by (metis Un_upper2 set_append)
  then have "newline \<notin> set l \<and> (\<forall>x \<in> set ls'. newline \<notin> set x)" using rendered_lines_free by force
  moreover obtain u where "l = u @ trim_start l" using trim_start_suffix by blast
  then have "set (trim_start l) \<subseteq> set l" by (metis Un_upper2 set_append)
  ultimately have free: "\<forall>x \<in> set (trim_start l # ls'). newline \<notin> set x" by auto
  obtain t where "form_of (trim_start l # ls') = trim (verifier_form fmt d) @ t"
    using trim_end_prefix [of "form_of (trim_start l # ls')"] by (auto simp: trim_def start)
  from lines_of_prefix [OF free this assms(1)]
  have k: "k < length (l # ls')" "starts_with ((trim_start l # ls') ! k) (text_lines (trim (verifier_form fmt d)) ! k)"
    by (auto simp: starts_with_iff)
  have len: "length ?ls = m + length (l # ls')" by (subst ls) (simp add: m)
  have "?ls ! (k + m) = (l # ls') ! k" by (subst ls) (simp add: m nth_append)
  then have "fst (rendered_lines fmt d ! (k + m)) = (l # ls') ! k" using len k(1) by simp
  then show ?thesis using len k by (cases k) simp_all
qed

lemma figure_finding_claim:
  assumes "f \<in> set (figure_findings r (k + 1) ids figures)" "k < u64_max"
  shows "finding_claim lc f = map_of lc (k + 1)"
proof -
  have n: "k + 1 \<le> u64_max" using assms(2) by simp
  consider "f = ''numeric_claim_without_evidence'' @ CHR '':'' # (''line_'' @ show_nat (k + 1) @ [])"
    | t where "f = ''numeric_claim_not_reproduced'' @ CHR '':'' # (''line_'' @ show_nat (k + 1) @ CHR '':'' # t)"
    using assms(1) by (auto simp: figure_findings_def map_filter_def split: if_splits)
  then have "claim_for_finding (snd (split_code f)) lc = map_of lc (k + 1)"
  proof cases
    case 1
    then show ?thesis using line_claim [OF n, of "[]" lc]
      by (subst 1, subst split_code_at) simp_all
  next
    case (2 t)
    then show ?thesis using line_claim [OF n, of "CHR '':'' # t" lc]
      by (subst 2, subst split_code_at) simp_all
  qed
  then show ?thesis by (simp add: finding_claim_def)
qed

text \<open>
  C31: Where a complaint about a figure is addressed, for any draft. Line \<open>k\<close> (from 0) that the verifier reads of the
  rendered form is, up to trimmed white space, line \<open>k + m\<close> of its text, where \<open>m\<close> is the number of blank lines the form
  begins with and the verifier trims away; but the complaint is addressed to the claim of the \<open>k\<close>-th piece that was
  rendered. The two agree, and the complaint reaches the claim on whose line the figure stands (none when the line belongs
  to none), under two conditions: no piece holds a line break (\<open>one_line_each\<close>), and the form does not begin with a blank
  line, as it does when the title is blank (\<open>blank_lead\<close> 0). Validation ensures neither, and without them the complaint may
  go astray: \<open>blank_title_shifts_lines\<close> of \<open>Report_Form\<close>, and the second half of the witness. The line number is a
  machine integer.
\<close>

theorem findings_reach_their_claim:
  assumes "k < length (text_lines (trim (verifier_form fmt d)))" "k < u64_max"
    and "f \<in> set (figure_findings r (k + 1) ids figures)"
  shows "k + blank_lead fmt d < length (rendered_lines fmt d)
    \<and> starts_with ((if k = 0 then trim_start else id) (fst (rendered_lines fmt d ! (k + blank_lead fmt d))))
         (text_lines (trim (verifier_form fmt d)) ! k)
    \<and> finding_claim (verifier_line_claims fmt d) f
        = (if k < length (verifier_lines fmt d) then snd (verifier_lines fmt d ! k) else None)
    \<and> (one_line_each fmt d \<and> blank_lead fmt d = 0 \<longrightarrow>
         finding_claim (verifier_line_claims fmt d) f = snd (rendered_lines fmt d ! (k + blank_lead fmt d)))"
proof -
  note read = verifier_reads_rendered_lines [OF assms(1)]
  have "finding_claim (verifier_line_claims fmt d) f
      = (if k < length (verifier_lines fmt d) then snd (verifier_lines fmt d ! k) else None)"
    using figure_finding_claim [OF assms(3,2)] verifier_line_claims_at by simp
  with read show ?thesis by (auto simp: rendered_lines_one)
qed

definition ten :: ReportNumeral where
  "ten = \<lparr>rn_raw = ''10'', rn_value = f64_of_nat 10, rn_unit = None\<rparr>"

lemma cited_blank: "blank_lead no_print cited_draft = 0"
proof -
  have "rendered_lines no_print cited_draft ! 0 = (''t'', None)"
    using rendered_lines_one [OF cited_newlines] by (simp add: cited_lines)
  moreover have "trim_start ''t'' \<noteq> []"
    by (subst trim_start.simps) (simp add: whitespace_literal starts_with_def)
  ultimately show ?thesis using rendered_lines_one [OF cited_newlines] by (simp add: blank_lead_def cited_lines)
qed

lemma untitled_one_line: "one_line_each no_print untitled"
  using cited_newlines unfolding one_line_each_def untitled_lines cited_lines by simp

lemma untitled_blank: "blank_lead no_print untitled = 1"
proof -
  have "trim_start ''h'' \<noteq> []"
    by (subst trim_start.simps) (simp add: whitespace_literal starts_with_def)
  then show ?thesis
    using rendered_lines_one [OF untitled_one_line] trim_start_Nil by (simp add: blank_lead_def untitled_lines)
qed

lemma findings_reach_their_claim_witness:
  "(\<exists>f \<in> set (figure_findings registry_empty 3 sample_ids [ten]).
      finding_claim (verifier_line_claims no_print cited_draft) f = Some ''c''
      \<and> snd (rendered_lines no_print cited_draft ! 2) = Some ''c'')
   \<and> (\<exists>f \<in> set (figure_findings registry_empty 2 sample_ids [ten]).
      finding_claim (verifier_line_claims no_print untitled) f = None
      \<and> snd (rendered_lines no_print untitled ! (1 + 1)) = Some ''c'')"
proof
  obtain f where f: "f \<in> set (figure_findings registry_empty (2 + 1) sample_ids [ten])"
    by (simp add: figure_findings_def sample_ids_def supported_on_def registry_empty_def map_filter_simps)
  have "2 < length (text_lines (trim (verifier_form no_print cited_draft)))" by (simp add: cited_text)
  from findings_reach_their_claim [OF this _ f, THEN conjunct2, THEN conjunct2, THEN conjunct2]
  have "finding_claim (verifier_line_claims no_print cited_draft) f = snd (rendered_lines no_print cited_draft ! 2)"
    using cited_newlines cited_blank by (simp add: u64_max_def)
  moreover have "rendered_lines no_print cited_draft ! 2 = (claim_line no_print cited_claim, Some ''c'')"
    using rendered_lines_one [OF cited_newlines] by (simp add: cited_lines)
  ultimately show "\<exists>f \<in> set (figure_findings registry_empty 3 sample_ids [ten]).
      finding_claim (verifier_line_claims no_print cited_draft) f = Some ''c''
      \<and> snd (rendered_lines no_print cited_draft ! 2) = Some ''c''"
    using f by auto
next
  obtain f where f: "f \<in> set (figure_findings registry_empty (1 + 1) sample_ids [ten])"
    by (simp add: figure_findings_def sample_ids_def supported_on_def registry_empty_def map_filter_simps)
  have "1 < length (text_lines (trim (verifier_form no_print untitled)))" by (simp add: untitled_text)
  from findings_reach_their_claim [OF this _ f]
  have "finding_claim (verifier_line_claims no_print untitled) f = None"
    by (simp add: u64_max_def untitled_lines)
  moreover have "snd (rendered_lines no_print untitled ! (1 + 1)) = Some ''c''"
    using rendered_lines_one [OF untitled_one_line] by (simp add: untitled_lines)
  ultimately show "\<exists>f \<in> set (figure_findings registry_empty 2 sample_ids [ten]).
      finding_claim (verifier_line_claims no_print untitled) f = None
      \<and> snd (rendered_lines no_print untitled ! (1 + 1)) = Some ''c''"
    using f by (auto simp: numeral_2_eq_2)
qed

section \<open>The size of a response\<close>

lemma jget_jobject: "jget k (jobject kvs) = map_of (rev kvs) k"
  by (induction kvs rule: rev_induct) (auto simp: jobject_def btree.get_put split: if_splits)

lemma set_bset_insert [simp]: "set (bset_insert x s) = insert x (set s)"
  by (auto simp: bset_insert_def set_insort_key)

lemma bset_insert_sorted: "finite A \<Longrightarrow> bset_insert x (sorted_list_of_set A) = sorted_list_of_set (insert x A)"
  by (cases "x \<in> A") (simp_all add: bset_insert_def insert_absorb sorted_list_of_set.sorted_key_list_of_set_insert)

lemma group_all_snoc: "group_all (kvs @ [(k, v)]) = group_insert k v (group_all kvs)"
  by (simp add: group_all_def)

lemma group_all_spec:
  "sorted_wrt (<) (map fst (group_all kvs))
   \<and> (\<forall>k. map_of (group_all kvs) k =
        (if k \<in> fst ` set kvs then Some (sorted_list_of_set {v. (k, v) \<in> set kvs}) else None))"
proof (induction kvs rule: rev_induct)
  case (snoc kv kvs)
  obtain k v where kv: "kv = (k, v)" by fastforce
  have fin: "finite {v. (k, v) \<in> set kvs}" for k by (rule finite_subset [of _ "snd ` set kvs"]) force+
  have old: "(case map_of (group_all kvs) k of Some s \<Rightarrow> s | None \<Rightarrow> []) = sorted_list_of_set {v. (k, v) \<in> set kvs}"
  proof (cases "k \<in> fst ` set kvs")
    case False
    then have "{v. (k, v) \<in> set kvs} = {}" by force
    then show ?thesis using snoc False by simp
  qed (use snoc in simp)
  have "bset_insert v (sorted_list_of_set {v. (k, v) \<in> set kvs}) = sorted_list_of_set (insert v {v. (k, v) \<in> set kvs})"
    using fin by (rule bset_insert_sorted)
  moreover have "insert v {v. (k, v) \<in> set kvs} = {w. (k, w) \<in> set (kvs @ [(k, v)])}" by auto
  ultimately have at: "map_of (group_all (kvs @ [kv])) k = Some (sorted_list_of_set {w. (k, w) \<in> set (kvs @ [kv])})"
    unfolding kv group_all_snoc group_insert_def old by (simp add: btree.get_put)
  have other: "map_of (group_all (kvs @ [kv])) j = map_of (group_all kvs) j
      \<and> {w. (j, w) \<in> set (kvs @ [kv])} = {w. (j, w) \<in> set kvs}" if "j \<noteq> k" for j
    using that unfolding kv group_all_snoc group_insert_def by (simp add: btree.get_put)
  have "sorted_wrt (<) (map fst (group_all (kvs @ [kv])))"
    using snoc unfolding kv group_all_snoc group_insert_def by (simp add: btree.wf_put)
  moreover have "map_of (group_all (kvs @ [kv])) j =
        (if j \<in> fst ` set (kvs @ [kv]) then Some (sorted_list_of_set {w. (j, w) \<in> set (kvs @ [kv])}) else None)" for j
    using at other [of j] snoc kv by (cases "j = k") auto
  ultimately show ?case by blast
qed (simp add: group_all_def)

lemma group_all_eq:
  "group_all kvs = map (\<lambda>k. (k, sorted_list_of_set {v. (k, v) \<in> set kvs})) (sorted_list_of_set (fst ` set kvs))"
proof -
  let ?g = "group_all kvs"
  have sorted: "sorted_wrt (<) (map fst ?g)" and at: "\<And>k. map_of ?g k =
      (if k \<in> fst ` set kvs then Some (sorted_list_of_set {v. (k, v) \<in> set kvs}) else None)"
    using group_all_spec by blast+
  have dist: "distinct (map fst ?g)" using sorted strict_sorted_iff by blast
  have keys: "set (map fst ?g) = fst ` set kvs"
  proof -
    have "k \<in> fst ` set ?g \<longleftrightarrow> k \<in> fst ` set kvs" for k
      using at [of k] map_of_eq_None_iff [of ?g k] by (cases "k \<in> fst ` set kvs") simp_all
    then show ?thesis by auto
  qed
  then have fst: "map fst ?g = sorted_list_of_set (fst ` set kvs)"
    using sorted strict_sorted_iff by (metis List.finite_set finite_imageI sorted_list_of_set.idem_if_sorted_distinct set_map list.set_map)
  have "p = (fst p, sorted_list_of_set {v. (fst p, v) \<in> set kvs})" if "p \<in> set ?g" for p
  proof -
    have "map_of ?g (fst p) = Some (snd p)" using that dist by (simp add: map_of_is_SomeI)
    then show ?thesis using at [of "fst p"] by (cases p) (simp split: if_splits)
  qed
  then have "?g = map (\<lambda>p. (fst p, sorted_list_of_set {v. (fst p, v) \<in> set kvs})) ?g"
    by (metis (no_types, lifting) map_idI)
  also have "\<dots> = map (\<lambda>k. (k, sorted_list_of_set {v. (k, v) \<in> set kvs})) (map fst ?g)" by simp
  finally show ?thesis by (simp only: fst)
qed

lemma verdict_keys: "k \<notin> {''attempt'', ''attempts_remaining'', ''instruction'', ''exhausted''} \<Longrightarrow> map_of (rev (verdict_fields v)) k = None"
  by (cases v) auto

text \<open>The claims a list of problems is about, and the codes against one of them.\<close>

definition troubled :: "DraftProblem list \<Rightarrow> string set" where
  "troubled problems = {c. \<exists>p \<in> set problems. problem_claim_id p = Some c}"

definition codes_against :: "DraftProblem list \<Rightarrow> string \<Rightarrow> string set" where
  "codes_against problems c = problem_code ` {p \<in> set problems. problem_claim_id p = Some c}"

lemma claim_codes_groups:
  "group_all (claim_codes problems)
     = map (\<lambda>c. (c, sorted_list_of_set (codes_against problems c))) (sorted_list_of_set (troubled problems))"
proof -
  have "fst ` set (claim_codes problems) = troubled problems"
    by (force simp: claim_codes_def troubled_def map_filter_def image_iff)
  moreover have "{v. (c, v) \<in> set (claim_codes problems)} = codes_against problems c" for c
    by (force simp: claim_codes_def codes_against_def map_filter_def)
  ultimately show ?thesis unfolding group_all_eq by simp
qed

text \<open>
  A repair response counts every problem, lists at most forty and says how many it leaves out, and
  addresses, in order, each claim with a problem, with all the codes against it and an action for each,
  up to sixty-four claims.
\<close>

theorem validation_repair_bounded:
  "let v = validation_repair problems verdict
   in jget ''problem_count'' v = Some (JInt (int (length problems)))
     \<and> jget ''problems'' v = Some (JArr (map problem_json (take 40 problems)))
     \<and> jget ''problems_omitted'' v = (if 40 < length problems then Some (JInt (int (length problems - 40))) else None)
     \<and> (\<exists>ts. jget ''repair'' v = Some (JArr ts)
          \<and> map (jget ''claim_id'') ts = map (Some \<circ> JStr) (take 64 (sorted_list_of_set (troubled problems)))
          \<and> map (jget ''codes'') ts = map (\<lambda>c. Some (json_strings (sorted_list_of_set (codes_against problems c))))
               (take 64 (sorted_list_of_set (troubled problems))))"
proof -
  let ?v = "validation_repair problems verdict"
  let ?toks = "\<lambda>c. tokens ''figures_to_move'' MAX_TOKENS_PER_TARGET (group_all (List.map_filter figure_token problems)) c
      @ tokens ''unknown_evidence_ids'' MAX_TOKENS_PER_TARGET (group_all (List.map_filter unknown_token problems)) c"
  let ?targets = "map (\<lambda>(c, fs). jobject (fs @ ?toks c)) (repair_targets (group_all (claim_codes problems)) validation_action)"
  have none: "map_of (rev (report_level_actions action_for codes)) k = None" if "k \<noteq> ''report_level''"
    for k codes and action_for :: "string \<Rightarrow> string"
    using that by (simp add: report_level_actions_def)
  have toks: "map_of (rev (?toks c)) k = None" if "k = ''claim_id'' \<or> k = ''codes''" for c k
    using that by (auto simp: tokens_def split: option.splits)
  have targets: "?targets = map (\<lambda>c. jobject ([(''claim_id'', JStr c), (''codes'', json_strings (sorted_list_of_set (codes_against problems c))),
      (''actions'', json_strings (map validation_action (sorted_list_of_set (codes_against problems c))))] @ ?toks c))
      (take 64 (sorted_list_of_set (troubled problems)))"
    by (simp add: repair_targets_def claim_codes_groups take_map MAX_REPAIR_TARGETS_def)
  have fields: "jget ''repair'' ?v = Some (JArr ?targets)" "jget ''problem_count'' ?v = Some (JInt (int (length problems)))"
    "jget ''problems'' ?v = Some (JArr (map problem_json (take 40 problems)))"
    "jget ''problems_omitted'' ?v = (if 40 < length problems then Some (JInt (int (length problems - 40))) else None)"
    by (simp_all add: validation_repair_def Let_def jget_jobject envelope_def none map_add_def verdict_keys omitted_def
        MAX_REPORTED_PROBLEMS_def)
  have "map (jget ''claim_id'') ?targets = map (Some \<circ> JStr) (take 64 (sorted_list_of_set (troubled problems)))"
    "map (jget ''codes'') ?targets = map (\<lambda>c. Some (json_strings (sorted_list_of_set (codes_against problems c))))
      (take 64 (sorted_list_of_set (troubled problems)))"
    unfolding targets by (simp_all add: jget_jobject map_add_def toks del: rev_append)
  with fields show ?thesis unfolding Let_def by blast
qed

end
