(* ===== verification/Agent_Task.thy ===== *)
theory Agent_Task
  imports Agent_Session Agent_Stream Agent_Finalize
begin

text \<open>
  What a run of \<open>crates/agent-runtime/src/runtime.rs\<close> is given: the task and its validation, the
  configuration, the tool registry of \<open>tools.rs\<close>, the runtime errors of \<open>error.rs\<close> with the texts they
  display, the messages exchanged with the model and the projection of a tool result into one.
  The printing of JSON values is the parameter \<open>show_json\<close>, the rendering of times is \<open>rfc\<close> and \<open>day\<close>.
  Main facts: a registry built by registrations holds each tool under its own well-formed name, in
  order of the names, and what the model is shown of a result is bounded.
\<close>

section \<open>Printing a duration\<close>

text \<open>The \<open>Debug\<close> form of \<open>std::time::Duration\<close>.\<close>

definition trim_zeros :: "string \<Rightarrow> string" where
  "trim_zeros s = rev (dropWhile (\<lambda>c. c = CHR ''0'') (rev s))"

definition fraction_digits :: "nat \<Rightarrow> nat \<Rightarrow> string" where
  "fraction_digits width n = (let s = show_nat n in trim_zeros (replicate (width - length s) CHR ''0'' @ s))"

definition fmt_decimal :: "nat \<Rightarrow> nat \<Rightarrow> nat \<Rightarrow> string" where
  "fmt_decimal whole part width =
     show_nat whole @ (if fraction_digits width part = [] then [] else ''.'' @ fraction_digits width part)"

definition show_duration :: "duration \<Rightarrow> string" where
  "show_duration d =
     (if nanos_per_sec \<le> d then fmt_decimal (d div nanos_per_sec) (d mod nanos_per_sec) 9 @ ''s''
      else if 1000000 \<le> d then fmt_decimal (d div 1000000) (d mod 1000000) 6 @ ''ms''
      else if 1000 \<le> d then fmt_decimal (d div 1000) (d mod 1000) 3 @ utf8 [181] @ ''s''
      else fmt_decimal d 0 1 @ ''ns'')"

section \<open>Errors\<close>

datatype RunError =
    EConfiguration string
  | EProvider ProviderError
  | EUnknownTool string
  | EInvalidToolArguments string string
  | EToolTimeout string duration
  | ETool string string
  | EToolResultTooLarge string nat nat
  | EStore string
  | ECancelled
  | EModelRoundLimit nat
  | EEmptyModelTurn
  | EVerificationFailed string
  | EJson string
  | EInternal string

fun error_text :: "RunError \<Rightarrow> string" where
  "error_text (EConfiguration m) = ''invalid configuration: '' @ m"
| "error_text (EProvider e) = ''provider error: '' @ pe_message e"
| "error_text (EUnknownTool t) = ''unknown tool `'' @ t @ ''`; the request was rejected''"
| "error_text (EInvalidToolArguments t m) = ''invalid arguments for tool `'' @ t @ ''`: '' @ m"
| "error_text (EToolTimeout t d) = ''tool `'' @ t @ ''` timed out after '' @ show_duration d"
| "error_text (ETool t m) = ''tool `'' @ t @ ''` failed: '' @ m"
| "error_text (EToolResultTooLarge t actual maximum) =
     ''tool `'' @ t @ ''` returned '' @ show_nat actual @ '' bytes, above the '' @ show_nat maximum @ ''-byte limit''"
| "error_text (EStore m) = ''durable Agent store error: '' @ m"
| "error_text ECancelled = ''Agent task was cancelled''"
| "error_text (EModelRoundLimit n) = ''model round limit ('' @ show_nat n @ '') was reached''"
| "error_text EEmptyModelTurn = ''model returned neither visible text nor a tool call''"
| "error_text (EVerificationFailed m) = ''report publication blocked by verification: '' @ m"
| "error_text (EJson m) = ''JSON error: '' @ m"
| "error_text (EInternal m) = ''internal task failed: '' @ m"

definition malformed_text :: "StreamLimits \<Rightarrow> malformed \<Rightarrow> string" where
  "malformed_text sl m =
     (case m of
        TooManyChunks \<Rightarrow> ''model round exceeded '' @ show_nat (max_model_chunks_per_round sl) @ '' streamed chunks''
      | TooMuchText \<Rightarrow> ''model round exceeded '' @ show_nat (max_visible_chars_per_round sl) @ '' visible characters''
      | TooManyCalls \<Rightarrow> ''model round exceeded '' @ show_nat (max_tool_calls_per_round sl) @ '' tool calls''
      | FragmentId \<Rightarrow> ''tool call ID exceeds 128 visible bytes''
      | FragmentName \<Rightarrow> ''tool call name exceeds 128 visible bytes''
      | FragmentArguments \<Rightarrow>
          ''tool call argument fragment exceeded '' @ show_nat (max_tool_argument_chars sl) @ '' characters''
      | ArgumentsTooLong \<Rightarrow> ''tool call arguments exceeded '' @ show_nat (max_tool_argument_chars sl) @ '' characters''
      | IncompleteCall index \<Rightarrow> ''incomplete tool call at streaming index '' @ show_nat index)"

definition network_error :: "string \<Rightarrow> RunError" where
  "network_error m = EProvider (provider_error_new PNetwork m True)"

fun turn_run_error :: "StreamLimits \<Rightarrow> turn_error \<Rightarrow> RunError" where
  "turn_run_error sl (Malformed m) = EProvider (provider_error_new PMalformedResponse (malformed_text sl m) False)"
| "turn_run_error sl (Provider e) = EProvider e"
| "turn_run_error sl ConnectTimeout = network_error ''provider connection timed out''"
| "turn_run_error sl IdleTimeout = network_error ''provider stream idle timeout''"
| "turn_run_error sl TurnCancelled = ECancelled"
| "turn_run_error sl EmptyModelTurn = EEmptyModelTurn"

section \<open>Messages\<close>

record Message =
  mg_role :: MessageRole
  mg_content :: string
  mg_tool_calls :: "ModelToolCall list"
  mg_tool_call_id :: "string option"

definition message_text :: "MessageRole \<Rightarrow> string \<Rightarrow> Message" where
  "message_text r t = \<lparr>mg_role = r, mg_content = t, mg_tool_calls = [], mg_tool_call_id = None\<rparr>"

definition message_tool_result :: "string \<Rightarrow> string \<Rightarrow> Message" where
  "message_tool_result i t = \<lparr>mg_role = MTool, mg_content = t, mg_tool_calls = [], mg_tool_call_id = Some i\<rparr>"

section \<open>Tasks\<close>

definition MAX_OBJECTIVE_CHARS :: nat where "MAX_OBJECTIVE_CHARS = 120000"

record RuntimeTask =
  rt_objective :: string
  rt_symbol :: "string option"
  rt_depth :: string
  rt_tool_policy :: string
  rt_language :: string
  rt_capital :: "f64 option"
  rt_history :: "Message list"
  rt_history_summary :: "string option"

definition task_ask :: "string \<Rightarrow> RuntimeTask" where
  "task_ask objective =
     \<lparr>rt_objective = objective, rt_symbol = None, rt_depth = ''balanced'', rt_tool_policy = ''full'',
      rt_language = ''zh-CN'', rt_capital = None, rt_history = [], rt_history_summary = None\<rparr>"

definition history_message_ok :: "Message \<Rightarrow> bool" where
  "history_message_ok m \<longleftrightarrow>
     mg_role m \<in> {MUser, MAssistant} \<and> trim (mg_content m) \<noteq> [] \<and> mg_tool_calls m = [] \<and> mg_tool_call_id m = None"

fun history_total :: "nat \<Rightarrow> Message list \<Rightarrow> (nat, RunError) result" where
  "history_total n [] = Inr n"
| "history_total n (m # ms) =
     (if history_message_ok m then history_total (usize_saturating_add n (char_count (mg_content m))) ms
      else Inl (EConfiguration ''model history accepts only non-empty user/assistant text messages''))"

definition task_validate :: "RuntimeTask \<Rightarrow> (unit, RunError) result" where
  "task_validate t =
     bind_r (ensure (trim (rt_objective t) \<noteq> []) (EConfiguration ''research objective must not be empty'')) (\<lambda>_.
     bind_r (ensure (char_count (rt_objective t) \<le> MAX_OBJECTIVE_CHARS)
       (EConfiguration (''research objective exceeds '' @ show_nat MAX_OBJECTIVE_CHARS @ '' characters''))) (\<lambda>_.
     bind_r (ensure (rt_depth t \<in> set [''fast'', ''balanced'', ''deep'', ''exhaustive''])
       (EConfiguration (''unknown research depth `'' @ rt_depth t @ ''`''))) (\<lambda>_.
     bind_r (ensure (rt_tool_policy t \<in> set [''auto'', ''market'', ''evidence'', ''full''])
       (EConfiguration (''unknown tool policy `'' @ rt_tool_policy t @ ''`''))) (\<lambda>_.
     bind_r (case rt_symbol t of
         Some s \<Rightarrow> ensure (six_digits s) (EConfiguration (''symbol `'' @ s @ ''` must contain exactly six digits''))
       | None \<Rightarrow> Inr ()) (\<lambda>_.
     bind_r (ensure (case rt_capital t of Some v \<Rightarrow> is_finite v \<and> \<not> fle v fzero | None \<Rightarrow> True)
       (EConfiguration ''capital must be a finite positive number'')) (\<lambda>_.
     bind_r (ensure (length (rt_history t) \<le> MAX_MODEL_HISTORY_MESSAGES)
       (EConfiguration (''model history exceeds '' @ show_nat MAX_MODEL_HISTORY_MESSAGES @ '' messages''))) (\<lambda>_.
     bind_r (history_total 0 (rt_history t)) (\<lambda>n.
     bind_r (ensure (n \<le> MAX_MODEL_HISTORY_CHARS)
       (EConfiguration (''model history exceeds '' @ show_nat MAX_MODEL_HISTORY_CHARS @ '' characters''))) (\<lambda>_.
     ensure (case rt_history_summary t of
         Some s \<Rightarrow> trim s \<noteq> [] \<and> char_count s \<le> MAX_SESSION_SUMMARY_CHARS | None \<Rightarrow> True)
       (EConfiguration (''history summary must contain 1..'' @ show_nat MAX_SESSION_SUMMARY_CHARS @ '' characters'')))))))))))"

definition nanos_per_year :: int where "nanos_per_year = 365 * 86400 * 1000000000"

definition verification_spec :: "(datetime \<Rightarrow> string) \<Rightarrow> (datetime \<Rightarrow> string) \<Rightarrow> datetime \<Rightarrow> RuntimeTask \<Rightarrow> TaskSpec" where
  "verification_spec rfc day now t =
     \<lparr>ts_objective = rt_objective t,
      ts_security_universe = [case rt_symbol t of Some s \<Rightarrow> s | None \<Rightarrow> ''A'' @ utf8 [32929, 24066, 22330]],
      ts_as_of = rfc now, ts_research_start = day (now - nanos_per_year), ts_research_end = day now,
      ts_investment_horizon = utf8 [29992, 25143, 26410, 25351, 23450, 65307, 25353, 20013, 26399, 30740, 31350, 26694, 26550, 24182, 26631, 20026, 20551, 35774],
      ts_comparison_benchmark = ''000300'',
      ts_output_type = (if contains (rt_objective t) (utf8 [35745, 21010]) then ''manual_plan'' else ''research_report''),
      ts_evidence_requirement = ''strict''\<rparr>"

section \<open>Configuration\<close>

text \<open>The limits of one provider stream are the record \<open>rc_limits\<close>. The timeouts fire in the environment.\<close>

record RuntimeConfig =
  rc_max_model_rounds :: nat
  rc_max_research_rounds :: nat
  rc_max_finalization_attempts :: nat
  rc_max_unknown_tool_rejections :: nat
  rc_limits :: StreamLimits
  rc_max_parallel_tools :: nat
  rc_max_tool_result_bytes :: nat
  rc_max_tokens :: nat
  rc_temperature :: f64
  rc_provider_connect_timeout :: duration
  rc_provider_idle_timeout :: duration
  rc_verification_timeout :: duration
  rc_verify_reports :: bool
  rc_event_channel_capacity :: nat

definition runtime_config_default :: RuntimeConfig where
  "runtime_config_default =
     \<lparr>rc_max_model_rounds = 32, rc_max_research_rounds = 20, rc_max_finalization_attempts = 8,
      rc_max_unknown_tool_rejections = 3, rc_limits = stream_limits_default, rc_max_parallel_tools = 4,
      rc_max_tool_result_bytes = 2 * 1024 * 1024, rc_max_tokens = 8192,
      rc_temperature = flit 2 10, rc_provider_connect_timeout = from_secs 90, rc_provider_idle_timeout = from_secs 120,
      rc_verification_timeout = from_secs 30, rc_verify_reports = True, rc_event_channel_capacity = 256\<rparr>"

section \<open>Tools\<close>

datatype ToolRisk = ReadOnly
datatype CachePolicy = NoCache | CanonicalRequest
datatype ToolHandler = EngineHandler | RuntimeHandler

record ToolDefinition =
  td_name :: string
  td_description :: string
  td_input_schema :: json
  td_engine_kind :: string
  td_risk :: ToolRisk
  td_timeout :: duration
  td_cache_policy :: CachePolicy
  td_freshness :: string
  td_handler :: ToolHandler

type_synonym ToolRegistry = "(string \<times> ToolDefinition) list"

definition tool_name_ok :: "string \<Rightarrow> bool" where
  "tool_name_ok n \<longleftrightarrow> n \<noteq> [] \<and> list_all (\<lambda>c. is_ascii_alphanumeric c \<or> c = CHR ''_'') n"

text \<open>A registration that reports a duplicate has replaced the earlier definition all the same.\<close>

definition tool_register :: "ToolDefinition \<Rightarrow> ToolRegistry \<Rightarrow> (unit, string) result \<times> ToolRegistry" where
  "tool_register d r =
     (if \<not> tool_name_ok (td_name d) then (Inl (''invalid tool name: '' @ td_name d), r)
      else (if map_of r (td_name d) \<noteq> None then Inl ''duplicate tool name'' else Inr (), btree_insert (td_name d) d r))"

definition tool_get :: "ToolRegistry \<Rightarrow> string \<Rightarrow> ToolDefinition option" where
  "tool_get r n = map_of r n"

definition tool_definitions :: "ToolRegistry \<Rightarrow> ToolDefinition list" where
  "tool_definitions r = map snd r"

definition tool_names :: "ToolRegistry \<Rightarrow> string list" where
  "tool_names r = map fst r"

definition read_tool :: "string \<Rightarrow> string \<Rightarrow> string \<Rightarrow> json \<Rightarrow> nat \<Rightarrow> string \<Rightarrow> ToolDefinition" where
  "read_tool nm description engine_kind schema timeout_secs freshness =
     \<lparr>td_name = nm, td_description = description, td_input_schema = schema, td_engine_kind = engine_kind,
      td_risk = ReadOnly, td_timeout = from_secs timeout_secs, td_cache_policy = CanonicalRequest,
      td_freshness = freshness, td_handler = EngineHandler\<rparr>"

definition runtime_tool :: "string \<Rightarrow> string \<Rightarrow> json \<Rightarrow> ToolDefinition" where
  "runtime_tool nm description schema =
     \<lparr>td_name = nm, td_description = description, td_input_schema = schema, td_engine_kind = [],
      td_risk = ReadOnly, td_timeout = from_secs 15, td_cache_policy = NoCache,
      td_freshness = ''runtime_state'', td_handler = RuntimeHandler\<rparr>"

text \<open>The tools offered in a round: retrieval is withdrawn once the research budget is spent.\<close>

definition research_rounds :: "RuntimeConfig \<Rightarrow> nat" where
  "research_rounds cfg = min (rc_max_research_rounds cfg) (rc_max_model_rounds cfg)"

definition offered_tools :: "RuntimeConfig \<Rightarrow> ToolRegistry \<Rightarrow> nat \<Rightarrow> ToolDefinition list" where
  "offered_tools cfg r rnd =
     (if research_rounds cfg < rnd
      then filter (\<lambda>d. td_handler d = RuntimeHandler \<or> td_name d = ''run_financial_calculation'') (tool_definitions r)
      else tool_definitions r)"

section \<open>What a tool call returns to the model\<close>

definition MAX_TOOL_RESULT_MODEL_CHARS :: nat where "MAX_TOOL_RESULT_MODEL_CHARS = 24000"
definition MAX_EVIDENCE_IDS_IN_CONTEXT :: nat where "MAX_EVIDENCE_IDS_IN_CONTEXT = 40"

record CompletedTool =
  ct_index :: nat
  ct_call_id :: string
  ct_content :: json

definition completed_runtime :: "ModelToolCall \<Rightarrow> json \<Rightarrow> CompletedTool" where
  "completed_runtime call content = \<lparr>ct_index = call_index call, ct_call_id = call_id call, ct_content = content\<rparr>"

definition completed_failure :: "ModelToolCall \<Rightarrow> string \<Rightarrow> CompletedTool" where
  "completed_failure call message =
     \<lparr>ct_index = call_index call, ct_call_id = call_id call,
      ct_content = jobject [(''ok'', JBool False), (''error'', JStr message)]\<rparr>"

definition success_fields ::
  "(json \<Rightarrow> string) \<Rightarrow> json \<Rightarrow> string list \<Rightarrow> nat \<Rightarrow> nat \<Rightarrow> (string \<times> json) list" where
  "success_fields show_json v eids max_chars max_ids =
     (let shown = json_strings (if max_ids < length eids then take max_ids eids else eids);
          hidden = length eids - max_ids; encoded = show_json v
      in (if char_count encoded \<le> max_chars then [(''ok'', JBool True), (''data'', v), (''evidence_ids'', shown)]
          else [(''ok'', JBool True), (''truncated'', JBool True), (''data_preview'', JStr (take_chars max_chars encoded)),
            (''original_chars'', JInt (int (char_count encoded))), (''preview_chars'', JInt (int max_chars)),
            (''evidence_ids'', shown),
            (''note'', JStr (utf8 [32467, 26524, 36229, 36807, 27169, 22411, 19978, 19979, 25991, 39044, 31639, 65292, 24050, 25353, 21069, 32512, 25130, 26029, 12290, 23436, 25972, 32467, 26524, 24050, 25345, 20037, 21270, 22312, 35777, 25454, 24211, 20013, 65292, 21487, 36890, 36807] @ '' evidence_ids '' @ utf8 [24341, 29992, 65307, 19981, 35201, 25226, 27492, 39044, 35272, 24403, 20316, 23436, 25972, 25968, 25454, 38598, 12290]))])
         @ (if 0 < hidden
            then [(''omitted_evidence_ids'', JInt (int hidden)),
              (''evidence_note'', JStr (utf8 [35777, 25454, 26631, 35782, 36807, 22810, 65292, 20165, 21015, 20986, 21069, 33509, 24178, 26465, 65307, 20854, 20313, 24050, 35760, 24405, 22312, 20219, 21153, 29366, 24577, 20013, 65292, 21487, 25353, 38656, 24341, 29992, 12290]))]
            else []))"

definition success_bounded ::
  "(json \<Rightarrow> string) \<Rightarrow> ModelToolCall \<Rightarrow> json \<Rightarrow> string list \<Rightarrow> nat \<Rightarrow> nat \<Rightarrow> CompletedTool" where
  "success_bounded show_json call v eids max_chars max_ids =
     \<lparr>ct_index = call_index call, ct_call_id = call_id call,
      ct_content = jobject (success_fields show_json v eids max_chars max_ids)\<rparr>"

definition completed_success :: "(json \<Rightarrow> string) \<Rightarrow> ModelToolCall \<Rightarrow> json \<Rightarrow> string list \<Rightarrow> CompletedTool" where
  "completed_success show_json call v eids =
     success_bounded show_json call v eids MAX_TOOL_RESULT_MODEL_CHARS MAX_EVIDENCE_IDS_IN_CONTEXT"

definition into_message :: "(json \<Rightarrow> string) \<Rightarrow> CompletedTool \<Rightarrow> Message" where
  "into_message show_json c = message_tool_result (ct_call_id c) (show_json (ct_content c))"

section \<open>The identifiers of a result\<close>

definition fact_ids :: "(string \<times> json) list \<Rightarrow> string list" where
  "fact_ids fs =
     (case map_of fs ''evidence_registry'' of
        None \<Rightarrow> []
      | Some registry \<Rightarrow>
          (case jget ''facts'' registry of
             Some facts \<Rightarrow>
               List.map_filter (\<lambda>f. case jget ''evidence_id'' f of Some i \<Rightarrow> as_str i | None \<Rightarrow> None)
                 (case as_array facts of Some rows \<Rightarrow> rows | None \<Rightarrow> [])
           | None \<Rightarrow> []))"

function collect_ids :: "json \<Rightarrow> string list" where
  "collect_ids (JObj fs) =
     fact_ids fs @ concat (map (\<lambda>(k, v). if k = ''evidence_registry'' then [] else collect_ids v) fs)"
| "collect_ids (JArr xs) = concat (map collect_ids xs)"
| "collect_ids JNull = []"
| "collect_ids (JBool _) = []"
| "collect_ids (JInt _) = []"
| "collect_ids (JFloat _) = []"
| "collect_ids (JStr _) = []"
  by pat_completeness auto
termination
  by (relation "measure size") (auto dest: field_size item_size)

definition result_evidence_ids :: "json \<Rightarrow> string list" where
  "result_evidence_ids v = bset_of (collect_ids v)"

end
