(* ===== verification/Agent_Loop.thy ===== *)
theory Agent_Loop
  imports Agent_Task
begin

text \<open>
  The run of a task: \<open>execute_task\<close>, \<open>execute_loop\<close>, \<open>execute_tools\<close>, \<open>finalize_report\<close> and
  \<open>verify_canonical_report\<close> of \<open>crates/agent-runtime/src/runtime.rs\<close>, statement by statement, as state
  transformers that return or fail. The state is the code's \<open>RunState\<close> together with a record of
  everything the run did to the outside: events appended, checkpoints written, events delivered, effects
  begun and completed, requests to the provider and calls to the executor. What the outside answers is an
  environment: the store, the receiver and the cancellation token may fail or fire at every use, the
  provider and the executor may answer anything, and concurrent calls may finish in any order the
  concurrency bound allows.
\<close>

section \<open>State\<close>

record RunState =
  ru_task_id :: string
  ru_seq :: nat
  ru_phase :: AgentPhase
  ru_round :: nat
  ru_completed :: "string list"
  ru_evidence :: "string list"
  ru_unknown :: nat
  ru_catalog :: EvidenceCatalog
  ru_ledger :: FinalizationLedger

record StoredCheckpoint =
  cp_task_id :: string
  cp_phase :: AgentPhase
  cp_accepted_seq :: nat
  cp_model_round :: nat
  cp_completed_tool_ids :: "string list"
  cp_evidence_ids :: "string list"
  cp_state_version :: string

record EffectIntent =
  ei_effect_id :: string
  ei_task_id :: string
  ei_caused_by_seq :: nat
  ei_effect_kind :: string
  ei_idempotency_key :: string
  ei_payload :: json

record ModelRequest =
  mr_model :: string
  mr_messages :: "Message list"
  mr_tools :: "ToolDefinition list"
  mr_max_tokens :: nat
  mr_temperature :: f64

text \<open>The run so far: \<open>ru_tick\<close> counts the uses of the outside.\<close>

record Run = RunState +
  ru_tick :: nat
  ru_log :: "(nat \<times> AgentEvent) list"
  ru_checkpoints :: "StoredCheckpoint list"
  ru_sent :: "AgentEvent list"
  ru_effects :: "EffectIntent list"
  ru_done :: "(string \<times> string \<times> json) list"
  ru_requests :: "ModelRequest list"
  ru_executed :: "(string \<times> json) list"

definition run_new :: "string \<Rightarrow> nat \<Rightarrow> Run" where
  "run_new tid max_finalization =
     \<lparr>ru_task_id = tid, ru_seq = 0, ru_phase = Preparing, ru_round = 0, ru_completed = [], ru_evidence = [],
      ru_unknown = 0, ru_catalog = catalog_empty, ru_ledger = ledger_new max_finalization,
      ru_tick = 0, ru_log = [], ru_checkpoints = [], ru_sent = [], ru_effects = [], ru_done = [],
      ru_requests = [], ru_executed = []\<rparr>"

section \<open>The outside\<close>

datatype selection = Selected string | SelectRefused ProviderError | SelectTimedOut | SelectCancelled

datatype execution = Executed json | ExecutionRefused string | ExecutionTimedOut

record Env =
  en_cancelled :: "nat \<Rightarrow> bool"
  en_store :: "nat \<Rightarrow> string option"
  en_receiver :: "nat \<Rightarrow> bool"
  en_uuid :: "nat \<Rightarrow> string"
  en_now :: "nat \<Rightarrow> datetime"
  en_pick :: "nat \<Rightarrow> nat"
  en_provider_name :: string
  en_select :: selection
  en_connect :: "nat \<Rightarrow> nat \<Rightarrow> connection"
  en_execute :: "nat \<Rightarrow> string \<Rightarrow> json \<Rightarrow> execution"
  en_parse :: "string \<Rightarrow> (json, string) result"
  en_show :: "json \<Rightarrow> string"
  en_decode_draft :: "json \<Rightarrow> (VerifiedReportDraft, string) result"
  en_fingerprint :: "VerifiedReportDraft \<Rightarrow> string"
  en_decode_query :: "json \<Rightarrow> (EvidenceQuery, string) result"
  en_lower :: "string \<Rightarrow> string"
  en_printer :: printer
  en_rfc :: "datetime \<Rightarrow> string"
  en_day :: "datetime \<Rightarrow> string"

section \<open>Actions\<close>

type_synonym 'a act = "Run \<Rightarrow> ('a, RunError) result \<times> Run"

definition return_a :: "'a \<Rightarrow> 'a act" where
  "return_a a s = (Inr a, s)"

definition raise_a :: "RunError \<Rightarrow> 'a act" where
  "raise_a e s = (Inl e, s)"

definition bind_a :: "'a act \<Rightarrow> ('a \<Rightarrow> 'b act) \<Rightarrow> 'b act" where
  "bind_a m f s = (case m s of (Inl e, s') \<Rightarrow> (Inl e, s') | (Inr a, s') \<Rightarrow> f a s')"

definition then_a :: "'a act \<Rightarrow> 'b act \<Rightarrow> 'b act" where
  "then_a m n = bind_a m (\<lambda>_. n)"

definition modify_a :: "(Run \<Rightarrow> Run) \<Rightarrow> unit act" where
  "modify_a f s = (Inr (), f s)"

definition get_a :: "(Run \<Rightarrow> 'a) \<Rightarrow> 'a act" where
  "get_a f s = (Inr (f s), s)"

definition tick :: "Run \<Rightarrow> Run" where
  "tick s = s\<lparr>ru_tick := Suc (ru_tick s)\<rparr>"

text \<open>A use of the store: it reports an error, and has then changed nothing, or it takes effect.\<close>

definition store_a :: "Env \<Rightarrow> (Run \<Rightarrow> Run) \<Rightarrow> unit act" where
  "store_a env write s =
     (case en_store env (ru_tick s) of
        Some e \<Rightarrow> (Inl (EStore e), tick s)
      | None \<Rightarrow> (Inr (), write (tick s)))"

definition ensure_active :: "Env \<Rightarrow> unit act" where
  "ensure_active env s = (if en_cancelled env (ru_tick s) then (Inl ECancelled, tick s) else (Inr (), tick s))"

definition send_a :: "Env \<Rightarrow> AgentEvent \<Rightarrow> unit act" where
  "send_a env ev s =
     (if en_receiver env (ru_tick s) then (Inr (), (tick s)\<lparr>ru_sent := ru_sent s @ [ev]\<rparr>) else (Inl ECancelled, tick s))"

definition checkpoint_of :: "Run \<Rightarrow> StoredCheckpoint" where
  "checkpoint_of s =
     \<lparr>cp_task_id = ru_task_id s, cp_phase = ru_phase s, cp_accepted_seq = ru_seq s, cp_model_round = ru_round s,
      cp_completed_tool_ids = ru_completed s, cp_evidence_ids = ru_evidence s,
      cp_state_version = ''rust-agent-runtime-v1''\<rparr>"

definition record_a :: "Env \<Rightarrow> AgentEvent \<Rightarrow> unit act" where
  "record_a env ev =
     then_a (modify_a (\<lambda>s. s\<lparr>ru_seq := u64_saturating_inc (ru_seq s)\<rparr>))
     (then_a (store_a env (\<lambda>s. s\<lparr>ru_log := ru_log s @ [(ru_seq s, ev)]\<rparr>))
     (then_a (store_a env (\<lambda>s. s\<lparr>ru_checkpoints := ru_checkpoints s @ [checkpoint_of s]\<rparr>))
     (send_a env ev)))"

definition intent_of :: "Env \<Rightarrow> string \<Rightarrow> json \<Rightarrow> Run \<Rightarrow> EffectIntent" where
  "intent_of env kind payload s =
     \<lparr>ei_effect_id = en_uuid env (ru_tick s), ei_task_id = ru_task_id s, ei_caused_by_seq = ru_seq s,
      ei_effect_kind = kind, ei_idempotency_key = ru_task_id s @ '':'' @ show_nat (ru_seq s) @ '':'' @ kind,
      ei_payload = payload\<rparr>"

definition begin_effect :: "Env \<Rightarrow> string \<Rightarrow> json \<Rightarrow> string act" where
  "begin_effect env kind payload =
     bind_a (get_a (intent_of env kind payload)) (\<lambda>intent.
     then_a (store_a env (\<lambda>s. s\<lparr>ru_effects := ru_effects s @ [intent]\<rparr>))
     (return_a (ei_effect_id intent)))"

definition complete_effect :: "Env \<Rightarrow> string \<Rightarrow> string \<Rightarrow> json \<Rightarrow> unit act" where
  "complete_effect env i outcome result = store_a env (\<lambda>s. s\<lparr>ru_done := ru_done s @ [(i, outcome, result)]\<rparr>)"

definition error_json :: "string \<Rightarrow> json" where
  "error_json m = jobject [(''error'', JStr m)]"

text \<open>An effect that failed, and with it the task.\<close>

definition fail_effect :: "Env \<Rightarrow> string \<Rightarrow> string \<Rightarrow> RunError \<Rightarrow> 'a act" where
  "fail_effect env i message e = then_a (complete_effect env i ''failed'' (error_json message)) (raise_a e)"

definition set_phase :: "AgentPhase \<Rightarrow> unit act" where
  "set_phase p = modify_a (\<lambda>s. s\<lparr>ru_phase := p\<rparr>)"

section \<open>A provider turn\<close>

definition record_delta :: "Env \<Rightarrow> ModelChunk \<Rightarrow> unit act" where
  "record_delta env c =
     (case c of ChTextDelta d \<Rightarrow> if d = [] then return_a () else record_a env (TextDelta d) | _ \<Rightarrow> return_a ())"

fun malformed_message :: "StreamLimits \<Rightarrow> turn_error \<Rightarrow> string" where
  "malformed_message sl (Malformed m) = malformed_text sl m"
| "malformed_message sl e = error_text (turn_run_error sl e)"

fun stream_a :: "Env \<Rightarrow> StreamLimits \<Rightarrow> string \<Rightarrow> stream_item list \<Rightarrow> StreamState \<Rightarrow> StreamState act" where
  "stream_a env sl i [] st = then_a (ensure_active env) (return_a st)"
| "stream_a env sl i (item # items) st =
     then_a (ensure_active env)
       (case item of
          SChunk c \<Rightarrow>
            (case on_chunk sl c st of
               Inl e \<Rightarrow> fail_effect env i (malformed_message sl e) (turn_run_error sl e)
             | Inr st' \<Rightarrow> then_a (record_delta env c) (stream_a env sl i items st'))
        | SError e \<Rightarrow> fail_effect env i (pe_message e) (EProvider e)
        | SIdle \<Rightarrow> fail_effect env i ''provider stream idle timeout'' (network_error ''provider stream idle timeout'')
        | SCancelled \<Rightarrow> fail_effect env i ''cancelled during provider stream'' ECancelled)"

definition empty_action :: "StreamLimits \<Rightarrow> nat \<Rightarrow> string" where
  "empty_action sl n =
     (if max_empty_turn_retries sl < n then ''exhausted'' else if n = 1 then ''replay'' else ''replay_with_instruction'')"

definition end_turn :: "Env \<Rightarrow> StreamLimits \<Rightarrow> nat \<Rightarrow> string \<Rightarrow> nat \<Rightarrow> StreamState \<Rightarrow> (string \<times> ModelToolCall list) option act" where
  "end_turn env sl rnd i n st =
     (case finish_calls (partial_calls st) of
        Inl e \<Rightarrow> fail_effect env i (error_text (turn_run_error sl e)) (turn_run_error sl e)
      | Inr calls \<Rightarrow>
          if calls = [] \<and> trim (st_text st) = []
          then then_a (complete_effect env i ''failed'' (error_json ''model returned neither visible text nor a tool call''))
               (then_a (record_a env (ModelTurnEmpty rnd n (empty_action sl n))) (return_a None))
          else then_a (complete_effect env i ''succeeded''
                 (jobject [(''visible_chars'', JInt (int (visible_chars st))), (''tool_calls'', JInt (int (length (partial_calls st))))]))
               (return_a (Some (st_text st, calls))))"

definition request_payload :: "Env \<Rightarrow> nat \<Rightarrow> ModelRequest \<Rightarrow> json" where
  "request_payload env rnd q =
     jobject [(''provider'', JStr (en_provider_name env)), (''model'', JStr (mr_model q)), (''round'', JInt (int rnd)),
       (''message_count'', JInt (int (length (mr_messages q)))), (''tool_count'', JInt (int (length (mr_tools q))))]"

text \<open>The n-th attempt of a round, from 1; \<open>None\<close> is an empty turn.\<close>

definition attempt_a :: "Env \<Rightarrow> StreamLimits \<Rightarrow> nat \<Rightarrow> ModelRequest \<Rightarrow> nat \<Rightarrow> (string \<times> ModelToolCall list) option act" where
  "attempt_a env sl rnd q n =
     bind_a (begin_effect env ''provider.stream'' (request_payload env rnd q)) (\<lambda>i.
     then_a (modify_a (\<lambda>s. s\<lparr>ru_requests := ru_requests s @ [q]\<rparr>))
       (case en_connect env rnd (n - 1) of
          Connected items \<Rightarrow> bind_a (stream_a env sl i items stream_init) (end_turn env sl rnd i n)
        | Refused e \<Rightarrow> fail_effect env i (pe_message e) (EProvider e)
        | ConnectTimedOut \<Rightarrow> fail_effect env i ''provider connection timed out'' (network_error ''provider connection timed out'')
        | ConnectCancelled \<Rightarrow> fail_effect env i ''cancelled during provider connection'' ECancelled))"

definition EMPTY_TURN_INSTRUCTION :: string where
  "EMPTY_TURN_INSTRUCTION = ''Your previous turn returned nothing. Respond with exactly one of: a tool call that advances the research, or submit_report with the claims the evidence already supports. Do not reply with an empty turn.''"

definition request_of :: "RuntimeConfig \<Rightarrow> string \<Rightarrow> ToolDefinition list \<Rightarrow> Message list \<Rightarrow> ModelRequest" where
  "request_of cfg model tools ms = \<lparr>mr_model = model, mr_messages = ms, mr_tools = tools, mr_max_tokens = rc_max_tokens cfg,
     mr_temperature = rc_temperature cfg\<rparr>"

text \<open>A round's turn, after \<open>n\<close> empty ones; the messages grow by the instruction after a second one.\<close>

function turn_a ::
  "Env \<Rightarrow> RuntimeConfig \<Rightarrow> nat \<Rightarrow> string \<Rightarrow> ToolDefinition list \<Rightarrow> nat \<Rightarrow> Message list
     \<Rightarrow> ((string \<times> ModelToolCall list) \<times> Message list) act" where
  "turn_a env cfg rnd model tools n ms s =
     (case attempt_a env (rc_limits cfg) rnd (request_of cfg model tools ms) (n + 1) s of
        (Inl e, s') \<Rightarrow> (Inl e, s')
      | (Inr (Some t), s') \<Rightarrow> (Inr (t, ms), s')
      | (Inr None, s') \<Rightarrow>
          if max_empty_turn_retries (rc_limits cfg) < n + 1 then (Inl EEmptyModelTurn, s')
          else turn_a env cfg rnd model tools (n + 1)
                 (if 1 < n + 1 then ms @ [message_text MSystem EMPTY_TURN_INSTRUCTION] else ms) s')"
  by pat_completeness auto
termination
  by (relation "measure (\<lambda>(env, cfg, rnd, model, tools, n, ms, s). Suc (max_empty_turn_retries (rc_limits cfg)) - n)") auto

declare turn_a.simps [simp del]

section \<open>Preparing a batch of calls\<close>

record PreparedTool =
  pt_call :: ModelToolCall
  pt_definition :: ToolDefinition
  pt_arguments :: json
  pt_effect_id :: string

text \<open>A refused call is reported, and answered without being executed.\<close>

definition reject_a :: "Env \<Rightarrow> ModelToolCall \<Rightarrow> string \<Rightarrow> (PreparedTool, CompletedTool) result act" where
  "reject_a env call message =
     then_a (record_a env (ToolFailed (call_id call) (call_name call) message True))
     (return_a (Inl (completed_failure call message)))"

definition unknown_tool :: "Env \<Rightarrow> RuntimeConfig \<Rightarrow> ToolRegistry \<Rightarrow> ModelToolCall \<Rightarrow> (PreparedTool, CompletedTool) result act" where
  "unknown_tool env cfg reg call =
     then_a (modify_a (\<lambda>s. s\<lparr>ru_unknown := usize_saturating_add (ru_unknown s) 1\<rparr>))
     (bind_a (get_a ru_unknown) (\<lambda>n.
        if rc_max_unknown_tool_rejections cfg < n then raise_a (EUnknownTool (call_name call))
        else reject_a env call
          (''no such tool `'' @ call_name call @ ''`; it was not executed. Registered tools: '' @ join '', '' (tool_names reg))))"

definition schedule_a :: "Env \<Rightarrow> ModelToolCall \<Rightarrow> ToolDefinition \<Rightarrow> json \<Rightarrow> (PreparedTool, CompletedTool) result act" where
  "schedule_a env call d args =
     then_a (record_a env (ToolScheduled (call_id call) (call_name call)))
     (bind_a (begin_effect env (''tool.'' @ call_name call)
        (jobject [(''call_id'', JStr (call_id call)), (''arguments'', args)])) (\<lambda>i.
     then_a (record_a env (ToolStarted (call_id call) (call_name call)))
     (return_a (Inr \<lparr>pt_call = call, pt_definition = d, pt_arguments = args, pt_effect_id = i\<rparr>))))"

fun is_object :: "json \<Rightarrow> bool" where
  "is_object (JObj _) = True"
| "is_object _ = False"

definition prepare_call :: "Env \<Rightarrow> RuntimeConfig \<Rightarrow> ToolRegistry \<Rightarrow> ModelToolCall \<Rightarrow> (PreparedTool, CompletedTool) result act" where
  "prepare_call env cfg reg call =
     (case tool_get reg (call_name call) of
        None \<Rightarrow> unknown_tool env cfg reg call
      | Some d \<Rightarrow>
          (case en_parse env (call_arguments call) of
             Inl e \<Rightarrow> reject_a env call (''arguments were not valid JSON ('' @ e
               @ ''); if the payload was truncated, re-send a smaller argument object'')
           | Inr v \<Rightarrow>
               if is_object v then schedule_a env call d v
               else reject_a env call ''tool arguments must be a JSON object''))"

fun prepare_all ::
  "Env \<Rightarrow> RuntimeConfig \<Rightarrow> ToolRegistry \<Rightarrow> ModelToolCall list \<Rightarrow> (PreparedTool list \<times> CompletedTool list) act" where
  "prepare_all env cfg reg [] = return_a ([], [])"
| "prepare_all env cfg reg (call # calls) =
     bind_a (prepare_call env cfg reg call) (\<lambda>r.
     bind_a (prepare_all env cfg reg calls) (\<lambda>(ps, rejected).
       return_a (case r of Inl c \<Rightarrow> (ps, c # rejected) | Inr p \<Rightarrow> (p # ps, rejected))))"

section \<open>Engine calls\<close>

text \<open>
  \<open>buffer_unordered\<close>: calls are started in order while fewer than the bound are in flight, and any one
  of those in flight finishes next. A call in flight is kept with its place among all executions.
\<close>

type_synonym in_flight = "(nat \<times> PreparedTool) list"

definition start_more :: "nat \<Rightarrow> PreparedTool list \<Rightarrow> in_flight \<Rightarrow> (PreparedTool list \<times> in_flight) act" where
  "start_more bound queue flying =
     bind_a (get_a (\<lambda>s. length (ru_executed s))) (\<lambda>k.
       let new = take (bound - length flying) queue
       in then_a (modify_a (\<lambda>s. s\<lparr>ru_executed :=
              ru_executed s @ map (\<lambda>p. (td_engine_kind (pt_definition p), pt_arguments p)) new\<rparr>))
          (return_a (drop (bound - length flying) queue, flying @ enumerate k new)))"

definition tool_failed :: "Env \<Rightarrow> PreparedTool \<Rightarrow> string \<Rightarrow> bool \<Rightarrow> CompletedTool act" where
  "tool_failed env p message retryable =
     then_a (complete_effect env (pt_effect_id p) ''failed'' (error_json message))
     (then_a (record_a env (ToolFailed (call_id (pt_call p)) (call_name (pt_call p)) message retryable))
     (return_a (completed_failure (pt_call p) message)))"

definition fallback_symbol :: "RuntimeTask \<Rightarrow> json \<Rightarrow> string option" where
  "fallback_symbol tk args =
     (case jget ''symbol'' args of
        Some v \<Rightarrow> (case as_str v of Some s \<Rightarrow> Some s | None \<Rightarrow> rt_symbol tk)
      | None \<Rightarrow> rt_symbol tk)"

definition note_result :: "string \<Rightarrow> string list \<Rightarrow> Run \<Rightarrow> Run" where
  "note_result cid eids s = s\<lparr>ru_completed := ru_completed s @ [cid], ru_evidence := dedup (sort (ru_evidence s @ eids))\<rparr>"

definition tool_succeeded :: "Env \<Rightarrow> RuntimeTask \<Rightarrow> PreparedTool \<Rightarrow> json \<Rightarrow> CompletedTool act" where
  "tool_succeeded env tk p v =
     (let eids = result_evidence_ids v; cid = call_id (pt_call p)
      in then_a (complete_effect env (pt_effect_id p) ''succeeded'' v)
        (then_a (modify_a (\<lambda>s. s\<lparr>ru_catalog := ingest v (fallback_symbol tk (pt_arguments p)) (ru_catalog s)\<rparr>))
        (then_a (record_a env (ToolCompleted cid (call_name (pt_call p)) eids))
        (then_a (if eids = [] then return_a () else record_a env (EvidenceAdded cid eids))
        (then_a (modify_a (note_result cid eids))
        (return_a (completed_success (en_show env) (pt_call p) v eids)))))))"

definition engine_result :: "Env \<Rightarrow> RuntimeConfig \<Rightarrow> RuntimeTask \<Rightarrow> PreparedTool \<Rightarrow> execution \<Rightarrow> CompletedTool act" where
  "engine_result env cfg tk p r =
     (case r of
        Executed v \<Rightarrow>
          if rc_max_tool_result_bytes cfg < length (en_show env v)
          then tool_failed env p (error_text (EToolResultTooLarge (call_name (pt_call p)) (length (en_show env v))
                 (rc_max_tool_result_bytes cfg))) False
          else tool_succeeded env tk p v
      | ExecutionRefused message \<Rightarrow> tool_failed env p message False
      | ExecutionTimedOut \<Rightarrow>
          tool_failed env p (''tool timed out after '' @ show_duration (td_timeout (pt_definition p))) True)"

definition drop_nth :: "nat \<Rightarrow> 'a list \<Rightarrow> 'a list" where
  "drop_nth i xs = take i xs @ drop (Suc i) xs"

text \<open>The completions still due, one for each call queued or in flight.\<close>

fun engine_loop ::
  "Env \<Rightarrow> RuntimeConfig \<Rightarrow> RuntimeTask \<Rightarrow> nat \<Rightarrow> PreparedTool list \<Rightarrow> in_flight \<Rightarrow> CompletedTool list \<Rightarrow> CompletedTool list act" where
  "engine_loop env cfg tk 0 queue flying completed = return_a completed"
| "engine_loop env cfg tk (Suc n) queue flying completed =
     bind_a (start_more (max 1 (rc_max_parallel_tools cfg)) queue flying) (\<lambda>(queue', flying').
     bind_a (get_a (\<lambda>s. en_pick env (ru_tick s) mod length flying')) (\<lambda>i.
     then_a (ensure_active env)
     (bind_a (case flying' ! i of (k, p) \<Rightarrow>
         engine_result env cfg tk p (en_execute env k (td_engine_kind (pt_definition p)) (pt_arguments p))) (\<lambda>c.
     engine_loop env cfg tk n queue' (drop_nth i flying') (completed @ [c])))))"

section \<open>Submitting a report\<close>

datatype Finalization =
    FinPublished RenderedReport
  | FinRepair json
  | FinExhausted json string

definition reject_draft :: "string \<Rightarrow> RepairVerdict act" where
  "reject_draft f s =
     (case record_rejection f (ru_ledger s) of (l, verdict) \<Rightarrow> (Inr verdict, s\<lparr>ru_ledger := l\<rparr>))"

fun finalization_of :: "RepairVerdict \<Rightarrow> json \<Rightarrow> string \<Rightarrow> Finalization" where
  "finalization_of (Exhausted _ _) response reason = FinExhausted response reason"
| "finalization_of (Retry _ _ _) response reason = FinRepair response"

definition DECODE_EXHAUSTED :: string where
  "DECODE_EXHAUSTED = ''No finalization attempts remain. The report will not be published.''"

definition DECODE_INSTRUCTION :: string where
  "DECODE_INSTRUCTION = ''The draft did not match the submit_report schema, so no claim was read. The error names the exact field: fix that field and resubmit the complete draft. A numeric item must carry every field its provenance requires: observed needs evidence_id; calculated needs calculation_evidence_id, operation and input_evidence_ids; estimated needs method and basis_evidence_ids.''"

definition undecodable :: "Env \<Rightarrow> json \<Rightarrow> string \<Rightarrow> Finalization act" where
  "undecodable env args e =
     bind_a (reject_draft (''undecodable:'' @ en_show env args)) (\<lambda>verdict.
     bind_a (get_a (\<lambda>s. Agent_Finalize.attempts (ru_ledger s))) (\<lambda>n.
       return_a (finalization_of verdict
         (jobject [(''ok'', JBool False), (''stage'', JStr ''decode''), (''error'', JStr e), (''attempt'', JInt (int n)),
           (''instruction'', JStr (if is_exhausted verdict then DECODE_EXHAUSTED else DECODE_INSTRUCTION))])
         (''the submitted report never matched the contract schema: '' @ e))))"

definition problem_event :: "DraftProblem \<Rightarrow> AgentEvent" where
  "problem_event p =
     EvVerificationFinding \<lparr>vf_code = problem_code p,
       vf_message = utf8 [25253, 21578, 22865, 32422, 26657, 39564, 26410, 36890, 36807, 65306] @ problem_code p
         @ (case problem_claim_id p of Some i \<Rightarrow> utf8 [65288, 32467, 35770] @ '' '' @ i @ utf8 [65289] | None \<Rightarrow> []),
       blocking = True\<rparr>"

definition finding_event :: "string \<Rightarrow> AgentEvent" where
  "finding_event code =
     EvVerificationFinding \<lparr>vf_code = code, vf_message = utf8 [29420, 31435, 30830, 23450, 24615, 26657, 39564, 38459, 27490, 21457, 24067, 65306] @ code, blocking = True\<rparr>"

fun record_all :: "Env \<Rightarrow> AgentEvent list \<Rightarrow> unit act" where
  "record_all env [] = return_a ()"
| "record_all env (ev # evs) = then_a (record_a env ev) (record_all env evs)"

definition invalid_draft :: "Env \<Rightarrow> VerifiedReportDraft \<Rightarrow> DraftProblem list \<Rightarrow> Finalization act" where
  "invalid_draft env d problems =
     bind_a (reject_draft (en_fingerprint env d)) (\<lambda>verdict.
     then_a (record_all env (map problem_event (take MAX_REPORTED_PROBLEMS problems)))
     (bind_a (get_a (\<lambda>s. Agent_Finalize.attempts (ru_ledger s))) (\<lambda>n.
       return_a (finalization_of verdict (validation_repair problems verdict)
         (''structured report validation failed after '' @ show_nat n @ '' attempts'')))))"

definition cited_by_claim :: "Claim \<Rightarrow> string list" where
  "cited_by_claim c =
     cl_evidence_ids c @ cl_disclosed_conflicts c @ concat (map (referenced_evidence \<circ> ni_provenance) (cl_numeric_items c))"

definition cited_by :: "VerifiedReportDraft \<Rightarrow> string list" where
  "cited_by d = bset_of (concat (map cited_by_claim (dr_claims d)))"

definition VERIFY_KIND :: string where "VERIFY_KIND = ''research.agent_report_verify''"

definition verify_payload :: "string \<Rightarrow> TaskSpec \<Rightarrow> RawFact list \<Rightarrow> json" where
  "verify_payload form spec facts =
     jobject [(''report'', JStr form), (''context'', verification_context spec facts), (''task_spec'', task_spec_json spec)]"

definition execute_a :: "Env \<Rightarrow> string \<Rightarrow> json \<Rightarrow> execution act" where
  "execute_a env kind payload s =
     (Inr (en_execute env (length (ru_executed s)) kind payload), s\<lparr>ru_executed := ru_executed s @ [(kind, payload)]\<rparr>)"

definition verification_effect :: "VerifiedReportDraft \<Rightarrow> string \<Rightarrow> RenderedReport \<Rightarrow> json" where
  "verification_effect d form r =
     jobject [(''report_chars'', JInt (int (char_count form))),
       (''claims'', JInt (int (sum_list (map (length \<circ> rd_claims) (rr_sections r))))),
       (''references'', JInt (int (length (rr_references r)))), (''cited_facts'', JInt (int (length (cited_by d)))),
       (''contract'', JStr ''structured'')]"

definition verify_canonical_report :: "Env \<Rightarrow> RuntimeTask \<Rightarrow> VerifiedReportDraft \<Rightarrow> RenderedReport \<Rightarrow> json act" where
  "verify_canonical_report env tk d r =
     bind_a (get_a (\<lambda>s. verifier_facts (cited_by d) (ru_catalog s))) (\<lambda>facts.
     bind_a (get_a (\<lambda>s. verification_spec (en_rfc env) (en_day env) (en_now env (ru_tick s)) tk)) (\<lambda>spec.
     bind_a (begin_effect env ''report.verify'' (verification_effect d (rr_verifier_markdown r) r)) (\<lambda>i.
     bind_a (execute_a env VERIFY_KIND (verify_payload (rr_verifier_markdown r) spec facts)) (\<lambda>answer.
       case answer of
         Executed v \<Rightarrow> then_a (complete_effect env i ''succeeded'' v) (return_a v)
       | ExecutionRefused e \<Rightarrow> fail_effect env i e (EVerificationFailed e)
       | ExecutionTimedOut \<Rightarrow>
           fail_effect env i ''verification timeout'' (EVerificationFailed ''deterministic verification timed out'')))))"

definition verdict_passes :: "json \<Rightarrow> bool" where
  "verdict_passes v \<longleftrightarrow> (case jget ''passed'' v of Some b \<Rightarrow> as_bool b = Some True | None \<Rightarrow> False)"

definition verdict_findings :: "json \<Rightarrow> string list" where
  "verdict_findings v =
     (case jget ''findings'' v of
        Some fs \<Rightarrow> List.map_filter as_str (case as_array fs of Some xs \<Rightarrow> xs | None \<Rightarrow> [])
      | None \<Rightarrow> [])"

definition refused_report :: "Env \<Rightarrow> VerifiedReportDraft \<Rightarrow> string list \<Rightarrow> Finalization act" where
  "refused_report env d fs =
     then_a (record_all env (map finding_event (take MAX_REPORTED_PROBLEMS fs)))
     (bind_a (reject_draft (en_fingerprint env d)) (\<lambda>verdict.
       return_a (finalization_of verdict
         (verification_repair fs (verifier_line_claims (show_f64 (en_printer env)) d) verdict) (join '', '' fs))))"

definition task_symbols :: "RuntimeTask \<Rightarrow> string list" where
  "task_symbols tk = (case rt_symbol tk of Some s \<Rightarrow> [s] | None \<Rightarrow> [])"

definition finalize_report :: "Env \<Rightarrow> RuntimeTask \<Rightarrow> json \<Rightarrow> Finalization act" where
  "finalize_report env tk args =
     (case en_decode_draft env args of
        Inl e \<Rightarrow> undecodable env args e
      | Inr d \<Rightarrow>
          bind_a (get_a (\<lambda>s. descriptors (ru_catalog s))) (\<lambda>reg.
          let problems = validate_draft (en_printer env) d reg (task_symbols tk)
          in if problems \<noteq> [] then invalid_draft env d problems
             else let r = render (show_f64 (en_printer env)) d reg
               in then_a (set_phase Verifying) (then_a (record_a env VerificationStarted)
                  (bind_a (verify_canonical_report env tk d r) (\<lambda>v.
                     if verdict_passes v then return_a (FinPublished r)
                     else refused_report env d (verdict_findings v))))))"

section \<open>Runtime-served calls\<close>

record RunOutcome =
  ro_task_id :: string
  ro_report :: string
  ro_evidence_ids :: "string list"

definition complete_run :: "Env \<Rightarrow> string \<Rightarrow> RunOutcome act" where
  "complete_run env report =
     then_a (set_phase Completed)
     (bind_a (get_a ru_evidence) (\<lambda>eids.
     then_a (record_a env (EvCompleted report eids))
     (get_a (\<lambda>s. \<lparr>ro_task_id = ru_task_id s, ro_report = report, ro_evidence_ids = eids\<rparr>))))"

datatype served = Answered CompletedTool | Published RunOutcome | OutOfAttempts string CompletedTool

definition serve_search :: "Env \<Rightarrow> PreparedTool \<Rightarrow> served act" where
  "serve_search env p =
     bind_a (get_a (\<lambda>s. case en_decode_query env (pt_arguments p) of
         Inr q \<Rightarrow> search (en_lower env) (en_show env) q (ru_catalog s)
       | Inl e \<Rightarrow> jobject [(''ok'', JBool False), (''error'', JStr e),
           (''instruction'', JStr ''Correct the search arguments and try again.'')])) (\<lambda>response.
     then_a (complete_effect env (pt_effect_id p) ''succeeded'' response)
     (then_a (record_a env (ToolCompleted (call_id (pt_call p)) (call_name (pt_call p)) []))
     (return_a (Answered (completed_runtime (pt_call p) response)))))"

definition REPAIR_MESSAGE :: string where "REPAIR_MESSAGE = utf8 [25253, 21578, 26410, 36890, 36807, 21457, 24067, 21069, 26657, 39564, 65292, 24050, 36820, 22238, 32467, 26500, 21270, 20462, 22797, 25351, 24341]"
definition EXHAUSTED_MESSAGE :: string where "EXHAUSTED_MESSAGE = utf8 [25253, 21578, 21457, 24067, 39044, 31639, 24050, 29992, 23613, 65292, 25298, 32477, 21457, 24067]"

definition serve_submission :: "Env \<Rightarrow> RuntimeTask \<Rightarrow> PreparedTool \<Rightarrow> served act" where
  "serve_submission env tk p =
     bind_a (finalize_report env tk (pt_arguments p)) (\<lambda>outcome.
       case outcome of
         FinPublished r \<Rightarrow>
           then_a (complete_effect env (pt_effect_id p) ''succeeded'' (jobject [(''published'', JBool True)]))
           (then_a (record_a env (ToolCompleted (call_id (pt_call p)) (call_name (pt_call p))
               (map er_internal_id (rr_references r))))
           (bind_a (complete_run env (rr_markdown r)) (\<lambda>oc. return_a (Published oc))))
       | FinRepair response \<Rightarrow>
           then_a (complete_effect env (pt_effect_id p) ''failed'' (jobject [(''published'', JBool False)]))
           (then_a (record_a env (ToolFailed (call_id (pt_call p)) (call_name (pt_call p))
               REPAIR_MESSAGE True))
           (return_a (Answered (completed_runtime (pt_call p) response))))
       | FinExhausted response reason \<Rightarrow>
           then_a (complete_effect env (pt_effect_id p) ''failed''
             (jobject [(''published'', JBool False), (''exhausted'', JBool True)]))
           (then_a (record_a env (ToolFailed (call_id (pt_call p)) (call_name (pt_call p))
               EXHAUSTED_MESSAGE False))
           (return_a (OutOfAttempts reason (completed_runtime (pt_call p) response)))))"

definition serve_runtime :: "Env \<Rightarrow> RuntimeTask \<Rightarrow> PreparedTool \<Rightarrow> served act" where
  "serve_runtime env tk p =
     (if td_name (pt_definition p) = ''search_evidence'' then serve_search env p
      else if td_name (pt_definition p) = ''submit_report'' then serve_submission env tk p
      else raise_a (EUnknownTool (td_name (pt_definition p))))"

record ToolBatch =
  tb_messages :: "Message list"
  tb_published :: "RunOutcome option"
  tb_exhausted :: "string option"

text \<open>In call order; a publication ends the loop, a spent budget does not.\<close>

fun runtime_loop ::
  "Env \<Rightarrow> RuntimeTask \<Rightarrow> PreparedTool list \<Rightarrow> Message list \<Rightarrow> string option \<Rightarrow> ToolBatch act" where
  "runtime_loop env tk [] ms exhausted =
     return_a \<lparr>tb_messages = ms, tb_published = None, tb_exhausted = exhausted\<rparr>"
| "runtime_loop env tk (p # ps) ms exhausted =
     then_a (ensure_active env)
     (bind_a (serve_runtime env tk p) (\<lambda>r.
       case r of
         Published oc \<Rightarrow> return_a \<lparr>tb_messages = ms, tb_published = Some oc, tb_exhausted = exhausted\<rparr>
       | Answered c \<Rightarrow> runtime_loop env tk ps (ms @ [into_message (en_show env) c]) exhausted
       | OutOfAttempts reason c \<Rightarrow> runtime_loop env tk ps (ms @ [into_message (en_show env) c]) (Some reason)))"

definition runtime_served :: "PreparedTool \<Rightarrow> bool" where
  "runtime_served p \<longleftrightarrow> td_handler (pt_definition p) = RuntimeHandler"

definition execute_tools :: "Env \<Rightarrow> RuntimeConfig \<Rightarrow> ToolRegistry \<Rightarrow> RuntimeTask \<Rightarrow> ModelToolCall list \<Rightarrow> ToolBatch act" where
  "execute_tools env cfg reg tk calls =
     bind_a (prepare_all env cfg reg calls) (\<lambda>(prepared, rejected).
     let runtime_calls = filter runtime_served prepared; engine_calls = filter (Not \<circ> runtime_served) prepared
     in bind_a (engine_loop env cfg tk (length engine_calls) engine_calls [] rejected) (\<lambda>completed.
        runtime_loop env tk (sort_key (\<lambda>p. call_index (pt_call p)) runtime_calls)
          (map (into_message (en_show env)) (sort_key ct_index completed)) None))"

section \<open>The rounds\<close>

definition BUDGET_SPENT_INSTRUCTION :: string where
  "BUDGET_SPENT_INSTRUCTION = ''The research budget for this task is spent, so the retrieval tools have been withdrawn. Only search_evidence, run_financial_calculation and submit_report remain. Finalize with the evidence already gathered and state remaining gaps as limitations or as claims of kind=unknown rather than asserting them.''"

definition PROSE_INSTRUCTION :: string where
  "PROSE_INSTRUCTION = ''That answer was not published: prose is not a publishable report. Call submit_report with typed claims. Use search_evidence for canonical identifiers, give every material number a provenance, and state what the evidence does not support as a limitation or as kind=unknown.''"

text \<open>How a round ends: with an outcome, or with the messages of the next one.\<close>

type_synonym round_end = "(RunOutcome, Message list) result"

definition tool_round ::
  "Env \<Rightarrow> RuntimeConfig \<Rightarrow> ToolRegistry \<Rightarrow> RuntimeTask \<Rightarrow> nat \<Rightarrow> string \<Rightarrow> ModelToolCall list \<Rightarrow> Message list \<Rightarrow> round_end act" where
  "tool_round env cfg reg tk rnd t calls ms =
     then_a (set_phase AwaitingTools)
     (bind_a (execute_tools env cfg reg tk calls) (\<lambda>batch.
       let ms' = ms @ [\<lparr>mg_role = MAssistant, mg_content = t, mg_tool_calls = calls, mg_tool_call_id = None\<rparr>]
             @ tb_messages batch
       in case tb_published batch of
            Some oc \<Rightarrow> return_a (Inr oc)
          | None \<Rightarrow>
             (case tb_exhausted batch of
                Some reason \<Rightarrow> raise_a (EVerificationFailed reason)
              | None \<Rightarrow> return_a (Inl (if rnd = research_rounds cfg
                    then ms' @ [message_text MSystem BUDGET_SPENT_INSTRUCTION] else ms')))))"

definition prose_round :: "Env \<Rightarrow> RuntimeConfig \<Rightarrow> string \<Rightarrow> Message list \<Rightarrow> round_end act" where
  "prose_round env cfg t ms =
     (if \<not> rc_verify_reports cfg then bind_a (complete_run env t) (\<lambda>oc. return_a (Inr oc))
      else bind_a (reject_draft (''free-form-turn:'' @ take_chars 512 t)) (\<lambda>verdict.
        if is_exhausted verdict
        then raise_a (EVerificationFailed ''the report was never submitted through the structured contract'')
        else then_a (set_phase Reviewing)
          (return_a (Inl (ms @ [message_text MAssistant t, message_text MSystem PROSE_INSTRUCTION])))))"

definition round_a ::
  "Env \<Rightarrow> RuntimeConfig \<Rightarrow> ToolRegistry \<Rightarrow> RuntimeTask \<Rightarrow> string \<Rightarrow> nat \<Rightarrow> Message list \<Rightarrow> round_end act" where
  "round_a env cfg reg tk model rnd ms =
     then_a (ensure_active env)
     (then_a (modify_a (\<lambda>s. s\<lparr>ru_round := rnd, ru_phase := Reasoning\<rparr>))
     (then_a (record_a env (ModelStarted model rnd))
     (bind_a (turn_a env cfg rnd model (offered_tools cfg reg rnd) 0 ms) (\<lambda>((t, calls), ms').
        if calls \<noteq> [] then tool_round env cfg reg tk rnd t calls ms' else prose_round env cfg t ms'))))"

text \<open>The rounds that are left, and the number of the next one.\<close>

fun rounds_a ::
  "Env \<Rightarrow> RuntimeConfig \<Rightarrow> ToolRegistry \<Rightarrow> RuntimeTask \<Rightarrow> string \<Rightarrow> nat \<Rightarrow> nat \<Rightarrow> Message list \<Rightarrow> RunOutcome act" where
  "rounds_a env cfg reg tk model 0 rnd ms = raise_a (EModelRoundLimit (rc_max_model_rounds cfg))"
| "rounds_a env cfg reg tk model (Suc k) rnd ms =
     bind_a (round_a env cfg reg tk model rnd ms) (\<lambda>r.
       case r of Inr oc \<Rightarrow> return_a oc | Inl ms' \<Rightarrow> rounds_a env cfg reg tk model k (Suc rnd) ms')"

section \<open>The whole run\<close>

definition select_model :: "Env \<Rightarrow> string act" where
  "select_model env =
     bind_a (begin_effect env ''provider.model.select'' (jobject [(''provider'', JStr (en_provider_name env))])) (\<lambda>i.
       case en_select env of
         Selected model \<Rightarrow> then_a (complete_effect env i ''succeeded'' (jobject [(''model'', JStr model)])) (return_a model)
       | SelectRefused e \<Rightarrow> fail_effect env i (pe_message e) (EProvider e)
       | SelectTimedOut \<Rightarrow> fail_effect env i ''provider model discovery timed out''
           (network_error ''provider model discovery timed out'')
       | SelectCancelled \<Rightarrow> fail_effect env i ''cancelled during provider model discovery'' ECancelled)"

definition SUMMARY_PREFIX :: string where
  "SUMMARY_PREFIX = utf8 [20197, 19979, 26159, 36739, 26089, 20250, 35805, 30340, 30830, 23450, 24615, 21387, 32553, 32034, 24341, 65292, 20165, 29992, 20110, 29702, 35299, 29992, 25143, 19978, 19979, 25991, 65307, 23427, 19981, 26159, 24403, 21069, 20107, 23454, 12289, 19981, 26159, 26032, 35777, 25454, 65292, 20063, 19981, 24471, 26367, 20195, 37325, 26032, 21462, 25968, 19982, 35777, 25454, 24341, 29992, 65306] @ [newline]"

definition PLAN_SUMMARY :: string where
  "PLAN_SUMMARY = utf8 [26681, 25454, 38382, 39064, 21160, 24577, 36873, 25321, 34892, 24773, 12289, 22522, 26412, 38754, 12289, 36164, 35759, 12289, 37327, 21270, 21644, 35777, 25454, 26680, 39564, 24037, 20855]"

text \<open>\<open>prompt\<close> is the system prompt of a task.\<close>

definition initial_messages :: "(RuntimeTask \<Rightarrow> string) \<Rightarrow> RuntimeTask \<Rightarrow> Message list" where
  "initial_messages prompt tk =
     [message_text MSystem (prompt tk)]
     @ (case rt_history_summary tk of Some t \<Rightarrow> [message_text MSystem (SUMMARY_PREFIX @ t)] | None \<Rightarrow> [])
     @ rt_history tk @ [message_text MUser (trim (rt_objective tk))]"

definition execute_loop :: "Env \<Rightarrow> RuntimeConfig \<Rightarrow> ToolRegistry \<Rightarrow> (RuntimeTask \<Rightarrow> string) \<Rightarrow> RuntimeTask \<Rightarrow> RunOutcome act" where
  "execute_loop env cfg reg prompt tk =
     bind_a (get_a ru_task_id) (\<lambda>tid.
     then_a (record_a env (SessionStarted tid (rt_objective tk)))
     (then_a (record_a env UserMessageAccepted)
     (then_a (set_phase Planning)
     (then_a (record_a env PlanningStarted)
     (then_a (record_a env (PlanUpdated PLAN_SUMMARY))
     (bind_a (select_model env) (\<lambda>model.
     rounds_a env cfg reg tk model (rc_max_model_rounds cfg) 1 (initial_messages prompt tk))))))))"

text \<open>
  How an error ends the task: the phase and the terminal event. \<open>None\<close> is the panic of a suspension
  whose time of resumption does not exist.
\<close>

definition suspends :: "ProviderError \<Rightarrow> bool" where
  "suspends e \<longleftrightarrow> pe_retryable e \<or> pe_kind e \<in> {PQuota, PRateLimited}"

definition terminal_event :: "Env \<Rightarrow> datetime \<Rightarrow> RunError \<Rightarrow> (AgentPhase \<times> AgentEvent) option" where
  "terminal_event env now e =
     (case e of
        ECancelled \<Rightarrow> Some (Cancelled, EvCancelled)
      | EProvider pe \<Rightarrow>
          if suspends pe
          then map_option (\<lambda>action.
              (Suspended, EvSuspended (pe_message pe)
                (case action of SuspendUntil resume _ \<Rightarrow> Some (en_rfc env resume) | _ \<Rightarrow> None)
                (Some (fault_as_str (fault_classify pe)))))
            (recovery_plan (fault_classify pe) (budget_new 1) now)
          else Some (Failed, EvFailed (error_text e))
      | _ \<Rightarrow> Some (Failed, EvFailed (error_text e)))"

text \<open>A failure to record the terminal event is logged, and the error stays what it was.\<close>

definition end_run :: "Env \<Rightarrow> RunError \<Rightarrow> RunOutcome act" where
  "end_run env e s =
     (case terminal_event env (en_now env (ru_tick s)) e of
        None \<Rightarrow> (Inl (EInternal ''task join failed''), s)
      | Some (phase, ev) \<Rightarrow> (Inl e, snd (then_a (set_phase phase) (record_a env ev) s)))"

definition catch_a :: "'a act \<Rightarrow> (RunError \<Rightarrow> 'a act) \<Rightarrow> 'a act" where
  "catch_a m h s = (case m s of (Inl e, s') \<Rightarrow> h e s' | (Inr a, s') \<Rightarrow> (Inr a, s'))"

definition execute_task ::
  "Env \<Rightarrow> RuntimeConfig \<Rightarrow> ToolRegistry \<Rightarrow> (RuntimeTask \<Rightarrow> string) \<Rightarrow> string \<Rightarrow> RuntimeTask \<Rightarrow> (RunOutcome, RunError) result \<times> Run" where
  "execute_task env cfg reg prompt tid tk =
     (case task_validate tk of
        Inl e \<Rightarrow> (Inl e, run_new tid (rc_max_finalization_attempts cfg))
      | Inr _ \<Rightarrow>
          then_a (store_a env id) (catch_a (execute_loop env cfg reg prompt tk) (end_run env))
            (run_new tid (rc_max_finalization_attempts cfg)))"

end
