(* ===== verification/Agent_Logic.thy ===== *)
theory Agent_Logic
  imports Agent_Loop
begin

text \<open>
  The logic in which runs are verified: an action keeps an invariant, or a triple says what holds after it returns
  or fails. The locale \<open>run_invariant\<close> derives, from laws about the primitive steps of a run, that
  every action of \<open>Agent_Loop\<close> up to the publication of a report keeps an invariant, and that a
  publication is preceded by a state in which the report is verified.
\<close>

named_theorems keep

section \<open>A program logic\<close>

definition triple :: "(Run \<Rightarrow> bool) \<Rightarrow> 'a act \<Rightarrow> ('a \<Rightarrow> Run \<Rightarrow> bool) \<Rightarrow> (Run \<Rightarrow> bool) \<Rightarrow> bool" where
  "triple P m Q E \<longleftrightarrow> (\<forall>s. P s \<longrightarrow> (case m s of (Inl e, s') \<Rightarrow> E s' | (Inr a, s') \<Rightarrow> Q a s'))"

definition keeps :: "(Run \<Rightarrow> bool) \<Rightarrow> (Run \<Rightarrow> bool) \<Rightarrow> 'a act \<Rightarrow> bool" where
  "keeps I W m \<longleftrightarrow> triple I m (\<lambda>_. I) W"

lemmas keeps_triple = keeps_def

lemma triple_bind:
  "triple P m R E \<Longrightarrow> (\<And>a. triple (R a) (f a) Q E) \<Longrightarrow> triple P (bind_a m f) Q E"
  by (fastforce simp: triple_def bind_a_def split: sum.splits prod.splits)

lemma triple_then: "triple P m (\<lambda>_. R) E \<Longrightarrow> triple R n Q E \<Longrightarrow> triple P (then_a m n) Q E"
  unfolding then_a_def by (rule triple_bind)

lemma triple_conseq:
  "triple P' m Q' E' \<Longrightarrow> (\<And>s. P s \<Longrightarrow> P' s) \<Longrightarrow> (\<And>a s. Q' a s \<Longrightarrow> Q a s) \<Longrightarrow> (\<And>s. E' s \<Longrightarrow> E s) \<Longrightarrow> triple P m Q E"
  by (fastforce simp: triple_def split: sum.splits prod.splits)

lemma triple_keeps: "keeps I W m \<Longrightarrow> (\<And>s. W s \<Longrightarrow> E s) \<Longrightarrow> triple I m (\<lambda>_. I) E"
  unfolding keeps_triple by (rule triple_conseq)

lemma triple_return: "(\<And>s. P s \<Longrightarrow> Q a s) \<Longrightarrow> triple P (return_a a) Q E"
  by (simp add: triple_def return_a_def)

lemma triple_raise: "(\<And>s. P s \<Longrightarrow> E s) \<Longrightarrow> triple P (raise_a e) Q E"
  by (simp add: triple_def raise_a_def)

lemma triple_get: "triple P (get_a f) (\<lambda>a s. P s \<and> a = f s) E"
  by (simp add: triple_def get_a_def)

lemma triple_pure:
  "(b \<Longrightarrow> triple P' m Q E) \<Longrightarrow> (\<And>s. P s \<Longrightarrow> P' s \<and> b) \<Longrightarrow> triple P m Q E"
  by (auto simp: triple_def)

lemma triple_ghost: "(\<And>c. triple (\<lambda>s. P s \<and> g s = c) m Q E) \<Longrightarrow> triple P m Q E"
  by (simp add: triple_def)

lemma triple_modify: "(\<And>s. P s \<Longrightarrow> Q () (f s)) \<Longrightarrow> triple P (modify_a f) Q E"
  by (simp add: triple_def modify_a_def)

lemma tripleD:
  "triple P m Q E \<Longrightarrow> P s \<Longrightarrow> m s = (Inr a, s') \<Longrightarrow> Q a s'"
  "triple P m Q E \<Longrightarrow> P s \<Longrightarrow> m s = (Inl e, s') \<Longrightarrow> E s'"
  by (fastforce simp: triple_def)+

lemma keeps_return [keep]: "keeps I W (return_a a)"
  unfolding keeps_def by (rule triple_return)

lemma keeps_get [keep]: "keeps I W (get_a f)"
  by (simp add: keeps_def triple_def get_a_def)

lemma keeps_bind [keep]: "keeps I W m \<Longrightarrow> (\<And>a. keeps I W (f a)) \<Longrightarrow> keeps I W (bind_a m f)"
  unfolding keeps_triple by (rule triple_bind)

lemma keeps_then [keep]: "keeps I W m \<Longrightarrow> keeps I W n \<Longrightarrow> keeps I W (then_a m n)"
  unfolding then_a_def by (intro keeps_bind)

lemma keeps_modify: "(\<And>s. I s \<Longrightarrow> I (f s)) \<Longrightarrow> keeps I W (modify_a f)"
  unfolding keeps_def by (rule triple_modify)

lemma keeps_if [keep]: "(b \<Longrightarrow> keeps I W m) \<Longrightarrow> (\<not> b \<Longrightarrow> keeps I W n) \<Longrightarrow> keeps I W (if b then m else n)"
  by simp

section \<open>Invariants of a run\<close>

fun ends_task :: "AgentEvent \<Rightarrow> bool" where
  "ends_task EvCancelled = True"
| "ends_task (EvCompleted _ _) = True"
| "ends_task (EvFailed _) = True"
| "ends_task (EvSuspended _ _ _) = True"
| "ends_task _ = False"

text \<open>Two states with the same account of events and executions.\<close>

definition same_account :: "Run \<Rightarrow> Run \<Rightarrow> bool" where
  "same_account s s' \<longleftrightarrow>
     ru_task_id s' = ru_task_id s \<and> ru_seq s' = ru_seq s \<and> ru_log s' = ru_log s \<and> ru_sent s' = ru_sent s
     \<and> ru_checkpoints s' = ru_checkpoints s \<and> ru_executed s' = ru_executed s"

locale run_invariant =
  fixes env :: Env and allowed :: "string \<Rightarrow> bool" and I W :: "Run \<Rightarrow> bool"
  assumes weaker: "I s \<Longrightarrow> W s"
    and event: "\<not> ends_task ev \<Longrightarrow> keeps I W (record_a env ev)"
    and same: "I s \<Longrightarrow> same_account s s' \<Longrightarrow> I s'"
    and start: "I s \<Longrightarrow> \<forall>x \<in> set xs. allowed (fst x) \<Longrightarrow> I (s\<lparr>ru_executed := ru_executed s @ xs\<rparr>)"
begin

lemma keeps_still: "(\<And>s. I s \<Longrightarrow> I (snd (m s))) \<Longrightarrow> keeps I W m"
  using weaker by (simp add: keeps_def triple_def case_prod_unfold split: sum.split)

lemma keeps_same: "(\<And>s. same_account s (snd (m s))) \<Longrightarrow> keeps I W m"
  by (rule keeps_still) (blast intro: same)

lemma raises [keep]: "keeps I W (raise_a e)"
  by (rule keeps_still) (simp add: raise_a_def)

lemma modify_same [keep]: "(\<And>s. same_account s (f s)) \<Longrightarrow> keeps I W (modify_a f)"
  using same by (intro keeps_modify) blast

lemma active [keep]: "keeps I W (ensure_active env)"
  by (rule keeps_same) (simp add: ensure_active_def tick_def same_account_def)

lemma begins [keep]: "keeps I W (begin_effect env kind payload)"
  unfolding begin_effect_def
  by (intro keep keeps_same)
    (simp add: store_a_def tick_def same_account_def split: option.split)

lemma completes [keep]: "keeps I W (complete_effect env i st result)"
  unfolding complete_effect_def
  by (rule keeps_same) (simp add: store_a_def tick_def same_account_def split: option.split)

lemma fails [keep]: "keeps I W (fail_effect env i message e)"
  unfolding fail_effect_def by (intro keep)

lemma fails_triple: "(\<And>s. P s \<Longrightarrow> I s) \<Longrightarrow> triple P (fail_effect env i message e) Q W"
  unfolding fail_effect_def
  by (rule triple_then [OF triple_conseq [OF completes [unfolded keeps_triple]] triple_raise [OF weaker]])

lemma phase [keep]: "keeps I W (set_phase p)"
  unfolding set_phase_def by (rule modify_same) (simp add: same_account_def)

lemma rejects [keep]: "keeps I W (reject_draft f)"
  by (rule keeps_same) (simp add: reject_draft_def same_account_def case_prod_unfold)

lemma records [keep]: "list_all (\<lambda>ev. \<not> ends_task ev) evs \<Longrightarrow> keeps I W (record_all env evs)"
  by (induction evs) (auto intro!: keep event)

lemma streams [keep]: "keeps I W (stream_a env sl i items st)"
proof (induction items arbitrary: st)
  case (Cons item items)
  have delta: "keeps I W (record_delta env c)" for c
    unfolding record_delta_def by (cases c) (auto intro!: keep event)
  show ?case
    using Cons delta by (cases item) (auto intro!: keep split: sum.split)
qed (auto intro!: keep)

lemma ends_turn [keep]: "keeps I W (end_turn env sl rnd i n st)"
  unfolding end_turn_def by (auto intro!: keep event split: sum.split)

lemma attempts [keep]: "keeps I W (attempt_a env sl rnd q n)"
  unfolding attempt_a_def
  by (auto intro!: keep split: connection.split simp: same_account_def)

lemma turns [keep]: "keeps I W (turn_a env cfg rnd model tools n ms)"
proof -
  have "case turn_a e cfg rnd model tools n ms s of (Inl _, s') \<Rightarrow> W s' | (Inr _, s') \<Rightarrow> I s'"
    if "e = env" "I s" for e s
    using that
  proof (induction e cfg rnd model tools n ms s rule: turn_a.induct)
    case (1 e cfg rnd model tools n ms s)
    obtain r s' where turn: "attempt_a e (rc_limits cfg) rnd (request_of cfg model tools ms) (n + 1) s = (r, s')"
      by (cases "attempt_a e (rc_limits cfg) rnd (request_of cfg model tools ms) (n + 1) s")
    have step: "case r of Inl _ \<Rightarrow> W s' | Inr _ \<Rightarrow> I s'"
      using attempts [of "rc_limits cfg" rnd "request_of cfg model tools ms" "n + 1"] turn 1(2,3)
      by (auto simp: keeps_def triple_def split: sum.split)
    show ?case
    proof (cases r)
      case (Inr t)
      then have s': "I s'" using step by simp
      show ?thesis
        using 1(1) [OF turn [symmetric] _ refl, OF _ _ 1(2) s'] s' weaker [OF s'] turn Inr
        by (subst turn_a.simps) (auto split: option.split)
    qed (use step turn in \<open>subst turn_a.simps, simp\<close>)
  qed
  then show ?thesis by (simp add: keeps_def triple_def)
qed

lemma prepares [keep]: "keeps I W (prepare_call env cfg reg call)"
  unfolding prepare_call_def unknown_tool_def reject_a_def schedule_a_def
  by (auto intro!: keep event split: option.split sum.split simp: same_account_def)

lemma prepares_all [keep]: "keeps I W (prepare_all env cfg reg calls)"
  by (induction calls) (auto intro!: keep)

lemma starts:
  assumes "I s" "\<forall>p \<in> set queue. allowed (td_engine_kind (pt_definition p))"
    "start_more bound queue flying s = (r, s')"
  shows "I s' \<and> (\<exists>flying'. r = Inr (drop (bound - length flying) queue, flying'))"
proof -
  let ?new = "take (bound - length flying) queue"
  have "I (s\<lparr>ru_executed := ru_executed s @ map (\<lambda>p. (td_engine_kind (pt_definition p), pt_arguments p)) ?new\<rparr>)"
    using assms(1,2) by (intro start) (auto dest: in_set_takeD)
  then show ?thesis
    using assms(3) by (auto simp: start_more_def bind_a_def get_a_def then_a_def modify_a_def return_a_def Let_def)
qed

lemma engine_results [keep]: "keeps I W (engine_result env cfg tk p r)"
  unfolding engine_result_def tool_failed_def tool_succeeded_def Let_def note_result_def
  by (auto intro!: keep event split: execution.split simp: same_account_def)

lemma engine_loops:
  "\<forall>p \<in> set queue. allowed (td_engine_kind (pt_definition p)) \<Longrightarrow>
    keeps I W (engine_loop env cfg tk n queue flying completed)"
proof (induction n arbitrary: queue flying completed)
  case (Suc n)
  let ?b = "max 1 (rc_max_parallel_tools cfg)"
  have "triple I (start_more ?b queue flying)
      (\<lambda>(queue', _) s. I s \<and> queue' = drop (?b - length flying) queue) W"
    using starts [OF _ Suc.prems] by (fastforce simp: triple_def split: sum.split)
  moreover have "\<forall>p \<in> set (drop (?b - length flying) queue). allowed (td_engine_kind (pt_definition p))"
    using Suc.prems by (meson in_set_dropD)
  note rest = Suc.IH [OF this]
  have "triple (\<lambda>s. I s \<and> queue' = drop (?b - length flying) queue)
      (bind_a (get_a (\<lambda>s. en_pick env (ru_tick s) mod length flying')) (\<lambda>i.
        then_a (ensure_active env)
        (bind_a (case flying' ! i of (k, p) \<Rightarrow>
            engine_result env cfg tk p (en_execute env k (td_engine_kind (pt_definition p)) (pt_arguments p))) (\<lambda>c.
        engine_loop env cfg tk n queue' (drop_nth i flying') (completed @ [c]))))) (\<lambda>_. I) W"
    for queue' flying'
  proof (cases "queue' = drop (?b - length flying) queue")
    case True
    have "keeps I W (bind_a (get_a (\<lambda>s. en_pick env (ru_tick s) mod length flying')) (\<lambda>i.
        then_a (ensure_active env)
        (bind_a (case flying' ! i of (k, p) \<Rightarrow>
            engine_result env cfg tk p (en_execute env k (td_engine_kind (pt_definition p)) (pt_arguments p))) (\<lambda>c.
        engine_loop env cfg tk n queue' (drop_nth i flying') (completed @ [c])))))"
      unfolding True by (intro keep rest) (auto intro!: keep split: prod.split)
    then show ?thesis unfolding keeps_triple by (rule triple_conseq) auto
  qed (simp add: triple_def)
  ultimately show ?case
    unfolding keeps_triple engine_loop.simps by (intro triple_bind) (auto split: prod.split)
qed (simp add: keeps_return)

lemma undecodables [keep]: "keeps I W (undecodable env args e)"
  unfolding undecodable_def by (intro keep)

lemma invalids [keep]: "keeps I W (invalid_draft env d problems)"
  unfolding invalid_draft_def by (intro keep) (simp add: list_all_iff problem_event_def)

lemma refusals [keep]: "keeps I W (refused_report env d fs)"
  unfolding refused_report_def by (intro keep) (simp add: list_all_iff finding_event_def)

lemma executes:
  assumes "allowed kind"
  shows "keeps I W (execute_a env kind payload)"
  using start [of _ "[(kind, payload)]"] assms by (intro keeps_still) (simp add: execute_a_def)

lemma verifies [keep]: "allowed VERIFY_KIND \<Longrightarrow> keeps I W (verify_canonical_report env tk d r)"
  unfolding verify_canonical_report_def by (auto intro!: keep executes split: execution.split)

lemma finalizes [keep]: "allowed VERIFY_KIND \<Longrightarrow> keeps I W (finalize_report env tk args)"
  unfolding finalize_report_def Let_def by (auto intro!: keep event split: sum.split)

lemma searches [keep]: "keeps I W (serve_search env p)"
  unfolding serve_search_def by (auto intro!: keep event)

lemma selects [keep]: "keeps I W (select_model env)"
  unfolding select_model_def by (auto intro!: keep split: selection.split)

end

text \<open>What is prepared carries the definition registered under the call's name.\<close>

lemma bind_a_Inr: "bind_a m f s = (Inr b, s'') \<longleftrightarrow> (\<exists>a s'. m s = (Inr a, s') \<and> f a s' = (Inr b, s''))"
  by (auto simp: bind_a_def split: sum.splits prod.splits)

lemma then_a_Inr: "then_a m n s = (Inr b, s'') \<longleftrightarrow> (\<exists>a s'. m s = (Inr a, s') \<and> n s' = (Inr b, s''))"
  by (simp add: then_a_def bind_a_Inr)

lemma prepare_call_registered:
  "prepare_call env cfg reg call s = (Inr (Inr p), s') \<Longrightarrow>
    pt_call p = call \<and> tool_get reg (call_name call) = Some (pt_definition p)
    \<and> en_parse env (call_arguments call) = Inr (pt_arguments p)"
  by (auto simp: prepare_call_def unknown_tool_def reject_a_def schedule_a_def bind_a_Inr then_a_Inr return_a_def raise_a_def
      split: option.splits sum.splits if_splits)

lemma prepare_all_registered:
  "prepare_all env cfg reg calls s = (Inr (ps, rejected), s') \<Longrightarrow> p \<in> set ps \<Longrightarrow>
    pt_call p \<in> set calls \<and> tool_get reg (call_name (pt_call p)) = Some (pt_definition p)"
proof (induction calls arbitrary: ps rejected s s')
  case (Cons call calls)
  obtain r s1 ps' rejected' s2 where first: "prepare_call env cfg reg call s = (Inr r, s1)"
    and rest: "prepare_all env cfg reg calls s1 = (Inr (ps', rejected'), s2)"
    and ps: "(case r of Inl c \<Rightarrow> (ps', c # rejected') | Inr p \<Rightarrow> (p # ps', rejected')) = (ps, rejected)"
    using Cons.prems(1) by (auto simp: bind_a_Inr return_a_def split: prod.splits)
  show ?case
  proof (cases r)
    case (Inl c)
    then show ?thesis using Cons.IH [OF rest] Cons.prems(2) ps by simp
  next
    case (Inr q)
    then show ?thesis
      using Cons.IH [OF rest] Cons.prems(2) ps prepare_call_registered [of env cfg reg call s q s1] first by auto
  qed
qed (simp add: return_a_def)

lemma prepare_all_definitions:
  assumes "prepare_all env cfg reg calls s = (Inr (ps, rejected), s')"
  shows "\<forall>p \<in> set ps. pt_definition p \<in> snd ` set reg"
proof
  fix p
  assume "p \<in> set ps"
  then have "map_of reg (call_name (pt_call p)) = Some (pt_definition p)"
    using prepare_all_registered [OF assms] by (simp add: tool_get_def)
  then show "pt_definition p \<in> snd ` set reg" by (metis image_eqI map_of_SomeD snd_conv)
qed

section \<open>Publication\<close>

text \<open>
  What stands behind a report about to be completed in state \<open>s\<close>: the draft was decoded, is valid against
  the catalog, and the executor's answer to the verification of its canonical form was a pass.
\<close>

definition verified_draft :: "Env \<Rightarrow> RuntimeTask \<Rightarrow> EvidenceCatalog \<Rightarrow> (string \<times> json) list \<Rightarrow> VerifiedReportDraft \<Rightarrow> bool" where
  "verified_draft env tk c executed d \<longleftrightarrow>
     (\<exists>args. en_decode_draft env args = Inr d)
     \<and> validate_draft (en_printer env) d (descriptors c) (task_symbols tk) = []
     \<and> (\<exists>n now v payload.
          payload = verify_payload (verifier_form (show_f64 (en_printer env)) d)
            (verification_spec (en_rfc env) (en_day env) now tk) (verifier_facts (cited_by d) c)
          \<and> n < length executed \<and> executed ! n = (VERIFY_KIND, payload)
          \<and> en_execute env n VERIFY_KIND payload = Executed v \<and> verdict_passes v)"

definition published_by :: "Env \<Rightarrow> RuntimeTask \<Rightarrow> string \<Rightarrow> EvidenceCatalog \<Rightarrow> (string \<times> json) list \<Rightarrow> bool" where
  "published_by env tk report c executed \<longleftrightarrow>
     (\<exists>d. verified_draft env tk c executed d
        \<and> report = rr_markdown (render (show_f64 (en_printer env)) d (descriptors c)))"

definition justified :: "Env \<Rightarrow> RuntimeConfig \<Rightarrow> RuntimeTask \<Rightarrow> EvidenceCatalog \<Rightarrow> (string \<times> json) list \<Rightarrow> string \<Rightarrow> bool" where
  "justified env cfg tk c executed report \<longleftrightarrow> rc_verify_reports cfg \<longrightarrow> published_by env tk report c executed"

lemma published_justified: "published_by env tk report c executed \<Longrightarrow> justified env cfg tk c executed report"
  by (simp add: justified_def)

text \<open>Actions that touch neither the catalog nor the account of executions.\<close>

definition quiet :: "'a act \<Rightarrow> bool" where
  "quiet m \<longleftrightarrow> (\<forall>s. ru_catalog (snd (m s)) = ru_catalog s \<and> ru_executed (snd (m s)) = ru_executed s)"

named_theorems quiets

lemma quiet_bind [quiets]: "quiet m \<Longrightarrow> (\<And>a. quiet (f a)) \<Longrightarrow> quiet (bind_a m f)"
  by (simp add: quiet_def bind_a_def case_prod_unfold split: sum.split)

lemma quiet_then [quiets]: "quiet m \<Longrightarrow> quiet n \<Longrightarrow> quiet (then_a m n)"
  unfolding then_a_def by (intro quiet_bind)

lemma quiet_primitive [quiets]:
  "quiet (return_a a)" "quiet (get_a f)" "quiet (ensure_active env)" "quiet (send_a env ev)" "quiet (set_phase p)"
  "quiet (complete_effect env i st result)" "quiet (raise_a e)"
  by (simp_all add: quiet_def return_a_def get_a_def ensure_active_def send_a_def set_phase_def modify_a_def tick_def
      complete_effect_def store_a_def raise_a_def split: option.split)

lemma quiet_record [quiets]: "quiet (record_a env ev)"
  unfolding record_a_def
  by (intro quiets) (simp_all add: quiet_def store_a_def modify_a_def tick_def split: option.split)

lemma quiet_begin [quiets]: "quiet (begin_effect env kind payload)"
  unfolding begin_effect_def
  by (intro quiets) (simp add: quiet_def store_a_def tick_def split: option.split)

lemma quiet_complete_run [quiets]: "quiet (complete_run env report)"
  unfolding complete_run_def by (intro quiets)

lemma triple_quiet:
  assumes "keeps I W m" "quiet m"
  shows "triple (\<lambda>s. I s \<and> F (ru_catalog s) (ru_executed s)) m (\<lambda>_ s. I s \<and> F (ru_catalog s) (ru_executed s)) W"
  using assms by (auto simp: triple_def keeps_def quiet_def case_prod_unfold split: sum.split)

lemma verifier_markdown [simp]: "rr_verifier_markdown (render fmt d reg) = verifier_form fmt d"
  by (simp add: render_def Let_def case_prod_unfold)

context run_invariant
begin

text \<open>Returned from a publication, or failed in it.\<close>

definition finished :: "(EvidenceCatalog \<Rightarrow> (string \<times> json) list \<Rightarrow> string \<Rightarrow> bool) \<Rightarrow> RunOutcome \<Rightarrow> Run \<Rightarrow> bool" where
  "finished J oc s' \<longleftrightarrow>
     (\<exists>s report. I s \<and> J (ru_catalog s) (ru_executed s) report \<and> complete_run env report s = (Inr oc, s'))"

definition failed :: "(EvidenceCatalog \<Rightarrow> (string \<times> json) list \<Rightarrow> string \<Rightarrow> bool) \<Rightarrow> Run \<Rightarrow> bool" where
  "failed J s' \<longleftrightarrow> W s' \<or>
     (\<exists>s report e. I s \<and> J (ru_catalog s) (ru_executed s) report \<and> complete_run env report s = (Inl e, s'))"

lemma W_failed: "W s \<Longrightarrow> failed J s"
  by (simp add: failed_def)

lemma I_failed: "I s \<Longrightarrow> failed J s"
  by (simp add: failed_def weaker)

lemma keeps_failed: "keeps I W m \<Longrightarrow> triple I m (\<lambda>_. I) (failed J)"
  by (erule triple_keeps) (rule W_failed)

lemma completion:
  "triple (\<lambda>s. I s \<and> J (ru_catalog s) (ru_executed s) report) (complete_run env report) (finished J) (failed J)"
  by (auto simp: triple_def finished_def failed_def split: sum.split)

lemma verification:
  assumes "allowed VERIFY_KIND"
  shows "triple (\<lambda>s. I s \<and> ru_catalog s = c) (verify_canonical_report env tk d (render fmt d reg))
    (\<lambda>v s. I s \<and> ru_catalog s = c \<and> (\<exists>n now payload.
       payload = verify_payload (verifier_form fmt d)
         (verification_spec (en_rfc env) (en_day env) now tk) (verifier_facts (cited_by d) c)
       \<and> n < length (ru_executed s) \<and> ru_executed s ! n = (VERIFY_KIND, payload)
       \<and> en_execute env n VERIFY_KIND payload = Executed v)) W"
  (is "triple ?P _ (\<lambda>v s. I s \<and> ru_catalog s = c \<and> ?R v s) W")
proof -
  let ?spec = "\<lambda>now. verification_spec (en_rfc env) (en_day env) now tk"
  let ?load = "\<lambda>now. verify_payload (verifier_form fmt d) (?spec now) (verifier_facts (cited_by d) c)"
  have catalog: "quiet m \<Longrightarrow> keeps I W m \<Longrightarrow> triple ?P m (\<lambda>_. ?P) W" for m :: "'b act"
    using triple_quiet [where m = m and F = "\<lambda>c' _. c' = c"] by simp
  have answer: "triple ?P (execute_a env VERIFY_KIND (?load now))
      (\<lambda>r s. I s \<and> ru_catalog s = c \<and> (\<exists>n. n < length (ru_executed s) \<and> ru_executed s ! n = (VERIFY_KIND, ?load now)
        \<and> en_execute env n VERIFY_KIND (?load now) = r)) W" for now
    using executes [OF assms, of "?load now"]
    by (auto simp: triple_def execute_a_def keeps_def nth_append)
  have settle: "triple (\<lambda>s. I s \<and> ru_catalog s = c \<and> (\<exists>n. n < length (ru_executed s)
        \<and> ru_executed s ! n = (VERIFY_KIND, ?load now) \<and> en_execute env n VERIFY_KIND (?load now) = r))
      (case r of Executed v \<Rightarrow> then_a (complete_effect env i ''succeeded'' v) (return_a v)
       | ExecutionRefused e \<Rightarrow> fail_effect env i e (EVerificationFailed e)
       | ExecutionTimedOut \<Rightarrow>
           fail_effect env i ''verification timeout'' (EVerificationFailed ''deterministic verification timed out''))
      (\<lambda>v s. I s \<and> ru_catalog s = c \<and> ?R v s) W" (is "triple (\<lambda>s. I s \<and> ru_catalog s = c \<and> ?S s) _ _ _") for now r i
  proof (cases r)
    case (Executed v)
    have "triple (\<lambda>s. I s \<and> ru_catalog s = c \<and> ?S s) (complete_effect env i ''succeeded'' v)
        (\<lambda>_ s. I s \<and> ru_catalog s = c \<and> ?S s) W"
      by (rule triple_quiet [where F = "\<lambda>c' x. c' = c \<and> (\<exists>n. n < length x \<and> x ! n = (VERIFY_KIND, ?load now)
        \<and> en_execute env n VERIFY_KIND (?load now) = r)"]) (intro keep quiets)+
    then show ?thesis using Executed by (auto intro!: triple_then triple_return)
  next
    case (ExecutionRefused e)
    then show ?thesis by (auto intro!: fails_triple)
  next
    case ExecutionTimedOut
    then show ?thesis by (auto intro!: fails_triple)
  qed
  show ?thesis
    unfolding verify_canonical_report_def verifier_markdown
  proof (rule triple_bind [OF triple_get], rule triple_bind [OF triple_get], rule triple_pure)
    fix facts spec
    assume "\<exists>now. facts = verifier_facts (cited_by d) c \<and> spec = ?spec now"
    then obtain now where now: "facts = verifier_facts (cited_by d) c" "spec = ?spec now" by blast
    show "triple ?P (bind_a (begin_effect env ''report.verify'' (verification_effect d (verifier_form fmt d) (render fmt d reg))) (\<lambda>i.
        bind_a (execute_a env VERIFY_KIND (verify_payload (verifier_form fmt d) spec facts)) (\<lambda>answer.
          case answer of
            Executed v \<Rightarrow> then_a (complete_effect env i ''succeeded'' v) (return_a v)
          | ExecutionRefused e \<Rightarrow> fail_effect env i e (EVerificationFailed e)
          | ExecutionTimedOut \<Rightarrow>
              fail_effect env i ''verification timeout'' (EVerificationFailed ''deterministic verification timed out''))))
      (\<lambda>v s. I s \<and> ru_catalog s = c \<and> ?R v s) W"
      unfolding now by (intro triple_bind [OF catalog] triple_bind [OF answer] settle keep quiets)
  qed auto
qed

text \<open>A state predicate that holds of what a call to \<open>submit_report\<close> may answer.\<close>

definition submitted :: "RuntimeTask \<Rightarrow> Finalization \<Rightarrow> Run \<Rightarrow> bool" where
  "submitted tk r s \<longleftrightarrow> I s
     \<and> (\<forall>rr. r = FinPublished rr \<longrightarrow> published_by env tk (rr_markdown rr) (ru_catalog s) (ru_executed s))"

lemma not_published:
  "keeps I W m \<Longrightarrow> (\<And>s r s'. m s = (Inr r, s') \<Longrightarrow> \<forall>rr. r \<noteq> FinPublished rr) \<Longrightarrow> triple I m (submitted tk) W"
  by (fastforce simp: triple_def keeps_def submitted_def split: sum.split prod.splits)

lemma finalization_of_not [simp]: "finalization_of verdict response reason \<noteq> FinPublished rr"
  by (cases verdict) simp_all

lemma undecodable_triple: "triple I (undecodable env args e) (submitted tk) W"
  by (rule not_published, intro keep)
    (auto simp: undecodable_def bind_a_def get_a_def return_a_def reject_draft_def case_prod_unfold)

lemma invalid_triple: "triple I (invalid_draft env d problems) (submitted tk) W"
proof (rule not_published, intro keep)
  fix s r s'
  assume "invalid_draft env d problems s = (Inr r, s')"
  then show "\<forall>rr. r \<noteq> FinPublished rr"
    by (auto simp: invalid_draft_def bind_a_def then_a_def get_a_def return_a_def split: sum.splits prod.splits)
qed

lemma refused_triple: "triple I (refused_report env d fs) (submitted tk) W"
proof (rule not_published, intro keep)
  fix s r s'
  assume "refused_report env d fs s = (Inr r, s')"
  then show "\<forall>rr. r \<noteq> FinPublished rr"
    by (auto simp: refused_report_def bind_a_def then_a_def return_a_def split: sum.splits prod.splits)
qed

lemma finalization:
  assumes "allowed VERIFY_KIND"
  shows "triple I (finalize_report env tk args) (submitted tk) W"
proof (cases "en_decode_draft env args")
  case (Inl e)
  then show ?thesis by (simp add: finalize_report_def undecodable_triple)
next
  case (Inr d)
  let ?fmt = "show_f64 (en_printer env)"
  have valid: "triple (\<lambda>s. I s \<and> ru_catalog s = c)
      (then_a (set_phase Verifying) (then_a (record_a env VerificationStarted)
        (bind_a (verify_canonical_report env tk d (render ?fmt d (descriptors c))) (\<lambda>v.
           if verdict_passes v then return_a (FinPublished (render ?fmt d (descriptors c)))
           else refused_report env d (verdict_findings v))))) (submitted tk) W"
    if valid_draft: "validate_draft (en_printer env) d (descriptors c) (task_symbols tk) = []" for c
  proof -
    have catalog: "quiet m \<Longrightarrow> keeps I W m \<Longrightarrow>
        triple (\<lambda>s. I s \<and> ru_catalog s = c) m (\<lambda>_ s. I s \<and> ru_catalog s = c) W" for m :: "unit act"
      using triple_quiet [where m = m and F = "\<lambda>c' _. c' = c"] by simp
    show ?thesis
    proof (intro triple_then [OF catalog] triple_bind [OF verification [OF assms]] quiets keep event)
      fix v
      show "triple (\<lambda>s. I s \<and> ru_catalog s = c \<and> (\<exists>n now payload.
         payload = verify_payload (verifier_form ?fmt d)
           (verification_spec (en_rfc env) (en_day env) now tk) (verifier_facts (cited_by d) c)
         \<and> n < length (ru_executed s) \<and> ru_executed s ! n = (VERIFY_KIND, payload)
         \<and> en_execute env n VERIFY_KIND payload = Executed v))
        (if verdict_passes v then return_a (FinPublished (render ?fmt d (descriptors c)))
         else refused_report env d (verdict_findings v)) (submitted tk) W"
      proof (cases "verdict_passes v")
        case True
        have "submitted tk (FinPublished (render ?fmt d (descriptors c))) s"
          if s: "I s" "ru_catalog s = c" and ex: "\<exists>n now payload.
             payload = verify_payload (verifier_form ?fmt d)
               (verification_spec (en_rfc env) (en_day env) now tk) (verifier_facts (cited_by d) c)
             \<and> n < length (ru_executed s) \<and> ru_executed s ! n = (VERIFY_KIND, payload)
             \<and> en_execute env n VERIFY_KIND payload = Executed v" for s
        proof -
          have "verified_draft env tk c (ru_executed s) d"
            using Inr valid_draft ex True unfolding verified_draft_def by blast
          then show ?thesis using s unfolding submitted_def published_by_def by auto
        qed
        then show ?thesis unfolding if_P [OF True] by (intro triple_return) blast
      next
        case False
        then show ?thesis by (auto intro: triple_conseq [OF refused_triple])
      qed
    qed simp
  qed
  show ?thesis
    unfolding finalize_report_def Inr sum.case Let_def
  proof (rule triple_bind [OF triple_get])
    fix reg
    let ?m = "if validate_draft (en_printer env) d reg (task_symbols tk) \<noteq> [] then
        invalid_draft env d (validate_draft (en_printer env) d reg (task_symbols tk))
      else then_a (set_phase Verifying) (then_a (record_a env VerificationStarted)
        (bind_a (verify_canonical_report env tk d (render ?fmt d reg)) (\<lambda>v.
           if verdict_passes v then return_a (FinPublished (render ?fmt d reg))
           else refused_report env d (verdict_findings v))))"
    have known: "triple (\<lambda>s. I s \<and> ru_catalog s = c) ?m (submitted tk) W" if "reg = descriptors c" for c
      unfolding that using valid [of c] by (auto intro: triple_conseq [OF invalid_triple])
    show "triple (\<lambda>s. I s \<and> reg = descriptors (ru_catalog s)) ?m (submitted tk) W"
    proof (rule triple_ghost [where g = ru_catalog], rule triple_pure)
      show "triple (\<lambda>s. I s \<and> ru_catalog s = c) ?m (submitted tk) W" if "reg = descriptors c" for c
        using that by (rule known)
    qed auto
  qed
qed

lemma submission:
  assumes "allowed VERIFY_KIND"
  shows "triple I (serve_submission env tk p)
    (\<lambda>r s. case r of Published oc \<Rightarrow> finished (justified env cfg tk) oc s | _ \<Rightarrow> I s) (failed (justified env cfg tk))"
  (is "triple I _ ?Q ?E")
  unfolding serve_submission_def
proof (rule triple_bind)
  show "triple I (finalize_report env tk (pt_arguments p)) (submitted tk) ?E"
    using finalization [OF assms] by (rule triple_conseq) (auto simp: failed_def)
  fix outcome
  have answer: "triple (submitted tk outcome) m ?Q ?E" if "triple I m ?Q ?E" for m
    using that by (rule triple_conseq) (auto simp: submitted_def)
  have settled: "triple I (then_a (complete_effect env i st result) (then_a (record_a env ev) (return_a r))) ?Q ?E"
    if "\<not> ends_task ev" "\<forall>oc. r \<noteq> Published oc" for i st result ev r
  proof -
    have "keeps I W (then_a (complete_effect env i st result) (record_a env ev))" using that by (intro keep event)
    then show ?thesis
      using that(2) unfolding keeps_triple
      by (fastforce simp: triple_def then_a_def bind_a_def return_a_def failed_def split: sum.splits prod.splits served.split)
  qed
  have publish: "triple (submitted tk outcome)
      (then_a (complete_effect env (pt_effect_id p) ''succeeded'' (jobject [(''published'', JBool True)]))
       (then_a (record_a env (ToolCompleted (call_id (pt_call p)) (call_name (pt_call p)) (map er_internal_id (rr_references rr))))
       (bind_a (complete_run env (rr_markdown rr)) (\<lambda>oc. return_a (Published oc))))) ?Q ?E"
    if "outcome = FinPublished rr" for rr
  proof -
    let ?J = "\<lambda>s. I s \<and> published_by env tk (rr_markdown rr) (ru_catalog s) (ru_executed s)"
    have quietly: "quiet m \<Longrightarrow> keeps I W m \<Longrightarrow> triple ?J m (\<lambda>_. ?J) ?E" for m :: "unit act"
      by (rule triple_conseq [OF triple_quiet [where I = I and W = W and m = m and F = "published_by env tk (rr_markdown rr)"]])
        (auto intro: W_failed)
    have "triple ?J (complete_run env (rr_markdown rr)) (finished (justified env cfg tk)) ?E"
      using completion by (rule triple_conseq) (auto intro: published_justified)
    then have "triple ?J (bind_a (complete_run env (rr_markdown rr)) (\<lambda>oc. return_a (Published oc))) ?Q ?E"
      by (rule triple_bind) (auto intro: triple_return)
    then have "triple ?J
      (then_a (complete_effect env (pt_effect_id p) ''succeeded'' (jobject [(''published'', JBool True)]))
       (then_a (record_a env (ToolCompleted (call_id (pt_call p)) (call_name (pt_call p)) (map er_internal_id (rr_references rr))))
       (bind_a (complete_run env (rr_markdown rr)) (\<lambda>oc. return_a (Published oc))))) ?Q ?E"
      by (intro triple_then [OF quietly] quiets keep event) auto
    then show ?thesis by (rule triple_conseq) (auto simp: submitted_def that)
  qed
  show "triple (submitted tk outcome) (case outcome of
         FinPublished r \<Rightarrow>
           then_a (complete_effect env (pt_effect_id p) ''succeeded'' (jobject [(''published'', JBool True)]))
           (then_a (record_a env (ToolCompleted (call_id (pt_call p)) (call_name (pt_call p))
               (map er_internal_id (rr_references r))))
           (bind_a (complete_run env (rr_markdown r)) (\<lambda>oc. return_a (Published oc))))
       | FinRepair response \<Rightarrow>
           then_a (complete_effect env (pt_effect_id p) ''failed'' (jobject [(''published'', JBool False)]))
           (then_a (record_a env (ToolFailed (call_id (pt_call p)) (call_name (pt_call p)) REPAIR_MESSAGE True))
           (return_a (Answered (completed_runtime (pt_call p) response))))
       | FinExhausted response reason \<Rightarrow>
           then_a (complete_effect env (pt_effect_id p) ''failed''
             (jobject [(''published'', JBool False), (''exhausted'', JBool True)]))
           (then_a (record_a env (ToolFailed (call_id (pt_call p)) (call_name (pt_call p)) EXHAUSTED_MESSAGE False))
           (return_a (OutOfAttempts reason (completed_runtime (pt_call p) response))))) ?Q ?E"
  proof (cases outcome)
    case (FinPublished rr)
    show ?thesis using publish [OF FinPublished] unfolding FinPublished by simp
  next
    case (FinRepair response)
    show ?thesis unfolding FinRepair Finalization.case by (rule answer [unfolded FinRepair]) (rule settled, simp_all)
  next
    case (FinExhausted response reason)
    show ?thesis unfolding FinExhausted Finalization.case by (rule answer [unfolded FinExhausted]) (rule settled, simp_all)
  qed
qed

abbreviation completes_batch where
  "completes_batch cfg tk batch s \<equiv>
     (case tb_published batch of Some oc \<Rightarrow> finished (justified env cfg tk) oc s | None \<Rightarrow> I s)"

lemma serving:
  assumes "allowed VERIFY_KIND"
  shows "triple I (serve_runtime env tk p)
    (\<lambda>r s. case r of Published oc \<Rightarrow> finished (justified env cfg tk) oc s | _ \<Rightarrow> I s) (failed (justified env cfg tk))"
proof -
  have "triple I (serve_search env p)
    (\<lambda>r s. case r of Published oc \<Rightarrow> finished (justified env cfg tk) oc s | _ \<Rightarrow> I s) (failed (justified env cfg tk))"
    using searches [of p, unfolded keeps_def]
    by (fastforce simp: triple_def failed_def serve_search_def bind_a_def then_a_def return_a_def
        split: sum.splits prod.splits served.split)
  then show ?thesis
    unfolding serve_runtime_def using submission [OF assms]
    by (auto intro!: triple_raise I_failed)
qed

lemma runtime_calls:
  assumes "allowed VERIFY_KIND"
  shows "triple I (runtime_loop env tk ps ms exhausted) (completes_batch cfg tk) (failed (justified env cfg tk))"
proof (induction ps arbitrary: ms exhausted)
  case (Cons p ps)
  have active: "triple I (ensure_active env) (\<lambda>_. I) (failed (justified env cfg tk))"
    using active by (rule keeps_failed)
  show ?case
    unfolding runtime_loop.simps
  proof (rule triple_then [OF active], rule triple_bind [OF serving [OF assms]])
    fix r
    show "triple (\<lambda>s. case r of Published oc \<Rightarrow> finished (justified env cfg tk) oc s | _ \<Rightarrow> I s)
        (case r of
           Published oc \<Rightarrow> return_a \<lparr>tb_messages = ms, tb_published = Some oc, tb_exhausted = exhausted\<rparr>
         | Answered c \<Rightarrow> runtime_loop env tk ps (ms @ [into_message (en_show env) c]) exhausted
         | OutOfAttempts reason c \<Rightarrow> runtime_loop env tk ps (ms @ [into_message (en_show env) c]) (Some reason))
        (completes_batch cfg tk) (failed (justified env cfg tk))"
      using Cons.IH by (cases r) (auto intro: triple_return)
  qed
qed (auto intro: triple_return)

text \<open>The registry offers the executor only what is allowed.\<close>

definition registry_allowed :: "ToolRegistry \<Rightarrow> bool" where
  "registry_allowed reg \<longleftrightarrow> allowed VERIFY_KIND
     \<and> (\<forall>d \<in> snd ` set reg. td_handler d = EngineHandler \<longrightarrow> allowed (td_engine_kind d))"

lemma batches:
  assumes "registry_allowed reg"
  shows "triple I (execute_tools env cfg reg tk calls) (completes_batch cfg tk) (failed (justified env cfg tk))"
proof -
  let ?E = "failed (justified env cfg tk)"
  have verify: "allowed VERIFY_KIND" using assms by (simp add: registry_allowed_def)
  have prepared: "triple I (prepare_all env cfg reg calls)
      (\<lambda>(ps, rejected) s. I s \<and> (\<forall>p \<in> set ps. pt_definition p \<in> snd ` set reg)) ?E"
    using prepares_all [of cfg reg calls] prepare_all_definitions [of env cfg reg calls]
    by (fastforce simp: triple_def keeps_def failed_def split: sum.split prod.split)
  have run: "triple I
      (bind_a (engine_loop env cfg tk (length (filter (Not \<circ> runtime_served) ps)) (filter (Not \<circ> runtime_served) ps) [] rejected)
        (\<lambda>completed. runtime_loop env tk (sort_key (\<lambda>p. call_index (pt_call p)) (filter runtime_served ps))
          (map (into_message (en_show env)) (sort_key ct_index completed)) None)) (completes_batch cfg tk) ?E"
    if "\<forall>p \<in> set ps. pt_definition p \<in> snd ` set reg" for ps rejected
  proof (rule triple_bind [OF _ runtime_calls [OF verify]])
    have "\<forall>p \<in> set (filter (Not \<circ> runtime_served) ps). allowed (td_engine_kind (pt_definition p))"
    proof
      fix p
      assume p: "p \<in> set (filter (Not \<circ> runtime_served) ps)"
      then have "td_handler (pt_definition p) = EngineHandler"
        by (cases "td_handler (pt_definition p)") (simp_all add: runtime_served_def)
      then show "allowed (td_engine_kind (pt_definition p))"
        using that assms p unfolding registry_allowed_def by (metis filter_is_subset subsetD)
    qed
    then show "triple I (engine_loop env cfg tk (length (filter (Not \<circ> runtime_served) ps))
        (filter (Not \<circ> runtime_served) ps) [] rejected) (\<lambda>_. I) ?E"
      by (intro keeps_failed engine_loops)
  qed
  show ?thesis
    unfolding execute_tools_def Let_def
    by (rule triple_bind [OF prepared]) (auto intro: triple_pure [OF run])
qed

abbreviation completes_round where
  "completes_round cfg tk r s \<equiv> (case r of Inr oc \<Rightarrow> finished (justified env cfg tk) oc s | Inl ms \<Rightarrow> I s)"

lemma tool_rounds:
  assumes "registry_allowed reg"
  shows "triple I (tool_round env cfg reg tk rnd t calls ms) (completes_round cfg tk) (failed (justified env cfg tk))"
  unfolding tool_round_def Let_def
proof (rule triple_then [OF keeps_failed [OF phase]], rule triple_bind [OF batches [OF assms]])
  fix batch
  show "triple (completes_batch cfg tk batch)
      (case tb_published batch of
         Some oc \<Rightarrow> return_a (Inr oc)
       | None \<Rightarrow>
          (case tb_exhausted batch of
             Some reason \<Rightarrow> raise_a (EVerificationFailed reason)
           | None \<Rightarrow> return_a (Inl (if rnd = research_rounds cfg
                 then (ms @ [\<lparr>mg_role = MAssistant, mg_content = t, mg_tool_calls = calls, mg_tool_call_id = None\<rparr>]
                   @ tb_messages batch) @ [message_text MSystem BUDGET_SPENT_INSTRUCTION]
                 else ms @ [\<lparr>mg_role = MAssistant, mg_content = t, mg_tool_calls = calls, mg_tool_call_id = None\<rparr>]
                   @ tb_messages batch))))
      (completes_round cfg tk) (failed (justified env cfg tk))"
    by (cases "tb_published batch"; cases "tb_exhausted batch")
      (auto intro!: triple_return triple_raise I_failed)
qed

lemma prose_rounds: "triple I (prose_round env cfg t ms) (completes_round cfg tk) (failed (justified env cfg tk))"
proof (cases "rc_verify_reports cfg")
  case True
  show ?thesis
    unfolding prose_round_def using True
    by (auto intro!: triple_bind [OF keeps_failed [OF rejects]] triple_raise triple_then [OF keeps_failed [OF phase]] triple_return
        I_failed)
next
  case False
  have "triple I (complete_run env t) (finished (justified env cfg tk)) (failed (justified env cfg tk))"
    using completion by (rule triple_conseq) (auto simp: justified_def False)
  then show ?thesis
    using False by (auto simp: prose_round_def intro!: triple_bind triple_return)
qed

lemma one_round:
  assumes "registry_allowed reg"
  shows "triple I (round_a env cfg reg tk model rnd ms) (completes_round cfg tk) (failed (justified env cfg tk))"
  unfolding round_a_def
proof (intro triple_then [OF keeps_failed [OF active]] triple_then [OF keeps_failed [OF modify_same]]
    triple_then [OF keeps_failed [OF event]] triple_bind [OF keeps_failed [OF turns]])
  fix a
  show "triple I (case a of (x, ms') \<Rightarrow> (case x of (t, calls) \<Rightarrow> \<lambda>ms'.
        if calls \<noteq> [] then tool_round env cfg reg tk rnd t calls ms' else prose_round env cfg t ms') ms')
      (completes_round cfg tk) (failed (justified env cfg tk))"
    using tool_rounds [OF assms] prose_rounds by (cases a) auto
qed (simp_all add: same_account_def)

lemma all_rounds:
  assumes "registry_allowed reg"
  shows "triple I (rounds_a env cfg reg tk model k rnd ms) (finished (justified env cfg tk)) (failed (justified env cfg tk))"
proof (induction k arbitrary: rnd ms)
  case (Suc k)
  show ?case
    unfolding rounds_a.simps
  proof (rule triple_bind [OF one_round [OF assms]])
    fix r
    show "triple (completes_round cfg tk r)
        (case r of Inr oc \<Rightarrow> return_a oc | Inl ms' \<Rightarrow> rounds_a env cfg reg tk model k (Suc rnd) ms')
        (finished (justified env cfg tk)) (failed (justified env cfg tk))"
      using Suc.IH by (cases r) (auto intro: triple_return)
  qed
qed (auto intro!: triple_raise I_failed)

lemma whole_loop:
  assumes "registry_allowed reg"
  shows "triple I (execute_loop env cfg reg prompt tk) (finished (justified env cfg tk)) (failed (justified env cfg tk))"
  unfolding execute_loop_def
  by (intro triple_bind [OF keeps_failed [OF keeps_get]] triple_then [OF keeps_failed [OF event]]
      triple_then [OF keeps_failed [OF phase]] triple_bind [OF keeps_failed [OF selects]] all_rounds [OF assms]) simp_all

end

end
