(* ===== verification/Agent_Progress.thy ===== *)
theory Agent_Progress
  imports Agent_Logic
begin

text \<open>
  Runs against a reliable outside: the store accepts, the receiver listens and nobody cancels. The effectful turn
  then computes what \<open>round_turn\<close> computes and delivers exactly the text it assembles, and a valid
  submission whose canonical form passes ends in publication, so a run does reach its goal. Two submissions
  in one batch show that a spent finalization budget does not stop a later one of the same batch.
\<close>

definition reliable :: "Env \<Rightarrow> bool" where
  "reliable env \<longleftrightarrow> (\<forall>t. \<not> en_cancelled env t \<and> en_store env t = None \<and> en_receiver env t)"

text \<open>An action that returns, with a result and a state as described.\<close>

definition returns :: "(Run \<Rightarrow> bool) \<Rightarrow> 'a act \<Rightarrow> ('a \<Rightarrow> Run \<Rightarrow> bool) \<Rightarrow> bool" where
  "returns P m Q \<longleftrightarrow> triple P m Q (\<lambda>_. False)"

lemma returns_bind: "returns P m R \<Longrightarrow> (\<And>a. returns (R a) (f a) Q) \<Longrightarrow> returns P (bind_a m f) Q"
  unfolding returns_def by (rule triple_bind)

lemma returns_then: "returns P m (\<lambda>_. R) \<Longrightarrow> returns R n Q \<Longrightarrow> returns P (then_a m n) Q"
  unfolding returns_def by (rule triple_then)

lemma returns_return: "(\<And>s. P s \<Longrightarrow> Q a s) \<Longrightarrow> returns P (return_a a) Q"
  unfolding returns_def by (rule triple_return)

lemma returns_get: "returns P (get_a f) (\<lambda>a s. P s \<and> a = f s)"
  unfolding returns_def by (rule triple_get)

lemma returns_conseq: "returns P' m Q' \<Longrightarrow> (\<And>s. P s \<Longrightarrow> P' s) \<Longrightarrow> (\<And>a s. Q' a s \<Longrightarrow> Q a s) \<Longrightarrow> returns P m Q"
  unfolding returns_def by (erule triple_conseq) auto

lemma returns_pure: "(b \<Longrightarrow> returns P' m Q) \<Longrightarrow> (\<And>s. P s \<Longrightarrow> P' s \<and> b) \<Longrightarrow> returns P m Q"
  unfolding returns_def by (rule triple_pure)

lemma returnsD: "returns P m Q \<Longrightarrow> P s \<Longrightarrow> \<exists>a s'. m s = (Inr a, s') \<and> Q a s'"
  by (cases "m s", cases "fst (m s)") (fastforce simp: returns_def triple_def)+

text \<open>What the primitive actions leave alone.\<close>

definition calm :: "'a act \<Rightarrow> bool" where
  "calm m \<longleftrightarrow> (\<forall>F. returns (\<lambda>s. F (ru_catalog s) (ru_ledger s)) m (\<lambda>_ s. F (ru_catalog s) (ru_ledger s)))"

lemma calm_returns: "calm m \<Longrightarrow> returns (\<lambda>s. F (ru_catalog s) (ru_ledger s)) m (\<lambda>_ s. F (ru_catalog s) (ru_ledger s))"
  by (simp add: calm_def)

lemma calm_catalog: "calm m \<Longrightarrow> returns (\<lambda>s. ru_catalog s = c) m (\<lambda>_ s. ru_catalog s = c)"
  using calm_returns [where m = m and F = "\<lambda>c' _. c' = c"] by simp

named_theorems calms

lemma calm_bind [calms]: "calm m \<Longrightarrow> (\<And>a. calm (f a)) \<Longrightarrow> calm (bind_a m f)"
  unfolding calm_def by (blast intro: returns_bind)

lemma calm_then [calms]: "calm m \<Longrightarrow> calm n \<Longrightarrow> calm (then_a m n)"
  unfolding then_a_def by (rule calm_bind)

lemma calm_simple [calms]: "calm (return_a a)" "calm (get_a f)" "calm (set_phase p)"
  by (simp_all add: calm_def returns_def triple_def return_a_def get_a_def set_phase_def modify_a_def)

lemma calm_active [calms]: "reliable env \<Longrightarrow> calm (ensure_active env)"
  by (simp add: calm_def returns_def triple_def ensure_active_def tick_def reliable_def)

lemma calm_store:
  "(\<And>s. ru_catalog (write s) = ru_catalog s \<and> ru_ledger (write s) = ru_ledger s) \<Longrightarrow> reliable env \<Longrightarrow> calm (store_a env write)"
  by (simp add: calm_def returns_def triple_def store_a_def tick_def reliable_def)

lemma calm_record [calms]: "reliable env \<Longrightarrow> calm (record_a env ev)"
  unfolding record_a_def
  by (intro calm_then calm_store)
    (simp_all add: calm_def returns_def triple_def modify_a_def send_a_def tick_def reliable_def)

lemma calm_begin [calms]: "reliable env \<Longrightarrow> calm (begin_effect env kind payload)"
  unfolding begin_effect_def by (intro calms calm_store) simp_all

lemma calm_complete [calms]: "reliable env \<Longrightarrow> calm (complete_effect env i st result)"
  unfolding complete_effect_def by (intro calm_store) simp_all

section \<open>Publication\<close>

text \<open>The outside passes the canonical form of a draft that is valid against the catalog.\<close>

definition passes :: "Env \<Rightarrow> RuntimeTask \<Rightarrow> EvidenceCatalog \<Rightarrow> VerifiedReportDraft \<Rightarrow> bool" where
  "passes env tk c d \<longleftrightarrow>
     validate_draft (en_printer env) d (descriptors c) (task_symbols tk) = []
     \<and> (\<forall>n now. \<exists>v. en_execute env n VERIFY_KIND (verify_payload (verifier_form (show_f64 (en_printer env)) d)
            (verification_spec (en_rfc env) (en_day env) now tk) (verifier_facts (cited_by d) c)) = Executed v
          \<and> verdict_passes v)"

definition report_of :: "Env \<Rightarrow> EvidenceCatalog \<Rightarrow> VerifiedReportDraft \<Rightarrow> RenderedReport" where
  "report_of env c d = render (show_f64 (en_printer env)) d (descriptors c)"

lemma verification_returns:
  assumes "reliable env" "passes env tk c d"
  shows "returns (\<lambda>s. ru_catalog s = c) (verify_canonical_report env tk d (report_of env c d))
    (\<lambda>v s. ru_catalog s = c \<and> verdict_passes v)"
proof -
  let ?C = "\<lambda>s. ru_catalog s = c"
  let ?form = "verifier_form (show_f64 (en_printer env)) d"
  let ?spec = "\<lambda>now. verification_spec (en_rfc env) (en_day env) now tk"
  have form: "rr_verifier_markdown (report_of env c d) = ?form" by (simp add: report_of_def)
  have call: "returns ?C (execute_a env VERIFY_KIND (verify_payload ?form (?spec now) (verifier_facts (cited_by d) c)))
      (\<lambda>r s. ?C s \<and> (\<exists>v. r = Executed v \<and> verdict_passes v))" for now
    using assms(2) by (auto simp: passes_def returns_def triple_def execute_a_def)
  have settle: "returns (\<lambda>s. ?C s \<and> (\<exists>v. r = Executed v \<and> verdict_passes v))
      (case r of Executed v \<Rightarrow> then_a (complete_effect env i ''succeeded'' v) (return_a v)
       | ExecutionRefused e \<Rightarrow> fail_effect env i e (EVerificationFailed e)
       | ExecutionTimedOut \<Rightarrow>
           fail_effect env i ''verification timeout'' (EVerificationFailed ''deterministic verification timed out''))
      (\<lambda>v s. ?C s \<and> verdict_passes v)" for i r
  proof (rule returns_pure)
    assume "\<exists>v. r = Executed v \<and> verdict_passes v"
    then obtain v where v: "r = Executed v" "verdict_passes v" by blast
    have "returns ?C (then_a (complete_effect env i ''succeeded'' v) (return_a v)) (\<lambda>v s. ?C s \<and> verdict_passes v)"
      by (intro returns_then [OF calm_catalog] calms assms returns_return) (simp add: v)
    then show "returns ?C (case r of Executed v \<Rightarrow> then_a (complete_effect env i ''succeeded'' v) (return_a v)
       | ExecutionRefused e \<Rightarrow> fail_effect env i e (EVerificationFailed e)
       | ExecutionTimedOut \<Rightarrow>
           fail_effect env i ''verification timeout'' (EVerificationFailed ''deterministic verification timed out''))
      (\<lambda>v s. ?C s \<and> verdict_passes v)" by (simp add: v)
  qed simp
  show ?thesis
    unfolding verify_canonical_report_def form
  proof (rule returns_bind [OF returns_get], rule returns_bind [OF returns_get], rule returns_pure)
    fix facts spec
    assume "\<exists>now. facts = verifier_facts (cited_by d) c \<and> spec = ?spec now"
    then obtain now where now: "facts = verifier_facts (cited_by d) c" "spec = ?spec now" by blast
    show "returns ?C (bind_a (begin_effect env ''report.verify'' (verification_effect d ?form (report_of env c d))) (\<lambda>i.
        bind_a (execute_a env VERIFY_KIND (verify_payload ?form spec facts)) (\<lambda>answer.
          case answer of
            Executed v \<Rightarrow> then_a (complete_effect env i ''succeeded'' v) (return_a v)
          | ExecutionRefused e \<Rightarrow> fail_effect env i e (EVerificationFailed e)
          | ExecutionTimedOut \<Rightarrow>
              fail_effect env i ''verification timeout'' (EVerificationFailed ''deterministic verification timed out''))))
      (\<lambda>v s. ?C s \<and> verdict_passes v)"
      unfolding now by (intro returns_bind [OF calm_catalog] returns_bind [OF call] settle calms assms)
  qed auto
qed

lemma finalize_returns:
  assumes "reliable env" "passes env tk c d" "en_decode_draft env args = Inr d"
  shows "returns (\<lambda>s. ru_catalog s = c) (finalize_report env tk args)
    (\<lambda>r s. ru_catalog s = c \<and> r = FinPublished (report_of env c d))"
proof -
  have valid: "validate_draft (en_printer env) d (descriptors c) (task_symbols tk) = []"
    using assms(2) by (simp add: passes_def)
  have "returns (\<lambda>s. ru_catalog s = c)
      (then_a (set_phase Verifying) (then_a (record_a env VerificationStarted)
        (bind_a (verify_canonical_report env tk d (report_of env c d)) (\<lambda>v.
          if verdict_passes v then return_a (FinPublished (report_of env c d))
          else refused_report env d (verdict_findings v)))))
      (\<lambda>r s. ru_catalog s = c \<and> r = FinPublished (report_of env c d))"
    by (intro returns_then [OF calm_catalog] returns_bind [OF verification_returns] calms assms)
      (auto simp: returns_def triple_def return_a_def)
  then have run: "returns (\<lambda>s. ru_catalog s = c)
      (if validate_draft (en_printer env) d reg (task_symbols tk) \<noteq> []
       then invalid_draft env d (validate_draft (en_printer env) d reg (task_symbols tk))
       else then_a (set_phase Verifying) (then_a (record_a env VerificationStarted)
        (bind_a (verify_canonical_report env tk d (render (show_f64 (en_printer env)) d reg)) (\<lambda>v.
          if verdict_passes v then return_a (FinPublished (render (show_f64 (en_printer env)) d reg))
          else refused_report env d (verdict_findings v)))))
      (\<lambda>r s. ru_catalog s = c \<and> r = FinPublished (report_of env c d))" if "reg = descriptors c" for reg
    unfolding that report_of_def [symmetric] using valid by simp
  show ?thesis
    unfolding finalize_report_def assms(3) sum.case Let_def
    by (rule returns_bind [OF returns_get], rule returns_pure, erule run) simp
qed

lemma submission_returns:
  assumes "reliable env" "passes env tk c d" "en_decode_draft env (pt_arguments p) = Inr d"
  shows "returns (\<lambda>s. ru_catalog s = c) (serve_submission env tk p)
    (\<lambda>r s. \<exists>oc. r = Published oc \<and> ro_report oc = rr_markdown (report_of env c d))"
proof -
  let ?C = "\<lambda>s. ru_catalog s = c"
  have "returns ?C (complete_run env report) (\<lambda>oc s. ro_report oc = report)" for report
    unfolding complete_run_def
    by (intro returns_then [OF calm_catalog] returns_bind [OF calm_catalog] calms assms)
      (simp add: returns_def triple_def get_a_def)
  then have publish: "returns ?C (then_a (complete_effect env i st v) (then_a (record_a env ev)
      (bind_a (complete_run env report) (\<lambda>oc. return_a (Published oc)))))
      (\<lambda>r s. \<exists>oc. r = Published oc \<and> ro_report oc = report)" for i st v ev report
    by (intro returns_then [OF calm_catalog] calms assms returns_bind [where f = "\<lambda>oc. return_a (Published oc)"]
        returns_return) auto
  show ?thesis
    unfolding serve_submission_def
  proof (rule returns_bind [OF finalize_returns [OF assms]], rule returns_pure [where P' = ?C])
    fix r
    assume r: "r = FinPublished (report_of env c d)"
    show "returns ?C (case r of
         FinPublished r \<Rightarrow>
           then_a (complete_effect env (pt_effect_id p) ''succeeded'' (jobject [(''published'', JBool True)]))
           (then_a (record_a env (ToolCompleted (call_id (pt_call p)) (call_name (pt_call p))
               (map er_internal_id (rr_references r))))
           (bind_a (complete_run env (rr_markdown r)) (\<lambda>oc. return_a (Published oc))))
       | FinRepair response \<Rightarrow>
           then_a (complete_effect env (pt_effect_id p) ''failed'' (jobject [(''published'', JBool False)]))
           (then_a (record_a env (ToolFailed (call_id (pt_call p)) (call_name (pt_call p)) REPAIR_MESSAGE True))
           (return_a (Answered (completed_runtime (pt_call p) response))))
       | FinExhausted response reason \<Rightarrow>
           then_a (complete_effect env (pt_effect_id p) ''failed''
             (jobject [(''published'', JBool False), (''exhausted'', JBool True)]))
           (then_a (record_a env (ToolFailed (call_id (pt_call p)) (call_name (pt_call p)) EXHAUSTED_MESSAGE False))
           (return_a (OutOfAttempts reason (completed_runtime (pt_call p) response)))))
       (\<lambda>r s. \<exists>oc. r = Published oc \<and> ro_report oc = rr_markdown (report_of env c d))"
      unfolding r Finalization.case by (rule publish)
  qed simp
qed

section \<open>A turn\<close>

text \<open>The same catalog, ledger and requests, and these events delivered.\<close>

definition follows :: "AgentEvent list \<Rightarrow> Run \<Rightarrow> Run \<Rightarrow> bool" where
  "follows evs s s' \<longleftrightarrow> ru_sent s' = ru_sent s @ evs \<and> ru_catalog s' = ru_catalog s
     \<and> ru_ledger s' = ru_ledger s \<and> ru_requests s' = ru_requests s"

lemma follows_trans: "follows xs s s' \<Longrightarrow> follows ys s' s'' \<Longrightarrow> follows (xs @ ys) s s''"
  by (simp add: follows_def)

lemma record_follows: "reliable env \<Longrightarrow> \<exists>s'. record_a env ev s = (Inr (), s') \<and> follows [ev] s s'"
  by (simp add: record_a_def then_a_def bind_a_def modify_a_def store_a_def send_a_def tick_def reliable_def follows_def)

lemma active_follows: "reliable env \<Longrightarrow> \<exists>s'. ensure_active env s = (Inr (), s') \<and> follows [] s s'"
  by (simp add: ensure_active_def tick_def reliable_def follows_def)

lemma begin_follows: "reliable env \<Longrightarrow> \<exists>i s'. begin_effect env kind payload s = (Inr i, s') \<and> follows [] s s'"
  by (simp add: begin_effect_def then_a_def bind_a_def get_a_def return_a_def store_a_def tick_def reliable_def follows_def)

lemma complete_follows: "reliable env \<Longrightarrow> \<exists>s'. complete_effect env i st v s = (Inr (), s') \<and> follows [] s s'"
  by (simp add: complete_effect_def store_a_def tick_def reliable_def follows_def)

lemma fail_follows: "reliable env \<Longrightarrow> \<exists>s'. fail_effect env i m e s = (Inl e, s') \<and> follows [] s s'"
  using complete_follows [of env i "''failed''" "error_json m" s]
  by (auto simp: fail_effect_def then_a_def bind_a_def raise_a_def)

lemma on_chunk_emits:
  "on_chunk sl c st = Inr st' \<Longrightarrow>
    emitted st' = emitted st @ (case c of ChTextDelta d \<Rightarrow> if d = [] then [] else [d] | _ \<Rightarrow> [])
    \<and> (st_text st = concat (emitted st) \<longrightarrow> st_text st' = concat (emitted st'))"
  by (cases c)
    (auto simp: bind_r_Inr_conv count_chunk_def on_text_def on_tool_delta_def Let_def split: if_splits)

lemma record_delta_follows:
  assumes "reliable env"
  shows "\<exists>s'. record_delta env c s = (Inr (), s')
    \<and> follows (map TextDelta (case c of ChTextDelta d \<Rightarrow> if d = [] then [] else [d] | _ \<Rightarrow> [])) s s'"
  using record_follows [OF assms] by (cases c) (auto simp: record_delta_def return_a_def follows_def)

lemma stream_a_runs:
  assumes "reliable env"
  shows "case stream_run sl items st of
      Inr st' \<Rightarrow> \<exists>s' ds. stream_a env sl i items st s = (Inr st', s') \<and> emitted st' = emitted st @ ds
        \<and> follows (map TextDelta ds) s s' \<and> (st_text st = concat (emitted st) \<longrightarrow> st_text st' = concat (emitted st'))
    | Inl e \<Rightarrow> \<exists>s'. stream_a env sl i items st s = (Inl (turn_run_error sl e), s') \<and> ru_requests s' = ru_requests s"
proof (induction items arbitrary: st s)
  case Nil
  then show ?case
    using active_follows [OF assms, of s] by (auto simp: then_a_def bind_a_def return_a_def follows_def)
next
  case (Cons item items)
  obtain s1 where s1: "ensure_active env s = (Inr (), s1)" "follows [] s s1"
    using active_follows [OF assms] by blast
  have fails: "\<exists>s'. fail_effect env i m e s1 = (Inl e, s') \<and> ru_requests s' = ru_requests s" for m e
    using fail_follows [OF assms, of i m e s1] s1(2) by (auto simp: follows_def)
  show ?case
  proof (cases item)
    case (SChunk c)
    show ?thesis
    proof (cases "on_chunk sl c st")
      case (Inl e)
      then show ?thesis using SChunk s1 fails by (simp add: then_a_def bind_a_def bind_r_def)
    next
      case (Inr st1)
      let ?ds = "case c of ChTextDelta d \<Rightarrow> if d = [] then [] else [d] | _ \<Rightarrow> []"
      obtain s2 where s2: "record_delta env c s1 = (Inr (), s2)" "follows (map TextDelta ?ds) s1 s2"
        using record_delta_follows [OF assms] by blast
      have run: "stream_run sl (item # items) st = stream_run sl items st1"
        "stream_a env sl i (item # items) st s = stream_a env sl i items st1 s2"
        using SChunk Inr s1 s2 by (simp_all add: then_a_def bind_a_def bind_r_def)
      show ?thesis
      proof (cases "stream_run sl items st1")
        case (Inl e)
        then show ?thesis using Cons.IH [of st1 s2] run s1 s2 by (simp add: follows_def)
      next
        case (Inr st')
        then obtain s' ds where s': "stream_a env sl i items st1 s2 = (Inr st', s')" "emitted st' = emitted st1 @ ds"
          "follows (map TextDelta ds) s2 s'" "st_text st1 = concat (emitted st1) \<longrightarrow> st_text st' = concat (emitted st')"
          using Cons.IH [of st1 s2] by auto
        note emits = on_chunk_emits [OF \<open>on_chunk sl c st = Inr st1\<close>]
        have "follows (map TextDelta (?ds @ ds)) s s'"
          using follows_trans [OF s1(2) follows_trans [OF s2(2) s'(3)]] by simp
        then show ?thesis using Inr run s' emits by (auto intro: exI [of _ "?ds @ ds"])
      qed
    qed
  qed (use s1 fails in \<open>simp_all add: then_a_def bind_a_def\<close>)
qed

lemma attempt_a_connects:
  assumes "reliable env"
  shows "case connect sl (en_connect env rnd n) of
      Inr t \<Rightarrow> \<exists>s'. attempt_a env sl rnd q (n + 1) s = (Inr t, s') \<and> ru_requests s' = ru_requests s @ [q]
        \<and> ru_catalog s' = ru_catalog s \<and> ru_ledger s' = ru_ledger s
        \<and> (\<forall>text calls. t = Some (text, calls) \<longrightarrow> (\<exists>ds. ru_sent s' = ru_sent s @ map TextDelta ds \<and> concat ds = text))
    | Inl e \<Rightarrow> \<exists>s'. attempt_a env sl rnd q (n + 1) s = (Inl (turn_run_error sl e), s')
        \<and> ru_requests s' = ru_requests s @ [q]"
proof -
  obtain i s1 where s1: "begin_effect env ''provider.stream'' (request_payload env rnd q) s = (Inr i, s1)" "follows [] s s1"
    using begin_follows [OF assms] by blast
  let ?s2 = "s1\<lparr>ru_requests := ru_requests s1 @ [q]\<rparr>"
  have fails: "\<exists>s'. fail_effect env i m e s3 = (Inl e, s') \<and> ru_requests s' = ru_requests s3" for m e s3
    using fail_follows [OF assms, of i m e s3] by (auto simp: follows_def)
  show ?thesis
  proof (cases "en_connect env rnd n")
    case (Connected items)
    have attempt: "attempt_a env sl rnd q (Suc n) s
        = bind_a (stream_a env sl i items stream_init) (end_turn env sl rnd i (Suc n)) ?s2"
      using Connected s1 by (simp add: attempt_a_def bind_a_def then_a_def modify_a_def)
    show ?thesis
    proof (cases "stream_run sl items stream_init")
      case (Inl e)
      then show ?thesis
        using stream_a_runs [OF assms, where sl = sl and items = items and st = stream_init and i = i and s = ?s2] s1 Connected
        by (auto simp: attempt bind_a_def connect_def read_turn_def bind_r_def follows_def)
    next
      case (Inr st)
      then obtain s3 ds where s3: "stream_a env sl i items stream_init ?s2 = (Inr st, s3)" "emitted st = ds"
        "follows (map TextDelta ds) ?s2 s3" "st_text st = concat (emitted st)"
        using stream_a_runs [OF assms, where sl = sl and items = items and st = stream_init and i = i and s = ?s2] by (auto simp: stream_init_def)
      show ?thesis
      proof (cases "finish_calls (partial_calls st)")
        case (Inl e)
        then show ?thesis
          using Inr s3 s1 Connected fails [of _ _ s3]
          by (fastforce simp: attempt bind_a_def connect_def read_turn_def bind_r_def end_turn_def follows_def)
      next
        case (Inr calls)
        obtain s4 where s4: "complete_effect env i ''failed'' (error_json ''model returned neither visible text nor a tool call'') s3
            = (Inr (), s4)" "follows [] s3 s4"
          using complete_follows [OF assms] by blast
        obtain s5 where s5: "record_a env (ModelTurnEmpty rnd (n + 1) (empty_action sl (n + 1))) s4 = (Inr (), s5)"
          "follows [ModelTurnEmpty rnd (n + 1) (empty_action sl (n + 1))] s4 s5"
          using record_follows [OF assms] by blast
        obtain s6 where s6: "complete_effect env i ''succeeded'' (jobject [(''visible_chars'', JInt (int (visible_chars st))),
            (''tool_calls'', JInt (int (length (partial_calls st))))]) s3 = (Inr (), s6)" "follows [] s3 s6"
          using complete_follows [OF assms] by blast
        show ?thesis
          using \<open>stream_run sl items stream_init = Inr st\<close> Inr s1 s3 s4 s5 s6 Connected
          by (auto simp: attempt bind_a_def then_a_def return_a_def connect_def read_turn_def bind_r_def end_turn_def follows_def)
      qed
    qed
  next
    case (Refused e)
    then show ?thesis using s1 fails [of _ _ ?s2] by (simp add: attempt_a_def bind_a_def then_a_def modify_a_def connect_def follows_def)
  next
    case ConnectTimedOut
    then show ?thesis using s1 fails [of _ _ ?s2] by (simp add: attempt_a_def bind_a_def then_a_def modify_a_def connect_def follows_def)
  next
    case ConnectCancelled
    then show ?thesis using s1 fails [of _ _ ?s2] by (simp add: attempt_a_def bind_a_def then_a_def modify_a_def connect_def follows_def)
  qed
qed

lemma turn_a_rounds:
  assumes "reliable env"
  shows "\<exists>s'. turn_a env cfg rnd model tools n ms s =
      ((case fst (round_turn (rc_limits cfg) (en_connect env rnd) n) of
          Inl e \<Rightarrow> Inl (turn_run_error (rc_limits cfg) e)
        | Inr t \<Rightarrow> Inr (t, ms @ replicate (snd (snd (round_turn (rc_limits cfg) (en_connect env rnd) n)))
            (message_text MSystem EMPTY_TURN_INSTRUCTION))), s')
    \<and> length (ru_requests s') = length (ru_requests s) + fst (snd (round_turn (rc_limits cfg) (en_connect env rnd) n))
    \<and> (\<forall>t. fst (round_turn (rc_limits cfg) (en_connect env rnd) n) = Inr t \<longrightarrow> ru_catalog s' = ru_catalog s)"
  using assms
proof (induction env cfg rnd model tools n ms s rule: turn_a.induct)
  case (1 env cfg rnd model tools n ms s)
  let ?sl = "rc_limits cfg"
  let ?conn = "en_connect env rnd"
  let ?q = "request_of cfg model tools ms"
  note connects = attempt_a_connects [OF 1(2), where sl = ?sl and rnd = rnd and n = n and q = ?q and s = s]
  note unfold = turn_a.simps [of env cfg rnd model tools n ms s] round_turn.simps [of ?sl ?conn n]
  show ?case
  proof (cases "connect ?sl (?conn n)")
    case (Inl e)
    then show ?thesis using connects by (auto simp: unfold)
  next
    case (Inr turn)
    then obtain s1 where s1: "attempt_a env ?sl rnd ?q (n + 1) s = (Inr turn, s1)"
      "ru_requests s1 = ru_requests s @ [?q]" "ru_catalog s1 = ru_catalog s"
      using connects by auto
    show ?thesis
    proof (cases turn)
      case (Some t)
      then show ?thesis using Inr s1 by (auto simp: unfold)
    next
      case None
      show ?thesis
      proof (cases "max_empty_turn_retries ?sl < n + 1")
        case True
        then show ?thesis using Inr None s1 by (auto simp: unfold)
      next
        case False
        let ?ms = "if 1 < n + 1 then ms @ [message_text MSystem EMPTY_TURN_INSTRUCTION] else ms"
        obtain r opened told where rt: "round_turn ?sl ?conn (n + 1) = (r, opened, told)"
          by (cases "round_turn ?sl ?conn (n + 1)")
        have now: "turn_a env cfg rnd model tools n ms s = turn_a env cfg rnd model tools (n + 1) ?ms s1"
          "round_turn ?sl ?conn n = (r, opened + 1, told + (if 1 < n + 1 then 1 else 0))"
          using False None Inr s1 rt by (simp_all add: unfold)
        have more: "?ms @ replicate told x = ms @ replicate (told + (if 1 < n + 1 then 1 else 0)) x"
          if "x = message_text MSystem EMPTY_TURN_INSTRUCTION" for x
          by (simp add: that)
        obtain s2 where "turn_a env cfg rnd model tools (n + 1) ?ms s1 =
            ((case r of Inl e \<Rightarrow> Inl (turn_run_error ?sl e)
              | Inr t \<Rightarrow> Inr (t, ?ms @ replicate told (message_text MSystem EMPTY_TURN_INSTRUCTION))), s2)"
          "length (ru_requests s2) = length (ru_requests s1) + opened"
          "\<forall>t. r = Inr t \<longrightarrow> ru_catalog s2 = ru_catalog s1"
          using 1(1) [OF s1(1) [symmetric] refl None False 1(2)] unfolding rt fst_conv snd_conv by blast
        then show ?thesis
          unfolding now fst_conv snd_conv more [OF refl] using s1 by (auto split: sum.split)
      qed
    qed
  qed
qed

text \<open>
  C18: The effectful turn implements the pure one. Against a reliable outside, and from any state, it returns the text and
  the calls that \<open>round_turn\<close> computes from the same connections, or fails with the error that stands for
  its fault; it makes exactly as many requests as \<open>round_turn\<close> opens connections, and adds one
  instruction for each it tells.
\<close>

theorem turn_implements_round_turn:
  assumes "reliable env"
  shows "\<exists>s'. turn_a env cfg rnd model tools 0 ms s =
      ((case round_turn (rc_limits cfg) (en_connect env rnd) 0 of
          (Inl e, _) \<Rightarrow> Inl (turn_run_error (rc_limits cfg) e)
        | (Inr t, opened, told) \<Rightarrow> Inr (t, ms @ replicate told (message_text MSystem EMPTY_TURN_INSTRUCTION))), s')
    \<and> length (ru_requests s') = length (ru_requests s) + fst (snd (round_turn (rc_limits cfg) (en_connect env rnd) 0))"
proof -
  obtain r opened told where "round_turn (rc_limits cfg) (en_connect env rnd) 0 = (r, opened, told)"
    by (cases "round_turn (rc_limits cfg) (en_connect env rnd) 0")
  then show ?thesis using turn_a_rounds [OF assms, of cfg rnd model tools 0 ms s] by (cases r) auto
qed

section \<open>Progress\<close>

lemma turn_returns:
  assumes "reliable env" "fst (round_turn (rc_limits cfg) (en_connect env rnd) 0) = Inr t"
  shows "returns (\<lambda>s. ru_catalog s = c) (turn_a env cfg rnd model tools 0 ms) (\<lambda>r s. ru_catalog s = c \<and> fst r = t)"
proof -
  have "\<exists>s' ms'. turn_a env cfg rnd model tools 0 ms s = (Inr (t, ms'), s') \<and> ru_catalog s' = ru_catalog s" for s
    using turn_a_rounds [OF assms(1), of cfg rnd model tools 0 ms s] assms(2) by auto
  note runs = this
  show ?thesis
    unfolding returns_def triple_def
  proof (intro allI impI)
    fix s :: Run
    assume "ru_catalog s = c"
    then show "case turn_a env cfg rnd model tools 0 ms s of (Inl e, s') \<Rightarrow> False | (Inr r, s') \<Rightarrow> ru_catalog s' = c \<and> fst r = t"
      using runs [of s] by auto
  qed
qed

lemma submission_batch:
  assumes "reliable env" "tool_get reg (call_name call) = Some d" "runtime_served \<lparr>pt_call = call, pt_definition = d, pt_arguments = args, pt_effect_id = []\<rparr>"
    and "td_name d = ''submit_report''" "en_parse env (call_arguments call) = Inr args" "is_object args"
    and "en_decode_draft env args = Inr draft" "passes env tk c draft"
  shows "returns (\<lambda>s. ru_catalog s = c) (execute_tools env cfg reg tk [call])
    (\<lambda>batch s. \<exists>oc. tb_published batch = Some oc \<and> ro_report oc = rr_markdown (report_of env c draft))"
proof -
  let ?C = "\<lambda>s. ru_catalog s = c"
  let ?p = "\<lambda>i. \<lparr>pt_call = call, pt_definition = d, pt_arguments = args, pt_effect_id = i\<rparr>"
  have "returns ?C (schedule_a env call d args) (\<lambda>r s. ?C s \<and> (\<exists>i. r = Inr (?p i)))"
    unfolding schedule_a_def
    by (intro returns_then [OF calm_catalog] returns_bind [OF calm_catalog] calms assms(1) returns_return) auto
  then have "returns ?C (prepare_call env cfg reg call) (\<lambda>r s. ?C s \<and> (\<exists>i. r = Inr (?p i)))"
    using assms(2,5,6) by (simp add: prepare_call_def)
  then have prepared: "returns ?C (prepare_all env cfg reg [call]) (\<lambda>r s. ?C s \<and> (\<exists>i. r = ([?p i], [])))"
    unfolding prepare_all.simps
    by (rule returns_bind) (auto simp: bind_a_def return_a_def returns_def triple_def)
  have serve: "returns ?C (serve_runtime env tk (?p i))
      (\<lambda>r s. \<exists>oc. r = Published oc \<and> ro_report oc = rr_markdown (report_of env c draft))" for i
    using submission_returns [OF assms(1,8), of "?p i"] assms(4,7) by (simp add: serve_runtime_def)
  have run: "returns ?C (runtime_loop env tk [?p i] [] None)
      (\<lambda>batch s. \<exists>oc. tb_published batch = Some oc \<and> ro_report oc = rr_markdown (report_of env c draft))" for i
    unfolding runtime_loop.simps
    by (intro returns_then [OF calm_catalog] calms assms(1) returns_bind [OF serve])
      (auto simp: returns_def triple_def return_a_def)
  show ?thesis
    unfolding execute_tools_def Let_def
  proof (rule returns_bind [OF prepared], rule returns_pure [where P' = ?C])
    fix r
    assume "\<exists>i. r = ([?p i], [] :: CompletedTool list)"
    then obtain i where r: "r = ([?p i], [])" by blast
    have "runtime_served (?p i)" using assms(3) by (simp add: runtime_served_def)
    then show "returns ?C (case r of (prepared, rejected) \<Rightarrow>
        bind_a (engine_loop env cfg tk (length (filter (Not \<circ> runtime_served) prepared)) (filter (Not \<circ> runtime_served) prepared) [] rejected)
          (\<lambda>completed. runtime_loop env tk (sort_key (\<lambda>p. call_index (pt_call p)) (filter runtime_served prepared))
            (map (into_message (en_show env)) (sort_key ct_index completed)) None))
        (\<lambda>batch s. \<exists>oc. tb_published batch = Some oc \<and> ro_report oc = rr_markdown (report_of env c draft))"
      using run [of i] by (simp add: r bind_a_def return_a_def returns_def triple_def)
  qed simp
qed

lemma submission_round:
  assumes "reliable env" "fst (round_turn (rc_limits cfg) (en_connect env rnd) 0) = Inr (t, [call])"
    and "tool_get reg (call_name call) = Some d" "td_handler d = RuntimeHandler" "td_name d = ''submit_report''"
    and "en_parse env (call_arguments call) = Inr args" "is_object args"
    and "en_decode_draft env args = Inr draft" "passes env tk c draft"
  shows "returns (\<lambda>s. ru_catalog s = c) (rounds_a env cfg reg tk model (Suc k) rnd ms)
    (\<lambda>oc s. ro_report oc = rr_markdown (report_of env c draft))"
proof -
  let ?C = "\<lambda>s. ru_catalog s = c"
  let ?R = "\<lambda>r s. \<exists>oc. r = Inr oc \<and> ro_report oc = rr_markdown (report_of env c draft)"
  have batch: "returns ?C (execute_tools env cfg reg tk [call])
      (\<lambda>batch s. \<exists>oc. tb_published batch = Some oc \<and> ro_report oc = rr_markdown (report_of env c draft))"
    by (rule submission_batch [OF assms(1,3) _ assms(5-9)]) (simp add: runtime_served_def assms(4))
  have tool: "returns ?C (tool_round env cfg reg tk rnd t [call] ms') ?R" for ms'
    unfolding tool_round_def Let_def
    by (intro returns_then [OF calm_catalog] calms returns_bind [OF batch])
      (auto simp: returns_def triple_def return_a_def)
  have "returns ?C (modify_a (\<lambda>s. s\<lparr>ru_round := rnd, ru_phase := Reasoning\<rparr>)) (\<lambda>_. ?C)"
    by (simp add: returns_def triple_def modify_a_def)
  note enter = this
  have body: "returns (\<lambda>s. ?C s \<and> fst a = (t, [call])) ((\<lambda>((t, calls), ms').
        if calls \<noteq> [] then tool_round env cfg reg tk rnd t calls ms' else prose_round env cfg t ms') a) ?R" for a
    using tool by (cases a) (auto simp: returns_def triple_def)
  have "returns ?C (round_a env cfg reg tk model rnd ms) ?R"
    unfolding round_a_def
    by (rule returns_then [OF calm_catalog], intro calms assms(1), rule returns_then [OF enter],
        rule returns_then [OF calm_catalog], intro calms assms(1), rule returns_bind [OF turn_returns [OF assms(1,2)]], rule body)
  then show ?thesis
    unfolding rounds_a.simps
    by (rule returns_bind) (auto simp: returns_def triple_def return_a_def)
qed

text \<open>
  C4: A valid submission is published. In any round, from any state, against a reliable outside: when the turn is a
  single call to \<open>submit_report\<close> whose arguments decode to a draft that is valid against the catalog, and the
  executor passes its canonical form, the run returns, with the rendering of that draft as its report.
\<close>

theorem valid_submission_is_published:
  assumes "reliable env"
    and "fst (round_turn (rc_limits cfg) (en_connect env rnd) 0) = Inr (t, [call])"
    and "tool_get reg (call_name call) = Some d" and "td_handler d = RuntimeHandler" and "td_name d = ''submit_report''"
    and "en_parse env (call_arguments call) = Inr args" and "is_object args"
    and "en_decode_draft env args = Inr draft" and "passes env tk (ru_catalog s) draft"
  shows "\<exists>oc s'. rounds_a env cfg reg tk model (Suc k) rnd ms s = (Inr oc, s')
    \<and> ro_report oc = rr_markdown (report_of env (ru_catalog s) draft)"
  using returnsD [OF submission_round [OF assms], of s] by simp

section \<open>A run from its start\<close>

lemma first_submission_run:
  assumes "reliable env" "task_validate tk = Inr u" "en_select env = Selected model" "rc_max_model_rounds cfg = Suc k"
    and "fst (round_turn (rc_limits cfg) (en_connect env 1) 0) = Inr (t, [call])"
    and "tool_get reg (call_name call) = Some d" "td_handler d = RuntimeHandler" "td_name d = ''submit_report''"
    and "en_parse env (call_arguments call) = Inr args" "is_object args"
    and "en_decode_draft env args = Inr draft" "passes env tk catalog_empty draft"
  shows "\<exists>oc s. execute_task env cfg reg prompt tid tk = (Inr oc, s)"
proof -
  let ?C = "\<lambda>s. ru_catalog s = catalog_empty"
  have select: "calm (select_model env)"
    unfolding select_model_def assms(3) selection.case by (intro calms assms(1))
  have "returns ?C (execute_loop env cfg reg prompt tk) (\<lambda>_ _. True)"
    unfolding execute_loop_def
    by (rule returns_bind [OF calm_catalog], intro calms,
        (rule returns_then [OF calm_catalog], intro calms assms(1))+,
        rule returns_bind [OF calm_catalog [OF select]], unfold assms(4),
        rule returns_conseq [OF submission_round [OF assms(1,5-12)]]) simp_all
  moreover have "?C (tick (run_new tid (rc_max_finalization_attempts cfg)))" by (simp add: tick_def run_new_def)
  ultimately obtain oc s' where "execute_loop env cfg reg prompt tk (tick (run_new tid (rc_max_finalization_attempts cfg))) = (Inr oc, s')"
    using returnsD [where P = ?C] by blast
  then show ?thesis
    using assms(1,2) by (simp add: execute_task_def then_a_def bind_a_def store_a_def catch_a_def reliable_def)
qed

definition empty_draft :: VerifiedReportDraft where
  "empty_draft = sample_draft\<lparr>dr_sections := [], dr_claims := []\<rparr>"

definition sample_env :: Env where
  "sample_env =
     \<lparr>en_cancelled = \<lambda>_. False, en_store = \<lambda>_. None, en_receiver = \<lambda>_. True, en_uuid = \<lambda>_. [], en_now = \<lambda>_. 0,
      en_pick = \<lambda>_. 0, en_provider_name = ''p'', en_select = Selected ''m'',
      en_connect = \<lambda>_ _. Connected [SChunk (ChToolCallDelta 0 (Some ''c'') (Some ''submit_report'') (Some ''x''))],
      en_execute = \<lambda>_ _ _. Executed (jobject [(''passed'', JBool True)]), en_parse = \<lambda>_. Inr (JObj []),
      en_show = \<lambda>_. [], en_decode_draft = \<lambda>_. Inr empty_draft, en_fingerprint = \<lambda>_. [],
      en_decode_query = \<lambda>_. Inl [], en_lower = id, en_printer = plain_printer, en_rfc = \<lambda>_. [], en_day = \<lambda>_. []\<rparr>"

definition sample_call :: ModelToolCall where
  "sample_call = \<lparr>call_id = ''c'', call_name = ''submit_report'', call_arguments = ''x'', call_index = 0\<rparr>"

definition submission_tool :: ToolDefinition where
  "submission_tool = runtime_tool ''submit_report'' [] JNull"

lemma sample_reliable: "reliable sample_env"
  by (simp add: reliable_def sample_env_def)

lemma sample_turn: "round_turn stream_limits_default (en_connect sample_env rnd) 0 = (Inr ([], [sample_call]), 1, 0)"
proof -
  have "char_count ''x'' = 1" by (simp add: char_count_def byte_def)
  moreover have "\<not> has_control ''c'' \<and> \<not> has_control ''submit_report''"
    by (simp add: has_control_def byte_def Let_def)
  ultimately have "read_turn stream_limits_default
      [SChunk (ChToolCallDelta 0 (Some ''c'') (Some ''submit_report'') (Some ''x''))] = Inr (Some ([], [sample_call]))"
    by (simp add: read_turn_def count_chunk_def stream_init_def stream_limits_default_def Let_def on_tool_delta_def
        usize_saturating_add_def u64_max_def validate_tool_fragment_def partial_merge_def partial_default_def
        merge_fragment_def merge_counted_fragment_def partial_finish_def sample_call_def bind_r_def)
  then show ?thesis
    by (simp add: round_turn.simps [of _ _ 0] connect_def sample_env_def)
qed

lemma default_limits: "rc_limits runtime_config_default = stream_limits_default"
  by (simp add: runtime_config_default_def)

lemma sample_tool: "tool_get [(''submit_report'', submission_tool)] (call_name sample_call) = Some submission_tool"
  "td_handler submission_tool = RuntimeHandler" "td_name submission_tool = ''submit_report''"
  by (simp_all add: tool_get_def sample_call_def submission_tool_def runtime_tool_def)

lemma sample_passes_any: "rt_symbol tk = None \<Longrightarrow> passes sample_env tk c empty_draft"
proof -
  assume symbol: "rt_symbol tk = None"
  have "validate_free_text plain_printer empty_draft reg = []" for reg
    by (simp add: validate_free_text_def report_fields_def heading_fields_def empty_draft_def sample_draft_def
        numbered_def check_references_def check_prose_def map_filter_def)
  then have "validate_draft plain_printer empty_draft reg [] = []" for reg
    by (simp add: validate_draft_def empty_draft_def sample_draft_def says_def)
  then show ?thesis
    by (simp add: passes_def sample_env_def task_symbols_def symbol verdict_passes_def jobject_def)
qed

lemma sample_passes: "passes sample_env (task_ask ''q'') c empty_draft"
  by (rule sample_passes_any) (simp add: task_ask_def)

lemma sample_inputs: "en_parse sample_env (call_arguments sample_call) = Inr (JObj [])" "is_object (JObj [])"
  "en_decode_draft sample_env (JObj []) = Inr empty_draft"
  by (simp_all add: sample_env_def)

lemma turn_implements_round_turn_witness:
  "\<exists>s'. turn_a sample_env runtime_config_default 1 ''m'' [] 0 [] (run_new ''t'' 8) = (Inr (([], [sample_call]), []), s')
     \<and> length (ru_requests s') = 1"
  using turn_implements_round_turn [OF sample_reliable, of runtime_config_default 1 "''m''" "[]" "[]" "run_new ''t'' 8"]
  by (simp add: sample_turn default_limits) (simp add: run_new_def)

lemma valid_submission_is_published_witness:
  "\<exists>oc s'. rounds_a sample_env runtime_config_default [(''submit_report'', submission_tool)] (task_ask ''q'') ''m'' 1 1 []
      (run_new ''t'' 8) = (Inr oc, s') \<and> ro_report oc = rr_markdown (report_of sample_env catalog_empty empty_draft)"
  using valid_submission_is_published [OF sample_reliable _ sample_tool sample_inputs sample_passes,
      of runtime_config_default 1 "[]" "''m''" 0 "[]" "run_new ''t'' 8"]
  by (simp add: sample_turn runtime_config_default_def run_new_def)

lemma sample_task_valid: "task_validate (task_ask ''q'') = Inr ()"
proof -
  have "trim ''q'' = ''q''" by (rule trim_literal) (simp_all add: whitespace_literal starts_with_def ends_with_def)
  then show ?thesis
    by (simp add: task_validate_def task_ask_def ensure_def bind_r_def char_count_def byte_def MAX_OBJECTIVE_CHARS_def
        MAX_MODEL_HISTORY_MESSAGES_def MAX_MODEL_HISTORY_CHARS_def)
qed

lemma sample_run_of:
  assumes "task_validate tk = Inr ()" "rt_symbol tk = None"
  shows "\<exists>oc s. execute_task sample_env runtime_config_default [(''submit_report'', submission_tool)] (\<lambda>_. []) ''t'' tk = (Inr oc, s)"
proof (rule first_submission_run [OF sample_reliable assms(1) _ _ _ sample_tool sample_inputs sample_passes_any [OF assms(2)]])
  show "en_select sample_env = Selected ''m''" by (simp add: sample_env_def)
  show "rc_max_model_rounds runtime_config_default = Suc 31" by (simp add: runtime_config_default_def)
  show "fst (round_turn (rc_limits runtime_config_default) (en_connect sample_env 1) 0) = Inr ([], [sample_call])"
    by (simp add: sample_turn runtime_config_default_def)
qed

lemma sample_run:
  "\<exists>oc s. execute_task sample_env runtime_config_default [(''submit_report'', submission_tool)] (\<lambda>_. []) ''t'' (task_ask ''q'')
    = (Inr oc, s)"
  by (rule sample_run_of [OF sample_task_valid]) (simp add: task_ask_def)

section \<open>A spent budget within one batch\<close>

lemma undecodable_returns:
  assumes "reliable env" "en_decode_draft env (pt_arguments p) = Inl e"
    and "Agent_Finalize.max_attempts l \<le> usize_saturating_add (Agent_Finalize.attempts l) 1"
  shows "returns (\<lambda>s. ru_catalog s = c \<and> ru_ledger s = l) (serve_submission env tk p)
    (\<lambda>r s. ru_catalog s = c \<and> (\<exists>reason t. r = OutOfAttempts reason t))"
proof -
  let ?P = "\<lambda>s. ru_catalog s = c \<and> ru_ledger s = l"
  let ?C = "\<lambda>s. ru_catalog s = c"
  obtain l' verdict where verdict: "record_rejection (''undecodable:'' @ en_show env (pt_arguments p)) l = (l', verdict)"
    by (cases "record_rejection (''undecodable:'' @ en_show env (pt_arguments p)) l")
  have spent: "is_exhausted verdict"
    using assms(3) verdict by (auto simp: record_rejection_def Let_def split: if_splits)
  have rejected: "returns ?P (finalize_report env tk (pt_arguments p))
      (\<lambda>r s. ?C s \<and> (\<exists>response reason. r = FinExhausted response reason))"
    using spent verdict assms(2)
    by (cases verdict) (auto simp: finalize_report_def undecodable_def returns_def triple_def bind_a_def get_a_def
        return_a_def reject_draft_def)
  have settle: "returns ?C (then_a (complete_effect env i st v) (then_a (record_a env ev) (return_a (OutOfAttempts reason t))))
      (\<lambda>r s. ?C s \<and> (\<exists>reason t. r = OutOfAttempts reason t))" for i st v ev reason t
    by (intro returns_then [OF calm_catalog] calms assms(1) returns_return) auto
  show ?thesis
    unfolding serve_submission_def
  proof (rule returns_bind [OF rejected], rule returns_pure [where P' = ?C])
    fix r
    assume "\<exists>response reason. r = FinExhausted response reason"
    then obtain response reason where r: "r = FinExhausted response reason" by blast
    show "returns ?C (case r of
         FinPublished r \<Rightarrow>
           then_a (complete_effect env (pt_effect_id p) ''succeeded'' (jobject [(''published'', JBool True)]))
           (then_a (record_a env (ToolCompleted (call_id (pt_call p)) (call_name (pt_call p))
               (map er_internal_id (rr_references r))))
           (bind_a (complete_run env (rr_markdown r)) (\<lambda>oc. return_a (Published oc))))
       | FinRepair response \<Rightarrow>
           then_a (complete_effect env (pt_effect_id p) ''failed'' (jobject [(''published'', JBool False)]))
           (then_a (record_a env (ToolFailed (call_id (pt_call p)) (call_name (pt_call p)) REPAIR_MESSAGE True))
           (return_a (Answered (completed_runtime (pt_call p) response))))
       | FinExhausted response reason \<Rightarrow>
           then_a (complete_effect env (pt_effect_id p) ''failed''
             (jobject [(''published'', JBool False), (''exhausted'', JBool True)]))
           (then_a (record_a env (ToolFailed (call_id (pt_call p)) (call_name (pt_call p)) EXHAUSTED_MESSAGE False))
           (return_a (OutOfAttempts reason (completed_runtime (pt_call p) response)))))
       (\<lambda>r s. ?C s \<and> (\<exists>reason t. r = OutOfAttempts reason t))"
      unfolding r Finalization.case by (rule settle)
  qed simp
qed

text \<open>
  Spending the finalization budget does not stop a later submission of the same batch. When one attempt is left, a first
  call to \<open>submit_report\<close> that cannot be decoded exhausts the budget, and a second one in the same batch that is
  valid and passes is published all the same: the batch carries both the outcome and the reason of exhaustion,
  and the outcome is looked at first.
\<close>

theorem exhausted_batch_still_publishes:
  assumes "reliable env"
    and "td_name (pt_definition p) = ''submit_report''" and "td_name (pt_definition p') = ''submit_report''"
    and "en_decode_draft env (pt_arguments p) = Inl e" and "en_decode_draft env (pt_arguments p') = Inr draft"
    and "passes env tk (ru_catalog s) draft"
    and "Agent_Finalize.max_attempts (ru_ledger s) \<le> usize_saturating_add (Agent_Finalize.attempts (ru_ledger s)) 1"
  shows "\<exists>batch s' oc. runtime_loop env tk [p, p'] ms None s = (Inr batch, s') \<and> tb_exhausted batch \<noteq> None
    \<and> tb_published batch = Some oc \<and> ro_report oc = rr_markdown (report_of env (ru_catalog s) draft)"
proof -
  let ?c = "ru_catalog s"
  let ?P = "\<lambda>s'. ru_catalog s' = ?c \<and> ru_ledger s' = ru_ledger s"
  let ?C = "\<lambda>s'. ru_catalog s' = ?c"
  let ?Q = "\<lambda>batch s'. tb_exhausted batch \<noteq> None
    \<and> (\<exists>oc. tb_published batch = Some oc \<and> ro_report oc = rr_markdown (report_of env ?c draft))"
  have enter: "returns ?P (ensure_active env) (\<lambda>_. ?P)"
    using calm_returns [OF calm_active [OF assms(1)], of "\<lambda>c l. c = ?c \<and> l = ru_ledger s"] .
  have first: "returns ?P (serve_runtime env tk p) (\<lambda>r s'. ?C s' \<and> (\<exists>reason t. r = OutOfAttempts reason t))"
    using undecodable_returns [OF assms(1,4,7)] assms(2) by (simp add: serve_runtime_def)
  have second: "returns ?C (serve_runtime env tk p')
      (\<lambda>r s'. \<exists>oc. r = Published oc \<and> ro_report oc = rr_markdown (report_of env ?c draft))"
    using submission_returns [OF assms(1,6,5)] assms(3) by (simp add: serve_runtime_def)
  have rest: "returns ?C (runtime_loop env tk [p'] ms' (Some reason)) ?Q" for ms' reason
    unfolding runtime_loop.simps
    by (intro returns_then [OF calm_catalog] calms assms(1) returns_bind [OF second])
      (auto simp: returns_def triple_def return_a_def)
  have "returns ?P (runtime_loop env tk [p, p'] ms None) ?Q"
    unfolding runtime_loop.simps(2) [of env tk p]
  proof (rule returns_then [OF enter], rule returns_bind [OF first], rule returns_pure [where P' = ?C])
    fix r
    assume "\<exists>reason t. r = OutOfAttempts reason t"
    then obtain reason t where r: "r = OutOfAttempts reason t" by blast
    show "returns ?C (case r of
         Published oc \<Rightarrow> return_a \<lparr>tb_messages = ms, tb_published = Some oc, tb_exhausted = None\<rparr>
       | Answered c \<Rightarrow> runtime_loop env tk [p'] (ms @ [into_message (en_show env) c]) None
       | OutOfAttempts reason c \<Rightarrow> runtime_loop env tk [p'] (ms @ [into_message (en_show env) c]) (Some reason)) ?Q"
      unfolding r served.case by (rule rest)
  qed simp
  then show ?thesis using returnsD [where s = s] by fastforce
qed

definition choosy_env :: Env where
  "choosy_env = sample_env\<lparr>en_decode_draft := \<lambda>v. if is_object v then Inr empty_draft else Inl []\<rparr>"

definition submission_of :: "json \<Rightarrow> PreparedTool" where
  "submission_of v = \<lparr>pt_call = sample_call, pt_definition = submission_tool, pt_arguments = v, pt_effect_id = []\<rparr>"

lemma exhausted_batch_still_publishes_witness:
  "\<exists>batch s'. runtime_loop choosy_env (task_ask ''q'') [submission_of JNull, submission_of (JObj [])] [] None (run_new ''t'' 1)
      = (Inr batch, s') \<and> tb_exhausted batch \<noteq> None \<and> tb_published batch \<noteq> None"
proof -
  have "reliable choosy_env" using sample_reliable by (simp add: reliable_def choosy_env_def)
  moreover have "td_name (pt_definition (submission_of v)) = ''submit_report''" for v
    by (simp add: submission_of_def sample_tool)
  moreover have "passes choosy_env (task_ask ''q'') c empty_draft" for c
    using sample_passes by (simp add: passes_def choosy_env_def)
  moreover have "en_decode_draft choosy_env (pt_arguments (submission_of JNull)) = Inl []"
    "en_decode_draft choosy_env (pt_arguments (submission_of (JObj []))) = Inr empty_draft"
    by (simp_all add: choosy_env_def submission_of_def)
  moreover have "Agent_Finalize.max_attempts (ru_ledger (run_new ''t'' 1))
      \<le> usize_saturating_add (Agent_Finalize.attempts (ru_ledger (run_new ''t'' 1))) 1"
    by (simp add: run_new_def ledger_new_def usize_saturating_add_def u64_max_def)
  ultimately show ?thesis
    using exhausted_batch_still_publishes [of choosy_env "submission_of JNull" "submission_of (JObj [])" "[]" empty_draft
        "task_ask ''q''" "run_new ''t'' 1" "[]"] by fastforce
qed

end
