(* ===== verification/Agent_Run.thy ===== *)
theory Agent_Run
  imports Agent_Progress "HOL-Library.Sublist"
begin

text \<open>
  Properties of whole runs. \<open>run_invariant\<close> is interpreted for the account a run keeps: its events, checkpoints
  and calls to the executor. Main facts: a report is published only for a valid draft whose canonical
  form the verifier passed, events are numbered in order and only the last ones end the task, and nothing but
  registered tools is executed.
\<close>
section \<open>The account of a run\<close>

definition allowed_kind :: "ToolRegistry \<Rightarrow> string \<Rightarrow> bool" where
  "allowed_kind reg k \<longleftrightarrow>
     k = VERIFY_KIND \<or> (\<exists>d \<in> snd ` set reg. td_handler d = EngineHandler \<and> td_engine_kind d = k)"

definition executes_allowed :: "ToolRegistry \<Rightarrow> Run \<Rightarrow> bool" where
  "executes_allowed reg s \<longleftrightarrow> (\<forall>x \<in> set (ru_executed s). allowed_kind reg (fst x))"

text \<open>Events in order: recorded under increasing numbers, delivered in that order, checkpoints behind them.\<close>

definition in_order :: "Run \<Rightarrow> bool" where
  "in_order s \<longleftrightarrow>
     (ru_seq s < u64_max \<longrightarrow> sorted_wrt (<) (map fst (ru_log s)) \<and> (\<forall>n \<in> set (map fst (ru_log s)). 1 \<le> n \<and> n \<le> ru_seq s))
     \<and> subseq (ru_sent s) (map snd (ru_log s))
     \<and> set (map cp_accepted_seq (ru_checkpoints s)) \<subseteq> set (map fst (ru_log s))"

text \<open>Nothing missing: numbers without a gap, every event delivered and followed by its checkpoint.\<close>

definition complete_account :: "Run \<Rightarrow> bool" where
  "complete_account s \<longleftrightarrow>
     (ru_seq s < u64_max \<longrightarrow> map fst (ru_log s) = [1..<Suc (ru_seq s)])
     \<and> ru_sent s = map snd (ru_log s) \<and> map cp_accepted_seq (ru_checkpoints s) = map fst (ru_log s)"

definition under_way :: "Run \<Rightarrow> bool" where
  "under_way s \<longleftrightarrow> list_all (\<lambda>(_, ev). \<not> ends_task ev) (ru_log s)"

definition account_ok :: "ToolRegistry \<Rightarrow> Run \<Rightarrow> bool" where
  "account_ok reg s \<longleftrightarrow> complete_account s \<and> under_way s \<and> executes_allowed reg s"

definition account_weak :: "ToolRegistry \<Rightarrow> Run \<Rightarrow> bool" where
  "account_weak reg s \<longleftrightarrow> in_order s \<and> under_way s \<and> executes_allowed reg s"

lemma complete_in_order: "complete_account s \<Longrightarrow> in_order s"
  using sorted_wrt_upt [of 1 "Suc (ru_seq s)"]
  by (auto simp: complete_account_def in_order_def simp del: upt_Suc)

text \<open>What \<open>record\<close> does in each of its outcomes.\<close>

lemma record_cases:
  obtains (recorded) s' where "record_a env ev s = (Inr (), s')" "same_account
      (s\<lparr>ru_seq := u64_saturating_inc (ru_seq s), ru_log := ru_log s @ [(u64_saturating_inc (ru_seq s), ev)],
         ru_checkpoints := ru_checkpoints s @ [checkpoint_of (s\<lparr>ru_seq := u64_saturating_inc (ru_seq s)\<rparr>)],
         ru_sent := ru_sent s @ [ev]\<rparr>) s'"
  | (lost) e s' where "record_a env ev s = (Inl e, s')" "same_account (s\<lparr>ru_seq := u64_saturating_inc (ru_seq s)\<rparr>) s'"
  | (unsaved) e s' where "record_a env ev s = (Inl e, s')" "same_account
      (s\<lparr>ru_seq := u64_saturating_inc (ru_seq s), ru_log := ru_log s @ [(u64_saturating_inc (ru_seq s), ev)]\<rparr>) s'"
  | (undelivered) e s' where "record_a env ev s = (Inl e, s')" "same_account
      (s\<lparr>ru_seq := u64_saturating_inc (ru_seq s), ru_log := ru_log s @ [(u64_saturating_inc (ru_seq s), ev)],
         ru_checkpoints := ru_checkpoints s @ [checkpoint_of (s\<lparr>ru_seq := u64_saturating_inc (ru_seq s)\<rparr>)]\<rparr>) s'"
proof -
  let ?t = "ru_tick s"
  note simps = record_a_def then_a_def bind_a_def modify_a_def store_a_def send_a_def tick_def same_account_def checkpoint_of_def
  show thesis
  proof (cases "en_store env ?t")
    case (Some e)
    then show thesis using lost [of "EStore e"] by (simp add: simps)
  next
    case stored: None
    show thesis
    proof (cases "en_store env (Suc ?t)")
      case (Some e)
      then show thesis using stored unsaved [of "EStore e"] by (simp add: simps)
    next
      case saved: None
      show thesis
      proof (cases "en_receiver env (Suc (Suc ?t))")
        case True
        then show thesis using stored saved recorded by (simp add: simps)
      next
        case False
        then show thesis using stored saved undelivered [of ECancelled] by (simp add: simps)
      qed
    qed
  qed
qed

lemma record_in_order: "in_order s \<Longrightarrow> in_order (snd (record_a env ev s))"
  by (rule record_cases [of env ev s])
    (auto simp: in_order_def same_account_def u64_saturating_inc_def sorted_wrt_append checkpoint_of_def
      intro: list_emb_append_mono subseq_rev_drop_many less_imp_le)

lemma record_log:
  "ru_log (snd (record_a env ev s)) = ru_log s
   \<or> ru_log (snd (record_a env ev s)) = ru_log s @ [(u64_saturating_inc (ru_seq s), ev)]"
  by (rule record_cases [of env ev s]) (auto simp: same_account_def)

lemma record_complete:
  "complete_account s \<Longrightarrow> record_a env ev s = (Inr u, s') \<Longrightarrow>
    complete_account s' \<and> ru_log s' = ru_log s @ [(u64_saturating_inc (ru_seq s), ev)] \<and> ru_executed s' = ru_executed s"
  by (rule record_cases [of env ev s])
    (auto simp: complete_account_def same_account_def u64_saturating_inc_def checkpoint_of_def)

lemma record_executed: "ru_executed (snd (record_a env ev s)) = ru_executed s"
  using quiet_record by (simp add: quiet_def)

lemma complete_account_same: "complete_account s \<Longrightarrow> same_account s s' \<Longrightarrow> complete_account s'"
  by (simp add: complete_account_def same_account_def)

interpretation account: run_invariant env "allowed_kind reg" "account_ok reg" "account_weak reg" for env reg
proof
  show "account_weak reg s" if "account_ok reg s" for s
    using that complete_in_order by (simp add: account_ok_def account_weak_def)
  show "keeps (account_ok reg) (account_weak reg) (record_a env ev)" if ev: "\<not> ends_task ev" for ev
  proof (unfold keeps_def triple_def, intro allI impI)
    fix s
    assume s: "account_ok reg s"
    obtain r s' where r: "record_a env ev s = (r, s')" by (cases "record_a env ev s")
    have "in_order s'" "executes_allowed reg s'"
      using s r complete_in_order record_in_order [of s env ev] record_executed [of env ev s]
      by (simp_all add: account_ok_def executes_allowed_def)
    moreover have "under_way s'"
      using s r ev record_log [of env ev s] by (auto simp: account_ok_def under_way_def)
    moreover have "complete_account s'" if "r = Inr u" for u
      using s r record_complete [of s env ev u s'] that by (simp add: account_ok_def)
    ultimately show "case record_a env ev s of (Inl _, s') \<Rightarrow> account_weak reg s' | (Inr _, s') \<Rightarrow> account_ok reg s'"
      using r by (auto simp: account_weak_def account_ok_def split: sum.split)
  qed
  show "account_ok reg s'" if "account_ok reg s" "same_account s s'" for s s'
    using that by (simp add: account_ok_def complete_account_def under_way_def executes_allowed_def same_account_def)
  show "account_ok reg (s\<lparr>ru_executed := ru_executed s @ xs\<rparr>)"
    if "account_ok reg s" "\<forall>x \<in> set xs. allowed_kind reg (fst x)" for s xs
    using that by (auto simp: account_ok_def complete_account_def under_way_def executes_allowed_def)
qed

lemma registry_allowed: "account.registry_allowed reg reg"
  by (auto simp: account.registry_allowed_def allowed_kind_def)

section \<open>The outcome of a run\<close>

lemma complete_run_Inr:
  assumes "complete_run env report s = (Inr oc, s')"
  shows "record_a env (EvCompleted report (ru_evidence s)) (s\<lparr>ru_phase := Completed\<rparr>) = (Inr (), s')
    \<and> ro_report oc = report \<and> ro_evidence_ids oc = ru_evidence s"
  using assms
  by (auto simp: complete_run_def then_a_def bind_a_Inr set_phase_def modify_a_def get_a_def)

lemma complete_run_Inl:
  assumes "complete_run env report s = (Inl e, s')"
  shows "s' = snd (record_a env (EvCompleted report (ru_evidence s)) (s\<lparr>ru_phase := Completed\<rparr>))"
  using assms
  by (auto simp: complete_run_def then_a_def bind_a_def set_phase_def modify_a_def get_a_def split: sum.splits prod.splits)

lemma account_new: "account_ok reg (run_new tid n)"
  by (simp add: account_ok_def complete_account_def under_way_def executes_allowed_def run_new_def)

lemma terminal_event_ends: "terminal_event env now e = Some (phase, ev) \<Longrightarrow> ends_task ev"
  by (cases e) (auto simp: terminal_event_def split: if_splits)

lemma execute_task_cases:
  assumes "execute_task env cfg reg prompt tid tk = (r, s)"
  obtains (published) oc where "r = Inr oc" "account.finished env reg (justified env cfg tk) oc s"
  | (stopped) e where "r = Inl e" "account.failed env reg (justified env cfg tk) s"
  | (ended) e s1 phase ev where "r = Inl e" "account.failed env reg (justified env cfg tk) s1" "ends_task ev"
      "s = snd (record_a env ev (s1\<lparr>ru_phase := phase\<rparr>))"
proof -
  let ?s0 = "run_new tid (rc_max_finalization_attempts cfg)"
  have loop: "triple (account_ok reg) (execute_loop env cfg reg prompt tk)
      (account.finished env reg (justified env cfg tk)) (account.failed env reg (justified env cfg tk))"
    by (rule account.whole_loop [OF registry_allowed])
  show thesis
  proof (cases "task_validate tk")
    case (Inl e)
    then have "r = Inl e" "s = ?s0" using assms by (auto simp: execute_task_def)
    then show thesis using stopped account.I_failed [OF account_new] by blast
  next
    case valid: (Inr u)
    show thesis
    proof (cases "en_store env (ru_tick ?s0)")
      case (Some e)
      have "account_ok reg (tick ?s0)"
        using account_new by (rule account.same) (simp add: tick_def same_account_def)
      moreover have "r = Inl (EStore e)" "s = tick ?s0"
        using assms valid Some by (auto simp: execute_task_def then_a_def bind_a_def store_a_def)
      ultimately show thesis using stopped account.I_failed by blast
    next
      case None
      have start: "account_ok reg (tick ?s0)"
        using account_new by (rule account.same) (simp add: tick_def same_account_def)
      have run: "(r, s) = catch_a (execute_loop env cfg reg prompt tk) (end_run env) (tick ?s0)"
        using assms valid None by (simp add: execute_task_def then_a_def bind_a_def store_a_def)
      show thesis
      proof (cases "execute_loop env cfg reg prompt tk (tick ?s0)")
        case (Pair r1 s1)
        show thesis
        proof (cases r1)
          case (Inr oc)
          then have "account.finished env reg (justified env cfg tk) oc s1"
            using tripleD(1) [OF loop start] Pair by simp
          then show thesis using published [of oc] run Pair Inr by (simp add: catch_a_def)
        next
          case (Inl e)
          then have fails: "account.failed env reg (justified env cfg tk) s1"
            using tripleD(2) [OF loop start] Pair by simp
          have "(r, s) = end_run env e s1" using run Pair Inl by (simp add: catch_a_def)
          then consider "r = Inl (EInternal ''task join failed'')" "s = s1"
            | phase ev where "terminal_event env (en_now env (ru_tick s1)) e = Some (phase, ev)" "r = Inl e"
                "s = snd (record_a env ev (s1\<lparr>ru_phase := phase\<rparr>))"
            by (auto simp: end_run_def then_a_def bind_a_def set_phase_def modify_a_def split: option.splits prod.splits)
          then show thesis
            using fails stopped ended [OF _ fails terminal_event_ends] by cases auto
        qed
      qed
    qed
  qed
qed

text \<open>The log: events of a task under way, then at most \<open>n\<close> that end it.\<close>

definition ends_within :: "nat \<Rightarrow> Run \<Rightarrow> bool" where
  "ends_within n s \<longleftrightarrow>
     (\<exists>before ends. map snd (ru_log s) = before @ ends \<and> list_all (Not \<circ> ends_task) before
        \<and> list_all ends_task ends \<and> length ends \<le> n)"

lemma ends_within_mono: "ends_within m s \<Longrightarrow> m \<le> n \<Longrightarrow> ends_within n s"
  unfolding ends_within_def by (meson order_trans)

lemma ends_within_start:
  assumes "account_weak reg s"
  shows "in_order s \<and> ends_within 0 s"
proof -
  have "list_all (Not \<circ> ends_task) (map snd (ru_log s))"
    using assms by (auto simp: account_weak_def under_way_def list_all_iff)
  then show ?thesis using assms by (simp add: account_weak_def ends_within_def)
qed

lemma ends_within_more:
  assumes "in_order s \<and> ends_within n s" "ends_task ev"
  shows "in_order (snd (record_a env ev (s\<lparr>ru_phase := p\<rparr>))) \<and> ends_within (Suc n) (snd (record_a env ev (s\<lparr>ru_phase := p\<rparr>)))"
proof -
  obtain before ends where l: "map snd (ru_log s) = before @ ends" "list_all (Not \<circ> ends_task) before"
    "list_all ends_task ends" "length ends \<le> n" using assms(1) unfolding ends_within_def by blast
  have "in_order (s\<lparr>ru_phase := p\<rparr>)" using assms(1) by (simp add: in_order_def)
  then have "in_order (snd (record_a env ev (s\<lparr>ru_phase := p\<rparr>)))" by (rule record_in_order)
  moreover have "\<exists>xs. map snd (ru_log (snd (record_a env ev (s\<lparr>ru_phase := p\<rparr>)))) = before @ ends @ xs
      \<and> list_all ends_task xs \<and> length xs \<le> 1"
    using record_log [of env ev "s\<lparr>ru_phase := p\<rparr>"] l(1) assms(2) by (auto intro: exI [of _ "[ev]"])
  then obtain xs where "map snd (ru_log (snd (record_a env ev (s\<lparr>ru_phase := p\<rparr>)))) = before @ (ends @ xs)"
    "list_all ends_task (ends @ xs)" "length (ends @ xs) \<le> Suc n" using l by auto
  ultimately show ?thesis using l(2) unfolding ends_within_def by blast
qed

text \<open>The account of a run that returned.\<close>

lemma outcome_account:
  assumes "execute_task env cfg reg prompt tid tk = (Inr oc, s)"
  shows "complete_account s
    \<and> (\<exists>before. map snd (ru_log s) = before @ [EvCompleted (ro_report oc) (ro_evidence_ids oc)]
         \<and> list_all (Not \<circ> ends_task) before)"
  using assms
proof (cases rule: execute_task_cases)
  case (published oc')
  then obtain s1 report where s1: "account_ok reg s1" "complete_run env report s1 = (Inr oc, s)"
    by (auto simp: account.finished_def)
  note fin = complete_run_Inr [OF s1(2)]
  have "complete_account (s1\<lparr>ru_phase := Completed\<rparr>)" using s1(1) by (simp add: account_ok_def complete_account_def)
  then have "complete_account s" "ru_log s = ru_log s1 @ [(u64_saturating_inc (ru_seq s1), EvCompleted report (ru_evidence s1))]"
    using record_complete fin by fastforce+
  moreover have "list_all (Not \<circ> ends_task) (map snd (ru_log s1))"
    using s1(1) by (auto simp: account_ok_def under_way_def list_all_iff)
  ultimately show ?thesis using fin by (auto intro!: exI [of _ "map snd (ru_log s1)"])
qed auto

text \<open>
  C2: A published report is a verified one. When a run returns a report and reports are to be verified,
  there is a draft, decoded from a submission, that is valid against the catalog of the run; the
  executor was called with the canonical form of that draft and the facts it cites, and answered that it
  passes; and the report returned is the rendering of that draft.
\<close>

theorem published_report_is_verified:
  assumes "execute_task env cfg reg prompt tid tk = (Inr oc, s)" and "rc_verify_reports cfg"
  shows "published_by env tk (ro_report oc) (ru_catalog s) (ru_executed s)"
  using assms(1)
proof (cases rule: execute_task_cases)
  case (published oc')
  then obtain s1 report where "justified env cfg tk (ru_catalog s1) (ru_executed s1) report"
    and fin: "complete_run env report s1 = (Inr oc, s)"
    by (auto simp: account.finished_def)
  then show ?thesis
    using assms(2) complete_run_Inr [OF fin] quiet_complete_run [of env report]
    by (auto simp: justified_def quiet_def) (metis snd_conv)
qed auto

text \<open>
  C3: Events are recorded in order. Up to the events that end the task, which come last, the numbers increase
  strictly, the client receives events in that order, and a checkpoint only ever names a recorded
  event. When the run returns a report the account is complete: numbers without a gap, every
  event delivered and checkpointed, and the one event that ends the task is its completion with that
  report and evidence.
\<close>

theorem events_recorded_in_order:
  assumes "execute_task env cfg reg prompt tid tk = (r, s)"
  shows "in_order s
    \<and> ends_within 2 s
    \<and> (\<forall>oc. r = Inr oc \<longrightarrow> complete_account s
         \<and> (\<exists>before. map snd (ru_log s) = before @ [EvCompleted (ro_report oc) (ro_evidence_ids oc)]
              \<and> list_all (Not \<circ> ends_task) before))"
proof -
  let ?J = "justified env cfg tk"
  have fails: "in_order s1 \<and> ends_within 1 s1" if "account.failed env reg ?J s1" for s1
    using that unfolding account.failed_def
  proof
    assume "account_weak reg s1"
    from ends_within_start [OF this] show ?thesis by (auto intro: ends_within_mono)
  next
    assume "\<exists>s report e. account_ok reg s \<and> ?J (ru_catalog s) (ru_executed s) report \<and> complete_run env report s = (Inl e, s1)"
    then obtain s2 report e where s2: "account_ok reg s2" "complete_run env report s2 = (Inl e, s1)" by blast
    from ends_within_more [OF ends_within_start [OF account.weaker [OF s2(1)]], of "EvCompleted report (ru_evidence s2)" env Completed]
    show ?thesis using complete_run_Inl [OF s2(2)] by simp
  qed
  show ?thesis
    using assms
  proof (cases rule: execute_task_cases)
    case (published oc)
    note account = outcome_account [OF assms [unfolded published(1)]]
    then obtain before where before: "map snd (ru_log s) = before @ [EvCompleted (ro_report oc) (ro_evidence_ids oc)]"
      "list_all (Not \<circ> ends_task) before" by blast
    then have "ends_within 2 s"
      unfolding ends_within_def by (intro exI [of _ before] exI [of _ "[EvCompleted (ro_report oc) (ro_evidence_ids oc)]"]) simp
    then show ?thesis using account complete_in_order published(1) by auto
  next
    case (stopped e)
    then show ?thesis using fails ends_within_mono [of 1 s 2] by auto
  next
    case (ended e s1 phase ev)
    then show ?thesis using ends_within_more [OF fails, of s1 ev env phase] by (simp add: numeral_2_eq_2)
  qed
qed

lemma published_report_is_verified_witness:
  "\<exists>oc s. execute_task sample_env runtime_config_default [(''submit_report'', submission_tool)] (\<lambda>_. []) ''t'' (task_ask ''q'')
      = (Inr oc, s) \<and> published_by sample_env (task_ask ''q'') (ro_report oc) (ru_catalog s) (ru_executed s)"
  using sample_run published_report_is_verified [of sample_env runtime_config_default]
  by (fastforce simp: runtime_config_default_def)

lemma events_recorded_in_order_witness:
  "\<exists>oc s. execute_task sample_env runtime_config_default [(''submit_report'', submission_tool)] (\<lambda>_. []) ''t'' (task_ask ''q'')
      = (Inr oc, s) \<and> complete_account s"
  using sample_run events_recorded_in_order by blast

lemma run_executes_allowed:
  assumes "execute_task env cfg reg prompt tid tk = (r, s)"
  shows "executes_allowed reg s"
proof -
  let ?J = "justified env cfg tk"
  have ran: "executes_allowed reg (snd (complete_run env report s1))" if "account_ok reg s1" for report s1
    using that quiet_complete_run [of env report] by (simp add: account_ok_def executes_allowed_def quiet_def)
  have failed: "executes_allowed reg s1" if "account.failed env reg ?J s1" for s1
    using that ran unfolding account.failed_def account_weak_def by (metis snd_conv)
  show ?thesis
    using assms
  proof (cases rule: execute_task_cases)
    case (published oc)
    then show ?thesis using ran unfolding account.finished_def by (metis snd_conv)
  next
    case (stopped e)
    then show ?thesis using failed by blast
  next
    case (ended e s1 phase ev)
    have "executes_allowed reg (s1\<lparr>ru_phase := phase\<rparr>)" using failed [OF ended(2)] by (simp add: executes_allowed_def)
    then show ?thesis using ended(4) record_executed [of env ev] by (simp add: executes_allowed_def)
  qed
qed

text \<open>
  Whatever the model asks for, whatever fails and in whatever order calls finish, the executor is only called
  with the kind of a registered tool that the engine handles, or to verify a report.
\<close>

theorem only_registered_tools_run:
  assumes "execute_task env cfg reg prompt tid tk = (r, s)"
  shows "\<forall>(kind, payload) \<in> set (ru_executed s). kind = ''research.agent_report_verify''
    \<or> (\<exists>name d. (name, d) \<in> set reg \<and> td_handler d = EngineHandler \<and> td_engine_kind d = kind)"
  using run_executes_allowed [OF assms] by (fastforce simp: executes_allowed_def allowed_kind_def VERIFY_KIND_def)

lemma only_registered_tools_run_witness:
  "\<exists>oc s. execute_task sample_env runtime_config_default [(''submit_report'', submission_tool)] (\<lambda>_. []) ''t'' (task_ask ''q'')
      = (Inr oc, s) \<and> (\<forall>(kind, payload) \<in> set (ru_executed s). kind = ''research.agent_report_verify'')"
proof -
  obtain oc s where run: "execute_task sample_env runtime_config_default [(''submit_report'', submission_tool)] (\<lambda>_. []) ''t''
      (task_ask ''q'') = (Inr oc, s)" using sample_run by blast
  then show ?thesis using only_registered_tools_run [OF run] by (auto simp: sample_tool)
qed

section \<open>Events after the end\<close>

text \<open>
  A completed task can be recorded as cancelled. When the client has gone by the time the completion is handed to it, the
  completion has been recorded and checkpointed; the run nevertheless fails as cancelled, and the end of
  the run records a cancellation after it.
\<close>

theorem completion_then_cancelled:
  assumes "\<And>t. en_store env t = None" and "\<And>t. \<not> en_receiver env t"
  shows "\<exists>s1. complete_run env report s = (Inl ECancelled, s1)
    \<and> fst (end_run env ECancelled s1) = Inl ECancelled
    \<and> map snd (ru_log (snd (end_run env ECancelled s1)))
        = map snd (ru_log s) @ [EvCompleted report (ru_evidence s), EvCancelled]
    \<and> map cp_phase (ru_checkpoints (snd (end_run env ECancelled s1)))
        = map cp_phase (ru_checkpoints s) @ [Completed, Cancelled]"
  using assms
  by (simp add: complete_run_def record_a_def then_a_def bind_a_def set_phase_def modify_a_def get_a_def store_a_def send_a_def
      tick_def end_run_def terminal_event_def checkpoint_of_def)

lemma completion_then_cancelled_witness:
  "\<exists>s1. complete_run (sample_env\<lparr>en_receiver := \<lambda>_. False\<rparr>) ''r'' (run_new ''t'' 8) = (Inl ECancelled, s1)
    \<and> map snd (ru_log (snd (end_run (sample_env\<lparr>en_receiver := \<lambda>_. False\<rparr>) ECancelled s1))) = [EvCompleted ''r'' [], EvCancelled]"
proof -
  have "\<And>t. en_store (sample_env\<lparr>en_receiver := \<lambda>_. False\<rparr>) t = None"
    "\<And>t. \<not> en_receiver (sample_env\<lparr>en_receiver := \<lambda>_. False\<rparr>) t" by (simp_all add: sample_env_def)
  moreover have "ru_log (run_new ''t'' 8) = []" "ru_evidence (run_new ''t'' 8) = []" by (simp_all add: run_new_def)
  ultimately show ?thesis
    using completion_then_cancelled [of "sample_env\<lparr>en_receiver := \<lambda>_. False\<rparr>" "''r''" "run_new ''t'' 8"] by auto
qed

end
