(* ===== verification/Agent_Tools.thy ===== *)
theory Agent_Tools
  imports Agent_Task
begin

text \<open>
  The built-in tools of \<open>crates/agent-runtime/src/tools.rs\<close>: their schemas, their definitions and the
  registry that holds them. Main facts: registering a list of definitions succeeds exactly when the names are
  well formed and distinct, which gives the built-in registry in order of the names; the tools served by the engine reach ten read kinds and nothing else; and when the research
  budget is spent exactly the three finalization tools are offered.
\<close>

section \<open>Schemas\<close>

text \<open>
  Assignment through \<open>IndexMut\<close>: a missing field is created, \<open>null\<close> becomes an object. Other values
  would panic; they are left as they are and do not occur.
\<close>

fun json_put :: "string list \<Rightarrow> json \<Rightarrow> json \<Rightarrow> json" where
  "json_put [] v j = v"
| "json_put (k # ks) v JNull = JObj [(k, json_put ks v JNull)]"
| "json_put (k # ks) v (JObj fs) = JObj (btree_insert k (json_put ks v (case map_of fs k of Some w \<Rightarrow> w | None \<Rightarrow> JNull)) fs)"
| "json_put (k # ks) v j = j"

definition object_schema :: "json \<Rightarrow> string list \<Rightarrow> json" where
  "object_schema properties required =
     jobject [
       (''type'', JStr ''object''), (''additionalProperties'', JBool False), (''properties'', properties),
       (''required'', json_strings required)]"

definition program_schema_base :: "json" where
  "program_schema_base =
     jobject [
       (''type'', JStr ''object''), (''additionalProperties'', JBool False),
       (''required'', JArr [JStr ''version'', JStr ''outputs'']),
       (''properties'', jobject [
           (''version'', jobject [(''type'', JStr ''integer''), (''enum'', JArr [JInt 1])]),
           (''inputs'', jobject [
               (''type'', JStr ''object''), (''maxProperties'', JInt 32),
               (''additionalProperties'', jobject [
                   (''type'', JStr ''array''), (''minItems'', JInt 1), (''maxItems'', JInt 5000),
                   (''items'', jobject [(''type'', JArr [JStr ''number'', JStr ''null''])])])]),
           (''bindings'', jobject [
               (''type'', JStr ''array''), (''maxItems'', JInt 64),
               (''items'', jobject [
                   (''type'', JStr ''object''), (''additionalProperties'', JBool False),
                   (''required'', JArr [JStr ''name'', JStr ''expr'']),
                   (''properties'', jobject [
                       (''name'', jobject [
                           (''type'', JStr ''string''), (''pattern'', JStr ''^[A-Za-z_][A-Za-z0-9_]{0,63}$'')]),
                       (''expr'', jobject [(''type'', JStr ''object'')])])])]),
           (''outputs'', jobject [
               (''type'', JStr ''object''), (''minProperties'', JInt 1), (''maxProperties'', JInt 32),
               (''additionalProperties'', jobject [(''type'', JStr ''object'')])])]),
       (''description'', JStr (''AST operators use an `op` discriminator. Sources: scalar{value}, var{name}. Arithmetic: ''
         @ ''add/sub/mul/div{left,right}, neg/abs{input}, clip{input,min,max}. Series: ''
         @ ''lag{input,periods}, diff/returns/log_returns/cumulative_return{input}, ''
         @ ''sma/ema/zscore/rsi{input,window}, rolling_std{input,window,annualization?}, ''
         @ ''tail{input,count}. Reductions: mean/std/sum/min/max/last/count/max_drawdown{input}, ''
         @ ''correlation{left,right}. Expressions are nested JSON objects; no code strings.''))]"

definition computation_program_schema :: "bool \<Rightarrow> json" where
  "computation_program_schema joinquant =
     (if joinquant then json_put [''properties'', ''inputs'', ''description''] (JStr (''Optional extra numeric series only. Do not define ''
         @ ''open/high/low/close/volume/amount/turnover/pct; Engine injects those protected JoinQuant ''
         @ ''inputs.''))
        program_schema_base
      else program_schema_base)"

definition evidence_id_schema :: "json" where
  "evidence_id_schema =
     jobject [(''type'', JStr ''string''), (''pattern'', JStr ''^evf_[A-Za-z0-9_]+$''), (''maxLength'', JInt 80)]"

definition evidence_id_list_schema :: "nat \<Rightarrow> json" where
  "evidence_id_list_schema max_items =
     jobject [(''type'', JStr ''array''), (''maxItems'', JInt (int max_items)), (''items'', evidence_id_schema)]"

definition numeric_item_properties :: "(string \<times> json) list" where
  "numeric_item_properties =
     [
       (''label'', jobject [(''type'', JStr ''string''), (''maxLength'', JInt 80)]),
       (''value'', jobject [(''type'', JStr ''number'')]),
       (''unit'', jobject [(''type'', JStr ''string''), (''maxLength'', JInt 20)]),
       (''provenance'', jobject [
           (''type'', JStr ''string''),
           (''enum'', JArr [JStr ''observed'', JStr ''calculated'', JStr ''user_assumption'', JStr ''estimated''])]),
       (''evidence_id'', evidence_id_schema),
       (''field'', jobject [(''type'', JStr ''string''), (''maxLength'', JInt 120)]),
       (''calculation_evidence_id'', evidence_id_schema),
       (''operation'', jobject [(''type'', JStr ''string''), (''maxLength'', JInt 80)]),
       (''input_evidence_ids'', evidence_id_list_schema 12),
       (''stated_in_message_id'', jobject [(''type'', JStr ''string''), (''maxLength'', JInt 64)]),
       (''method'', jobject [(''type'', JStr ''string''), (''maxLength'', JInt 300)]),
       (''basis_evidence_ids'', evidence_id_list_schema 12),
       (''range'', jobject [
           (''type'', JStr ''array''), (''minItems'', JInt 2), (''maxItems'', JInt 2),
           (''items'', jobject [(''type'', JStr ''number'')])])]"

definition numeric_item_schema :: "json" where
  "numeric_item_schema =
     jobject [
       (''type'', JStr ''object''), (''additionalProperties'', JBool False),
       (''required'', JArr [JStr ''label'', JStr ''value'', JStr ''provenance'']),
       (''properties'', jobject numeric_item_properties),
       (''allOf'', JArr [
           jobject [
             (''if'', jobject [
                 (''properties'', jobject [(''provenance'', jobject [(''const'', JStr ''observed'')])]),
                 (''required'', JArr [JStr ''provenance''])]),
             (''then'', jobject [(''required'', JArr [JStr ''evidence_id''])])],
           jobject [
             (''if'', jobject [
                 (''properties'', jobject [(''provenance'', jobject [(''const'', JStr ''calculated'')])]),
                 (''required'', JArr [JStr ''provenance''])]),
             (''then'', jobject [
                 (''required'', JArr [JStr ''calculation_evidence_id'', JStr ''operation'', JStr ''input_evidence_ids''])])],
           jobject [
             (''if'', jobject [
                 (''properties'', jobject [(''provenance'', jobject [(''const'', JStr ''estimated'')])]),
                 (''required'', JArr [JStr ''provenance''])]),
             (''then'', jobject [(''required'', JArr [JStr ''method'', JStr ''basis_evidence_ids''])])]])]"

definition claim_properties :: "(string \<times> json) list" where
  "claim_properties =
     [
       (''id'', jobject [(''type'', JStr ''string''), (''maxLength'', JInt 64)]),
       (''kind'', jobject [
           (''type'', JStr ''string''),
           (''enum'', JArr [
               JStr ''observed_fact'', JStr ''deterministic_calculation'', JStr ''inference'', JStr ''estimate'',
               JStr ''scenario'', JStr ''unknown''])]),
       (''statement'', jobject [(''type'', JStr ''string''), (''maxLength'', JInt 2000)]),
       (''evidence_ids'', evidence_id_list_schema 12),
       (''confidence'', jobject [(''type'', JStr ''string''), (''maxLength'', JInt 40)]),
       (''uncertainty'', jobject [(''type'', JStr ''string''), (''maxLength'', JInt 600)]),
       (''assumptions'', jobject [
           (''type'', JStr ''array''), (''maxItems'', JInt 12),
           (''items'', jobject [(''type'', JStr ''string''), (''maxLength'', JInt 300)])]),
       (''disclosed_conflicts'', evidence_id_list_schema 12),
       (''numeric_items'', jobject [(''type'', JStr ''array''), (''maxItems'', JInt 16), (''items'', numeric_item_schema)])]"

definition claim_schema :: "json" where
  "claim_schema =
     jobject [
       (''type'', JStr ''object''), (''additionalProperties'', JBool False),
       (''required'', JArr [JStr ''id'', JStr ''kind'', JStr ''statement'']),
       (''properties'', jobject claim_properties)]"

definition section_schema :: "json" where
  "section_schema =
     jobject [
       (''type'', JStr ''object''), (''additionalProperties'', JBool False),
       (''required'', JArr [JStr ''heading'', JStr ''claim_ids'']),
       (''properties'', jobject [
           (''heading'', jobject [(''type'', JStr ''string''), (''maxLength'', JInt 120)]),
           (''claim_ids'', jobject [
               (''type'', JStr ''array''), (''minItems'', JInt 1),
               (''items'', jobject [(''type'', JStr ''string''), (''maxLength'', JInt 64)])])])]"

definition report_properties :: "(string \<times> json) list" where
  "report_properties =
     [
       (''version'', jobject [
           (''type'', JStr ''string''), (''enum'', JArr [JStr REPORT_CONTRACT_VERSION]),
           (''description'', JStr ''Send exactly this value.'')]),
       (''title'', jobject [(''type'', JStr ''string''), (''maxLength'', JInt 200)]),
       (''executive_summary'', jobject [(''type'', JStr ''string''), (''maxLength'', JInt 4000)]),
       (''overall_uncertainty'', jobject [(''type'', JStr ''string''), (''maxLength'', JInt 2000)]),
       (''limitations'', jobject [
           (''type'', JStr ''array''), (''maxItems'', JInt 20),
           (''items'', jobject [(''type'', JStr ''string''), (''maxLength'', JInt 500)])]),
       (''sections'', jobject [
           (''type'', JStr ''array''), (''minItems'', JInt 1), (''maxItems'', JInt 24), (''items'', section_schema)]),
       (''claims'', jobject [
           (''type'', JStr ''array''), (''minItems'', JInt 1), (''maxItems'', JInt 240), (''items'', claim_schema)])]"

definition submit_report_schema :: "json" where
  "submit_report_schema =
     jobject [
       (''type'', JStr ''object''), (''additionalProperties'', JBool False),
       (''required'', JArr [JStr ''version'', JStr ''title'', JStr ''executive_summary'', JStr ''sections'', JStr ''claims'']),
       (''properties'', jobject report_properties)]"

section \<open>The tools\<close>

definition get_quote_tool :: "ToolDefinition" where
  "get_quote_tool =
     read_tool ''get_quote''
     ''Latest quote for one A-share security, with source, observation time and quality metadata.'' ''market.quote''
     (object_schema (
         jobject [(''symbol'', jobject [(''type'', JStr ''string''), (''pattern'', JStr ''^[0-9]{6}$'')])]) [''symbol'']) 20 ''live''"

definition get_kline_tool :: "ToolDefinition" where
  "get_kline_tool =
     read_tool ''get_kline'' ''Bounded historical K-line series for trend, volatility and structure analysis.''
     ''market.kline'' (object_schema (
         jobject [
           (''symbol'', jobject [(''type'', JStr ''string''), (''pattern'', JStr ''^[0-9]{6}$'')]),
           (''period'', jobject [(''type'', JStr ''string''), (''enum'', JArr [JStr ''day'', JStr ''week'', JStr ''month''])]),
           (''adjust'', jobject [(''type'', JStr ''string''), (''enum'', JArr [JStr ''qfq'', JStr ''hfq'', JStr ''none''])]),
           (''count'', jobject [(''type'', JStr ''integer''), (''minimum'', JInt 1), (''maximum'', JInt 500)])]) [''symbol'', ''period'', ''adjust'', ''count'']) 30 ''market_close_or_live''"

definition get_fundamentals_tool :: "ToolDefinition" where
  "get_fundamentals_tool =
     read_tool ''get_fundamentals'' ''Fundamental evidence: statements, key ratios, valuation and share counts.''
     ''research.fundamentals'' (object_schema (
         jobject [(''symbol'', jobject [(''type'', JStr ''string''), (''pattern'', JStr ''^[0-9]{6}$'')])]) [''symbol'']) 45 ''latest_disclosed''"

definition run_financial_calculation_tool :: "ToolDefinition" where
  "run_financial_calculation_tool =
     read_tool ''run_financial_calculation''
     (''Run a bounded, reproducible, fuel-metered financial calculation AST in the Engine. Supports ''
         @ ''sequential let bindings, series arithmetic, returns, moving averages, volatility, z-score, ''
         @ ''RSI, correlation, max drawdown and reductions. No code strings, files, processes, network, ''
         @ ''clock or randomness. Use this for material arithmetic instead of computing in prose.'')
     ''research.compute'' (object_schema (jobject [(''program'', computation_program_schema False)]) [''program'']) 20 ''deterministic_input_snapshot''"

definition research_news_tool :: "ToolDefinition" where
  "research_news_tool =
     read_tool ''research_news''
     (''Bounded recent news evidence from multiple financial sources. A single failed source is ''
         @ ''reported as degraded coverage, not silently dropped.'')
     ''research.news'' (object_schema (
         jobject [
           (''sources'', jobject [
               (''type'', JStr ''array''), (''items'', jobject [(''type'', JStr ''string'')]),
               (''maxItems'', JInt 12)]),
           (''limit'', jobject [(''type'', JStr ''integer''), (''minimum'', JInt 1), (''maximum'', JInt 100)])]) [''sources'', ''limit'']) 45 ''live''"

definition get_market_regime_tool :: "ToolDefinition" where
  "get_market_regime_tool =
     read_tool ''get_market_regime'' ''Deterministic current market-regime assessment.'' ''research.market.regime''
     (object_schema (jobject []) []) 30 ''latest_market_data''"

definition get_joinquant_context_tool :: "ToolDefinition" where
  "get_joinquant_context_tool =
     read_tool ''get_joinquant_context''
     (''Forward-adjusted daily bars, valuation, benchmark constituents and macro CPI from the ''
         @ ''user-authorised JoinQuant research environment. Use only when a JoinQuant session is ''
         @ ''configured.'')
     ''research.joinquant_context'' (object_schema (
         jobject [
           (''symbol'', jobject [(''type'', JStr ''string''), (''pattern'', JStr ''^[0-9]{6}$'')]),
           (''start'', jobject [(''type'', JStr ''string''), (''format'', JStr ''date'')]),
           (''end'', jobject [(''type'', JStr ''string''), (''format'', JStr ''date'')]),
           (''benchmark'', jobject [(''type'', JStr ''string''), (''pattern'', JStr ''^[0-9]{6}$'')])]) [''symbol'', ''start'', ''end'', ''benchmark'']) 240 ''explicit_joinquant_research_session''"

definition run_joinquant_calculation_tool :: "ToolDefinition" where
  "run_joinquant_calculation_tool =
     read_tool ''run_joinquant_calculation''
     (''Fetch bounded forward-adjusted daily bars from an authorised JoinQuant session, inject ''
         @ ''open/high/low/close/volume/amount/turnover/pct into the bounded calculation AST, and ''
         @ ''evaluate deterministically in the local Engine. Model-generated code is never sent to any ''
         @ ''remote environment.'')
     ''research.joinquant_compute'' (object_schema (
         jobject [
           (''symbol'', jobject [(''type'', JStr ''string''), (''pattern'', JStr ''^[0-9]{6}$'')]),
           (''start'', jobject [(''type'', JStr ''string''), (''format'', JStr ''date'')]),
           (''end'', jobject [(''type'', JStr ''string''), (''format'', JStr ''date'')]),
           (''program'', computation_program_schema True)]) [''symbol'', ''start'', ''end'', ''program'']) 180 ''explicit_joinquant_qfq_snapshot_then_deterministic_compute''"

definition prepare_market_research_tool :: "ToolDefinition" where
  "prepare_market_research_tool =
     read_tool ''prepare_market_research''
     ''Bounded parallel research snapshot: market breadth, macro context, news and candidate pool.''
     ''research.agent_prepare_context'' (object_schema (
         jobject [
           (''depth'', jobject [
               (''type'', JStr ''string''),
               (''enum'', JArr [JStr ''fast'', JStr ''balanced'', JStr ''deep'', JStr ''exhaustive''])]),
           (''capital'', jobject [(''type'', JStr ''number''), (''exclusiveMinimum'', JInt 0)])]) [''depth'']) 90 ''live''"

definition research_securities_tool :: "ToolDefinition" where
  "research_securities_tool =
     read_tool ''research_securities''
     (''Parallel research for 1 to 5 securities: quotes, fundamentals, disclosures, news, ''
         @ ''cross-source checks and selected advanced analysis.'')
     ''research.agent_security_context'' (object_schema (
         jobject [
           (''symbols'', jobject [
               (''type'', JStr ''array''), (''minItems'', JInt 1), (''maxItems'', JInt 5),
               (''items'', jobject [(''type'', JStr ''string''), (''pattern'', JStr ''^[0-9]{6}$'')])]),
           (''depth'', jobject [
               (''type'', JStr ''string''),
               (''enum'', JArr [JStr ''fast'', JStr ''balanced'', JStr ''deep'', JStr ''exhaustive''])]),
           (''tool_policy'', jobject [
               (''type'', JStr ''string''),
               (''enum'', JArr [JStr ''auto'', JStr ''market'', JStr ''evidence'', JStr ''full''])]),
           (''analysis_modules'', jobject [
               (''type'', JStr ''array''),
               (''items'', jobject [
                   (''type'', JStr ''string''),
                   (''enum'', JArr [
                       JStr ''earnings_driver'', JStr ''industry_graph'', JStr ''relationship'',
                       JStr ''market_regime'', JStr ''historical_backtest''])])]),
           (''benchmark'', jobject [(''type'', JStr ''string'')]),
           (''start'', jobject [(''type'', JStr ''string''), (''format'', JStr ''date'')]),
           (''end'', jobject [(''type'', JStr ''string''), (''format'', JStr ''date'')])]) [''symbols'', ''depth'', ''tool_policy'', ''analysis_modules'', ''benchmark'', ''start'', ''end'']) 120 ''mixed_live_and_disclosed''"

definition search_evidence_tool :: "ToolDefinition" where
  "search_evidence_tool =
     runtime_tool ''search_evidence''
     ''Search this task's bounded evidence catalog for canonical evidence identifiers, with source, time, unit and quality state. Use before finalization whenever a claim needs provenance. Never invent an identifier.''
     (object_schema (
         jobject [
           (''symbol'', jobject [(''type'', JStr ''string''), (''pattern'', JStr ''^[0-9]{6}$'')]),
           (''source'', jobject [(''type'', JStr ''string''), (''maxLength'', JInt 40)]),
           (''field'', jobject [(''type'', JStr ''string''), (''maxLength'', JInt 120)]),
           (''keyword'', jobject [(''type'', JStr ''string''), (''maxLength'', JInt 80)]),
           (''only_calculations'', jobject [(''type'', JStr ''boolean'')]),
           (''limit'', jobject [(''type'', JStr ''integer''), (''minimum'', JInt 1), (''maximum'', JInt 50)])]) [''limit''])"

definition submit_report_tool :: "ToolDefinition" where
  "submit_report_tool =
     runtime_tool ''submit_report''
     (''Submit the final structured research draft for validation and publication. Do not write ''
         @ ''citation markup; supply canonical identifiers and the runtime renders citations. Every ''
         @ ''printed figure must be declared as a numeric_item or contained in cited evidence. Prefer ''
         @ ''referencing by label in braces anywhere in prose, so `close {close}` prints the verified ''
         @ ''value. Provenance per item: observed (evidence_id), calculated (calculation_evidence_id, ''
         @ ''operation, input_evidence_ids), user_assumption (a user-supplied scenario parameter), or ''
         @ ''estimated (method, basis_evidence_ids, ideally a range). Never estimate a quantity the ''
         @ ''Engine can compute. Prose uses the task output_language.'')
     (submit_report_schema)"

definition builtin_tools :: "ToolDefinition list" where
  "builtin_tools =
     [
       get_quote_tool, get_kline_tool, get_fundamentals_tool, run_financial_calculation_tool, research_news_tool,
       get_market_regime_tool, get_joinquant_context_tool, run_joinquant_calculation_tool,
       prepare_market_research_tool, research_securities_tool, search_evidence_tool, submit_report_tool]"

text \<open>\<open>None\<close> is the panic of \<open>expect\<close>.\<close>

fun register_all :: "ToolDefinition list \<Rightarrow> ToolRegistry \<Rightarrow> ToolRegistry option" where
  "register_all [] r = Some r"
| "register_all (d # ds) r = (case tool_register d r of (Inr _, r') \<Rightarrow> register_all ds r' | (Inl _, _) \<Rightarrow> None)"

definition default_registry :: "ToolRegistry option" where
  "default_registry = register_all builtin_tools []"

section \<open>The registry\<close>

lemma read_tool_sel [simp]:
  "td_name (read_tool n desc k sch secs f) = n" "td_engine_kind (read_tool n desc k sch secs f) = k"
  "td_handler (read_tool n desc k sch secs f) = EngineHandler"
  by (simp_all add: read_tool_def)

lemma runtime_tool_sel [simp]:
  "td_name (runtime_tool n desc sch) = n" "td_engine_kind (runtime_tool n desc sch) = []"
  "td_handler (runtime_tool n desc sch) = RuntimeHandler"
  by (simp_all add: runtime_tool_def)

text \<open>A registry as registrations build it.\<close>

definition tools_ok :: "ToolRegistry \<Rightarrow> bool" where
  "tools_ok r \<longleftrightarrow> sorted_wrt (<) (map fst r) \<and> (\<forall>(n, d) \<in> set r. n = td_name d \<and> tool_name_ok n)"

lemma tool_register_ok: "tools_ok r \<Longrightarrow> tools_ok (snd (tool_register d r))"
  using set_btree_insert [of "td_name d" d r] by (auto simp: tools_ok_def tool_register_def btree.wf_put)

lemma set_btree_insert_fresh: "k \<notin> fst ` set m \<Longrightarrow> set (btree_insert k v m) = insert (k, v) (set m)"
  by (induction k v m rule: btree_insert.induct) auto

lemma register_all_ok:
  "tools_ok r \<Longrightarrow> register_all ds r = Some r' \<Longrightarrow>
    tools_ok r' \<and> set r' = set r \<union> (\<lambda>d. (td_name d, d)) ` set ds"
proof (induction ds arbitrary: r)
  case (Cons d ds)
  obtain r1 where r1: "tool_register d r = (Inr (), r1)" "register_all ds r1 = Some r'"
    using Cons.prems(2) by (auto split: prod.splits sum.splits)
  have ok: "tools_ok r1" using tool_register_ok [OF Cons.prems(1), of d] r1(1) by simp
  have "td_name d \<notin> fst ` set r"
    using r1(1) by (auto simp: tool_register_def map_of_eq_None_iff split: if_splits)
  then have "set r1 = insert (td_name d, d) (set r)"
    using r1(1) by (auto simp: tool_register_def set_btree_insert_fresh split: if_splits)
  then show ?case using Cons.IH [OF ok r1(2)] by auto
qed simp

lemma tool_get_member: "tools_ok r \<Longrightarrow> tool_get r n = Some d \<longleftrightarrow> (n, d) \<in> set r"
  using strict_sorted_iff [of "map fst r"] by (simp add: tool_get_def tools_ok_def)

lemmas tool_defs = get_quote_tool_def get_kline_tool_def get_fundamentals_tool_def run_financial_calculation_tool_def
  research_news_tool_def get_market_regime_tool_def get_joinquant_context_tool_def run_joinquant_calculation_tool_def
  prepare_market_research_tool_def research_securities_tool_def search_evidence_tool_def submit_report_tool_def

lemma builtin_sel [simp]:
  "td_name get_quote_tool = ''get_quote''" "td_engine_kind get_quote_tool = ''market.quote''" "td_handler get_quote_tool = EngineHandler"
  "td_name get_kline_tool = ''get_kline''" "td_engine_kind get_kline_tool = ''market.kline''" "td_handler get_kline_tool = EngineHandler"
  "td_name get_fundamentals_tool = ''get_fundamentals''" "td_engine_kind get_fundamentals_tool = ''research.fundamentals''" "td_handler get_fundamentals_tool = EngineHandler"
  "td_name run_financial_calculation_tool = ''run_financial_calculation''" "td_engine_kind run_financial_calculation_tool = ''research.compute''" "td_handler run_financial_calculation_tool = EngineHandler"
  "td_name research_news_tool = ''research_news''" "td_engine_kind research_news_tool = ''research.news''" "td_handler research_news_tool = EngineHandler"
  "td_name get_market_regime_tool = ''get_market_regime''" "td_engine_kind get_market_regime_tool = ''research.market.regime''" "td_handler get_market_regime_tool = EngineHandler"
  "td_name get_joinquant_context_tool = ''get_joinquant_context''" "td_engine_kind get_joinquant_context_tool = ''research.joinquant_context''" "td_handler get_joinquant_context_tool = EngineHandler"
  "td_name run_joinquant_calculation_tool = ''run_joinquant_calculation''" "td_engine_kind run_joinquant_calculation_tool = ''research.joinquant_compute''" "td_handler run_joinquant_calculation_tool = EngineHandler"
  "td_name prepare_market_research_tool = ''prepare_market_research''" "td_engine_kind prepare_market_research_tool = ''research.agent_prepare_context''" "td_handler prepare_market_research_tool = EngineHandler"
  "td_name research_securities_tool = ''research_securities''" "td_engine_kind research_securities_tool = ''research.agent_security_context''" "td_handler research_securities_tool = EngineHandler"
  "td_name search_evidence_tool = ''search_evidence''" "td_engine_kind search_evidence_tool = []" "td_handler search_evidence_tool = RuntimeHandler"
  "td_name submit_report_tool = ''submit_report''" "td_engine_kind submit_report_tool = []" "td_handler submit_report_tool = RuntimeHandler"
  by (simp_all add: tool_defs)

text \<open>The built-in tools in order of their names.\<close>

definition builtin_order :: "ToolDefinition list" where
  "builtin_order =
     [get_fundamentals_tool, get_joinquant_context_tool, get_kline_tool, get_market_regime_tool, get_quote_tool,
      prepare_market_research_tool, research_news_tool, research_securities_tool, run_financial_calculation_tool,
      run_joinquant_calculation_tool, search_evidence_tool, submit_report_tool]"

lemma tool_register_step:
  "tool_name_ok (td_name d) \<Longrightarrow> map_of r (td_name d) = None \<Longrightarrow>
    register_all (d # ds) r = register_all ds (btree_insert (td_name d) d r)"
  by (simp add: tool_register_def)

lemma builtin_names_ok: "list_all (\<lambda>d. tool_name_ok (td_name d)) builtin_tools"
  by (simp add: builtin_tools_def tool_name_ok_def is_ascii_alphanumeric_def is_ascii_alphabetic_def
      is_ascii_digit_def byte_def)

lemma default_registry_order: "default_registry = Some (map (\<lambda>d. (td_name d, d)) builtin_order)"
  using builtin_names_ok
  by (simp add: default_registry_def builtin_tools_def builtin_order_def tool_register_step del: register_all.simps(2))

lemma builtin_registry_ok: "default_registry = Some r \<Longrightarrow> tools_ok r \<and> snd ` set r = set builtin_tools"
  using register_all_ok [of "[]" builtin_tools r] by (simp add: default_registry_def tools_ok_def image_image)

text \<open>The request kinds of the engine that the tools reach.\<close>

definition READ_KINDS :: "string list" where
  "READ_KINDS =
     [''market.quote'', ''market.kline'', ''research.fundamentals'', ''research.compute'', ''research.news'',
      ''research.market.regime'', ''research.joinquant_context'', ''research.joinquant_compute'',
      ''research.agent_prepare_context'', ''research.agent_security_context'']"

lemma builtin_kinds:
  "map td_engine_kind (filter (\<lambda>d. td_handler d = EngineHandler) builtin_tools) = READ_KINDS"
  by (simp add: builtin_tools_def READ_KINDS_def)

lemma register_all_succeeds:
  "tools_ok r \<Longrightarrow> (\<exists>r'. register_all ds r = Some r') \<longleftrightarrow>
     list_all (\<lambda>d. tool_name_ok (td_name d)) ds \<and> distinct (map td_name ds) \<and> fst ` set r \<inter> td_name ` set ds = {}"
proof (induction ds arbitrary: r)
  case (Cons d ds)
  show ?case
  proof (cases "tool_name_ok (td_name d) \<and> td_name d \<notin> fst ` set r")
    case True
    then have fresh: "map_of r (td_name d) = None" by (simp add: map_of_eq_None_iff)
    have "tools_ok (btree_insert (td_name d) d r)"
      using tool_register_ok [OF Cons.prems, of d] True fresh by (simp add: tool_register_def)
    from Cons.IH [OF this] show ?thesis
      using True fresh set_btree_insert_fresh [of "td_name d" r d] by (auto simp: tool_register_def)
  next
    case False
    then have "register_all (d # ds) r = None"
      by (auto simp: tool_register_def map_of_eq_None_iff [symmetric])
    then show ?thesis using False by auto
  qed
qed simp

lemma strictly_sorted_unique:
  fixes xs ys :: "('a :: linorder \<times> 'b) list"
  assumes "sorted_wrt (<) (map fst xs)" "sorted_wrt (<) (map fst ys)" "set xs = set ys"
  shows "xs = ys"
proof (rule map_sorted_distinct_set_unique [of fst])
  have "distinct (map fst xs)" using assms(1) by (simp add: strict_sorted_iff)
  then have "inj_on fst (set xs)" by (simp add: distinct_map)
  then show "inj_on fst (set xs \<union> set ys)" using assms(3) by simp
qed (use assms in \<open>simp_all add: strict_sorted_iff\<close>)

text \<open>
  C37: Registration, for any list of definitions. Registering them one after another succeeds exactly when every name is
  well formed and no two are the same; otherwise \<open>default_registry\<close> would panic. When it succeeds, the registry holds
  every definition under its own name and nothing else, in the order of the names, whatever the order of registration.
\<close>

theorem registrations_succeed_iff:
  "register_all ds [] = Some r \<longleftrightarrow>
     list_all (\<lambda>d. tool_name_ok (td_name d)) ds \<and> distinct (map td_name ds)
     \<and> r = map (\<lambda>d. (td_name d, d)) (sort_key td_name ds)"
proof -
  let ?r = "map (\<lambda>d. (td_name d, d)) (sort_key td_name ds)"
  have empty: "tools_ok []" by (simp add: tools_ok_def)
  have "r' = ?r" if "register_all ds [] = Some r'" for r'
  proof (rule strictly_sorted_unique)
    have r': "tools_ok r'" "set r' = (\<lambda>d. (td_name d, d)) ` set ds" using register_all_ok [OF empty that] by simp_all
    then show "sorted_wrt (<) (map fst r')" "set r' = set ?r" by (simp_all add: tools_ok_def)
    have "distinct (map td_name ds)" using register_all_succeeds [OF empty, of ds] that by blast
    then have "distinct (map td_name (sort_key td_name ds))" by (simp add: distinct_map)
    then show "sorted_wrt (<) (map fst ?r)" by (simp add: strict_sorted_iff comp_def)
  qed
  then have unique: "register_all ds [] = Some r' \<Longrightarrow> r' = ?r" for r' .
  have iff: "(\<exists>r'. register_all ds [] = Some r') \<longleftrightarrow>
      list_all (\<lambda>d. tool_name_ok (td_name d)) ds \<and> distinct (map td_name ds)"
    using register_all_succeeds [OF empty, of ds] by simp
  show ?thesis
  proof
    assume "register_all ds [] = Some r"
    then show "list_all (\<lambda>d. tool_name_ok (td_name d)) ds \<and> distinct (map td_name ds) \<and> r = ?r"
      using iff unique by blast
  next
    assume *: "list_all (\<lambda>d. tool_name_ok (td_name d)) ds \<and> distinct (map td_name ds) \<and> r = ?r"
    then obtain r' where "register_all ds [] = Some r'" using iff by blast
    then show "register_all ds [] = Some r" using unique * by simp
  qed
qed

text \<open>
  Once the research budget is spent the model is offered the three finalization tools and no retrieval, as the instruction
  it then gets says; until then it is offered every tool.
\<close>

theorem finalization_offers_three:
  assumes "default_registry = Some r"
  shows "map td_name (offered_tools cfg r rnd)
    = (if research_rounds cfg < rnd then [''run_financial_calculation'', ''search_evidence'', ''submit_report'']
       else tool_names r)"
proof -
  have r: "r = map (\<lambda>d. (td_name d, d)) builtin_order" using assms by (simp add: default_registry_order)
  have "map td_name (filter (\<lambda>d. td_handler d = RuntimeHandler \<or> td_name d = ''run_financial_calculation'') builtin_order)
      = [''run_financial_calculation'', ''search_evidence'', ''submit_report'']"
    by (simp add: builtin_order_def)
  then show ?thesis by (simp add: offered_tools_def r tool_definitions_def tool_names_def comp_def)
qed

lemma finalization_offers_three_witness:
  "\<exists>r. default_registry = Some r
    \<and> map td_name (offered_tools runtime_config_default r 21) = [''run_financial_calculation'', ''search_evidence'', ''submit_report'']
    \<and> map td_name (offered_tools runtime_config_default r 20) = tool_names r"
  using finalization_offers_three [OF default_registry_order, of runtime_config_default] default_registry_order
  by (auto simp: research_rounds_def runtime_config_default_def)

end
