(* ===== verification/Agent_Turn.thy ===== *)
theory Agent_Turn
  imports Agent_Run Agent_Tools
begin

text \<open>
  A turn of a session: \<open>start_session_turn\<close> of \<open>crates/agent-runtime/src/runtime.rs\<close>. The session and the task
  are checked and joined, the session is saved, the task is run, and every event the run delivers is projected
  onto the session, which is saved again. The run and the relay of its events are concurrent in the code;
  here the relay follows the run, whose environment answers for the receiver whatever the relay made
  of it. Clocks, generated ids and the session store are parameters. Main facts: a turn is accepted exactly
  when the session has room for one more message, after a run that returned the session holds its outcome, and
  with the built-in tools a run only reads.
\<close>

section \<open>Preparing the turn\<close>

fun config_text :: "config_error \<Rightarrow> string" where
  "config_text (BadId name) = name @ '' must contain 1..128 visible bytes''"
| "config_text (UnsupportedVersion v) = ''unsupported session version `'' @ v @ ''`''"
| "config_text BadTitle = ''session title must contain 1..240 bytes''"
| "config_text TooManyMessages = ''session contains more than '' @ show_nat MAX_SESSION_MESSAGES @ '' messages''"
| "config_text EmptyMessage = ''session messages must not be empty''"
| "config_text config_error.TooMuchText = ''session text exceeds '' @ show_nat MAX_SESSION_TEXT_CHARS @ '' characters''"
| "config_text BadSummary = ''session summary must contain 1..'' @ show_nat MAX_SESSION_SUMMARY_CHARS @ '' characters''"
| "config_text BadListLimit = ''session list limit must be between 1 and 500''"
| "config_text (ForeignMessage m s) = ''message `'' @ m @ ''` does not belong to session `'' @ s @ ''`''"
| "config_text NoMessages = ''cannot branch a session without messages''"
| "config_text BranchTitleTooLong = ''branch title must contain at most 240 bytes''"
| "config_text SequenceOutOfRange = ''session checkpoint sequence exceeds Engine range''"

fun session_error :: "runtime_error \<Rightarrow> RunError" where
  "session_error (Configuration e) = EConfiguration (config_text e)"
| "session_error (Store m) = EStore m"

definition session_validate :: "RuntimeSession \<Rightarrow> (unit, RunError) result" where
  "session_validate s = (case validate s of Inl e \<Rightarrow> Inl (session_error e) | Inr _ \<Rightarrow> Inr ())"

text \<open>\<open>None\<close> is the \<open>unreachable!\<close> of \<open>model_history\<close>.\<close>

definition history_messages :: "RuntimeSession \<Rightarrow> Message list option" where
  "history_messages s = those (map (\<lambda>(r, t). map_option (\<lambda>r. message_text r t) r) (model_history s))"

text \<open>A panic of the spawned task, as \<open>finish\<close> reports it; the text of the join error is left out.\<close>

definition join_failed :: RunError where
  "join_failed = EInternal ''session task join failed''"

definition with_history :: "int \<Rightarrow> RuntimeSession \<Rightarrow> RuntimeTask \<Rightarrow> (RuntimeSession \<times> RuntimeTask, RunError) result" where
  "with_history now s tk =
     (if rt_history tk = []
      then let s' = fst (refresh_compacted_summary now s)
        in case history_messages s' of
             Some h \<Rightarrow> Inr (s', tk\<lparr>rt_history_summary := summary s', rt_history := h\<rparr>)
           | None \<Rightarrow> Inl join_failed
      else Inr (s, tk))"

definition new_task_state :: "string \<Rightarrow> SessionTaskState" where
  "new_task_state tid =
     \<lparr>task_id = tid, task_phase = Preparing, accepted_seq = 0, model_round = 0, completed_tool_ids = [],
      evidence_ids = [], resume_at = None, suspended_by = None, task_plan = None\<rparr>"

text \<open>What the outside supplies to a turn: the ids and times of the messages, the clock, the session store, the client.\<close>

record TurnEnv =
  te_uuid :: "nat \<Rightarrow> string"
  te_stamp :: "nat \<Rightarrow> string"
  te_now :: "nat \<Rightarrow> int"
  te_save :: "nat \<Rightarrow> string option"
  te_client :: "nat \<Rightarrow> bool"

definition open_turn :: "TurnEnv \<Rightarrow> string \<Rightarrow> RuntimeTask \<Rightarrow> RuntimeSession \<Rightarrow> RuntimeSession" where
  "open_turn te tid tk s =
     (push_message (te_uuid te 0) (te_stamp te 0) (te_now te 1) User (trim (rt_objective tk)) s)
       \<lparr>session_input := [], depth := rt_depth tk, tool_policy := rt_tool_policy tk, task := Some (new_task_state tid)\<rparr>"

definition prepare_turn ::
  "TurnEnv \<Rightarrow> string \<Rightarrow> RuntimeSession \<Rightarrow> RuntimeTask \<Rightarrow> (RuntimeSession \<times> RuntimeTask, RunError) result" where
  "prepare_turn te tid s tk =
     bind_r (session_validate s) (\<lambda>_.
     bind_r (task_validate tk) (\<lambda>_.
     bind_r (with_history (te_now te 0) (ensure_title (rt_objective tk) s) tk) (\<lambda>(s', tk').
     bind_r (task_validate tk') (\<lambda>_.
     bind_r (session_validate (open_turn te tid tk' s')) (\<lambda>_.
       Inr (open_turn te tid tk' s', tk'))))))"

section \<open>Relaying the events\<close>

fun is_text_delta :: "AgentEvent \<Rightarrow> bool" where
  "is_text_delta (TextDelta _) = True"
| "is_text_delta _ = False"

text \<open>The n-th event, from 1: projected, saved unless it is text, handed to the client.\<close>

fun relay ::
  "TurnEnv \<Rightarrow> nat \<Rightarrow> AgentEvent list \<Rightarrow> RuntimeSession \<Rightarrow> RuntimeSession list
     \<Rightarrow> (unit, RunError) result \<times> RuntimeSession \<times> RuntimeSession list" where
  "relay te n [] s saved = (Inr (), s, saved)"
| "relay te n (ev # evs) s saved =
     (let s' = apply_session_event (te_uuid te n) (te_stamp te n) (te_now te (2 * n)) (te_now te (2 * n + 1)) s ev
      in if is_text_delta ev
         then (if te_client te n then relay te (Suc n) evs s' saved else (Inl ECancelled, s', saved))
         else (case te_save te n of
                 Some e \<Rightarrow> (Inl (EStore e), s', saved)
               | None \<Rightarrow>
                   if te_client te n then relay te (Suc n) evs s' (saved @ [s']) else (Inl ECancelled, s', saved @ [s'])))"

text \<open>The turn: how it ends, and the sessions saved.\<close>

definition session_turn ::
  "TurnEnv \<Rightarrow> Env \<Rightarrow> RuntimeConfig \<Rightarrow> ToolRegistry \<Rightarrow> (RuntimeTask \<Rightarrow> string) \<Rightarrow> string \<Rightarrow> RuntimeSession \<Rightarrow> RuntimeTask
     \<Rightarrow> (RunOutcome \<times> RuntimeSession, RunError) result \<times> RuntimeSession list" where
  "session_turn te env cfg reg prompt tid s tk =
     (case prepare_turn te tid s tk of
        Inl e \<Rightarrow> (Inl e, [])
      | Inr (s1, tk') \<Rightarrow>
          (case te_save te 0 of
             Some e \<Rightarrow> (Inl (EStore e), [])
           | None \<Rightarrow>
               let (r, run) = execute_task env cfg reg prompt tid tk';
                   (relayed, s2, saved) = relay te 1 (ru_sent run) s1 [s1]
               in case relayed of
                    Inl e \<Rightarrow> (Inl e, saved)
                  | Inr _ \<Rightarrow>
                     (case r of
                        Inl e \<Rightarrow> (Inl e, saved)
                      | Inr oc \<Rightarrow>
                         (case te_save te (Suc (length (ru_sent run))) of
                            Some e \<Rightarrow> (Inl (EStore e), saved)
                          | None \<Rightarrow> (Inr (oc, s2), saved @ [s2])))))"

section \<open>Trimmed text\<close>

lemma trim_end_empty: "trim_end t = [] \<Longrightarrow> t = [] \<or> (\<exists>w \<in> set whitespace. starts_with t w)"
proof (induction t rule: trim_end.induct)
  case (1 t)
  show ?case
  proof (cases "find (\<lambda>w. ends_with t w) whitespace")
    case None
    then show ?thesis using 1(2) by (simp add: trim_end.simps [of t])
  next
    case (Some w)
    then have w: "w \<in> set whitespace" "ends_with t w" by (auto simp: find_Some_iff)
    let ?u = "take (length t - length w) t"
    have t: "t = ?u @ w" using w(2) by (metis append_take_drop_id ends_with_def)
    show ?thesis
    proof (cases "t = []")
      case False
      then have "trim_end ?u = []" using 1(2) Some by (simp add: trim_end.simps [of t])
      then have "?u = [] \<or> (\<exists>w \<in> set whitespace. starts_with ?u w)" using 1(1) Some False by blast
      then show ?thesis
      proof
        assume "?u = []"
        then have "t = w" using t by (metis append_Nil)
        then show ?thesis using w(1) starts_with_append [of w "[]"] by auto
      next
        assume "\<exists>w \<in> set whitespace. starts_with ?u w"
        then show ?thesis using t by (metis starts_with_iff append_assoc)
      qed
    qed simp
  qed
qed

lemma trim_start_clean: "w \<in> set whitespace \<Longrightarrow> starts_with (trim_start s) w \<Longrightarrow> trim_start s = []"
proof (induction s rule: trim_start.induct)
  case (1 s)
  show ?case
  proof (cases "find (\<lambda>w. starts_with s w) whitespace")
    case None
    then have "trim_start s = s" by (simp add: trim_start.simps [of s])
    then show ?thesis using None 1(2,3) by (auto simp: find_None_iff)
  next
    case (Some v)
    then show ?thesis using 1 by (cases "s = []") (simp_all add: trim_start.simps [of s] trim_start.simps [of "[]"])
  qed
qed

lemma trim_start_id: "\<forall>w \<in> set whitespace. \<not> starts_with t w \<Longrightarrow> trim_start t = t"
  by (subst trim_start.simps) (auto simp: find_None_iff split: option.split dest!: iffD1 [OF find_Some_iff] nth_mem)

text \<open>The first characters of trimmed text are visible.\<close>

lemma trim_take_chars:
  assumes "trim s \<noteq> []" "0 < n"
  shows "trim (take_chars n (trim s)) \<noteq> []"
proof -
  let ?t = "take_chars n (trim s)"
  obtain u where u: "trim_start s = trim s @ u" using trim_end_prefix [of "trim_start s"] by (auto simp: trim_def)
  obtain v where v: "trim s = ?t @ v"
    using concat_chars [of "trim s"] by (metis append_take_drop_id concat_append take_chars_def)
  have "chars (trim s) \<noteq> []" using assms(1) by (cases "trim s") simp_all
  moreover have nonempty: "g \<noteq> []" if "g \<in> set (chars x)" for g x
    using that by (induction x rule: chars.induct) auto
  have "hd (chars (trim s)) \<noteq> []" if "chars (trim s) \<noteq> []" using that by (intro nonempty [of _ "trim s"]) simp
  ultimately have t: "?t \<noteq> []"
    using assms(2) by (cases "chars (trim s)"; cases n) (auto simp: take_chars_def)
  have clean: "\<not> starts_with ?t w" if "w \<in> set whitespace" for w
  proof
    assume "starts_with ?t w"
    then have "starts_with (trim_start s) w" using u v by (metis append.assoc starts_with_iff)
    then show False using trim_start_clean [OF that] u assms(1) by (metis append_is_Nil_conv)
  qed
  then have "trim ?t = trim_end ?t" by (simp add: trim_def trim_start_id)
  then show ?thesis using trim_end_empty [of ?t] t clean by auto
qed

lemma those_map_Some: "those (map Some xs) = Some xs"
  by (induction xs) simp_all

section \<open>What the checks accept\<close>

definition message_valid :: "SessionMessage \<Rightarrow> bool" where
  "message_valid m \<longleftrightarrow> validate_id (msg_id m) ''message_id'' = Inr () \<and> trim (msg_text m) \<noteq> []"

definition summary_valid :: "string option \<Rightarrow> bool" where
  "summary_valid t \<longleftrightarrow> (\<forall>u. t = Some u \<longrightarrow> trim u \<noteq> [] \<and> char_count u \<le> MAX_SESSION_SUMMARY_CHARS)"

lemma validate_messages_valid:
  "list_all message_valid ms \<Longrightarrow> validate_messages c ms = Inr (if ms = [] then c else min u64_max (c + text_chars ms))"
  by (induction c ms rule: validate_messages.induct)
    (auto simp: message_valid_def usize_saturating_add_def min_def)

lemma validate_messages_invalid: "validate_messages c ms = Inr n \<Longrightarrow> list_all message_valid ms"
  by (induction c ms rule: validate_messages.induct)
    (auto simp: message_valid_def bind_r_Inr_conv split: if_splits)

text \<open>Everything but the number and the size of the messages.\<close>

definition session_sound :: "RuntimeSession \<Rightarrow> bool" where
  "session_sound s \<longleftrightarrow> validate_id (session_id s) ''session_id'' = Inr () \<and> version s = SESSION_VERSION
     \<and> trim (session_title s) \<noteq> [] \<and> length (session_title s) \<le> 240 \<and> list_all message_valid (messages s)
     \<and> summary_valid (summary s)"

lemma validate_sound:
  assumes "session_sound s"
  shows "validate s =
    (if MAX_SESSION_MESSAGES < length (messages s) then Inl (Configuration TooManyMessages)
     else if MAX_SESSION_TEXT_CHARS < text_chars (messages s) then Inl (Configuration config_error.TooMuchText)
     else Inr ())"
  using assms validate_messages_valid [of "messages s" 0]
  by (auto simp: session_sound_def validate_def summary_valid_def MAX_SESSION_TEXT_CHARS_def u64_max_def split: option.split)

lemma validate_Inr:
  "validate s = Inr () \<longleftrightarrow>
    session_sound s \<and> length (messages s) \<le> MAX_SESSION_MESSAGES \<and> text_chars (messages s) \<le> MAX_SESSION_TEXT_CHARS"
proof
  assume valid: "validate s = Inr ()"
  then have "list_all message_valid (messages s)"
    by (auto simp: validate_def bind_r_Inr_conv split: if_splits dest: validate_messages_invalid)
  then have "session_sound s"
    using valid by (auto simp: session_sound_def summary_valid_def validate_def bind_r_Inr_conv split: if_splits option.splits)
  then show "session_sound s \<and> length (messages s) \<le> MAX_SESSION_MESSAGES \<and> text_chars (messages s) \<le> MAX_SESSION_TEXT_CHARS"
    using valid validate_sound [of s] by (auto split: if_splits)
qed (simp add: validate_sound)

lemma history_total_ok:
  "list_all history_message_ok ms \<Longrightarrow>
    history_total n ms = Inr (if ms = [] then n else min u64_max (n + sum_list (map (char_count \<circ> mg_content) ms)))"
  by (induction n ms rule: history_total.induct) (auto simp: usize_saturating_add_def min_def)

text \<open>A task that was accepted stays acceptable with a history and a summary within the bounds.\<close>

lemma task_validate_history:
  assumes "task_validate tk = Inr ()" and "list_all history_message_ok h" and "length h \<le> MAX_MODEL_HISTORY_MESSAGES"
    and "sum_list (map (char_count \<circ> mg_content) h) \<le> MAX_MODEL_HISTORY_CHARS" and "summary_valid t"
  shows "task_validate (tk\<lparr>rt_history_summary := t, rt_history := h\<rparr>) = Inr ()"
proof -
  have "\<exists>n. history_total 0 h = Inr n \<and> n \<le> MAX_MODEL_HISTORY_CHARS"
    using history_total_ok [OF assms(2), of 0] assms(4) by auto
  then obtain n where "history_total 0 h = Inr n" "n \<le> MAX_MODEL_HISTORY_CHARS" by blast
  then show ?thesis
    using assms(1,3,5)
    by (auto simp: task_validate_def bind_r_Inr_conv summary_valid_def split: option.splits)
qed

lemma history_of_session:
  assumes "list_all message_valid (messages s)"
  shows "\<exists>h. history_messages s = Some h \<and> list_all history_message_ok h \<and> length h \<le> MAX_MODEL_HISTORY_MESSAGES
    \<and> sum_list (map (char_count \<circ> mg_content) h) \<le> MAX_MODEL_HISTORY_CHARS"
proof -
  let ?ms = "relevant_messages s"
  let ?r = "retained_history_count ?ms"
  define kept where "kept = drop (length ?ms - ?r) ?ms"
  have r: "?r = retained_loop 0 0 (rev ?ms)" by (simp add: retained_history_count_def)
  have kept: "kept = rev (take ?r (rev ?ms))" unfolding kept_def by (simp add: take_rev)
  have bounds: "length kept \<le> MAX_MODEL_HISTORY_MESSAGES" "text_chars kept \<le> MAX_MODEL_HISTORY_CHARS"
    using retained_loop_start [of "rev ?ms"] unfolding kept text_chars_rev r by auto
  have member: "message_valid m" "msg_role m = User \<or> msg_role m = Agent" if "m \<in> set kept" for m
    using that assms in_set_dropD [of m _ ?ms] by (auto simp: kept_def relevant_messages_def list_all_iff)
  define h where "h = map (\<lambda>m. message_text (if msg_role m = User then MUser else MAssistant) (msg_text m)) kept"
  have "map (\<lambda>(r, t). map_option (\<lambda>r. message_text r t) r) (model_history s) = map Some h"
    using member(2) by (fastforce simp: model_history_def Let_def h_def kept_def [symmetric])
  then have "history_messages s = Some h" by (simp add: history_messages_def those_map_Some)
  moreover have "list_all history_message_ok h"
    using member(1) by (auto simp: h_def list_all_iff history_message_ok_def message_text_def message_valid_def)
  moreover have "map (char_count \<circ> mg_content) h = map (\<lambda>m. char_count (msg_text m)) kept"
    by (simp add: h_def message_text_def)
  then have "sum_list (map (char_count \<circ> mg_content) h) \<le> MAX_MODEL_HISTORY_CHARS" using bounds(2) by simp
  moreover have "length h \<le> MAX_MODEL_HISTORY_MESSAGES" using bounds(1) by (simp add: h_def)
  ultimately show ?thesis by blast
qed

section \<open>Accepting a turn\<close>

lemma ensure_title_sound:
  assumes "session_sound s" "trim (rt_objective tk) \<noteq> []" "valid_utf8 (trim (rt_objective tk))"
  shows "session_sound (ensure_title (rt_objective tk) s) \<and> messages (ensure_title (rt_objective tk) s) = messages s"
proof -
  have "trim (take_chars 60 (trim (rt_objective tk))) \<noteq> []" using assms(2) by (intro trim_take_chars) simp_all
  moreover have "length (take_chars 60 (trim (rt_objective tk))) \<le> 240"
    using length_take_chars [OF assms(3), of 60] by simp
  ultimately show ?thesis using assms(1) by (auto simp: session_sound_def ensure_title_def Let_def)
qed

lemma with_history_ok:
  assumes "session_sound s" "length (messages s) \<le> MAX_SESSION_MESSAGES" "task_validate tk = Inr ()"
  shows "\<exists>s' tk'. with_history now s tk = Inr (s', tk') \<and> session_sound s' \<and> messages s' = messages s
    \<and> task_validate tk' = Inr () \<and> rt_objective tk' = rt_objective tk \<and> rt_symbol tk' = rt_symbol tk"
proof (cases "rt_history tk = []")
  case True
  let ?s = "fst (refresh_compacted_summary now s)"
  have "length (messages s) \<le> u64_max" using assms(2) by (simp add: MAX_SESSION_MESSAGES_def u64_max_def)
  then have s: "session_sound ?s" "messages ?s = messages s"
    using assms(1) compacted_summary_valid [of s]
    by (auto simp: refresh_compacted_summary_def session_sound_def summary_valid_def)
  obtain h where h: "history_messages ?s = Some h" "list_all history_message_ok h" "length h \<le> MAX_MODEL_HISTORY_MESSAGES"
      "sum_list (map (char_count \<circ> mg_content) h) \<le> MAX_MODEL_HISTORY_CHARS"
    using history_of_session [of ?s] s(1) by (auto simp: session_sound_def)
  have "summary_valid (summary ?s)" using s(1) by (simp add: session_sound_def)
  from task_validate_history [OF assms(3) h(2-4) this] h(1) s True show ?thesis by (simp add: with_history_def Let_def)
qed (use assms in \<open>simp add: with_history_def\<close>)

lemma open_turn_sound:
  assumes "session_sound s" "validate_id (te_uuid te 0) ''message_id'' = Inr ()" "trim (rt_objective tk) \<noteq> []"
    "trim (trim (rt_objective tk)) \<noteq> []"
  shows "session_sound (open_turn te tid tk s)"
  using assms by (simp add: session_sound_def open_turn_def push_message_def message_valid_def)

lemma trim_trim: "trim s \<noteq> [] \<Longrightarrow> trim (trim s) \<noteq> []"
proof -
  assume s: "trim s \<noteq> []"
  obtain u where u: "trim_start s = trim s @ u" using trim_end_prefix [of "trim_start s"] by (auto simp: trim_def)
  have clean: "\<not> starts_with (trim s) w" if "w \<in> set whitespace" for w
    using trim_start_clean [OF that, of s] u s by (metis append.assoc append_is_Nil_conv starts_with_iff)
  then have "trim (trim s) = trim_end (trim s)" using trim_start_id [of "trim s"] by (simp add: trim_def [of "trim s"])
  then show ?thesis using trim_end_empty [of "trim s"] s clean by auto
qed

definition turn_messages :: "TurnEnv \<Rightarrow> RuntimeTask \<Rightarrow> RuntimeSession \<Rightarrow> SessionMessage list" where
  "turn_messages te tk s =
     messages s @ [\<lparr>msg_id = te_uuid te 0, msg_role = User, msg_text = trim (rt_objective tk), timestamp = te_stamp te 0\<rparr>]"

lemma prepare_turn_accepts:
  assumes "validate s = Inr ()" and "task_validate tk = Inr ()"
    and "valid_utf8 (trim (rt_objective tk))" and "validate_id (te_uuid te 0) ''message_id'' = Inr ()"
  shows "\<exists>s1 tk1. prepare_turn te tid s tk =
      (if length (messages s) = MAX_SESSION_MESSAGES then Inl (session_error (Configuration TooManyMessages))
       else if MAX_SESSION_TEXT_CHARS < text_chars (turn_messages te tk s)
       then Inl (session_error (Configuration config_error.TooMuchText))
       else Inr (s1, tk1))
    \<and> session_sound s1 \<and> messages s1 = turn_messages te tk s \<and> task s1 = Some (new_task_state tid)
    \<and> task_validate tk1 = Inr () \<and> rt_objective tk1 = rt_objective tk
    \<and> rt_symbol tk1 = rt_symbol tk"
proof -
  have sound: "session_sound s" "length (messages s) \<le> MAX_SESSION_MESSAGES" using assms(1) by (simp_all add: validate_Inr)
  have objective: "trim (rt_objective tk) \<noteq> []" using assms(2) by (auto simp: task_validate_def bind_r_Inr_conv)
  let ?s = "ensure_title (rt_objective tk) s"
  have titled: "session_sound ?s" "messages ?s = messages s"
    using ensure_title_sound [OF sound(1) objective assms(3)] by simp_all
  obtain s' tk' where h: "with_history (te_now te 0) ?s tk = Inr (s', tk')" "session_sound s'" "messages s' = messages s"
      "task_validate tk' = Inr ()" "rt_objective tk' = rt_objective tk" "rt_symbol tk' = rt_symbol tk"
    using with_history_ok [OF titled(1) _ assms(2), of "te_now te 0"] titled(2) sound(2) by auto
  let ?s1 = "open_turn te tid tk' s'"
  have s1: "session_sound ?s1"
    using h(2,5) objective assms(4) trim_trim [OF objective] by (intro open_turn_sound) simp_all
  have ms: "messages ?s1 = turn_messages te tk s" by (simp add: open_turn_def push_message_def turn_messages_def h(3,5))
  have "prepare_turn te tid s tk = bind_r (session_validate ?s1) (\<lambda>_. Inr (?s1, tk'))"
    using assms(1,2) h(1,4) by (simp add: prepare_turn_def session_validate_def)
  then have "prepare_turn te tid s tk =
      (if length (messages s) = MAX_SESSION_MESSAGES then Inl (session_error (Configuration TooManyMessages))
       else if MAX_SESSION_TEXT_CHARS < text_chars (turn_messages te tk s)
       then Inl (session_error (Configuration config_error.TooMuchText))
       else Inr (?s1, tk'))"
    using validate_sound [OF s1] sound(2) by (auto simp: session_validate_def ms turn_messages_def)
  then show ?thesis using s1 ms h(4-6) by (intro exI [of _ ?s1] exI [of _ tk']) (simp add: open_turn_def)
qed

section \<open>The session after the run\<close>

lemma relay_append:
  "relay te n (xs @ ys) s saved =
    (case relay te n xs s saved of (Inl e, r) \<Rightarrow> (Inl e, r) | (Inr _, s', saved') \<Rightarrow> relay te (n + length xs) ys s' saved')"
  by (induction te n xs s saved rule: relay.induct) (auto simp: Let_def split: option.split sum.split prod.split)

definition task_after :: "AgentEvent list \<Rightarrow> SessionTaskState \<Rightarrow> SessionTaskState" where
  "task_after evs t = foldl (\<lambda>t ev. apply_task_event ev (t\<lparr>accepted_seq := u64_saturating_inc (accepted_seq t)\<rparr>)) t evs"

lemma relay_task:
  "relay te n evs s saved = (Inr u, s', saved') \<Longrightarrow> task s = Some t \<Longrightarrow> task s' = Some (task_after evs t)"
proof (induction te n evs s saved arbitrary: t rule: relay.induct)
  case (2 te n ev evs s saved)
  then show ?case
    by (auto simp: Let_def task_after_def task_apply_session_event split: if_splits option.splits)
qed (simp add: task_after_def)

lemma apply_session_event_messages:
  "\<not> ends_task ev \<Longrightarrow> messages (apply_session_event u st n1 n2 s ev) = messages s"
  by (cases ev) (auto simp: apply_session_event_def Let_def split: option.split)

lemma relay_messages:
  "relay te n evs s saved = (Inr u, s', saved') \<Longrightarrow> list_all (Not \<circ> ends_task) evs \<Longrightarrow> messages s' = messages s"
proof (induction te n evs s saved rule: relay.induct)
  case (2 te n ev evs s saved)
  then show ?case by (auto simp: Let_def apply_session_event_messages split: if_splits option.splits)
qed simp

lemma accepted_seq_after: "accepted_seq (task_after evs t) = (if evs = [] then accepted_seq t else min u64_max (accepted_seq t + length evs))"
  by (induction evs rule: rev_induct) (auto simp: task_after_def u64_saturating_inc_def min_def)

lemma task_id_apply [simp]: "task_id (apply_task_event ev t) = task_id t"
  by (cases ev) simp_all

lemma task_id_after [simp]: "task_id (task_after evs t) = task_id t"
  by (induction evs rule: rev_induct) (simp_all add: task_after_def)

definition agent_message :: "TurnEnv \<Rightarrow> nat \<Rightarrow> string \<Rightarrow> SessionMessage" where
  "agent_message te n report = \<lparr>msg_id = te_uuid te n, msg_role = Agent, msg_text = report, timestamp = te_stamp te n\<rparr>"

lemma prepared_task: "prepare_turn te tid s tk = Inr (s1, tk1) \<Longrightarrow> task s1 = Some (new_task_state tid)"
  by (auto simp: prepare_turn_def bind_r_Inr_conv open_turn_def split: prod.splits)

text \<open>A turn that returned: its run, and the relay of all of the run's events.\<close>

lemma turn_run:
  assumes "session_turn te env cfg reg prompt tid s tk = (Inr (oc, s2), saved)"
  obtains s1 tk1 run before saved' where "prepare_turn te tid s tk = Inr (s1, tk1)"
    "execute_task env cfg reg prompt tid tk1 = (Inr oc, run)" "complete_account run"
    "ru_sent run = before @ [EvCompleted (ro_report oc) (ro_evidence_ids oc)]" "list_all (Not \<circ> ends_task) before"
    "relay te 1 (ru_sent run) s1 [s1] = (Inr (), s2, saved')" "saved = saved' @ [s2]"
    "messages s2 = messages s1 @ [agent_message te (length (ru_log run)) (ro_report oc)]"
proof -
  obtain s1 tk1 where prep: "prepare_turn te tid s tk = Inr (s1, tk1)"
    using assms by (auto simp: session_turn_def split: sum.splits)
  obtain r run where run: "execute_task env cfg reg prompt tid tk1 = (r, run)"
    by (cases "execute_task env cfg reg prompt tid tk1")
  obtain rel s3 saved' where rel: "relay te 1 (ru_sent run) s1 [s1] = (rel, s3, saved')"
    by (cases "relay te 1 (ru_sent run) s1 [s1]") auto
  have ends: "r = Inr oc" "rel = Inr ()" "s3 = s2" "saved = saved' @ [s2]"
    using assms prep run rel by (auto simp: session_turn_def split: option.splits sum.splits)
  note account = outcome_account [OF run [unfolded ends(1)]]
  obtain before where before: "map snd (ru_log run) = before @ [EvCompleted (ro_report oc) (ro_evidence_ids oc)]"
      "list_all (Not \<circ> ends_task) before" using account by blast
  have sent: "ru_sent run = before @ [EvCompleted (ro_report oc) (ro_evidence_ids oc)]"
    using account before(1) by (simp add: complete_account_def)
  obtain s' saved'' where first: "relay te 1 before s1 [s1] = (Inr (), s', saved'')"
    and second: "relay te (1 + length before) [EvCompleted (ro_report oc) (ro_evidence_ids oc)] s' saved'' = (Inr (), s2, saved')"
    using rel unfolding sent relay_append ends(2,3) by (auto split: sum.splits prod.splits)
  have s': "messages s' = messages s1" "task s' = Some (task_after before (new_task_state tid))"
    using relay_messages [OF first before(2)] relay_task [OF first prepared_task [OF prep]] by simp_all
  have size: "length (ru_log run) = Suc (length before)" using before(1) by (metis length_append_singleton length_map)
  have "messages s2 = messages s1 @ [agent_message te (length (ru_log run)) (ro_report oc)]"
    using second s' by (auto simp: apply_session_event_def push_message_def agent_message_def size Let_def split: if_splits option.splits)
  then show thesis using that [OF prep run [unfolded ends(1)] _ sent before(2) rel [unfolded ends(2,3)] ends(4)] account by blast
qed

lemma prepared_messages:
  "prepare_turn te tid s tk = Inr (s1, tk1) \<Longrightarrow> validate s = Inr () \<and> length (messages s1) = Suc (length (messages s))"
  by (auto simp: prepare_turn_def bind_r_Inr_conv open_turn_def push_message_def with_history_def ensure_title_def
      refresh_compacted_summary_def session_validate_def Let_def split: prod.splits if_splits option.splits sum.splits)

section \<open>A sample turn\<close>

definition sample_turn_env :: TurnEnv where
  "sample_turn_env =
     \<lparr>te_uuid = \<lambda>_. ''m'', te_stamp = \<lambda>_. ''t'', te_now = \<lambda>_. 0, te_save = \<lambda>_. None, te_client = \<lambda>_. True\<rparr>"

lemma relay_reliable: "\<exists>s' saved'. relay sample_turn_env n evs s saved = (Inr (), s', saved')"
  by (induction evs arbitrary: n s saved) (simp_all add: sample_turn_env_def Let_def)

lemma session_turn_completes:
  assumes "prepare_turn sample_turn_env ''t'' s tk = Inr (s1, tk1)" "task_validate tk1 = Inr ()" "rt_symbol tk1 = None"
  shows "\<exists>oc s2 saved. session_turn sample_turn_env sample_env runtime_config_default [(''submit_report'', submission_tool)] (\<lambda>_. [])
    ''t'' s tk = (Inr (oc, s2), saved)"
proof -
  obtain oc run where run: "execute_task sample_env runtime_config_default [(''submit_report'', submission_tool)] (\<lambda>_. []) ''t'' tk1
      = (Inr oc, run)" using sample_run_of [OF assms(2,3)] by blast
  obtain s2 saved where "relay sample_turn_env 1 (ru_sent run) s1 [s1] = (Inr (), s2, saved)" using relay_reliable by blast
  moreover have "te_save sample_turn_env n = None" for n by (simp add: sample_turn_env_def)
  ultimately show ?thesis using assms(1) run by (simp add: session_turn_def)
qed

lemma sample_chars: "text_chars (replicate n sample_message) = n"
proof -
  have "char_count (msg_text sample_message) = 1" by (simp add: sample_message_def char_count_def byte_def)
  then show ?thesis by (induction n) simp_all
qed

lemma sample_session_valid: "n \<le> 1000 \<Longrightarrow> validate (sample_session n) = Inr ()"
proof -
  assume n: "n \<le> 1000"
  have "message_valid sample_message"
    using sample_ids(2) sample_trims by (simp add: message_valid_def sample_message_def)
  then have "session_sound (sample_session n)"
    using sample_ids(1) sample_trims
    by (auto simp: session_sound_def sample_session_def session_new_def summary_valid_def list_all_iff)
  then show ?thesis
    using n sample_chars [of n]
    by (simp add: validate_Inr) (simp add: sample_session_def MAX_SESSION_MESSAGES_def MAX_SESSION_TEXT_CHARS_def)
qed

lemma sample_turn_inputs: "trim (rt_objective (task_ask ''q'')) = ''q''" "valid_utf8 ''q''"
  "validate_id (te_uuid sample_turn_env 0) ''message_id'' = Inr ()"
proof -
  have "trim ''q'' = ''q''" by (rule trim_literal) (simp_all add: whitespace_literal starts_with_def ends_with_def)
  then show "trim (rt_objective (task_ask ''q'')) = ''q''" by (simp add: task_ask_def)
  show "valid_utf8 ''q''" by (simp add: valid_utf8_def is_cont_def byte_def)
  show "validate_id (te_uuid sample_turn_env 0) ''message_id'' = Inr ()" using sample_ids(2) by (simp add: sample_turn_env_def)
qed

lemma sample_turn_accepted:
  assumes "n < 1000"
  shows "\<exists>s1 tk1. prepare_turn sample_turn_env ''t'' (sample_session n) (task_ask ''q'') = Inr (s1, tk1)
    \<and> task_validate tk1 = Inr () \<and> rt_symbol tk1 = None"
proof -
  have size: "length (messages (sample_session n)) = n" "text_chars (turn_messages sample_turn_env (task_ask ''q'') (sample_session n)) = n + 1"
    using sample_chars [of n] sample_turn_inputs(1)
    by (simp_all add: sample_session_def turn_messages_def char_count_def byte_def)
  show ?thesis
    using prepare_turn_accepts [of "sample_session n" "task_ask ''q''" sample_turn_env "''t''"] sample_session_valid [of n]
      sample_task_valid sample_turn_inputs assms size
    by (auto simp: MAX_SESSION_MESSAGES_def MAX_SESSION_TEXT_CHARS_def task_ask_def)
qed

section \<open>Properties\<close>

text \<open>
  C20: A turn of a valid session with a valid task is accepted exactly when there is room for its message. It is refused when the
  session already holds 1,000 messages or the text would exceed 2,000,000 characters; otherwise it is prepared,
  the prepared session is valid and holds one message more, and the task, which has taken over the history
  and the summary of the session, passes validation again. (The objective is encoded text and the generated id a proper one.)
\<close>

theorem turn_accepted_iff_room:
  assumes "validate s = Inr ()" and "task_validate tk = Inr ()"
    and "valid_utf8 (trim (rt_objective tk))" and "validate_id (te_uuid te 0) ''message_id'' = Inr ()"
  shows "if length (messages s) = MAX_SESSION_MESSAGES
    then prepare_turn te tid s tk = Inl (EConfiguration ''session contains more than 1000 messages'')
    else if MAX_SESSION_TEXT_CHARS < text_chars (messages s) + char_count (trim (rt_objective tk))
    then prepare_turn te tid s tk = Inl (EConfiguration ''session text exceeds 2000000 characters'')
    else \<exists>s1 tk1. prepare_turn te tid s tk = Inr (s1, tk1) \<and> validate s1 = Inr () \<and> messages s1 = turn_messages te tk s
      \<and> task s1 = Some (new_task_state tid) \<and> task_validate tk1 = Inr () \<and> rt_objective tk1 = rt_objective tk"
proof -
  have texts: "session_error (Configuration TooManyMessages) = EConfiguration ''session contains more than 1000 messages''"
    "session_error (Configuration config_error.TooMuchText) = EConfiguration ''session text exceeds 2000000 characters''"
    by (simp_all add: MAX_SESSION_MESSAGES_def MAX_SESSION_TEXT_CHARS_def show_nat.simps digit_char_def)
  have chars: "text_chars (turn_messages te tk s) = text_chars (messages s) + char_count (trim (rt_objective tk))"
    by (simp add: turn_messages_def)
  have "length (messages s) \<le> MAX_SESSION_MESSAGES" using assms(1) by (simp add: validate_Inr)
  then show ?thesis
    using prepare_turn_accepts [OF assms, of tid] unfolding chars texts [symmetric]
    by (auto simp: validate_Inr turn_messages_def split: if_splits)
qed

lemma turn_accepted_iff_room_witness:
  "\<exists>s1 tk1. prepare_turn sample_turn_env ''t'' (sample_session 999) (task_ask ''q'') = Inr (s1, tk1) \<and> validate s1 = Inr ()
    \<and> task_validate tk1 = Inr ()"
  using turn_accepted_iff_room [of "sample_session 999" "task_ask ''q''" sample_turn_env "''t''"] sample_session_valid [of 999]
    sample_task_valid sample_turn_inputs sample_chars [of 999]
  by (auto simp: sample_session_def MAX_SESSION_MESSAGES_def MAX_SESSION_TEXT_CHARS_def char_count_def byte_def)

text \<open>
  C17: After a turn that returned, the session is the projection of the run: its task is the run's, completed, under the run's id, with
  the evidence of the outcome and the run's event number; the published report has been appended
  as the agent's message; and this is the session that was saved last.
\<close>

theorem session_holds_outcome:
  assumes "session_turn te env cfg reg prompt tid s tk = (Inr (oc, s2), saved)"
  shows "\<exists>s1 tk1 run t. prepare_turn te tid s tk = Inr (s1, tk1) \<and> execute_task env cfg reg prompt tid tk1 = (Inr oc, run)
    \<and> messages s2 = messages s1 @ [agent_message te (length (ru_log run)) (ro_report oc)]
    \<and> task s2 = Some t \<and> task_id t = tid \<and> task_phase t = Completed \<and> evidence_ids t = ro_evidence_ids oc
    \<and> (ru_seq run < u64_max \<longrightarrow> accepted_seq t = ru_seq run)
    \<and> saved \<noteq> [] \<and> last saved = s2"
  using assms
proof (rule turn_run)
  fix s1 tk1 run before saved'
  assume prep: "prepare_turn te tid s tk = Inr (s1, tk1)" and run: "execute_task env cfg reg prompt tid tk1 = (Inr oc, run)"
    and account: "complete_account run" and sent: "ru_sent run = before @ [EvCompleted (ro_report oc) (ro_evidence_ids oc)]"
    and rel: "relay te 1 (ru_sent run) s1 [s1] = (Inr (), s2, saved')" and saved: "saved = saved' @ [s2]"
    and message: "messages s2 = messages s1 @ [agent_message te (length (ru_log run)) (ro_report oc)]"
  let ?t = "task_after (ru_sent run) (new_task_state tid)"
  have "task s2 = Some ?t" using relay_task [OF rel prepared_task [OF prep]] .
  moreover have "task_phase ?t = Completed \<and> evidence_ids ?t = ro_evidence_ids oc" by (simp add: sent task_after_def)
  moreover have "accepted_seq ?t = ru_seq run" if "ru_seq run < u64_max"
  proof -
    have "map fst (ru_log run) = [1..<Suc (ru_seq run)]" using account that by (simp add: complete_account_def)
    then have "length (ru_sent run) = ru_seq run"
      using account by (metis complete_account_def length_map length_upt diff_Suc_1)
    then show ?thesis using that by (simp add: accepted_seq_after sent new_task_state_def)
  qed
  ultimately show ?thesis
    using prep run message saved by (intro exI [of _ s1] exI [of _ tk1] exI [of _ run] exI [of _ ?t]) (simp add: new_task_state_def)
qed

lemma session_holds_outcome_witness:
  "\<exists>oc s2 saved t. session_turn sample_turn_env sample_env runtime_config_default [(''submit_report'', submission_tool)] (\<lambda>_. [])
      ''t'' (sample_session 0) (task_ask ''q'') = (Inr (oc, s2), saved)
    \<and> task s2 = Some t \<and> task_phase t = Completed \<and> evidence_ids t = ro_evidence_ids oc"
  using sample_turn_accepted [of 0] session_turn_completes session_holds_outcome by (metis zero_less_numeral)

text \<open>
  A session can be saved that can never be loaded again. A session of 999 messages is valid and has room for the
  user's message; when the run completes, the agent's message makes 1,001, the session is saved
  without being validated, and whatever the store returns it as, loading it fails.
\<close>

theorem full_session_becomes_unloadable:
  assumes "session_turn te env cfg reg prompt tid s tk = (Inr (oc, s2), saved)" and "length (messages s) = 999"
  shows "last saved = s2 \<and> length (messages s2) = 1001
    \<and> (\<forall>stored i. stored_session stored = s2 \<longrightarrow> (\<exists>e. manager_load (\<lambda>_. Inr stored) i = Inl e))"
proof -
  obtain s1 tk1 run where turn: "prepare_turn te tid s tk = Inr (s1, tk1)"
      "messages s2 = messages s1 @ [agent_message te (length (ru_log (run :: Run))) (ro_report oc)]" "last saved = s2"
    using assms(1) by (rule turn_run) auto
  then have size: "length (messages s2) = 1001" using prepared_messages [OF turn(1)] assms(2) by simp
  then have "validate s2 \<noteq> Inr ()" by (simp add: validate_Inr MAX_SESSION_MESSAGES_def)
  then have "\<exists>e. manager_load (\<lambda>_. Inr stored) i = Inl e" if "stored_session stored = s2" for stored i
    using that by (cases "validate_id i ''session_id''"; cases "validate s2") (auto simp: manager_load_def map_store_def)
  then show ?thesis using size turn(3) by blast
qed

lemma full_session_becomes_unloadable_witness:
  "\<exists>oc s2 saved. session_turn sample_turn_env sample_env runtime_config_default [(''submit_report'', submission_tool)] (\<lambda>_. [])
      ''t'' (sample_session 999) (task_ask ''q'') = (Inr (oc, s2), saved) \<and> length (messages s2) = 1001"
proof -
  have size: "length (messages (sample_session 999)) = 999" by (simp add: sample_session_def)
  obtain oc s2 saved where "session_turn sample_turn_env sample_env runtime_config_default
      [(''submit_report'', submission_tool)] (\<lambda>_. []) ''t'' (sample_session 999) (task_ask ''q'') = (Inr (oc, s2), saved)"
    using sample_turn_accepted [of 999] session_turn_completes by force
  with full_session_becomes_unloadable [OF this size] show ?thesis by blast
qed

text \<open>
  C39: With the built-in tools a run only reads. Whatever the model asks for and however the run ends, the engine is only
  asked for one of the ten read kinds, or to verify a report.
\<close>

theorem builtin_runs_only_read:
  assumes "default_registry = Some reg" and "execute_task env cfg reg prompt tid tk = (r, s)"
  shows "set (map fst (ru_executed s)) \<subseteq> insert VERIFY_KIND (set READ_KINDS)"
proof -
  have "td_engine_kind d \<in> set READ_KINDS" if "d \<in> set builtin_tools" "td_handler d = EngineHandler" for d
    unfolding builtin_kinds [symmetric] using that by auto
  then have "allowed_kind reg k \<Longrightarrow> k \<in> insert VERIFY_KIND (set READ_KINDS)" for k
    using builtin_registry_ok [OF assms(1)] by (auto simp: allowed_kind_def)
  then show ?thesis using run_executes_allowed [OF assms(2)] by (fastforce simp: executes_allowed_def)
qed

lemma builtin_runs_only_read_witness:
  "\<exists>reg r s. default_registry = Some reg \<and> execute_task sample_env runtime_config_default reg (\<lambda>_. []) ''t'' (task_ask ''q'') = (r, s)
    \<and> set (map fst (ru_executed s)) \<subseteq> insert VERIFY_KIND (set READ_KINDS)"
proof -
  obtain r s where "execute_task sample_env runtime_config_default (map (\<lambda>d. (td_name d, d)) builtin_order) (\<lambda>_. []) ''t''
      (task_ask ''q'') = (r, s)" by (rule prod.exhaust)
  with builtin_runs_only_read [OF default_registry_order this] default_registry_order show ?thesis by blast
qed

end
