(* ===== verification/Agent_Schema.thy ===== *)
theory Agent_Schema
  imports Agent_Tools Compute_Lang
begin

text \<open>
  The schemas of \<open>crates/agent-runtime/src/tools.rs\<close> against the checks they announce. Main fact: the limits the model is
  told are those of the report contract, of the catalog's search and of the calculation validator.
\<close>

section \<open>Paths into a schema\<close>

fun json_at :: "string list \<Rightarrow> json \<Rightarrow> json option" where
  "json_at [] j = Some j"
| "json_at (k # ks) j = Option.bind (jget k j) (json_at ks)"

lemma jobject_get: "jget k (jobject kvs) = map_of (rev kvs) k"
  by (induction kvs rule: rev_induct) (auto simp: jobject_def btree.get_put)

text \<open>What a path leads to after an assignment elsewhere.\<close>

fun obj :: "json \<Rightarrow> bool" where
  "obj (JObj _) = True"
| "obj _ = False"

lemma json_at_put: "obj j \<Longrightarrow> json_at (k # ks) (json_put (k' # ks') v j)
    = (if k = k' then json_at ks (json_put ks' v (case jget k j of Some w \<Rightarrow> w | None \<Rightarrow> JNull)) else json_at (k # ks) j)"
  by (cases j) (auto simp: btree.get_put)

lemma obj_jobject [simp]: "obj (jobject kvs)"
  by (simp add: jobject_def)

text \<open>
  What the tool schemas promise the model is what the code enforces: the limits on claims, sections, statements,
  evidence and figures are those of the report contract, the version is its version and the kinds of a claim are
  its kinds; the search is limited as the catalog limits it; and a calculation program is limited as its validator limits it.
\<close>

theorem schemas_state_the_limits:
  "json_at [''properties'', ''claims'', ''maxItems''] submit_report_schema = Some (JInt (int MAX_CLAIMS))
   \<and> json_at [''properties'', ''sections'', ''maxItems''] submit_report_schema = Some (JInt (int MAX_SECTIONS))
   \<and> json_at [''properties'', ''version'', ''enum''] submit_report_schema = Some (JArr [JStr REPORT_CONTRACT_VERSION])
   \<and> json_at [''properties'', ''claims'', ''items''] submit_report_schema = Some claim_schema
   \<and> json_at [''properties'', ''statement'', ''maxLength''] claim_schema = Some (JInt (int MAX_STATEMENT_CHARS))
   \<and> json_at [''properties'', ''evidence_ids'', ''maxItems''] claim_schema = Some (JInt (int MAX_EVIDENCE_PER_CLAIM))
   \<and> json_at [''properties'', ''numeric_items'', ''maxItems''] claim_schema = Some (JInt (int MAX_NUMERIC_ITEMS_PER_CLAIM))
   \<and> json_at [''properties'', ''kind'', ''enum''] claim_schema
      = Some (json_strings (map claim_kind_as_str [ObservedFact, DeterministicCalculation, Inference, Estimate, Scenario, Unknown]))
   \<and> json_at [''properties'', ''limit'', ''maximum''] (td_input_schema search_evidence_tool) = Some (JInt (int MAX_SEARCH_RESULTS))
   \<and> json_at [''properties'', ''program''] (td_input_schema run_financial_calculation_tool)
      = Some (computation_program_schema False)
   \<and> (\<forall>jq. json_at [''properties'', ''inputs'', ''maxProperties''] (computation_program_schema jq) = Some (JInt (int MAX_INPUTS))
      \<and> json_at [''properties'', ''inputs'', ''additionalProperties'', ''maxItems''] (computation_program_schema jq)
         = Some (JInt (int MAX_SERIES_LEN))
      \<and> json_at [''properties'', ''bindings'', ''maxItems''] (computation_program_schema jq) = Some (JInt (int MAX_BINDINGS))
      \<and> json_at [''properties'', ''outputs'', ''maxProperties''] (computation_program_schema jq) = Some (JInt (int MAX_OUTPUTS)))"
proof (intro conjI allI)
  fix jq
  note put = computation_program_schema_def program_schema_base_def json_at_put jobject_get
  show "json_at [''properties'', ''inputs'', ''maxProperties''] (computation_program_schema jq) = Some (JInt (int MAX_INPUTS))"
    by (cases jq; simp add: put del: json_at.simps(2); simp add: jobject_get MAX_INPUTS_def)
  show "json_at [''properties'', ''inputs'', ''additionalProperties'', ''maxItems''] (computation_program_schema jq)
      = Some (JInt (int MAX_SERIES_LEN))"
    by (cases jq; simp add: put del: json_at.simps(2); simp add: jobject_get MAX_SERIES_LEN_def)
  show "json_at [''properties'', ''bindings'', ''maxItems''] (computation_program_schema jq) = Some (JInt (int MAX_BINDINGS))"
    by (cases jq; simp add: put del: json_at.simps(2); simp add: jobject_get MAX_BINDINGS_def)
  show "json_at [''properties'', ''outputs'', ''maxProperties''] (computation_program_schema jq) = Some (JInt (int MAX_OUTPUTS))"
    by (cases jq; simp add: put del: json_at.simps(2); simp add: jobject_get MAX_OUTPUTS_def)
qed (simp_all add: submit_report_schema_def report_properties_def claim_schema_def claim_properties_def jobject_get
    evidence_id_list_schema_def MAX_CLAIMS_def MAX_SECTIONS_def MAX_STATEMENT_CHARS_def MAX_EVIDENCE_PER_CLAIM_def
    MAX_NUMERIC_ITEMS_PER_CLAIM_def MAX_SEARCH_RESULTS_def search_evidence_tool_def run_financial_calculation_tool_def
    read_tool_def runtime_tool_def object_schema_def json_strings_def)

end
