(* ===== verification/Net_Guard.thy ===== *)
theory Net_Guard
  imports Json "HOL-Library.Word" "HOL-Library.List_Lexorder"
begin

unbundle bit_operations_syntax

text \<open>
  The guard on outgoing requests: \<open>crates/security/src/url_policy.rs\<close> and \<open>fetch.rs\<close>. A URL is checked
  statically, resolved, checked again address by address, and fetched with the validated address pinned;
  every redirect goes through the same checks. The URL parser, the resolver, the HTTP client and the server are
  parameters (a record \<open>Net\<close>), with what their documentation promises as named hypotheses. Main facts: the IPv4
  filter is exactly a table of reserved blocks; whatever the servers answer, every contact is on an allowed port and, unless
  the host is a name that differs from the form the check pins (a name with a final dot), with an address outside the
  filter, at most once per permitted redirect; what is returned is within the limits.
\<close>

section \<open>Addresses\<close>

datatype IpAddr =
    V4 "8 word" "8 word" "8 word" "8 word"
  | V6 "16 word" "16 word" "16 word" "16 word" "16 word" "16 word" "16 word" "16 word"

text \<open>The classification of \<open>std::net\<close>.\<close>

definition v4_is_private :: "8 word \<Rightarrow> 8 word \<Rightarrow> bool" where
  "v4_is_private a b \<longleftrightarrow> a = 10 \<or> (a = 172 \<and> 16 \<le> b \<and> b \<le> 31) \<or> (a = 192 \<and> b = 168)"

definition is_blocked_v4 :: "8 word \<Rightarrow> 8 word \<Rightarrow> 8 word \<Rightarrow> 8 word \<Rightarrow> bool" where
  "is_blocked_v4 a b c d \<longleftrightarrow>
     v4_is_private a b
     \<or> a = 127
     \<or> (a = 169 \<and> b = 254)
     \<or> (a = 0 \<and> b = 0 \<and> c = 0 \<and> d = 0)
     \<or> (a = 255 \<and> b = 255 \<and> c = 255 \<and> d = 255)
     \<or> (224 \<le> a \<and> a \<le> 239)
     \<or> a = 0
     \<or> 224 \<le> a
     \<or> (a = 100 \<and> 64 \<le> b \<and> b \<le> 127)
     \<or> (a = 192 \<and> b = 0 \<and> c = 0)
     \<or> (a = 192 \<and> b = 0 \<and> c = 2)
     \<or> (a = 198 \<and> (b = 18 \<or> b = 19))
     \<or> (a = 198 \<and> b = 51 \<and> c = 100)
     \<or> (a = 203 \<and> b = 0 \<and> c = 113)
     \<or> (a = 169 \<and> b = 254)
     \<or> (a = 100 \<and> b = 100 \<and> c = 100 \<and> d = 200)"

fun is_blocked_ip :: "IpAddr \<Rightarrow> bool" where
  "is_blocked_ip (V4 a b c d) = is_blocked_v4 a b c d"
| "is_blocked_ip (V6 s0 s1 s2 s3 s4 s5 s6 s7) =
     ([s0, s1, s2, s3, s4, s5, s6, s7] = [0, 0, 0, 0, 0, 0, 0, 1]
      \<or> [s0, s1, s2, s3, s4, s5, s6, s7] = [0, 0, 0, 0, 0, 0, 0, 0]
      \<or> s0 AND 0xff00 = 0xff00
      \<or> s0 AND 0xfe00 = 0xfc00
      \<or> s0 AND 0xffc0 = 0xfe80
      \<or> (s0 = 0x2001 \<and> s1 = 0x0db8)
      \<or> ([s0, s1, s2, s3, s4, s5] = [0, 0, 0, 0, 0, 0xffff]
         \<and> is_blocked_v4 (ucast (drop_bit 8 s6)) (ucast s6) (ucast (drop_bit 8 s7)) (ucast s7)))"

section \<open>URLs\<close>

text \<open>
  A parsed URL as the code reads it. \<open>u_plain\<close> is its serialization once the fragment has been removed; \<open>u_port\<close>
  is the port, or the default one of the scheme.
\<close>

datatype Host = HostDomain string | HostIp IpAddr string

record Url =
  u_scheme :: string
  u_username :: string
  u_password :: "string option"
  u_host :: "Host option"
  u_port :: "nat option"
  u_plain :: string

record SafeUrl =
  normalized :: string
  safe_host :: string
  safe_port :: nat

type_synonym SocketAddr = "IpAddr \<times> nat"

record ResolvedSafeUrl =
  resolved_url :: SafeUrl
  addresses :: "SocketAddr list"

datatype UrlSecurityError =
    Malformed string
  | Scheme
  | Credentials
  | MissingHost
  | BlockedHost string
  | BlockedPort nat
  | Dns string
  | BlockedAddress IpAddr
  | EmptyDns

record UrlSecurityPolicy =
  allowed_ports :: "nat list"
  dns_timeout :: nat

definition policy_default :: UrlSecurityPolicy where
  "policy_default = \<lparr>allowed_ports = [80, 443], dns_timeout = 3\<rparr>"

definition with_allowed_ports :: "nat list \<Rightarrow> UrlSecurityPolicy" where
  "with_allowed_ports ports = \<lparr>allowed_ports = ports, dns_timeout = 3\<rparr>"

definition blocked_hostname :: "string \<Rightarrow> bool" where
  "blocked_hostname h \<longleftrightarrow>
     h = ''localhost'' \<or> ends_with h ''.localhost'' \<or> ends_with h ''.local'' \<or> ends_with h ''.internal''
     \<or> ends_with h ''.lan'' \<or> ends_with h ''.home''
     \<or> h \<in> set [''metadata.google.internal'', ''metadata'', ''instance-data'', ''instance-data.ec2.internal'']"

definition validate_public_ip :: "IpAddr \<Rightarrow> (unit, UrlSecurityError) result" where
  "validate_public_ip ip = (if is_blocked_ip ip then Inl (BlockedAddress ip) else Inr ())"

definition to_ascii_lower :: "string \<Rightarrow> string" where
  "to_ascii_lower s = map (\<lambda>c. if 65 \<le> byte c \<and> byte c \<le> 90 then char_of (byte c + 32) else c) s"

definition trim_dots :: "string \<Rightarrow> string" where
  "trim_dots s = rev (dropWhile (\<lambda>c. c = CHR ''.'') (rev s))"

definition validate_host :: "Host \<Rightarrow> (string, UrlSecurityError) result" where
  "validate_host h =
     (case h of
        HostDomain name \<Rightarrow>
          (let v = to_ascii_lower (trim_dots name)
           in if v = [] then Inl MissingHost else if blocked_hostname v then Inl (BlockedHost v) else Inr v)
      | HostIp ip txt \<Rightarrow> bind_r (validate_public_ip ip) (\<lambda>_. Inr txt))"

text \<open>What the code calls but does not contain. Answers may depend on the hop; a timeout is the error it is mapped to.\<close>

record Response =
  rs_status :: nat
  rs_location :: "string option"
  rs_content_encoding :: "string option"
  rs_content_type :: "string option"
  rs_content_length :: "nat option"
  rs_chunks :: "(string, string) result list"

text \<open>The client is built with redirects off and one name overridden; a request has three headers.\<close>

record ClientConfig =
  cc_timeout :: nat
  cc_connect_timeout :: nat
  cc_host :: string
  cc_address :: SocketAddr

record HttpRequest =
  hr_url :: Url
  hr_accept :: string
  hr_accept_encoding :: string
  hr_user_agent :: "string option"

text \<open>\<open>nt_build\<close> is the error of building the client, if there is one; \<open>nt_contact\<close> is the address a client connects to.\<close>

record Net =
  nt_parse :: "string \<Rightarrow> (Url, string) result"
  nt_join :: "Url \<Rightarrow> string \<Rightarrow> (string, string) result"
  nt_lookup :: "nat \<Rightarrow> nat \<Rightarrow> string \<Rightarrow> nat \<Rightarrow> (SocketAddr list, string) result"
  nt_header :: "string \<Rightarrow> string option"
  nt_build :: "nat \<Rightarrow> ClientConfig \<Rightarrow> string option"
  nt_contact :: "nat \<Rightarrow> ClientConfig \<Rightarrow> Url \<Rightarrow> IpAddr"
  nt_send :: "nat \<Rightarrow> ClientConfig \<Rightarrow> HttpRequest \<Rightarrow> (Response, string) result"

definition validate_static :: "Net \<Rightarrow> UrlSecurityPolicy \<Rightarrow> string \<Rightarrow> (SafeUrl, UrlSecurityError) result" where
  "validate_static net p raw =
     (case nt_parse net (trim raw) of
        Inl e \<Rightarrow> Inl (Malformed e)
      | Inr u \<Rightarrow>
          bind_r (ensure (u_scheme u = ''http'' \<or> u_scheme u = ''https'') Scheme) (\<lambda>_.
          bind_r (ensure (u_username u = [] \<and> u_password u = None) Credentials) (\<lambda>_.
          bind_r (case u_host u of None \<Rightarrow> Inl MissingHost | Some h \<Rightarrow> validate_host h) (\<lambda>h.
          bind_r (case u_port u of None \<Rightarrow> Inl (BlockedPort 0) | Some q \<Rightarrow> Inr q) (\<lambda>q.
          bind_r (ensure (q \<in> set (allowed_ports p)) (BlockedPort q)) (\<lambda>_.
            Inr \<lparr>normalized = u_plain u, safe_host = h, safe_port = q\<rparr>))))))"

text \<open>The order of \<open>SocketAddr\<close>: IPv4 before IPv6, then by address, then by port.\<close>

fun ip_key :: "IpAddr \<Rightarrow> nat list" where
  "ip_key (V4 a b c d) = 4 # map unat [a, b, c, d]"
| "ip_key (V6 s0 s1 s2 s3 s4 s5 s6 s7) = 6 # map unat [s0, s1, s2, s3, s4, s5, s6, s7]"

definition addr_key :: "SocketAddr \<Rightarrow> nat list" where
  "addr_key a = ip_key (fst a) @ [snd a]"

fun all_public :: "SocketAddr list \<Rightarrow> (unit, UrlSecurityError) result" where
  "all_public [] = Inr ()"
| "all_public (a # as) = bind_r (validate_public_ip (fst a)) (\<lambda>_. all_public as)"

definition validate_addresses :: "SafeUrl \<Rightarrow> SocketAddr list \<Rightarrow> (ResolvedSafeUrl, UrlSecurityError) result" where
  "validate_addresses url as =
     (if as = [] then Inl EmptyDns
      else let sorted_as = remdups_adj (sort_key addr_key as)
        in bind_r (all_public sorted_as) (\<lambda>_. Inr \<lparr>resolved_url = url, addresses = sorted_as\<rparr>))"

definition validate_resolved :: "Net \<Rightarrow> UrlSecurityPolicy \<Rightarrow> nat \<Rightarrow> string \<Rightarrow> (ResolvedSafeUrl, UrlSecurityError) result" where
  "validate_resolved net p hop raw =
     bind_r (validate_static net p raw) (\<lambda>url.
       case nt_lookup net hop (dns_timeout p) (safe_host url) (safe_port url) of
         Inl e \<Rightarrow> Inl (Dns e)
       | Inr as \<Rightarrow> validate_addresses url as)"

section \<open>Fetching\<close>

record SafeFetchLimits =
  max_bytes :: nat
  max_redirects :: nat
  request_timeout :: nat
  connect_timeout :: nat
  allowed_mime :: "string list"

definition fetch_limits_default :: SafeFetchLimits where
  "fetch_limits_default =
     \<lparr>max_bytes = 8 * 1024 * 1024, max_redirects = 5, request_timeout = 20, connect_timeout = 5,
      allowed_mime = [''text/html'', ''text/plain'', ''application/json'', ''application/pdf'', ''application/xhtml+xml'',
        ''application/xml'', ''text/xml'']\<rparr>"

record SafeFetchResult =
  final_url :: string
  media_type :: string
  body :: string
  redirects :: "string list"

datatype SafeFetchError =
    FetchUrl UrlSecurityError
  | Client string
  | Request string
  | RedirectLocation
  | TooManyRedirects nat
  | Http nat
  | CompressedResponse
  | Mime string
  | TooLarge nat nat
  | InvalidHeader string

definition fetch_url :: "('a, UrlSecurityError) result \<Rightarrow> ('a, SafeFetchError) result" where
  "fetch_url r = (case r of Inl e \<Rightarrow> Inl (FetchUrl e) | Inr a \<Rightarrow> Inr a)"

definition append_bounded :: "string \<Rightarrow> string \<Rightarrow> nat \<Rightarrow> (string, SafeFetchError) result" where
  "append_bounded b chunk limit =
     (let n = usize_saturating_add (length b) (length chunk)
      in if limit < n then Inl (TooLarge limit n) else Inr (b @ chunk))"

fun read_body :: "nat \<Rightarrow> string \<Rightarrow> (string, string) result list \<Rightarrow> (string, SafeFetchError) result" where
  "read_body limit b [] = Inr b"
| "read_body limit b (Inl e # cs) = Inl (Request e)"
| "read_body limit b (Inr c # cs) = bind_r (append_bounded b c limit) (\<lambda>b'. read_body limit b' cs)"

text \<open>The media type: what precedes the first semicolon, trimmed and in lower case.\<close>

definition media_type_of :: "string option \<Rightarrow> (string, SafeFetchError) result" where
  "media_type_of ct =
     (case ct of
        None \<Rightarrow> Inl (Mime ''missing'')
      | Some t \<Rightarrow>
          (let m = trim (takeWhile (\<lambda>c. c \<noteq> CHR '';'') t)
           in if m = [] then Inl (Mime ''missing'') else Inr (to_ascii_lower m)))"

definition accept_response :: "SafeFetchLimits \<Rightarrow> Url \<Rightarrow> string list \<Rightarrow> Response \<Rightarrow> (SafeFetchResult, SafeFetchError) result" where
  "accept_response lims u reds r =
     bind_r (ensure (200 \<le> rs_status r \<and> rs_status r < 300) (Http (rs_status r))) (\<lambda>_.
     bind_r (ensure (case rs_content_encoding r of Some e \<Rightarrow> to_ascii_lower e = ''identity'' | None \<Rightarrow> True) CompressedResponse) (\<lambda>_.
     bind_r (media_type_of (rs_content_type r)) (\<lambda>m.
     bind_r (ensure (m \<in> set (allowed_mime lims)) (Mime m)) (\<lambda>_.
     bind_r (case rs_content_length r of
         Some n \<Rightarrow> ensure (n \<le> max_bytes lims) (TooLarge (max_bytes lims) n) | None \<Rightarrow> Inr ()) (\<lambda>_.
     bind_r (read_body (max_bytes lims) [] (rs_chunks r)) (\<lambda>b.
       Inr \<lparr>final_url = u_plain u, media_type = m, body = b, redirects = reds\<rparr>))))))"

text \<open>A request that was sent: the URL, and the address and port that were contacted.\<close>

type_synonym contact = "Url \<times> IpAddr \<times> nat option"

datatype hop_result = Final "(SafeFetchResult, SafeFetchError) result" | Redirected string

definition client_for :: "Net \<Rightarrow> SafeFetchLimits \<Rightarrow> nat \<Rightarrow> ResolvedSafeUrl \<Rightarrow> (ClientConfig \<times> Url, SafeFetchError) result" where
  "client_for net lims hop r =
     (case addresses r of
        [] \<Rightarrow> Inl (FetchUrl EmptyDns)
      | a # _ \<Rightarrow>
          (let c = \<lparr>cc_timeout = request_timeout lims, cc_connect_timeout = connect_timeout lims,
                cc_host = safe_host (resolved_url r), cc_address = a\<rparr>
           in case nt_build net hop c of
             Some e \<Rightarrow> Inl (Client e)
           | None \<Rightarrow>
               (case nt_parse net (normalized (resolved_url r)) of
                  Inl e \<Rightarrow> Inl (FetchUrl (Malformed e))
                | Inr u \<Rightarrow> Inr (c, u))))"

fun join_with :: "string \<Rightarrow> string list \<Rightarrow> string" where
  "join_with sep [] = []"
| "join_with sep [x] = x"
| "join_with sep (x # y # xs) = x @ sep @ join_with sep (y # xs)"

definition http_request :: "SafeFetchLimits \<Rightarrow> string option \<Rightarrow> Url \<Rightarrow> HttpRequest" where
  "http_request lims agent u =
     \<lparr>hr_url = u, hr_accept = join_with '', '' (allowed_mime lims), hr_accept_encoding = ''identity'', hr_user_agent = agent\<rparr>"

text \<open>A redirect: its target is checked before it is followed.\<close>

definition follow_redirect :: "Net \<Rightarrow> UrlSecurityPolicy \<Rightarrow> SafeFetchLimits \<Rightarrow> nat \<Rightarrow> Url \<Rightarrow> Response \<Rightarrow> hop_result" where
  "follow_redirect net p lims hop u r =
     (if hop = max_redirects lims then Final (Inl (TooManyRedirects (max_redirects lims)))
      else case rs_location r of
        None \<Rightarrow> Final (Inl RedirectLocation)
      | Some l \<Rightarrow>
          (case nt_join net u l of
             Inl e \<Rightarrow> Final (Inl (FetchUrl (Malformed e)))
           | Inr t \<Rightarrow>
               (case validate_static net p t of
                  Inl e \<Rightarrow> Final (Inl (FetchUrl e))
                | Inr safe \<Rightarrow> Redirected (normalized safe))))"

text \<open>One hop: how it ends, and the request it sent if it sent one.\<close>

definition fetch_hop ::
  "Net \<Rightarrow> UrlSecurityPolicy \<Rightarrow> SafeFetchLimits \<Rightarrow> string option \<Rightarrow> nat \<Rightarrow> string \<Rightarrow> string list \<Rightarrow> hop_result \<times> contact list" where
  "fetch_hop net p lims agent hop current reds =
     (case bind_r (fetch_url (validate_resolved net p hop current)) (\<lambda>r. client_for net lims hop r) of
        Inl e \<Rightarrow> (Final (Inl e), [])
      | Inr (c, u) \<Rightarrow>
          (let sent = [(u, nt_contact net hop c u, u_port u)]
           in case nt_send net hop c (http_request lims agent u) of
                Inl e \<Rightarrow> (Final (Inl (Request e)), sent)
              | Inr resp \<Rightarrow>
                  if 300 \<le> rs_status resp \<and> rs_status resp < 400 then (follow_redirect net p lims hop u resp, sent)
                  else (Final (accept_response lims u reds resp), sent)))"

text \<open>The hops that are left, and the number of the next one.\<close>

fun fetch_hops ::
  "Net \<Rightarrow> UrlSecurityPolicy \<Rightarrow> SafeFetchLimits \<Rightarrow> string option \<Rightarrow> nat \<Rightarrow> nat \<Rightarrow> string \<Rightarrow> string list
     \<Rightarrow> (SafeFetchResult, SafeFetchError) result \<times> contact list" where
  "fetch_hops net p lims agent 0 hop current reds = (Inl (TooManyRedirects (max_redirects lims)), [])"
| "fetch_hops net p lims agent (Suc k) hop current reds =
     (case fetch_hop net p lims agent hop current reds of
        (Final r, sent) \<Rightarrow> (r, sent)
      | (Redirected next_url, sent) \<Rightarrow>
          (case fetch_hops net p lims agent k (Suc hop) next_url (reds @ [next_url]) of (r, later) \<Rightarrow> (r, sent @ later)))"

text \<open>A user agent that is not a header value is refused.\<close>

definition fetch_with_user_agent ::
  "Net \<Rightarrow> UrlSecurityPolicy \<Rightarrow> SafeFetchLimits \<Rightarrow> string \<Rightarrow> string option \<Rightarrow> (SafeFetchResult, SafeFetchError) result \<times> contact list" where
  "fetch_with_user_agent net p lims raw agent =
     (case Option.bind agent (nt_header net) of
        Some e \<Rightarrow> (Inl (InvalidHeader e), [])
      | None \<Rightarrow> fetch_hops net p lims agent (Suc (max_redirects lims)) 0 raw [])"

definition fetch :: "Net \<Rightarrow> UrlSecurityPolicy \<Rightarrow> SafeFetchLimits \<Rightarrow> string \<Rightarrow> (SafeFetchResult, SafeFetchError) result \<times> contact list" where
  "fetch net p lims raw = fetch_with_user_agent net p lims raw None"

section \<open>The IPv4 filter as a table of blocks\<close>

definition v4_number :: "8 word \<Rightarrow> 8 word \<Rightarrow> 8 word \<Rightarrow> 8 word \<Rightarrow> nat" where
  "v4_number a b c d = ((unat a * 256 + unat b) * 256 + unat c) * 256 + unat d"

definition in_block :: "nat \<Rightarrow> (nat \<times> nat \<times> nat \<times> nat) \<times> nat \<Rightarrow> bool" where
  "in_block n block =
     (case block of ((a, b, c, d), len) \<Rightarrow> n div 2 ^ (32 - len) = (((a * 256 + b) * 256 + c) * 256 + d) div 2 ^ (32 - len))"

text \<open>The reserved blocks of IPv4, as address and prefix length.\<close>

definition RESERVED_V4 :: "((nat \<times> nat \<times> nat \<times> nat) \<times> nat) list" where
  "RESERVED_V4 =
     [((0, 0, 0, 0), 8), ((10, 0, 0, 0), 8), ((100, 64, 0, 0), 10), ((127, 0, 0, 0), 8), ((169, 254, 0, 0), 16),
      ((172, 16, 0, 0), 12), ((192, 0, 0, 0), 24), ((192, 0, 2, 0), 24), ((192, 168, 0, 0), 16), ((198, 18, 0, 0), 15),
      ((198, 51, 100, 0), 24), ((203, 0, 113, 0), 24), ((224, 0, 0, 0), 3)]"

lemma v4_prefixes:
  fixes a b c d :: nat
  assumes "a < 256" "b < 256" "c < 256" "d < 256"
  defines "n \<equiv> ((a * 256 + b) * 256 + c) * 256 + d"
  shows "n div 2 ^ 8 = (a * 256 + b) * 256 + c" "n div 2 ^ 16 = a * 256 + b" "n div 2 ^ 24 = a"
    "n div 2 ^ 17 = a * 128 + b div 2" "n div 2 ^ 20 = a * 16 + b div 16" "n div 2 ^ 22 = a * 4 + b div 64" "n div 2 ^ 29 = a div 32"
proof -
  show p8: "n div 2 ^ 8 = (a * 256 + b) * 256 + c" using assms(4) by (simp add: n_def)
  have "n div 2 ^ 16 = n div 2 ^ 8 div 2 ^ 8" by (simp flip: div_mult2_eq)
  then show p16: "n div 2 ^ 16 = a * 256 + b" unfolding p8 using assms(3) by simp
  have "n div 2 ^ 24 = n div 2 ^ 16 div 2 ^ 8" by (simp flip: div_mult2_eq)
  then show p24: "n div 2 ^ 24 = a" unfolding p16 using assms(2) by simp
  have "n div 2 ^ 17 = n div 2 ^ 16 div 2" by (simp flip: div_mult2_eq)
  moreover have "(a * 256 + b) div 2 = a * 128 + b div 2" by presburger
  ultimately show "n div 2 ^ 17 = a * 128 + b div 2" unfolding p16 by simp
  have "n div 2 ^ 20 = n div 2 ^ 16 div 16" by (simp flip: div_mult2_eq)
  moreover have "(a * 256 + b) div 16 = a * 16 + b div 16" by presburger
  ultimately show "n div 2 ^ 20 = a * 16 + b div 16" unfolding p16 by simp
  have "n div 2 ^ 22 = n div 2 ^ 16 div 64" by (simp flip: div_mult2_eq)
  moreover have "(a * 256 + b) div 64 = a * 4 + b div 64" by presburger
  ultimately show "n div 2 ^ 22 = a * 4 + b div 64" unfolding p16 by simp
  have "n div 2 ^ 29 = n div 2 ^ 24 div 32" by (simp flip: div_mult2_eq)
  then show "n div 2 ^ 29 = a div 32" unfolding p24 .
qed

lemma digit_eq:
  fixes x y u v k :: nat
  assumes "y < k" "v < k"
  shows "x * k + y = u * k + v \<longleftrightarrow> x = u \<and> y = v"
proof
  assume e: "x * k + y = u * k + v"
  have "x = (x * k + y) div k" using assms(1) by simp
  also have "\<dots> = u" unfolding e using assms(2) by simp
  finally show "x = u \<and> y = v" using e by simp
qed simp

lemma in_block_prefix:
  fixes a b c d a' b' c' d' :: nat
  assumes "a < 256" "b < 256" "c < 256" "d < 256" "a' < 256" "b' < 256" "c' < 256" "d' < 256"
  defines "n \<equiv> ((a * 256 + b) * 256 + c) * 256 + d"
  shows "in_block n ((a', b', c', d'), 8) \<longleftrightarrow> a = a'"
    "in_block n ((a', b', c', d'), 16) \<longleftrightarrow> a = a' \<and> b = b'"
    "in_block n ((a', b', c', d'), 24) \<longleftrightarrow> (a = a' \<and> b = b') \<and> c = c'"
    "in_block n ((a', b', c', d'), 15) \<longleftrightarrow> a = a' \<and> b div 2 = b' div 2"
    "in_block n ((a', b', c', d'), 12) \<longleftrightarrow> a = a' \<and> b div 16 = b' div 16"
    "in_block n ((a', b', c', d'), 10) \<longleftrightarrow> a = a' \<and> b div 64 = b' div 64"
    "in_block n ((a', b', c', d'), 3) \<longleftrightarrow> a div 32 = a' div 32"
proof -
  have lens: "32 - 8 = (24 :: nat)" "32 - 16 = (16 :: nat)" "32 - 24 = (8 :: nat)" "32 - 15 = (17 :: nat)" "32 - 12 = (20 :: nat)"
    "32 - 10 = (22 :: nat)" "32 - 3 = (29 :: nat)" by simp_all
  have halves: "b div 2 < 128" "b' div 2 < 128" "b div 16 < 16" "b' div 16 < 16" "b div 64 < 4" "b' div 64 < 4" using assms by simp_all
  note digits = digit_eq [OF assms(3,7)] digit_eq [OF assms(2,6)] digit_eq [OF halves(1,2)] digit_eq [OF halves(3,4)] digit_eq [OF halves(5,6)]
  show "in_block n ((a', b', c', d'), 8) \<longleftrightarrow> a = a'"
    "in_block n ((a', b', c', d'), 16) \<longleftrightarrow> a = a' \<and> b = b'"
    "in_block n ((a', b', c', d'), 24) \<longleftrightarrow> (a = a' \<and> b = b') \<and> c = c'"
    "in_block n ((a', b', c', d'), 15) \<longleftrightarrow> a = a' \<and> b div 2 = b' div 2"
    "in_block n ((a', b', c', d'), 12) \<longleftrightarrow> a = a' \<and> b div 16 = b' div 16"
    "in_block n ((a', b', c', d'), 10) \<longleftrightarrow> a = a' \<and> b div 64 = b' div 64"
    "in_block n ((a', b', c', d'), 3) \<longleftrightarrow> a div 32 = a' div 32"
    unfolding n_def in_block_def prod.case lens v4_prefixes [OF assms(1-4)] v4_prefixes [OF assms(5-8)] digits by (rule refl)+
qed

text \<open>
  C34: The IPv4 filter is a table. An address is blocked exactly when it lies in one of thirteen reserved blocks: this
  network, the private ones, shared address space, loopback, link-local, protocol assignments, the three documentation
  blocks, benchmarking, and everything from multicast up.
\<close>

theorem blocked_v4_iff_reserved:
  "is_blocked_ip (V4 a b c d) \<longleftrightarrow> (\<exists>block \<in> set RESERVED_V4. in_block (v4_number a b c d) block)"
proof -
  define A B C D where "A = unat a" "B = unat b" "C = unat c" "D = unat d"
  note ABCD = this
  have bounds: "A < 256" "B < 256" "C < 256" "D < 256"
    using unsigned_less [of a, where 'a = nat] unsigned_less [of b, where 'a = nat] unsigned_less [of c, where 'a = nat]
      unsigned_less [of d, where 'a = nat] by (simp_all add: ABCD)
  have eqs: "a = 0 \<longleftrightarrow> A = 0" "a = 10 \<longleftrightarrow> A = 10" "a = 100 \<longleftrightarrow> A = 100" "a = 127 \<longleftrightarrow> A = 127" "a = 169 \<longleftrightarrow> A = 169" "a = 172 \<longleftrightarrow> A = 172"
    "a = 192 \<longleftrightarrow> A = 192" "a = 198 \<longleftrightarrow> A = 198" "a = 203 \<longleftrightarrow> A = 203" "a = 255 \<longleftrightarrow> A = 255" "224 \<le> a \<longleftrightarrow> 224 \<le> A" "a \<le> 239 \<longleftrightarrow> A \<le> 239"
    "b = 0 \<longleftrightarrow> B = 0" "b = 18 \<longleftrightarrow> B = 18" "b = 19 \<longleftrightarrow> B = 19" "b = 51 \<longleftrightarrow> B = 51" "b = 100 \<longleftrightarrow> B = 100" "b = 168 \<longleftrightarrow> B = 168"
    "b = 254 \<longleftrightarrow> B = 254" "b = 255 \<longleftrightarrow> B = 255" "16 \<le> b \<longleftrightarrow> 16 \<le> B" "b \<le> 31 \<longleftrightarrow> B \<le> 31" "64 \<le> b \<longleftrightarrow> 64 \<le> B" "b \<le> 127 \<longleftrightarrow> B \<le> 127"
    "c = 0 \<longleftrightarrow> C = 0" "c = 2 \<longleftrightarrow> C = 2" "c = 100 \<longleftrightarrow> C = 100" "c = 113 \<longleftrightarrow> C = 113" "c = 255 \<longleftrightarrow> C = 255" "d = 0 \<longleftrightarrow> D = 0" "d = 200 \<longleftrightarrow> D = 200"
    "d = 255 \<longleftrightarrow> D = 255"
    by (simp_all add: ABCD word_unat_eq_iff word_le_nat_alt)
  have number: "v4_number a b c d = ((A * 256 + B) * 256 + C) * 256 + D" by (simp add: v4_number_def ABCD)
  have blocks: "(\<exists>block \<in> set RESERVED_V4. in_block (v4_number a b c d) block) \<longleftrightarrow>
      A = 0 \<or> A = 10 \<or> (A = 100 \<and> B div 64 = 1) \<or> A = 127 \<or> (A = 169 \<and> B = 254) \<or> (A = 172 \<and> B div 16 = 1)
      \<or> ((A = 192 \<and> B = 0) \<and> C = 0) \<or> ((A = 192 \<and> B = 0) \<and> C = 2) \<or> (A = 192 \<and> B = 168)
      \<or> (A = 198 \<and> B div 2 = 9) \<or> ((A = 198 \<and> B = 51) \<and> C = 100) \<or> ((A = 203 \<and> B = 0) \<and> C = 113) \<or> A div 32 = 7"
    by (simp only: RESERVED_V4_def in_block_prefix [OF bounds, folded number] list.set bex_simps) (simp add: in_block_prefix [OF bounds, folded number])
  have parts: "B div 64 = 1 \<longleftrightarrow> 64 \<le> B \<and> B \<le> 127" "B div 16 = 1 \<longleftrightarrow> 16 \<le> B \<and> B \<le> 31" "B div 2 = 9 \<longleftrightarrow> B = 18 \<or> B = 19"
    by linarith+
  have top: "A div 32 = 7 \<longleftrightarrow> 224 \<le> A" using bounds(1) by linarith
  have above: "A = 255 \<Longrightarrow> 224 \<le> A" "B = 100 \<Longrightarrow> 64 \<le> B \<and> B \<le> 127" by simp_all
  show ?thesis
  proof
    assume "is_blocked_ip (V4 a b c d)"
    then show "\<exists>block \<in> set RESERVED_V4. in_block (v4_number a b c d) block"
      unfolding blocks parts top is_blocked_ip.simps is_blocked_v4_def v4_is_private_def eqs using above by (elim disjE conjE; simp)
  next
    assume "\<exists>block \<in> set RESERVED_V4. in_block (v4_number a b c d) block"
    then show "is_blocked_ip (V4 a b c d)"
      unfolding blocks parts top is_blocked_ip.simps is_blocked_v4_def v4_is_private_def eqs by (elim disjE conjE; simp)
  qed
qed

section \<open>What a fetch contacts\<close>

text \<open>
  Documented behaviour of the parameters. A serialized URL parses to the same URL; a client, which has no proxy between
  it and the servers, connects to a literal address as it stands, and to the name it overrides at the address of the
  override. Nothing is said of a name the client does not override: it is resolved again, to any address.
\<close>

definition documented :: "Net \<Rightarrow> bool" where
  "documented net \<longleftrightarrow>
     (\<forall>raw u. nt_parse net raw = Inr u \<longrightarrow>
        (\<exists>v. nt_parse net (u_plain u) = Inr v \<and> u_scheme v = u_scheme u \<and> u_host v = u_host u \<and> u_port v = u_port u))
     \<and> (\<forall>hop c u ip t. u_host u = Some (HostIp ip t) \<longrightarrow> nt_contact net hop c u = ip)
     \<and> (\<forall>hop c u. u_host u = Some (HostDomain (cc_host c)) \<longrightarrow> nt_contact net hop c u = fst (cc_address c))"

text \<open>
  The URL names a host in another form than the one that is checked and pinned: in lower case without final dots. The
  parser keeps the final dot of a name.
\<close>

definition unpinned :: "Url \<Rightarrow> bool" where
  "unpinned u \<longleftrightarrow>
     (case u_host u of Some (HostDomain name) \<Rightarrow> to_ascii_lower (trim_dots name) \<noteq> name | _ \<Rightarrow> False)"

definition contact_ok :: "UrlSecurityPolicy \<Rightarrow> contact \<Rightarrow> bool" where
  "contact_ok p x \<longleftrightarrow>
     (case x of (u, ip, port) \<Rightarrow> (u_scheme u = ''http'' \<or> u_scheme u = ''https'')
        \<and> (\<exists>q \<in> set (allowed_ports p). port = Some q) \<and> (unpinned u \<or> \<not> is_blocked_ip ip))"

lemma all_public_Inr: "all_public as = Inr u \<longleftrightarrow> (\<forall>a \<in> set as. \<not> is_blocked_ip (fst a))"
  by (induction as) (auto simp: bind_r_Inr_conv validate_public_ip_def)

lemma validate_addresses_Inr:
  "validate_addresses url as = Inr r \<Longrightarrow>
    resolved_url r = url \<and> addresses r \<noteq> [] \<and> (\<forall>a \<in> set (addresses r). \<not> is_blocked_ip (fst a))"
  by (auto simp: validate_addresses_def Let_def bind_r_Inr_conv all_public_Inr split: if_splits)
    (metis remdups_adj_Nil_iff length_0_conv length_sort)

lemma validate_static_Inr:
  assumes "validate_static net p raw = Inr safe"
  obtains u h where "nt_parse net (trim raw) = Inr u" "u_scheme u = ''http'' \<or> u_scheme u = ''https''"
    "u_host u = Some h" "validate_host h = Inr (safe_host safe)" "u_port u = Some (safe_port safe)"
    "safe_port safe \<in> set (allowed_ports p)" "normalized safe = u_plain u"
  using assms by (auto simp: validate_static_def bind_r_Inr_conv split: sum.splits option.splits)

lemma validate_resolved_Inr:
  assumes "validate_resolved net p hop raw = Inr r"
  obtains safe as where "validate_static net p raw = Inr safe" "validate_addresses safe as = Inr r"
proof -
  obtain safe where safe: "validate_static net p raw = Inr safe"
    using assms by (auto simp: validate_resolved_def bind_r_Inr_conv)
  then obtain as where "validate_addresses safe as = Inr r"
    using assms by (auto simp: validate_resolved_def split: sum.splits)
  with safe show thesis by (rule that)
qed

lemma fetch_hop_contacts:
  assumes "documented net" "fetch_hop net p lims agent hop current reds = (r, sent)"
  shows "length sent \<le> 1 \<and> list_all (contact_ok p) sent"
proof (cases "validate_resolved net p hop current")
  case (Inl e)
  then show ?thesis using assms(2) by (auto simp: fetch_hop_def fetch_url_def)
next
  case (Inr res)
  obtain safe as where safe: "validate_static net p current = Inr safe" and res: "validate_addresses safe as = Inr res"
    using validate_resolved_Inr [OF Inr] .
  note res = validate_addresses_Inr [OF res]
  obtain u h where u: "nt_parse net (trim current) = Inr u" "u_scheme u = ''http'' \<or> u_scheme u = ''https''"
      "u_host u = Some h" "validate_host h = Inr (safe_host safe)" "u_port u = Some (safe_port safe)"
      "safe_port safe \<in> set (allowed_ports p)" "normalized safe = u_plain u"
    using validate_static_Inr [OF safe] .
  obtain v where v: "nt_parse net (u_plain u) = Inr v" "u_scheme v = u_scheme u" "u_host v = u_host u" "u_port v = u_port u"
    using assms(1) u(1) unfolding documented_def by blast
  have host: "unpinned v \<or> \<not> is_blocked_ip (nt_contact net hop c v)" if "cc_host c = safe_host safe" "cc_address c \<in> set (addresses res)" for c
  proof (cases h)
    case (HostDomain name)
    show ?thesis
    proof (cases "to_ascii_lower (trim_dots name) = name")
      case True
      then have "safe_host safe = name" using u(4) HostDomain by (auto simp: validate_host_def Let_def split: if_splits)
      then have "nt_contact net hop c v = fst (cc_address c)"
        using assms(1) v(3) u(3) HostDomain that(1) unfolding documented_def by simp
      then show ?thesis using res that(2) by simp
    next
      case False
      then show ?thesis using v(3) u(3) HostDomain by (simp add: unpinned_def)
    qed
  next
    case (HostIp ip t)
    have "u_host w = Some (HostIp ip t) \<Longrightarrow> nt_contact net hop c w = ip" for w
      using assms(1) unfolding documented_def by blast
    then have "nt_contact net hop c v = ip" using v(3) u(3) HostIp by simp
    then show ?thesis using u(4) HostIp by (auto simp: validate_host_def validate_public_ip_def bind_r_Inr_conv split: if_splits)
  qed
  have "contact_ok p (v, nt_contact net hop c v, u_port v)" if "cc_host c = safe_host safe" "cc_address c \<in> set (addresses res)" for c
    using u(2,5,6) v host [OF that] by (simp add: contact_ok_def)
  then show ?thesis
    using assms(2) Inr res v(1) u(7)
    by (auto simp: fetch_hop_def fetch_url_def client_for_def Let_def split: option.splits sum.splits if_splits list.splits)
qed

lemma fetch_hops_contacts:
  assumes "documented net"
  shows "fetch_hops net p lims agent k hop current reds = (r, sent) \<Longrightarrow> length sent \<le> k \<and> list_all (contact_ok p) sent"
proof (induction k arbitrary: hop current reds r sent)
  case (Suc k)
  obtain x here where here: "fetch_hop net p lims agent hop current reds = (x, here)" by (rule prod.exhaust)
  note ok = fetch_hop_contacts [OF assms here]
  show ?case
  proof (cases x)
    case (Redirected next_url)
    obtain r' later where later: "fetch_hops net p lims agent k (Suc hop) next_url (reds @ [next_url]) = (r', later)"
      by (rule prod.exhaust)
    then have "sent = here @ later" using Suc.prems here Redirected by auto
    then show ?thesis using ok Suc.IH [OF later] by simp
  qed (use Suc.prems here ok in auto)
qed simp

text \<open>What is returned.\<close>

lemma read_body_bound: "length b \<le> limit \<Longrightarrow> limit < u64_max \<Longrightarrow> read_body limit b cs = Inr b' \<Longrightarrow> length b' \<le> limit"
proof (induction limit b cs rule: read_body.induct)
  case (3 limit b c cs)
  obtain b1 where b1: "append_bounded b c limit = Inr b1" "read_body limit b1 cs = Inr b'"
    using 3(4) by (auto simp: bind_r_Inr_conv)
  then have "length b1 \<le> limit"
    using 3(3) usize_saturating_add_exact [of "length b" "length c" limit] by (auto simp: append_bounded_def Let_def split: if_splits)
  then show ?case using 3 b1 by auto
qed auto

definition result_ok :: "SafeFetchLimits \<Rightarrow> SafeFetchResult \<Rightarrow> bool" where
  "result_ok lims r \<longleftrightarrow> length (body r) \<le> max_bytes lims \<and> media_type r \<in> set (allowed_mime lims)"

lemma accept_response_ok:
  "max_bytes lims < u64_max \<Longrightarrow> accept_response lims u reds resp = Inr r \<Longrightarrow> result_ok lims r \<and> redirects r = reds"
  using read_body_bound [of "[]" "max_bytes lims"] by (auto simp: accept_response_def result_ok_def bind_r_Inr_conv)

lemma fetch_hops_result:
  assumes "max_bytes lims < u64_max"
  shows "fetch_hops net p lims agent k hop current reds = (Inr r, sent) \<Longrightarrow> result_ok lims r \<and> length (redirects r) < length reds + k"
proof (induction k arbitrary: hop current reds sent)
  case (Suc k)
  obtain x here where here: "fetch_hop net p lims agent hop current reds = (x, here)" by (rule prod.exhaust)
  show ?case
  proof (cases x)
    case (Final y)
    then obtain u resp where "accept_response lims u reds resp = Inr r"
      using Suc.prems here
      by (auto simp: fetch_hop_def follow_redirect_def Let_def split: sum.splits if_splits option.splits)
    then show ?thesis using accept_response_ok [OF assms] by auto
  next
    case (Redirected next_url)
    obtain r' later where later: "fetch_hops net p lims agent k (Suc hop) next_url (reds @ [next_url]) = (r', later)" by (rule prod.exhaust)
    then have "r' = Inr r" using Suc.prems here Redirected by auto
    then show ?thesis using Suc.IH later by fastforce
  qed
qed simp

text \<open>
  C8: A fetch contacts public addresses, or names it could not pin. The client is the documented one (hypothesis
  \<open>documented\<close>: no proxy, a literal address and an overridden name are contacted as given). Whatever the resolver and the
  servers answer, hop by hop, every request of a fetch goes over http or https to an allowed port, and the address it
  contacts is outside the filter, with one exception: the URL names its host in another form than the pinned one, that is
  with a final dot or in upper case, and then nothing is known of the address. There is at most one request for each
  permitted redirect and one more; a result is within the size limit (below the largest machine integer), of an allowed
  media type, and lists at most the permitted number of redirects.
\<close>

theorem fetch_contacts_public_or_unpinned:
  assumes "documented net" "max_bytes lims < u64_max"
    and "fetch_with_user_agent net p lims raw agent = (r, sent)"
  shows "(\<forall>(u, ip, port) \<in> set sent. (u_scheme u = ''http'' \<or> u_scheme u = ''https'')
        \<and> (\<exists>q \<in> set (allowed_ports p). port = Some q)
        \<and> (is_blocked_ip ip \<longrightarrow> (\<exists>name. u_host u = Some (HostDomain name) \<and> to_ascii_lower (trim_dots name) \<noteq> name)))
    \<and> length sent \<le> Suc (max_redirects lims)
    \<and> (case r of Inl e \<Rightarrow> True | Inr res \<Rightarrow> result_ok lims res \<and> length (redirects res) \<le> max_redirects lims)"
proof -
  have "length sent \<le> Suc (max_redirects lims) \<and> list_all (contact_ok p) sent"
    using assms(3) fetch_hops_contacts [OF assms(1), of p lims agent "Suc (max_redirects lims)" 0 raw "[]" r sent]
    by (auto simp: fetch_with_user_agent_def split: option.splits)
  moreover have "case r of Inl e \<Rightarrow> True | Inr res \<Rightarrow> result_ok lims res \<and> length (redirects res) \<le> max_redirects lims"
    using assms(3) fetch_hops_result [OF assms(2), of net p agent "Suc (max_redirects lims)" 0 raw "[]" _ sent]
    by (auto simp: fetch_with_user_agent_def split: option.splits sum.splits)
  ultimately show ?thesis by (fastforce simp: list_all_iff contact_ok_def unpinned_def split: option.splits Host.splits)
qed

text \<open>Two hosts, the first of which redirects to the second.\<close>

definition sample_url :: "string \<Rightarrow> Url" where
  "sample_url name =
     \<lparr>u_scheme = ''http'', u_username = [], u_password = None, u_host = Some (HostDomain name), u_port = Some 80,
      u_plain = ''http://'' @ name @ ''/''\<rparr>"

definition sample_redirect :: Response where
  "sample_redirect =
     \<lparr>rs_status = 302, rs_location = Some ''http://b.cn/'', rs_content_encoding = None, rs_content_type = None,
      rs_content_length = None, rs_chunks = []\<rparr>"

definition sample_page :: Response where
  "sample_page =
     \<lparr>rs_status = 200, rs_location = None, rs_content_encoding = None, rs_content_type = Some ''Text/HTML; charset=utf-8'',
      rs_content_length = Some 4, rs_chunks = [Inr ''ab'', Inr ''cd'']\<rparr>"

definition sample_net :: "string list \<Rightarrow> Net" where
  "sample_net names =
     \<lparr>nt_parse = (\<lambda>raw. case find (\<lambda>n. ''http://'' @ n @ ''/'' = raw) names of
        Some n \<Rightarrow> Inr (sample_url n) | None \<Rightarrow> Inl ''unknown''),
      nt_join = (\<lambda>u l. Inr l),
      nt_lookup = (\<lambda>hop t h q. Inr [(V4 8 8 8 8, q)]),
      nt_header = (\<lambda>v. None),
      nt_build = (\<lambda>hop c. None),
      nt_contact = (\<lambda>hop c u. case u_host u of
          Some (HostIp ip t) \<Rightarrow> ip
        | Some (HostDomain n) \<Rightarrow> (if n = cc_host c then fst (cc_address c) else V4 127 0 0 1)
        | None \<Rightarrow> V4 127 0 0 1),
      nt_send = (\<lambda>hop c q. Inr (if hop = 0 then sample_redirect else sample_page))\<rparr>"

lemma sample_net_parse: "n \<in> set names \<Longrightarrow> nt_parse (sample_net names) (''http://'' @ n @ ''/'') = Inr (sample_url n)"
proof -
  assume "n \<in> set names"
  then have "find (\<lambda>m. ''http://'' @ m @ ''/'' = ''http://'' @ n @ ''/'') names = Some n"
    by (induction names) auto
  then show ?thesis by (simp add: sample_net_def)
qed

lemma sample_net_parsed: "nt_parse (sample_net names) raw = Inr u \<Longrightarrow> \<exists>n \<in> set names. u = sample_url n"
  by (auto simp: sample_net_def find_Some_iff split: option.splits intro!: nth_mem)

lemma sample_net_simps:
  "nt_join (sample_net names) u l = Inr l" "nt_build (sample_net names) hop c = None"
  "nt_contact (sample_net names) hop c (sample_url n) = (if n = cc_host c then fst (cc_address c) else V4 127 0 0 1)"
  "nt_send (sample_net names) hop c q = Inr (if hop = 0 then sample_redirect else sample_page)"
  "nt_header (sample_net names) v = None" "u_port (sample_url n) = Some 80" "u_plain (sample_url n) = ''http://'' @ n @ ''/''"
  "u_host (sample_url n) = Some (HostDomain n)"
  by (simp_all add: sample_net_def sample_url_def)

lemma sample_limits:
  "Suc (max_redirects fetch_limits_default) = Suc (Suc (Suc (Suc (Suc (Suc 0)))))" "max_redirects fetch_limits_default = 5"
  "request_timeout fetch_limits_default = 20" "connect_timeout fetch_limits_default = 5"
  "max_bytes fetch_limits_default < u64_max"
  by (simp_all add: fetch_limits_default_def u64_max_def)

lemma sample_net_documented: "documented (sample_net names)"
proof -
  have "nt_contact (sample_net names) hop c u = ip" if "u_host u = Some (HostIp ip t)" for hop c u ip t
    using that by (simp add: sample_net_def)
  moreover have "nt_contact (sample_net names) hop c u = fst (cc_address c)" if "u_host u = Some (HostDomain (cc_host c))" for hop c u
    using that by (simp add: sample_net_def)
  moreover have "\<exists>v. nt_parse (sample_net names) (u_plain u) = Inr v \<and> u_scheme v = u_scheme u \<and> u_host v = u_host u \<and> u_port v = u_port u"
    if "nt_parse (sample_net names) raw = Inr u" for raw u
    using sample_net_parsed [OF that] sample_net_parse by (auto simp: sample_net_simps)
  ultimately show ?thesis unfolding documented_def by blast
qed

definition sample_resolved :: "string \<Rightarrow> string \<Rightarrow> ResolvedSafeUrl" where
  "sample_resolved name host =
     \<lparr>resolved_url = \<lparr>normalized = ''http://'' @ name @ ''/'', safe_host = host, safe_port = 80\<rparr>, addresses = [(V4 8 8 8 8, 80)]\<rparr>"

definition sample_client :: "string \<Rightarrow> ClientConfig" where
  "sample_client host = \<lparr>cc_timeout = 20, cc_connect_timeout = 5, cc_host = host, cc_address = (V4 8 8 8 8, 80)\<rparr>"

lemma sample_static_of:
  assumes "n \<in> set names" "raw = ''http://'' @ n @ ''/''" "trim raw = raw" "to_ascii_lower (trim_dots n) = h" "h \<noteq> []" "\<not> blocked_hostname h"
  shows "validate_static (sample_net names) policy_default raw = Inr \<lparr>normalized = raw, safe_host = h, safe_port = 80\<rparr>"
  using sample_net_parse [OF assms(1)] assms(2-6)
  by (simp add: validate_static_def policy_default_def ensure_def validate_host_def Let_def sample_url_def)

lemma sample_resolved_of:
  assumes "validate_static (sample_net names) p raw = Inr \<lparr>normalized = raw, safe_host = h, safe_port = 80\<rparr>"
  shows "validate_resolved (sample_net names) p hop raw
    = Inr \<lparr>resolved_url = \<lparr>normalized = raw, safe_host = h, safe_port = 80\<rparr>, addresses = [(V4 8 8 8 8, 80)]\<rparr>"
proof -
  have "\<not> is_blocked_ip (V4 8 8 8 8)" by (simp add: is_blocked_v4_def v4_is_private_def)
  then have "all_public [(V4 8 8 8 8, 80)] = Inr ()" unfolding all_public_Inr by simp
  moreover have "nt_lookup (sample_net names) hop t h q = Inr [(V4 8 8 8 8, q)]" for t h q by (simp add: sample_net_def)
  ultimately show ?thesis using assms by (simp add: validate_resolved_def validate_addresses_def)
qed

lemma sample_trim:
  "trim ''http://a.cn/'' = ''http://a.cn/''" "trim ''http://b.cn/'' = ''http://b.cn/''" "trim ''http://a.cn./'' = ''http://a.cn./''"
  by (rule trim_literal; simp add: whitespace_literal starts_with_def ends_with_def)+

lemma sample_names:
  "to_ascii_lower (trim_dots ''a.cn'') = ''a.cn''" "to_ascii_lower (trim_dots ''b.cn'') = ''b.cn''" "to_ascii_lower (trim_dots ''a.cn.'') = ''a.cn''"
  "\<not> blocked_hostname ''a.cn''" "\<not> blocked_hostname ''b.cn''"
  by (simp_all add: to_ascii_lower_def trim_dots_def byte_def blocked_hostname_def ends_with_def)

lemma sample_static:
  "validate_static (sample_net [''a.cn'', ''b.cn'']) policy_default ''http://a.cn/''
     = Inr \<lparr>normalized = ''http://a.cn/'', safe_host = ''a.cn'', safe_port = 80\<rparr>"
  "validate_static (sample_net [''a.cn'', ''b.cn'']) policy_default ''http://b.cn/''
     = Inr \<lparr>normalized = ''http://b.cn/'', safe_host = ''b.cn'', safe_port = 80\<rparr>"
  "validate_static (sample_net [''a.cn.'']) policy_default ''http://a.cn./''
     = Inr \<lparr>normalized = ''http://a.cn./'', safe_host = ''a.cn'', safe_port = 80\<rparr>"
proof -
  show "validate_static (sample_net [''a.cn'', ''b.cn'']) policy_default ''http://a.cn/''
      = Inr \<lparr>normalized = ''http://a.cn/'', safe_host = ''a.cn'', safe_port = 80\<rparr>"
    by (rule sample_static_of [of "''a.cn''"]) (simp_all add: sample_trim sample_names)
  show "validate_static (sample_net [''a.cn'', ''b.cn'']) policy_default ''http://b.cn/''
      = Inr \<lparr>normalized = ''http://b.cn/'', safe_host = ''b.cn'', safe_port = 80\<rparr>"
    by (rule sample_static_of [of "''b.cn''"]) (simp_all add: sample_trim sample_names)
  show "validate_static (sample_net [''a.cn.'']) policy_default ''http://a.cn./''
      = Inr \<lparr>normalized = ''http://a.cn./'', safe_host = ''a.cn'', safe_port = 80\<rparr>"
    by (rule sample_static_of [of "''a.cn.''"]) (simp_all add: sample_trim sample_names)
qed

lemma sample_resolves:
  "validate_resolved (sample_net [''a.cn'', ''b.cn'']) policy_default hop ''http://a.cn/'' = Inr (sample_resolved ''a.cn'' ''a.cn'')"
  "validate_resolved (sample_net [''a.cn'', ''b.cn'']) policy_default hop ''http://b.cn/'' = Inr (sample_resolved ''b.cn'' ''b.cn'')"
  "validate_resolved (sample_net [''a.cn.'']) policy_default hop ''http://a.cn./'' = Inr (sample_resolved ''a.cn.'' ''a.cn'')"
  by (simp_all add: sample_resolved_of sample_static sample_resolved_def)

lemma sample_client_for:
  "n \<in> set names \<Longrightarrow> client_for (sample_net names) fetch_limits_default hop (sample_resolved n h) = Inr (sample_client h, sample_url n)"
  by (simp add: client_for_def Let_def sample_resolved_def sample_client_def sample_limits sample_net_simps
      sample_net_parse [of n names, simplified])

lemma sample_media: "media_type_of (Some ''Text/HTML; charset=utf-8'') = Inr ''text/html''"
proof -
  have "trim ''Text/HTML'' = ''Text/HTML''" by (rule trim_literal; simp add: whitespace_literal starts_with_def ends_with_def)
  then show ?thesis by (simp add: media_type_of_def to_ascii_lower_def byte_def char_of_eq_iff take_bit_eq_mod)
qed

lemma sample_read: "1000 < limit \<Longrightarrow> append_bounded [] ''ab'' limit = Inr ''ab'' \<and> append_bounded ''ab'' ''cd'' limit = Inr ''abcd''"
  by (simp add: append_bounded_def Let_def usize_saturating_add_def u64_max_def)

lemma sample_allowed: "''text/html'' \<in> set (allowed_mime fetch_limits_default)" "1000 < max_bytes fetch_limits_default"
  by (simp_all add: fetch_limits_default_def)

lemma sample_body:
  "accept_response fetch_limits_default (sample_url ''b.cn'') reds sample_page
   = Inr \<lparr>final_url = ''http://b.cn/'', media_type = ''text/html'', body = ''abcd'', redirects = reds\<rparr>"
proof -
  have "4 \<le> max_bytes fetch_limits_default" using sample_allowed(2) by linarith
  then show ?thesis
    by (simp add: accept_response_def sample_page_def sample_media sample_read [OF sample_allowed(2)] sample_allowed ensure_def sample_net_simps)
qed

lemma sample_hops:
  "fetch_hop (sample_net [''a.cn'', ''b.cn'']) policy_default fetch_limits_default None 0 ''http://a.cn/'' reds
     = (Redirected ''http://b.cn/'', [(sample_url ''a.cn'', V4 8 8 8 8, Some 80)])"
  "0 < k \<Longrightarrow> fetch_hop (sample_net [''a.cn'', ''b.cn'']) policy_default fetch_limits_default None k ''http://b.cn/'' reds
     = (Final (Inr \<lparr>final_url = ''http://b.cn/'', media_type = ''text/html'', body = ''abcd'', redirects = reds\<rparr>),
        [(sample_url ''b.cn'', V4 8 8 8 8, Some 80)])"
  unfolding fetch_hop_def sample_resolves fetch_url_def sum.case bind_r_simps
  by (simp_all add: sample_client_for sample_client_def Let_def sample_net_simps sample_body sample_limits follow_redirect_def sample_static
      sample_redirect_def) (simp_all add: sample_page_def)

theorem fetch_contacts_public_or_unpinned_witness:
  "case fetch_with_user_agent (sample_net [''a.cn'', ''b.cn'']) policy_default fetch_limits_default ''http://a.cn/'' None of
     (r, sent) \<Rightarrow> list_all (\<lambda>(u, ip, port). \<not> is_blocked_ip ip) sent \<and> length sent = 2
       \<and> r = Inr \<lparr>final_url = ''http://b.cn/'', media_type = ''text/html'', body = ''abcd'', redirects = [''http://b.cn/'']\<rparr>"
proof -
  let ?net = "sample_net [''a.cn'', ''b.cn'']"
  have f: "fetch_with_user_agent ?net policy_default fetch_limits_default ''http://a.cn/'' None
      = (Inr \<lparr>final_url = ''http://b.cn/'', media_type = ''text/html'', body = ''abcd'', redirects = [''http://b.cn/'']\<rparr>,
         [(sample_url ''a.cn'', V4 8 8 8 8, Some 80), (sample_url ''b.cn'', V4 8 8 8 8, Some 80)])"
    by (simp add: fetch_with_user_agent_def sample_limits(1) sample_hops)
  from fetch_contacts_public_or_unpinned [OF sample_net_documented sample_limits(5) f]
  have "\<not> is_blocked_ip (V4 8 8 8 8)" by (simp add: sample_net_simps sample_names)
  then show ?thesis unfolding f by simp
qed

text \<open>
  C26: The pin covers the requested name exactly when the name is in the checked form. The client of a validated URL
  overrides the lower-case name without final dots, and requests the name as the URL has it: the two are the same only
  when the URL's own name is lower case and has no final dot. For a name that ends in a dot the override does not apply,
  and the connection resolves the name again.
\<close>

theorem pin_covers_plain_names:
  assumes "documented net" "validate_resolved net p hop raw = Inr r" "client_for net lims hop r = Inr (c, u)"
    and "u_host u = Some (HostDomain name)"
  shows "cc_host c = name \<longleftrightarrow> to_ascii_lower (trim_dots name) = name"
proof -
  obtain safe as where safe: "validate_static net p raw = Inr safe" "validate_addresses safe as = Inr r"
    using validate_resolved_Inr [OF assms(2)] .
  have url: "resolved_url r = safe" using validate_addresses_Inr [OF safe(2)] by simp
  obtain w h where w: "nt_parse net (trim raw) = Inr w" "u_host w = Some h" "validate_host h = Inr (safe_host safe)"
      "normalized safe = u_plain w"
    using validate_static_Inr [OF safe(1)] .
  have "cc_host c = safe_host safe" "nt_parse net (u_plain w) = Inr u"
    using assms(3) url w(4) by (auto simp: client_for_def Let_def split: list.splits option.splits sum.splits)
  moreover have "u_host u = u_host w" using assms(1) w(1) calculation(2) unfolding documented_def by fastforce
  ultimately show ?thesis
    using w(2,3) assms(4) by (auto simp: validate_host_def Let_def split: if_splits)
qed

lemma sample_dotted_hop:
  "fetch_hop (sample_net [''a.cn.'']) policy_default fetch_limits_default None 0 ''http://a.cn./'' reds
     = (Final (Inl (FetchUrl (Malformed ''unknown''))), [(sample_url ''a.cn.'', V4 127 0 0 1, Some 80)])"
proof -
  have "validate_static (sample_net [''a.cn.'']) policy_default ''http://b.cn/'' = Inl (Malformed ''unknown'')"
    unfolding validate_static_def sample_trim by (simp add: sample_net_def)
  then show ?thesis
    unfolding fetch_hop_def sample_resolves fetch_url_def sum.case bind_r_simps
    by (simp add: sample_client_for sample_client_def Let_def follow_redirect_def sample_limits sample_net_simps sample_redirect_def)
qed

theorem pin_covers_plain_names_witness:
  "cc_host (sample_client ''a.cn'') \<noteq> ''a.cn.''
   \<and> map (\<lambda>(u, ip, q). ip) (snd (fetch (sample_net [''a.cn.'']) policy_default fetch_limits_default ''http://a.cn./'')) = [V4 127 0 0 1]"
proof
  have client: "client_for (sample_net [''a.cn.'']) fetch_limits_default 0 (sample_resolved ''a.cn.'' ''a.cn'')
      = Inr (sample_client ''a.cn'', sample_url ''a.cn.'')"
    by (rule sample_client_for) simp
  have "to_ascii_lower (trim_dots ''a.cn.'') \<noteq> ''a.cn.''" by (simp add: sample_names)
  then show "cc_host (sample_client ''a.cn'') \<noteq> ''a.cn.''"
    using pin_covers_plain_names [OF sample_net_documented sample_resolves(3) client, of "''a.cn.''"] by (simp add: sample_url_def)
next
  show "map (\<lambda>(u, ip, q). ip) (snd (fetch (sample_net [''a.cn.'']) policy_default fetch_limits_default ''http://a.cn./'')) = [V4 127 0 0 1]"
    by (simp add: fetch_def fetch_with_user_agent_def sample_limits(1) sample_dotted_hop)
qed

lemma word_cat8:
  fixes a b :: "8 word"
  shows "ucast (drop_bit 8 (push_bit 8 (ucast a) OR ucast b :: 16 word)) = a" "ucast (push_bit 8 (ucast a) OR ucast b :: 16 word) = b"
proof -
  have "\<not> bit b (8 + n)" for n using bit_imp_le_length [of b "8 + n"] by auto
  then show "ucast (drop_bit 8 (push_bit 8 (ucast a) OR ucast b :: 16 word)) = a" "ucast (push_bit 8 (ucast a) OR ucast b :: 16 word) = b"
    by (auto intro!: bit_word_eqI simp: bit_simps)
qed

text \<open>
  The IPv6 filter and embedded IPv4. A mapped address is blocked exactly when the IPv4 address in it is. The other
  forms that carry an IPv4 address are not looked into: no address of the NAT64 prefix or of 6to4 is blocked, and of the
  compatible ones only the unspecified and the loopback address.
\<close>

theorem v6_filter_on_embedded_v4:
  "(is_blocked_ip (V6 0 0 0 0 0 0xffff (push_bit 8 (ucast a) OR ucast b) (push_bit 8 (ucast c) OR ucast d)) \<longleftrightarrow> is_blocked_ip (V4 a b c d))
   \<and> \<not> is_blocked_ip (V6 0x64 0xff9b 0 0 0 0 x y)
   \<and> \<not> is_blocked_ip (V6 0x2002 x y s3 s4 s5 s6 s7)
   \<and> (is_blocked_ip (V6 0 0 0 0 0 0 x y) \<longleftrightarrow> x = 0 \<and> (y = 0 \<or> y = 1))"
proof (intro conjI)
  show "is_blocked_ip (V6 0 0 0 0 0 0xffff (push_bit 8 (ucast a) OR ucast b) (push_bit 8 (ucast c) OR ucast d)) \<longleftrightarrow> is_blocked_ip (V4 a b c d)"
    unfolding is_blocked_ip.simps word_cat8 by simp
  show "\<not> is_blocked_ip (V6 0x64 0xff9b 0 0 0 0 x y)" by simp
  show "\<not> is_blocked_ip (V6 0x2002 x y s3 s4 s5 s6 s7)" by simp
  show "is_blocked_ip (V6 0 0 0 0 0 0 x y) \<longleftrightarrow> x = 0 \<and> (y = 0 \<or> y = 1)" by auto
qed

end
