(* ===== verification/Protocol_Frame.thy ===== *)
theory Protocol_Frame
  imports Tdx_Codec Json
begin

text \<open>
  The framing of the worker channel, \<open>crates/protocol/src/lib.rs\<close>: a message is its JSON text behind a
  little-endian length of four bytes. A reader holds the bytes that are still to come and what ends them; a writer may
  run out of room in the middle of a frame. Printing and parsing the text are parameters. Main facts: what was written is
  read back, in order; a stream cut anywhere yields the whole frames before the cut and never a message that was not sent;
  a cut inside a header cannot be told from a clean end.
\<close>

section \<open>Messages\<close>

definition PROTOCOL_VERSION :: nat where "PROTOCOL_VERSION = 1"

definition MAX_FRAME_BYTES :: nat where "MAX_FRAME_BYTES = 8 * 1024 * 1024"

record RequestEnvelope =
  rq_protocol_version :: nat
  rq_request_id :: string
  rq_kind :: string
  rq_payload :: json
  rq_deadline_ms :: "nat option"
  rq_cancellation_id :: "string option"

record ErrorBody =
  eb_code :: string
  eb_message :: string
  eb_retryable :: bool
  eb_details :: "json option"

record ResponseEnvelope =
  re_protocol_version :: nat
  re_request_id :: string
  re_kind :: string
  re_ok :: bool
  re_payload :: json
  re_error :: "ErrorBody option"

definition success :: "RequestEnvelope \<Rightarrow> json \<Rightarrow> ResponseEnvelope" where
  "success q payload =
     \<lparr>re_protocol_version = PROTOCOL_VERSION, re_request_id = rq_request_id q, re_kind = rq_kind q, re_ok = True,
      re_payload = payload, re_error = None\<rparr>"

definition failure :: "RequestEnvelope \<Rightarrow> string \<Rightarrow> string \<Rightarrow> bool \<Rightarrow> ResponseEnvelope" where
  "failure q code message retryable =
     \<lparr>re_protocol_version = PROTOCOL_VERSION, re_request_id = rq_request_id q, re_kind = rq_kind q, re_ok = False,
      re_payload = JNull,
      re_error = Some \<lparr>eb_code = code, eb_message = message, eb_retryable = retryable, eb_details = None\<rparr>\<rparr>"

section \<open>Reading\<close>

datatype IoError = UnexpectedEof | OtherIo string

datatype FrameError = FrameIo IoError | FrameEmpty | FrameOversized nat nat | FrameJson string

record Reader =
  rd_bytes :: bytes
  rd_fail :: "string option"

definition read_exact :: "nat \<Rightarrow> Reader \<Rightarrow> (bytes, IoError) result \<times> Reader" where
  "read_exact n rd =
     (if n \<le> length (rd_bytes rd) then (Inr (take n (rd_bytes rd)), rd\<lparr>rd_bytes := drop n (rd_bytes rd)\<rparr>)
      else (Inl (case rd_fail rd of None \<Rightarrow> UnexpectedEof | Some e \<Rightarrow> OtherIo e), rd\<lparr>rd_bytes := []\<rparr>))"

definition read_frame :: "(bytes \<Rightarrow> ('a, string) result) \<Rightarrow> Reader \<Rightarrow> ('a option, FrameError) result \<times> Reader" where
  "read_frame parse rd =
     (case read_exact 4 rd of
        (Inl UnexpectedEof, rd1) \<Rightarrow> (Inr None, rd1)
      | (Inl (OtherIo e), rd1) \<Rightarrow> (Inl (FrameIo (OtherIo e)), rd1)
      | (Inr header, rd1) \<Rightarrow>
          (let n = read_u32 header 0
           in if n = 0 then (Inl FrameEmpty, rd1)
              else if MAX_FRAME_BYTES < n then (Inl (FrameOversized n MAX_FRAME_BYTES), rd1)
              else (case read_exact n rd1 of
                  (Inl e, rd2) \<Rightarrow> (Inl (FrameIo e), rd2)
                | (Inr bs, rd2) \<Rightarrow>
                    (case parse bs of Inl e \<Rightarrow> (Inl (FrameJson e), rd2) | Inr v \<Rightarrow> (Inr (Some v), rd2)))))"

lemma read_exact_length: "read_exact n rd = (Inr b, rd') \<Longrightarrow> length (rd_bytes rd') + n = length (rd_bytes rd)"
  by (auto simp: read_exact_def split: if_splits)

lemma read_frame_shorter: "read_frame parse rd = (Inr (Some v), rd') \<Longrightarrow> length (rd_bytes rd') < length (rd_bytes rd)"
  by (auto simp: read_frame_def Let_def split: prod.splits sum.splits IoError.splits if_splits dest!: read_exact_length)

text \<open>The loop of a reader: messages until the end of the stream or the first error.\<close>

function read_frames :: "(bytes \<Rightarrow> ('a, string) result) \<Rightarrow> Reader \<Rightarrow> 'a list \<times> FrameError option" where
  "read_frames parse rd =
     (case read_frame parse rd of
        (Inl e, rd1) \<Rightarrow> ([], Some e)
      | (Inr None, rd1) \<Rightarrow> ([], None)
      | (Inr (Some v), rd1) \<Rightarrow> (case read_frames parse rd1 of (vs, e) \<Rightarrow> (v # vs, e)))"
  by pat_completeness auto
termination
  by (relation "measure (\<lambda>(parse, rd). length (rd_bytes rd))") (auto intro: read_frame_shorter [OF sym])

declare read_frames.simps [simp del]

section \<open>Writing\<close>

text \<open>A writer takes \<open>wr_room\<close> more bytes, if that is bounded, and then fails.\<close>

record Writer =
  wr_out :: bytes
  wr_room :: "nat option"
  wr_flush :: "string option"

definition write_all :: "bytes \<Rightarrow> Writer \<Rightarrow> (unit, FrameError) result \<times> Writer" where
  "write_all bs w =
     (case wr_room w of
        None \<Rightarrow> (Inr (), w\<lparr>wr_out := wr_out w @ bs\<rparr>)
      | Some n \<Rightarrow>
          if length bs \<le> n then (Inr (), w\<lparr>wr_out := wr_out w @ bs, wr_room := Some (n - length bs)\<rparr>)
          else (Inl (FrameIo (OtherIo ''write'')), w\<lparr>wr_out := wr_out w @ take n bs, wr_room := Some 0\<rparr>))"

definition flush :: "Writer \<Rightarrow> (unit, FrameError) result" where
  "flush w = (case wr_flush w of None \<Rightarrow> Inr () | Some e \<Rightarrow> Inl (FrameIo (OtherIo e)))"

definition write_frame :: "('a \<Rightarrow> (bytes, string) result) \<Rightarrow> Writer \<Rightarrow> 'a \<Rightarrow> (unit, FrameError) result \<times> Writer" where
  "write_frame to_json w v =
     (case to_json v of
        Inl e \<Rightarrow> (Inl (FrameJson e), w)
      | Inr bs \<Rightarrow>
          if bs = [] then (Inl FrameEmpty, w)
          else if MAX_FRAME_BYTES < length bs then (Inl (FrameOversized (length bs) MAX_FRAME_BYTES), w)
          else (case write_all (le32 (length bs)) w of
              (Inl e, w1) \<Rightarrow> (Inl e, w1)
            | (Inr _, w1) \<Rightarrow>
                (case write_all bs w1 of (Inl e, w2) \<Rightarrow> (Inl e, w2) | (Inr _, w2) \<Rightarrow> (flush w2, w2))))"

text \<open>
  A caller that writes its messages one after the other and stops at the first that fails: the later ones are not
  attempted, and of the failing one a prefix of the bytes may have been written.
\<close>

fun write_frames :: "('a \<Rightarrow> (bytes, string) result) \<Rightarrow> Writer \<Rightarrow> 'a list \<Rightarrow> (unit, FrameError) result \<times> Writer" where
  "write_frames to_json w [] = (Inr (), w)"
| "write_frames to_json w (v # vs) =
     (case write_frame to_json w v of (Inl e, w1) \<Rightarrow> (Inl e, w1) | (Inr _, w1) \<Rightarrow> write_frames to_json w1 vs)"

section \<open>The bytes on the wire\<close>

definition frame :: "bytes \<Rightarrow> bytes" where
  "frame bs = le32 (length bs) @ bs"

definition sendable :: "bytes \<Rightarrow> bool" where
  "sendable bs \<longleftrightarrow> 0 < length bs \<and> length bs \<le> MAX_FRAME_BYTES"

definition wire :: "('a \<Rightarrow> (bytes, string) result) \<Rightarrow> 'a list \<Rightarrow> bytes" where
  "wire to_json vs = concat (map (\<lambda>v. case to_json v of Inl e \<Rightarrow> [] | Inr bs \<Rightarrow> frame bs) vs)"

definition writable :: "('a \<Rightarrow> (bytes, string) result) \<Rightarrow> 'a \<Rightarrow> bool" where
  "writable to_json v \<longleftrightarrow> (case to_json v of Inl e \<Rightarrow> False | Inr bs \<Rightarrow> sendable bs)"

lemma wire_simps [simp]:
  "wire to_json [] = []"
  "wire to_json (v # vs) = (case to_json v of Inl e \<Rightarrow> [] | Inr bs \<Rightarrow> frame bs) @ wire to_json vs"
  by (simp_all add: wire_def)

lemma frame_header: "sendable bs \<Longrightarrow> read_u32 (le32 (length bs)) 0 = length bs"
  using read_le32 [of "length bs" "[]" "[]"] by (simp add: sendable_def MAX_FRAME_BYTES_def)

lemma length_frame [simp]: "length (frame bs) = 4 + length bs"
  by (simp add: frame_def)

lemma read_whole_frame:
  assumes "sendable bs" "parse bs = Inr v"
  shows "read_frame parse \<lparr>rd_bytes = frame bs @ rest, rd_fail = f\<rparr> = (Inr (Some v), \<lparr>rd_bytes = rest, rd_fail = f\<rparr>)"
  using frame_header [OF assms(1)] assms
  by (simp add: read_frame_def read_exact_def frame_def sendable_def)

lemma read_cut_frame:
  assumes "sendable bs" "n < length (frame bs)"
  shows "read_frame parse \<lparr>rd_bytes = take n (frame bs), rd_fail = None\<rparr>
    = (if n < 4 then Inr None else Inl (FrameIo UnexpectedEof), \<lparr>rd_bytes = [], rd_fail = None\<rparr>)"
proof (cases "n < 4")
  case True
  then show ?thesis by (simp add: read_frame_def read_exact_def frame_def)
next
  case False
  then have "take n (frame bs) = le32 (length bs) @ take (n - 4) bs" by (simp add: frame_def)
  moreover have "n - 4 < length bs" using False assms(2) by simp
  ultimately show ?thesis
    using frame_header [OF assms(1)] assms(1) False by (simp add: read_frame_def read_exact_def sendable_def)
qed

lemma read_nothing: "read_frames parse \<lparr>rd_bytes = [], rd_fail = None\<rparr> = ([], None)"
  by (simp add: read_frames.simps read_frame_def read_exact_def)

text \<open>How a stream that is cut after \<open>n\<close> bytes reads.\<close>

definition reads_as :: "('a \<Rightarrow> (bytes, string) result) \<Rightarrow> 'a list \<Rightarrow> nat \<Rightarrow> 'a list \<times> FrameError option \<Rightarrow> bool" where
  "reads_as to_json vs n got \<longleftrightarrow>
     (\<exists>k \<le> length vs. fst got = take k vs
        \<and> length (wire to_json (take k vs)) \<le> n
        \<and> (k < length vs \<longrightarrow> n < length (wire to_json (take (Suc k) vs)))
        \<and> snd got = (if k < length vs \<and> length (wire to_json (take k vs)) + 4 \<le> n then Some (FrameIo UnexpectedEof) else None))"

lemma read_cut_wire:
  assumes "\<And>v bs. to_json v = Inr bs \<Longrightarrow> parse bs = Inr v"
  shows "list_all (writable to_json) vs \<Longrightarrow> n \<le> length (wire to_json vs)
    \<Longrightarrow> reads_as to_json vs n (read_frames parse \<lparr>rd_bytes = take n (wire to_json vs), rd_fail = None\<rparr>)"
proof (induction vs arbitrary: n)
  case Nil
  then show ?case by (simp add: reads_as_def read_nothing)
next
  case (Cons v vs)
  obtain bs where bs: "to_json v = Inr bs" "sendable bs"
    using Cons.prems(1) by (auto simp: writable_def split: sum.splits)
  show ?case
  proof (cases "n < length (frame bs)")
    case True
    then have "read_frames parse \<lparr>rd_bytes = take n (wire to_json (v # vs)), rd_fail = None\<rparr>
        = ([], if n < 4 then None else Some (FrameIo UnexpectedEof))"
      using read_cut_frame [OF bs(2), of n parse] bs(1) by (subst read_frames.simps) simp
    then show ?thesis using True bs by (auto simp: reads_as_def intro!: exI [of _ 0])
  next
    case False
    define m where "m = n - length (frame bs)"
    have bytes: "take n (wire to_json (v # vs)) = frame bs @ take m (wire to_json vs)"
      using False bs(1) by (simp add: m_def)
    obtain us e where rest: "read_frames parse \<lparr>rd_bytes = take m (wire to_json vs), rd_fail = None\<rparr> = (us, e)"
      by (rule prod.exhaust)
    then have "read_frames parse \<lparr>rd_bytes = take n (wire to_json (v # vs)), rd_fail = None\<rparr> = (v # us, e)"
      unfolding bytes using read_whole_frame [of bs parse v, OF bs(2) assms [OF bs(1)]] by (subst read_frames.simps) simp
    moreover have "reads_as to_json vs m (us, e)"
      using Cons.IH [of m] Cons.prems bs(1) False unfolding rest by (auto simp: m_def)
    then obtain k where "k \<le> length vs" "us = take k vs" "length (wire to_json (take k vs)) \<le> m"
        "k < length vs \<longrightarrow> m < length (wire to_json (take (Suc k) vs))"
        "e = (if k < length vs \<and> length (wire to_json (take k vs)) + 4 \<le> m then Some (FrameIo UnexpectedEof) else None)"
      by (auto simp: reads_as_def)
    ultimately show ?thesis
      using False bs(1) unfolding reads_as_def
      by (intro exI [of _ "Suc k"]) (auto simp: m_def)
  qed
qed

text \<open>What a writer leaves behind, whether it failed or not, is a prefix of the frames of the messages before the failure.\<close>

lemma write_all_prefix:
  "write_all bs w = (r, w') \<Longrightarrow> \<exists>n \<le> length bs. wr_out w' = wr_out w @ take n bs \<and> (r = Inr () \<longrightarrow> n = length bs)"
proof (cases "wr_room w")
  case (Some room)
  assume "write_all bs w = (r, w')"
  then show ?thesis using Some by (cases "length bs \<le> room") (auto simp: write_all_def intro!: exI [of _ "min room (length bs)"])
qed (auto simp: write_all_def)

lemma take_frame: "n \<le> length bs \<Longrightarrow> le32 (length bs) @ take n bs = take (4 + n) (frame bs)"
  by (simp add: frame_def)

lemma write_frame_prefix:
  assumes "write_frame to_json w v = (r, w')"
  shows "(r = Inr () \<longrightarrow> writable to_json v)
    \<and> (\<exists>n \<le> length (wire to_json [v]). wr_out w' = wr_out w @ take n (wire to_json [v]) \<and> (r = Inr () \<longrightarrow> n = length (wire to_json [v]))
        \<and> (0 < n \<longrightarrow> writable to_json v))"
proof (cases "to_json v")
  case (Inl e)
  then show ?thesis using assms by (auto simp: write_frame_def)
next
  case (Inr bs)
  show ?thesis
  proof (cases "sendable bs")
    case False
    then have "w' = w \<and> r \<noteq> Inr ()" using assms Inr by (auto simp: write_frame_def sendable_def split: if_splits)
    then show ?thesis by auto
  next
    case True
    then have bs: "bs \<noteq> []" "\<not> MAX_FRAME_BYTES < length bs" by (auto simp: sendable_def)
    obtain r1 w1 where w1: "write_all (le32 (length bs)) w = (r1, w1)" by (rule prod.exhaust)
    obtain n1 where n1: "n1 \<le> 4" "wr_out w1 = wr_out w @ take n1 (le32 (length bs))" "r1 = Inr () \<longrightarrow> n1 = 4"
      using write_all_prefix [OF w1] by auto
    have wire: "wire to_json [v] = frame bs" "writable to_json v" using Inr True by (simp_all add: writable_def)
    show ?thesis
    proof (cases r1)
      case (Inl e)
      then have "w' = w1 \<and> r \<noteq> Inr ()" using assms Inr bs w1 \<open>to_json v = Inr bs\<close> by (auto simp: write_frame_def)
      moreover have "take n1 (le32 (length bs)) = take n1 (frame bs)" using n1(1) by (simp add: frame_def)
      ultimately show ?thesis using n1 wire by (intro conjI exI [of _ n1]) auto
    next
      case (Inr u)
      obtain r2 w2 where w2: "write_all bs w1 = (r2, w2)" by (rule prod.exhaust)
      obtain n2 where n2: "n2 \<le> length bs" "wr_out w2 = wr_out w1 @ take n2 bs" "r2 = Inr () \<longrightarrow> n2 = length bs"
        using write_all_prefix [OF w2] by auto
      have "w' = w2 \<and> (r = Inr () \<longrightarrow> r2 = Inr ())"
        using assms Inr bs w1 w2 \<open>to_json v = Inr bs\<close> by (cases r2) (auto simp: write_frame_def)
      moreover have "wr_out w2 = wr_out w @ take (4 + n2) (frame bs)"
        using n1(2,3) n2(2) Inr take_frame [OF n2(1)] by simp
      ultimately show ?thesis using n2(1,3) wire by (intro conjI exI [of _ "4 + n2"]) auto
    qed
  qed
qed

lemma write_frames_prefix:
  "write_frames to_json w vs = (r, w') \<Longrightarrow>
    \<exists>us n. (\<exists>k. us = take k vs) \<and> list_all (writable to_json) us \<and> n \<le> length (wire to_json us)
      \<and> wr_out w' = wr_out w @ take n (wire to_json us) \<and> (r = Inr () \<longrightarrow> us = vs \<and> n = length (wire to_json vs))"
proof (induction vs arbitrary: w)
  case Nil
  then show ?case by (intro exI [of _ "[]"] exI [of _ 0]) auto
next
  case (Cons v vs)
  obtain r1 w1 where w1: "write_frame to_json w v = (r1, w1)" by (rule prod.exhaust)
  note pre = write_frame_prefix [OF w1]
  show ?case
  proof (cases r1)
    case (Inl e)
    then have "r = Inl e" "w' = w1" using Cons.prems w1 by auto
    obtain n where n: "n \<le> length (wire to_json [v])" "wr_out w1 = wr_out w @ take n (wire to_json [v])" "0 < n \<longrightarrow> writable to_json v"
      using pre by blast
    show ?thesis
    proof (cases "n = 0")
      case True
      then show ?thesis using n \<open>r = Inl e\<close> \<open>w' = w1\<close> by (intro exI [of _ "[]"] exI [of _ 0]) auto
    next
      case False
      have "\<exists>k. [v] = take k (v # vs)" by (rule exI [of _ 1]) simp
      then show ?thesis using False n \<open>r = Inl e\<close> \<open>w' = w1\<close> by (intro exI [of _ "[v]"] exI [of _ n]) auto
    qed
  next
    case (Inr u)
    then have rest: "write_frames to_json w1 vs = (r, w')" using Cons.prems w1 by auto
    have v: "writable to_json v" "wr_out w1 = wr_out w @ wire to_json [v]" using pre Inr by auto
    obtain us n k where us: "us = take k vs" "list_all (writable to_json) us" "n \<le> length (wire to_json us)"
        "wr_out w' = wr_out w1 @ take n (wire to_json us)" "r = Inr () \<longrightarrow> us = vs \<and> n = length (wire to_json vs)"
      using Cons.IH [OF rest] by blast
    have "\<exists>j. v # us = take j (v # vs)" by (rule exI [of _ "Suc k"]) (simp add: us(1))
    then show ?thesis
      using us(2-5) v by (intro exI [of _ "v # us"] exI [of _ "length (wire to_json [v]) + n"]) auto
  qed
qed

lemma wire_mono: "k \<le> j \<Longrightarrow> length (wire to_json (take k vs)) \<le> length (wire to_json (take j vs))"
proof -
  assume "k \<le> j"
  then have "take j vs = take k vs @ drop k (take j vs)" by (metis append_take_drop_id min.absorb1 take_take)
  then show ?thesis by (metis le_add1 length_append map_append concat_append wire_def)
qed

lemma wire_grows:
  assumes "list_all (writable to_json) vs" "k < length vs"
  shows "length (wire to_json (take k vs)) + 4 < length (wire to_json (take (Suc k) vs))"
proof -
  obtain bs where "to_json (vs ! k) = Inr bs" "sendable bs"
    using assms by (cases "to_json (vs ! k)") (auto simp: list_all_length writable_def)
  then show ?thesis
    using assms(2) by (simp add: take_Suc_conv_app_nth wire_def sendable_def)
qed

text \<open>
  C25: Messages survive the channel. Whatever the writer did, failing or not, the reader of the bytes it left gets messages
  that were sent, from the first on and in their order; when every write succeeded it gets them all and then a clean end.
\<close>

theorem frames_roundtrip:
  assumes "\<And>v bs. to_json v = Inr bs \<Longrightarrow> parse bs = Inr v"
    and "write_frames to_json \<lparr>wr_out = [], wr_room = room, wr_flush = fl\<rparr> vs = (r, w)"
    and "read_frames parse \<lparr>rd_bytes = wr_out w, rd_fail = None\<rparr> = (got, e)"
  shows "(\<exists>k. got = take k vs) \<and> (r = Inr () \<longrightarrow> got = vs \<and> e = None)"
proof -
  obtain us n k where us: "us = take k vs" "list_all (writable to_json) us" "n \<le> length (wire to_json us)"
      "wr_out w = take n (wire to_json us)" "r = Inr () \<longrightarrow> us = vs \<and> n = length (wire to_json vs)"
    using write_frames_prefix [OF assms(2)] unfolding Writer.simps append_Nil by blast
  have "reads_as to_json us n (got, e)"
    using read_cut_wire [of to_json parse, OF assms(1) us(2,3)] assms(3) unfolding us(4) by simp
  then obtain j where j: "j \<le> length us" "got = take j us" "j < length us \<longrightarrow> n < length (wire to_json (take (Suc j) us))"
      "e = (if j < length us \<and> length (wire to_json (take j us)) + 4 \<le> n then Some (FrameIo UnexpectedEof) else None)"
    by (auto simp: reads_as_def)
  have part: "\<exists>k. got = take k vs" unfolding j(2) us(1) take_take by blast
  have "j = length us" if "r = Inr ()"
  proof (rule ccontr)
    assume "j \<noteq> length us"
    then have "n < length (wire to_json (take (Suc j) us))" using j(1,3) by simp
    also have "\<dots> \<le> length (wire to_json (take (length us) us))" using \<open>j \<noteq> length us\<close> j(1) by (intro wire_mono) simp
    finally show False using that us(5) by simp
  qed
  then have "r = Inr () \<longrightarrow> got = vs \<and> e = None" using j(2,4) us(5) by simp
  with part show ?thesis by blast
qed

theorem frames_roundtrip_witness:
  "\<exists>w. write_frames Inr \<lparr>wr_out = [], wr_room = Some 11, wr_flush = None\<rparr> [[1], [2, 3]] = (Inr (), w)
     \<and> read_frames Inr \<lparr>rd_bytes = wr_out w, rd_fail = None\<rparr> = ([[1], [2, 3]], None)"
proof -
  obtain w where w: "write_frames Inr \<lparr>wr_out = [], wr_room = Some 11, wr_flush = None\<rparr> [[1], [2, 3]] = (Inr (), w)"
    by (simp add: write_frame_def write_all_def flush_def MAX_FRAME_BYTES_def)
  obtain got e where got: "read_frames Inr \<lparr>rd_bytes = wr_out w, rd_fail = None\<rparr> = (got, e)" by (rule prod.exhaust)
  then have "got = [[1], [2, 3]] \<and> e = None" using frames_roundtrip [of Inr Inr, OF _ w got] by simp
  then show ?thesis using w got by blast
qed

text \<open>
  C35: A cut stream. When a stream of sent messages is cut after any number of bytes, the reader gets the messages whose
  frames are whole, and reports an unexpected end exactly when four bytes or more of the next frame are there. One to three
  bytes of a header are read as a clean end.
\<close>

theorem cut_stream_reads_whole_frames:
  assumes "\<And>v bs. to_json v = Inr bs \<Longrightarrow> parse bs = Inr v" "list_all (writable to_json) vs"
    and "k \<le> length vs" "length (wire to_json (take k vs)) \<le> n" "k < length vs \<Longrightarrow> n < length (wire to_json (take (Suc k) vs))"
    and "n \<le> length (wire to_json vs)"
  shows "read_frames parse \<lparr>rd_bytes = take n (wire to_json vs), rd_fail = None\<rparr>
    = (take k vs, if length (wire to_json (take k vs)) + 4 \<le> n then Some (FrameIo UnexpectedEof) else None)"
proof -
  obtain got e where got: "read_frames parse \<lparr>rd_bytes = take n (wire to_json vs), rd_fail = None\<rparr> = (got, e)" by (rule prod.exhaust)
  have "reads_as to_json vs n (got, e)" using read_cut_wire [of to_json parse, OF assms(1,2,6)] unfolding got .
  then obtain j where j: "j \<le> length vs" "got = take j vs" "length (wire to_json (take j vs)) \<le> n"
      "j < length vs \<longrightarrow> n < length (wire to_json (take (Suc j) vs))"
      "e = (if j < length vs \<and> length (wire to_json (take j vs)) + 4 \<le> n then Some (FrameIo UnexpectedEof) else None)"
    by (auto simp: reads_as_def)
  have "\<not> j < k"
  proof
    assume "j < k"
    then have "n < length (wire to_json (take (Suc j) vs))" using j(4) assms(3) by simp
    also have "\<dots> \<le> length (wire to_json (take k vs))" using \<open>j < k\<close> by (intro wire_mono) simp
    finally show False using assms(4) by simp
  qed
  moreover have "\<not> k < j"
  proof
    assume "k < j"
    then have "n < length (wire to_json (take (Suc k) vs))" using assms(5) j(1) by simp
    also have "\<dots> \<le> length (wire to_json (take j vs))" using \<open>k < j\<close> by (intro wire_mono) simp
    finally show False using j(3) by simp
  qed
  ultimately have "j = k" by simp
  moreover have "k = length vs \<Longrightarrow> \<not> length (wire to_json (take k vs)) + 4 \<le> n" using assms(6) by auto
  ultimately show ?thesis using got j(2,5) assms(3) by auto
qed

theorem cut_stream_reads_whole_frames_witness:
  "read_frames Inr \<lparr>rd_bytes = take 7 (wire Inr [[1], [2, 3]]), rd_fail = None\<rparr> = ([[1]], None)
   \<and> read_frames Inr \<lparr>rd_bytes = take 9 (wire Inr [[1], [2, 3]]), rd_fail = None\<rparr> = ([[1]], Some (FrameIo UnexpectedEof))"
  using cut_stream_reads_whole_frames [of Inr Inr "[[1], [2, 3]]" 1 7] cut_stream_reads_whole_frames [of Inr Inr "[[1], [2, 3]]" 1 9]
  by (simp add: writable_def sendable_def MAX_FRAME_BYTES_def)

end
