(* ===== verification/Engine_Worker.thy ===== *)
theory Engine_Worker
  imports Protocol_Frame "HOL-Library.Multiset"
begin

text \<open>
  The engine process, \<open>crates/engine/src/main.rs\<close>: one loop reads requests, refuses a request id it has seen
  lately, serves shutdown and cancellation itself and starts a task for everything else; tasks run side by side under 256
  permits and write their own responses. The worker is a record of what the loop and the tasks share, and a run of it is a
  sequence of events in any order: a request read, a waiting request admitted, a task ended, a response written. What
  the services behind \<open>Engine::dispatch\<close> may return and which responses the writer takes are parameters. Main facts: the window recalls
  exactly the last ids it accepted; in every interleaving each request is in exactly one place and is answered at most once,
  under its own id; only a cancellation that was asked for cancels.
\<close>

section \<open>The replay window\<close>

record ReplayWindow =
  rw_capacity :: nat
  rw_order :: "string list"
  rw_seen :: "string set"

definition replay_new :: "nat \<Rightarrow> ReplayWindow" where
  "replay_new n = \<lparr>rw_capacity = max n 1, rw_order = [], rw_seen = {}\<rparr>"

definition replay_insert :: "ReplayWindow \<Rightarrow> string \<Rightarrow> ReplayWindow \<times> bool" where
  "replay_insert w i =
     (if i \<in> rw_seen w then (w, False)
      else let w1 = w\<lparr>rw_seen := insert i (rw_seen w), rw_order := rw_order w @ [i]\<rparr>
        in (if rw_capacity w1 < length (rw_order w1)
            then (case rw_order w1 of
                [] \<Rightarrow> w1
              | expired # kept \<Rightarrow> w1\<lparr>rw_order := kept, rw_seen := rw_seen w1 - {expired}\<rparr>)
            else w1, True))"

text \<open>A window that has been offered ids, and the ids it accepted, oldest first.\<close>

fun replay_all :: "ReplayWindow \<Rightarrow> string list \<Rightarrow> ReplayWindow \<times> string list" where
  "replay_all w [] = (w, [])"
| "replay_all w (i # is) =
     (case replay_insert w i of (w1, fresh) \<Rightarrow>
        (case replay_all w1 is of (w2, accepted) \<Rightarrow> (w2, if fresh then i # accepted else accepted)))"

definition last_n :: "nat \<Rightarrow> 'a list \<Rightarrow> 'a list" where
  "last_n n xs = drop (length xs - n) xs"

definition window_holds :: "ReplayWindow \<Rightarrow> string list \<Rightarrow> bool" where
  "window_holds w accepted \<longleftrightarrow>
     0 < rw_capacity w \<and> rw_order w = last_n (rw_capacity w) accepted \<and> rw_seen w = set (rw_order w) \<and> distinct (rw_order w)"

lemma last_n_snoc: "0 < n \<Longrightarrow> last_n n (xs @ [x]) = (if length (last_n n xs) < n then last_n n xs else tl (last_n n xs)) @ [x]"
  by (auto simp: last_n_def tl_drop Suc_diff_le drop_Suc)

lemma replay_insert_holds:
  assumes "window_holds w accepted" "replay_insert w i = (w', fresh)"
  shows "fresh \<longleftrightarrow> i \<notin> set (last_n (rw_capacity w) accepted)"
    "window_holds w' (if fresh then accepted @ [i] else accepted)" "rw_capacity w' = rw_capacity w"
proof -
  have le: "length (rw_order w) \<le> rw_capacity w" using assms(1) by (simp add: window_holds_def last_n_def)
  show fresh: "fresh \<longleftrightarrow> i \<notin> set (last_n (rw_capacity w) accepted)"
    using assms by (auto simp: window_holds_def replay_insert_def Let_def split: if_splits)
  show "rw_capacity w' = rw_capacity w"
    using assms(2) by (auto simp: replay_insert_def Let_def split: if_splits list.splits)
  show "window_holds w' (if fresh then accepted @ [i] else accepted)"
  proof (cases "i \<in> rw_seen w")
    case True
    then show ?thesis using assms by (simp add: replay_insert_def)
  next
    case False
    show ?thesis
    proof (cases "length (rw_order w) < rw_capacity w")
      case True
      then have "w' = w\<lparr>rw_seen := insert i (rw_seen w), rw_order := rw_order w @ [i]\<rparr>" "fresh"
        using False assms(2) by (auto simp: replay_insert_def Let_def)
      then show ?thesis
        using assms(1) False True last_n_snoc [of "rw_capacity w" accepted i] by (auto simp: window_holds_def)
    next
      case full: False
      then obtain expired kept where order: "rw_order w = expired # kept"
        using assms(1) by (cases "rw_order w") (auto simp: window_holds_def)
      then have w': "w' = w\<lparr>rw_seen := insert i (rw_seen w) - {expired}, rw_order := kept @ [i]\<rparr>" "fresh"
        using False full le assms(2) by (auto simp: replay_insert_def Let_def)
      have held: "set (kept @ [i]) = insert i (rw_seen w) - {expired}" "distinct (kept @ [i])"
        using assms(1) False order by (auto simp: window_holds_def)
      have "0 < rw_capacity w" "last_n (rw_capacity w) accepted = expired # kept" using assms(1) order by (simp_all add: window_holds_def)
      then have "last_n (rw_capacity w) (accepted @ [i]) = kept @ [i]"
        using last_n_snoc [of "rw_capacity w" accepted i] full order by simp
      then show ?thesis using w' held \<open>0 < rw_capacity w\<close> by (simp add: window_holds_def)
    qed
  qed
qed

lemma replay_all_holds:
  "window_holds w before \<Longrightarrow> replay_all w is = (w', accepted) \<Longrightarrow> window_holds w' (before @ accepted) \<and> rw_capacity w' = rw_capacity w"
proof (induction "is" arbitrary: w before accepted)
  case Nil
  then show ?case by simp
next
  case (Cons i "is")
  obtain w1 fresh where w1: "replay_insert w i = (w1, fresh)" by (rule prod.exhaust)
  obtain w2 later where w2: "replay_all w1 is = (w2, later)" by (rule prod.exhaust)
  note ins = replay_insert_holds [OF Cons.prems(1) w1]
  have "w' = w2" "accepted = (if fresh then i # later else later)" using Cons.prems(2) w1 w2 by auto
  then show ?case using Cons.IH [OF ins(2), of later] w2 ins(3) by (cases fresh) auto
qed

text \<open>
  The window recalls the last ids. After any sequence of ids, the next id is refused exactly when it is among the last
  \<open>capacity\<close> ids that were accepted; no more ids than that are held.
\<close>

theorem window_refuses_recent_ids:
  assumes "replay_all (replay_new n) is = (w, accepted)"
  shows "(snd (replay_insert w i) \<longleftrightarrow> i \<notin> set (last_n (max n 1) accepted)) \<and> length (rw_order w) \<le> max n 1"
proof -
  have "window_holds (replay_new n) []" by (simp add: window_holds_def replay_new_def last_n_def)
  from replay_all_holds [OF this assms] have w: "window_holds w accepted" "rw_capacity w = max n 1"
    by (simp_all add: replay_new_def)
  obtain w' fresh where "replay_insert w i = (w', fresh)" by (rule prod.exhaust)
  from replay_insert_holds(1) [OF w(1) this] this w show ?thesis by (simp add: window_holds_def last_n_def)
qed

theorem window_refuses_recent_ids_witness:
  "\<exists>w. replay_all (replay_new 2) [''one'', ''one'', ''two'', ''three''] = (w, [''one'', ''two'', ''three''])
     \<and> snd (replay_insert w ''one'') \<and> \<not> snd (replay_insert w ''three'')"
proof -
  obtain w where w: "replay_all (replay_new 2) [''one'', ''one'', ''two'', ''three''] = (w, [''one'', ''two'', ''three''])"
    by (simp add: replay_new_def replay_insert_def Let_def)
  then show ?thesis
    using window_refuses_recent_ids [OF w, of "''one''"] window_refuses_recent_ids [OF w, of "''three''"] by (auto simp: last_n_def)
qed

section \<open>The worker\<close>

text \<open>
  A task that holds a permit: the position of its request among those read, the request, and the cancellation token it
  registered, if the request named one.
\<close>

record WorkerTask =
  wt_number :: nat
  wt_request :: RequestEnvelope
  wt_token :: "nat option"

text \<open>
  What the loop and the tasks share. A request that waits for a permit keeps the loop from reading; a task that has ended
  keeps its permit until its response is written. Responses that could not be written are lost. Tokens are numbered.
\<close>

record Worker =
  wk_requests :: "RequestEnvelope list"
  wk_window :: ReplayWindow
  wk_active :: "string \<Rightarrow> nat option"
  wk_cancelled :: "nat set"
  wk_tokens :: nat
  wk_waiting :: "(nat \<times> RequestEnvelope) option"
  wk_running :: "WorkerTask list"
  wk_ended :: "(WorkerTask \<times> ResponseEnvelope) list"
  wk_out :: "(nat \<times> ResponseEnvelope) list"
  wk_lost :: "nat list"
  wk_stopped :: bool

definition WORKER_PERMITS :: nat where "WORKER_PERMITS = 256"

definition worker_start :: Worker where
  "worker_start =
     \<lparr>wk_requests = [], wk_window = replay_new 4096, wk_active = Map.empty, wk_cancelled = {}, wk_tokens = 0, wk_waiting = None,
      wk_running = [], wk_ended = [], wk_out = [], wk_lost = [], wk_stopped = False\<rparr>"

text \<open>A response of the loop itself; one that cannot be written ends the loop.\<close>

definition worker_reply :: "(ResponseEnvelope \<Rightarrow> bool) \<Rightarrow> nat \<Rightarrow> ResponseEnvelope \<Rightarrow> Worker \<Rightarrow> Worker" where
  "worker_reply writes n r w =
     (if writes r then w\<lparr>wk_out := wk_out w @ [(n, r)]\<rparr> else w\<lparr>wk_lost := wk_lost w @ [n], wk_stopped := True\<rparr>)"

definition serve_cancel :: "(ResponseEnvelope \<Rightarrow> bool) \<Rightarrow> nat \<Rightarrow> RequestEnvelope \<Rightarrow> Worker \<Rightarrow> Worker" where
  "serve_cancel writes n q w =
     (case Option.bind (jget ''cancellation_id'' (rq_payload q)) as_str of
        None \<Rightarrow> worker_reply writes n (failure q ''invalid_request'' ''cancellation_id is required'' False) w
      | Some i \<Rightarrow>
          (case wk_active w i of
             None \<Rightarrow> worker_reply writes n (success q (JObj [(''cancelled'', JBool False)])) w
           | Some k \<Rightarrow>
               worker_reply writes n (success q (JObj [(''cancelled'', JBool True)]))
                 (w\<lparr>wk_active := (wk_active w)(i := None), wk_cancelled := insert k (wk_cancelled w)\<rparr>)))"

definition on_request :: "(ResponseEnvelope \<Rightarrow> bool) \<Rightarrow> RequestEnvelope \<Rightarrow> Worker \<Rightarrow> Worker" where
  "on_request writes q w0 =
     (let n = length (wk_requests w0); w = w0\<lparr>wk_requests := wk_requests w0 @ [q]\<rparr>
      in if trim (rq_request_id q) = []
         then worker_reply writes n (failure q ''invalid_request_id'' ''request_id must not be empty'' False) w
         else (case replay_insert (wk_window w) (rq_request_id q) of (window, fresh) \<Rightarrow>
           let w1 = w\<lparr>wk_window := window\<rparr>
           in if \<not> fresh
              then worker_reply writes n
                (failure q ''duplicate_request_id'' ''request_id was already observed on this Worker channel'' False) w1
              else if rq_kind q = ''system.shutdown''
              then (worker_reply writes n (success q (JObj [(''accepted'', JBool True)])) w1)\<lparr>wk_stopped := True\<rparr>
              else if rq_kind q = ''system.cancel'' then serve_cancel writes n q w1
              else w1\<lparr>wk_waiting := Some (n, q)\<rparr>))"

text \<open>The waiting request takes a permit: it becomes a task, unless its cancellation id is in use.\<close>

definition on_permit :: "(ResponseEnvelope \<Rightarrow> bool) \<Rightarrow> nat \<Rightarrow> RequestEnvelope \<Rightarrow> Worker \<Rightarrow> Worker" where
  "on_permit writes n q w0 =
     (let w = w0\<lparr>wk_waiting := None\<rparr>
      in case rq_cancellation_id q of
        None \<Rightarrow> w\<lparr>wk_running := wk_running w @ [\<lparr>wt_number = n, wt_request = q, wt_token = None\<rparr>]\<rparr>
      | Some i \<Rightarrow>
          if wk_active w i \<noteq> None
          then worker_reply writes n (failure q ''duplicate_cancellation_id'' ''cancellation_id is already active'' False) w
          else w\<lparr>wk_active := (wk_active w)(i := Some (wk_tokens w)), wk_tokens := Suc (wk_tokens w),
                 wk_running := wk_running w @ [\<lparr>wt_number = n, wt_request = q, wt_token = Some (wk_tokens w)\<rparr>]\<rparr>)"

text \<open>
  \<open>Engine::dispatch\<close>: the answer to a request from what the services return for it. A request of another protocol
  version does not reach them.
\<close>

record ServiceError =
  se_code :: string
  se_message :: string
  se_retryable :: bool

definition engine_dispatch :: "RequestEnvelope \<Rightarrow> (json, ServiceError) result \<Rightarrow> ResponseEnvelope" where
  "engine_dispatch q served =
     (if rq_protocol_version q \<noteq> PROTOCOL_VERSION
      then failure q ''protocol_version_mismatch''
        (''engine requires protocol '' @ show_nat PROTOCOL_VERSION @ '', received '' @ show_nat (rq_protocol_version q)) False
      else (case served of
          Inr payload \<Rightarrow> success q payload
        | Inl e \<Rightarrow> failure q (se_code e) (se_message e) (se_retryable e)))"

text \<open>How a task ends: with what the engine answers, at its deadline, or on cancellation.\<close>

datatype task_end = EngineAnswers "(json, ServiceError) result" | DeadlinePasses | TokenCancelled

definition task_response ::
  "(RequestEnvelope \<Rightarrow> (json, ServiceError) result \<Rightarrow> bool) \<Rightarrow> nat set \<Rightarrow> WorkerTask \<Rightarrow> task_end \<Rightarrow> ResponseEnvelope option" where
  "task_response answers cancelled t e =
     (let q = wt_request t
      in case e of
        EngineAnswers served \<Rightarrow> if answers q served then Some (engine_dispatch q served) else None
      | DeadlinePasses \<Rightarrow>
          if rq_deadline_ms q = None then None
          else Some (failure q ''deadline_exceeded'' ''Engine request exceeded its declared deadline'' True)
      | TokenCancelled \<Rightarrow>
          (case wt_token t of
             None \<Rightarrow> None
           | Some k \<Rightarrow> if k \<in> cancelled then Some (failure q ''cancelled'' ''Engine request was cancelled'' True) else None))"

definition remove_at :: "nat \<Rightarrow> 'a list \<Rightarrow> 'a list" where
  "remove_at i xs = take i xs @ drop (Suc i) xs"

text \<open>An ended task takes its cancellation id out of the map, whoever registered it.\<close>

definition on_end :: "nat \<Rightarrow> WorkerTask \<Rightarrow> ResponseEnvelope \<Rightarrow> Worker \<Rightarrow> Worker" where
  "on_end i t r w =
     w\<lparr>wk_active := (case rq_cancellation_id (wt_request t) of None \<Rightarrow> wk_active w | Some c \<Rightarrow> (wk_active w)(c := None)),
       wk_running := remove_at i (wk_running w), wk_ended := wk_ended w @ [(t, r)]\<rparr>"

definition on_write :: "(ResponseEnvelope \<Rightarrow> bool) \<Rightarrow> nat \<Rightarrow> Worker \<Rightarrow> Worker" where
  "on_write writes i w =
     (case wk_ended w ! i of (t, r) \<Rightarrow>
        let w1 = w\<lparr>wk_ended := remove_at i (wk_ended w)\<rparr>
        in if writes r then w1\<lparr>wk_out := wk_out w @ [(wt_number t, r)]\<rparr> else w1\<lparr>wk_lost := wk_lost w @ [wt_number t]\<rparr>)"

datatype worker_event =
    RequestRead RequestEnvelope
  | InputEnds
  | PermitTaken
  | TaskEnds nat task_end
  | ResponseWritten nat

fun worker_step ::
  "(RequestEnvelope \<Rightarrow> (json, ServiceError) result \<Rightarrow> bool) \<Rightarrow> (ResponseEnvelope \<Rightarrow> bool) \<Rightarrow> Worker \<Rightarrow> worker_event \<Rightarrow> Worker option" where
  "worker_step answers writes w (RequestRead q) =
     (if wk_stopped w \<or> wk_waiting w \<noteq> None then None else Some (on_request writes q w))"
| "worker_step answers writes w InputEnds =
     (if wk_stopped w \<or> wk_waiting w \<noteq> None then None else Some (w\<lparr>wk_stopped := True\<rparr>))"
| "worker_step answers writes w PermitTaken =
     (case wk_waiting w of
        None \<Rightarrow> None
      | Some (n, q) \<Rightarrow>
          if wk_stopped w \<or> WORKER_PERMITS \<le> length (wk_running w) + length (wk_ended w) then None
          else Some (on_permit writes n q w))"
| "worker_step answers writes w (TaskEnds i e) =
     (if length (wk_running w) \<le> i then None
      else case task_response answers (wk_cancelled w) (wk_running w ! i) e of
        None \<Rightarrow> None | Some r \<Rightarrow> Some (on_end i (wk_running w ! i) r w))"
| "worker_step answers writes w (ResponseWritten i) =
     (if length (wk_ended w) \<le> i then None else Some (on_write writes i w))"

inductive worker_reaches ::
  "(RequestEnvelope \<Rightarrow> (json, ServiceError) result \<Rightarrow> bool) \<Rightarrow> (ResponseEnvelope \<Rightarrow> bool) \<Rightarrow> Worker \<Rightarrow> bool"
  for answers writes where
  start: "worker_reaches answers writes worker_start"
| step: "worker_reaches answers writes w \<Longrightarrow> worker_step answers writes w e = Some w' \<Longrightarrow> worker_reaches answers writes w'"

text \<open>A run of given events.\<close>

fun worker_run ::
  "(RequestEnvelope \<Rightarrow> (json, ServiceError) result \<Rightarrow> bool) \<Rightarrow> (ResponseEnvelope \<Rightarrow> bool) \<Rightarrow> Worker \<Rightarrow> worker_event list \<Rightarrow> Worker option" where
  "worker_run answers writes w [] = Some w"
| "worker_run answers writes w (e # es) = Option.bind (worker_step answers writes w e) (\<lambda>w'. worker_run answers writes w' es)"

lemma worker_run_reaches:
  "worker_reaches answers writes w \<Longrightarrow> worker_run answers writes w es = Some w' \<Longrightarrow> worker_reaches answers writes w'"
  by (induction es arbitrary: w) (auto simp: bind_eq_Some_conv intro: worker_reaches.step)

section \<open>Every request is somewhere\<close>

text \<open>The requests that are waiting, running, ended, answered or lost, by number.\<close>

definition whereabouts :: "Worker \<Rightarrow> nat multiset" where
  "whereabouts w =
     mset (map fst (wk_out w)) + mset (wk_lost w) + mset (map wt_number (wk_running w)) + mset (map (wt_number \<circ> fst) (wk_ended w))
     + (case wk_waiting w of None \<Rightarrow> {#} | Some (n, q) \<Rightarrow> {#n#})"

lemma submset_distinct: "mset xs \<subseteq># mset ys \<Longrightarrow> distinct ys \<Longrightarrow> distinct xs"
proof -
  assume sub: "mset xs \<subseteq># mset ys" and "distinct ys"
  then have "count (mset ys) a \<le> 1" for a by (simp add: distinct_count_atmost_1)
  then have "count (mset xs) a \<le> 1" for a using mset_subset_eq_count [OF sub, of a] le_trans by blast
  moreover have "0 < count (mset xs) a" if "a \<in> set xs" for a using that by simp
  ultimately have "count (mset xs) a = (if a \<in> set xs then 1 else 0)" for a
    by (metis One_nat_def count_mset_0_iff le_antisym less_eq_Suc_le)
  then show "distinct xs" by (simp add: distinct_count_atmost_1)
qed

lemma mset_remove_at: "i < length xs \<Longrightarrow> mset xs = add_mset (xs ! i) (mset (remove_at i xs))"
  by (subst id_take_nth_drop [of i xs]) (auto simp: remove_at_def)

lemma mset_map_remove_at: "i < length xs \<Longrightarrow> mset (map f xs) = add_mset (f (xs ! i)) (mset (map f (remove_at i xs)))"
  using mset_remove_at [of i xs] by (metis image_mset_add_mset mset_map)

lemma length_remove_at: "i < length xs \<Longrightarrow> Suc (length (remove_at i xs)) = length xs"
  by (simp add: remove_at_def)

lemma set_remove_at: "set (remove_at i xs) \<subseteq> set xs"
  by (auto simp: remove_at_def dest: in_set_takeD in_set_dropD)

lemma reply_whereabouts: "whereabouts (worker_reply writes n r w) = add_mset n (whereabouts w)"
  by (simp add: worker_reply_def whereabouts_def)

lemma reply_same:
  "wk_requests (worker_reply writes n r w) = wk_requests w" "wk_waiting (worker_reply writes n r w) = wk_waiting w"
  "wk_running (worker_reply writes n r w) = wk_running w" "wk_ended (worker_reply writes n r w) = wk_ended w"
  "wk_active (worker_reply writes n r w) = wk_active w" "wk_cancelled (worker_reply writes n r w) = wk_cancelled w"
  "wk_tokens (worker_reply writes n r w) = wk_tokens w"
  by (simp_all add: worker_reply_def)

text \<open>The fields that do not count.\<close>

lemma whereabouts_same:
  "whereabouts (w\<lparr>wk_requests := x1\<rparr>) = whereabouts w" "whereabouts (w\<lparr>wk_window := x2\<rparr>) = whereabouts w"
  "whereabouts (w\<lparr>wk_active := x3\<rparr>) = whereabouts w" "whereabouts (w\<lparr>wk_cancelled := x4\<rparr>) = whereabouts w"
  "whereabouts (w\<lparr>wk_tokens := x5\<rparr>) = whereabouts w" "whereabouts (w\<lparr>wk_stopped := x6\<rparr>) = whereabouts w"
  by (simp_all add: whereabouts_def)

lemma serve_cancel_whereabouts: "whereabouts (serve_cancel writes n q w) = add_mset n (whereabouts w)"
  by (simp add: serve_cancel_def reply_whereabouts whereabouts_same split: option.split)

lemma serve_cancel_same:
  "wk_requests (serve_cancel writes n q w) = wk_requests w" "wk_waiting (serve_cancel writes n q w) = wk_waiting w"
  "wk_running (serve_cancel writes n q w) = wk_running w" "wk_ended (serve_cancel writes n q w) = wk_ended w"
  "wk_tokens (serve_cancel writes n q w) = wk_tokens w"
  by (simp_all add: serve_cancel_def reply_same split: option.split)

lemma on_request_whereabouts:
  assumes "wk_waiting w = None"
  shows "whereabouts (on_request writes q w) = add_mset (length (wk_requests w)) (whereabouts w)"
proof -
  have "whereabouts (v\<lparr>wk_waiting := Some (n, q)\<rparr>) = add_mset n (whereabouts v)" if "wk_waiting v = None" for v n
    using that by (simp add: whereabouts_def)
  then show ?thesis
    using assms
    by (simp add: on_request_def Let_def reply_whereabouts serve_cancel_whereabouts whereabouts_same split: prod.split)
qed

lemma on_request_same:
  "wk_requests (on_request writes q w) = wk_requests w @ [q]" "wk_running (on_request writes q w) = wk_running w"
  "wk_ended (on_request writes q w) = wk_ended w" "wk_tokens (on_request writes q w) = wk_tokens w"
  by (simp_all add: on_request_def Let_def reply_same serve_cancel_same split: prod.split)

lemma on_permit_whereabouts:
  "wk_waiting w = Some (n, q) \<Longrightarrow> whereabouts (on_permit writes n q w) = whereabouts w"
  by (simp add: on_permit_def Let_def reply_whereabouts split: option.split) (simp add: whereabouts_def)

lemma on_end_whereabouts:
  assumes "i < length (wk_running w)"
  shows "whereabouts (on_end i (wk_running w ! i) r w) = whereabouts w"
  using mset_map_remove_at [OF assms, of wt_number] by (simp add: on_end_def whereabouts_def)

lemma on_write_whereabouts:
  assumes "i < length (wk_ended w)"
  shows "whereabouts (on_write writes i w) = whereabouts w"
proof -
  obtain t r where tr: "wk_ended w ! i = (t, r)" by (rule prod.exhaust)
  show ?thesis
    using mset_map_remove_at [OF assms, of "wt_number \<circ> fst"] tr by (simp add: on_write_def Let_def whereabouts_def)
qed

definition permits_held :: "Worker \<Rightarrow> nat" where
  "permits_held w = length (wk_running w) + length (wk_ended w)"

lemma worker_step_accounts:
  assumes "worker_step answers writes w e = Some w'"
    and "whereabouts w = mset [0..<length (wk_requests w)]" "permits_held w \<le> WORKER_PERMITS"
  shows "whereabouts w' = mset [0..<length (wk_requests w')] \<and> permits_held w' \<le> WORKER_PERMITS"
proof (cases e)
  case (RequestRead q)
  then have q: "wk_waiting w = None" "w' = on_request writes q w" using assms(1) by (cases "wk_waiting w"; auto split: if_splits)+
  show ?thesis
    using on_request_whereabouts [OF q(1), of writes q] assms(2,3) unfolding q(2) on_request_same permits_held_def by simp
next
  case InputEnds
  then show ?thesis using assms by (auto simp: whereabouts_same permits_held_def split: if_splits)
next
  case PermitTaken
  then obtain n q where q: "wk_waiting w = Some (n, q)" "w' = on_permit writes n q w" "permits_held w < WORKER_PERMITS"
    using assms(1) by (auto simp: permits_held_def split: option.splits if_splits)
  then have "wk_requests w' = wk_requests w \<and> permits_held w' \<le> Suc (permits_held w)"
    by (auto simp: on_permit_def Let_def reply_same permits_held_def split: option.splits)
  then show ?thesis using q on_permit_whereabouts [OF q(1)] assms(2) by simp
next
  case (TaskEnds i x)
  then obtain r where r: "i < length (wk_running w)" "w' = on_end i (wk_running w ! i) r w"
    using assms(1) by (auto split: option.splits if_splits)
  then have "wk_requests w' = wk_requests w \<and> permits_held w' = permits_held w"
    using length_remove_at [OF r(1)] by (auto simp: on_end_def permits_held_def)
  then show ?thesis using r on_end_whereabouts [OF r(1)] assms(2,3) by simp
next
  case (ResponseWritten i)
  then have r: "i < length (wk_ended w)" "w' = on_write writes i w" using assms(1) by (auto split: if_splits)
  then have "wk_requests w' = wk_requests w \<and> permits_held w' \<le> permits_held w"
    using length_remove_at [OF r(1)] by (auto simp: on_write_def permits_held_def Let_def split: prod.splits)
  then show ?thesis using r on_write_whereabouts [OF r(1)] assms(2,3) by simp
qed

text \<open>
  C9: In every interleaving each request that was read is in exactly one place: answered, lost, waiting for a permit,
  running, or ended and about to be written. So no request is answered twice, and once nothing waits, runs or is about to be
  written every request has its answer, except the lost ones. At most 256 tasks hold a permit.
\<close>

theorem requests_accounted_once:
  assumes "worker_reaches answers writes w"
  shows "whereabouts w = mset [0..<length (wk_requests w)] \<and> distinct (map fst (wk_out w)) \<and> permits_held w \<le> WORKER_PERMITS"
proof -
  have "whereabouts w = mset [0..<length (wk_requests w)] \<and> permits_held w \<le> WORKER_PERMITS"
    using assms
  proof (induction rule: worker_reaches.induct)
    case start
    then show ?case by (simp add: whereabouts_def worker_start_def permits_held_def)
  next
    case (step w e w')
    then show ?case using worker_step_accounts by blast
  qed
  moreover from this have "distinct_mset_out": "mset (map fst (wk_out w)) \<subseteq># mset [0..<length (wk_requests w)]"
    by (metis whereabouts_def mset_subset_eq_add_left union_assoc)
  then have "distinct (map fst (wk_out w))" by (rule submset_distinct) simp
  ultimately show ?thesis by blast
qed

text \<open>A run: a request is answered, a second one with its id refused, a third is still running.\<close>

definition sample_request :: "string \<Rightarrow> string \<Rightarrow> string option \<Rightarrow> RequestEnvelope" where
  "sample_request i k c =
     \<lparr>rq_protocol_version = 1, rq_request_id = i, rq_kind = k, rq_payload = JObj [(''cancellation_id'', JStr ''c'')],
      rq_deadline_ms = None, rq_cancellation_id = c\<rparr>"

definition sample_answers :: "RequestEnvelope \<Rightarrow> (json, ServiceError) result \<Rightarrow> bool" where
  "sample_answers q served \<longleftrightarrow> served = Inr JNull"

lemma worker_ids: "trim ''a'' = ''a''" "trim ''b'' = ''b''" "trim ''x'' = ''x''" "trim ''y'' = ''y''"
  by (rule trim_literal; simp add: whitespace_literal starts_with_def ends_with_def)+

lemmas worker_run_simps = sample_request_def sample_answers_def worker_ids worker_start_def on_request_def on_permit_def on_end_def
  on_write_def task_response_def worker_reply_def engine_dispatch_def PROTOCOL_VERSION_def serve_cancel_def replay_new_def replay_insert_def remove_at_def Let_def WORKER_PERMITS_def

theorem requests_accounted_once_witness:
  "\<exists>w. worker_run sample_answers (\<lambda>r. True) worker_start
       [RequestRead (sample_request ''a'' ''market.quote'' None), PermitTaken, RequestRead (sample_request ''a'' ''market.quote'' None),
        TaskEnds 0 (EngineAnswers (Inr JNull)), ResponseWritten 0,
        RequestRead (sample_request ''b'' ''market.quote'' None), PermitTaken] = Some w
     \<and> map fst (wk_out w) = [1, 0] \<and> whereabouts w = mset [0, 1, 2]"
proof -
  obtain w where w: "worker_run sample_answers (\<lambda>r. True) worker_start
       [RequestRead (sample_request ''a'' ''market.quote'' None), PermitTaken, RequestRead (sample_request ''a'' ''market.quote'' None),
        TaskEnds 0 (EngineAnswers (Inr JNull)), ResponseWritten 0,
        RequestRead (sample_request ''b'' ''market.quote'' None), PermitTaken] = Some w"
      and out: "map fst (wk_out w) = [1, 0]" "length (wk_requests w) = 3"
    by (simp add: worker_run_simps)
  have "whereabouts w = mset [0..<3]"
    using requests_accounted_once [OF worker_run_reaches [OF worker_reaches.start w]] out(2) by simp
  moreover have "[0..<3] = [0, 1, 2 :: nat]" by (simp add: upt_rec)
  ultimately show ?thesis using w out(1) by auto
qed

section \<open>Responses and cancellations\<close>

text \<open>A number and a request belong together when the request is the one read under that number.\<close>

definition read_as :: "Worker \<Rightarrow> nat \<Rightarrow> RequestEnvelope \<Rightarrow> bool" where
  "read_as w n q \<longleftrightarrow> n < length (wk_requests w) \<and> wk_requests w ! n = q"

definition answered_by :: "Worker \<Rightarrow> nat \<Rightarrow> ResponseEnvelope \<Rightarrow> bool" where
  "answered_by w n r \<longleftrightarrow> n < length (wk_requests w) \<and> re_request_id r = rq_request_id (wk_requests w ! n)"

definition placed :: "Worker \<Rightarrow> bool" where
  "placed w \<longleftrightarrow>
     (\<forall>(n, r) \<in> set (wk_out w). answered_by w n r)
     \<and> (\<forall>t \<in> set (wk_running w). read_as w (wt_number t) (wt_request t))
     \<and> (\<forall>(t, r) \<in> set (wk_ended w). answered_by w (wt_number t) r)
     \<and> (case wk_waiting w of None \<Rightarrow> True | Some (n, q) \<Rightarrow> read_as w n q)"

lemma response_ids [simp]: "re_request_id (success q p) = rq_request_id q" "re_request_id (failure q c m b) = rq_request_id q"
  by (simp_all add: success_def failure_def)

lemma read_as_more: "wk_requests w' = wk_requests w @ qs \<Longrightarrow> read_as w n q \<Longrightarrow> read_as w' n q"
  by (simp add: read_as_def nth_append)

lemma answered_by_more: "wk_requests w' = wk_requests w @ qs \<Longrightarrow> answered_by w n r \<Longrightarrow> answered_by w' n r"
  by (simp add: answered_by_def nth_append)

lemma placed_reply: "placed w \<Longrightarrow> answered_by w n r \<Longrightarrow> placed (worker_reply writes n r w)"
  by (auto simp: placed_def worker_reply_def answered_by_def read_as_def split: option.splits)

lemma placed_same:
  "placed (w\<lparr>wk_window := x2\<rparr>) = placed w" "placed (w\<lparr>wk_active := x3\<rparr>) = placed w" "placed (w\<lparr>wk_cancelled := x4\<rparr>) = placed w"
  "placed (w\<lparr>wk_tokens := x5\<rparr>) = placed w" "placed (w\<lparr>wk_stopped := x6\<rparr>) = placed w"
  by (simp_all add: placed_def answered_by_def read_as_def split: option.split)

lemma answered_by_same:
  "answered_by (w\<lparr>wk_window := x2\<rparr>) n r = answered_by w n r" "answered_by (w\<lparr>wk_active := x3\<rparr>) n r = answered_by w n r"
  "answered_by (w\<lparr>wk_cancelled := x4\<rparr>) n r = answered_by w n r" "answered_by (w\<lparr>wk_waiting := x5\<rparr>) n r = answered_by w n r"
  by (simp_all add: answered_by_def)

lemma placed_read: "placed w \<Longrightarrow> placed (w\<lparr>wk_requests := wk_requests w @ [q]\<rparr>)"
  by (auto simp: placed_def answered_by_def read_as_def nth_append split: option.splits)

lemma placed_cancel: "placed w \<Longrightarrow> read_as w n q \<Longrightarrow> placed (serve_cancel writes n q w)"
  by (auto simp: serve_cancel_def answered_by_same placed_same answered_by_def read_as_def intro!: placed_reply split: option.splits)

lemma placed_request:
  assumes "placed w" "wk_waiting w = None"
  shows "placed (on_request writes q w)"
proof -
  define v where "v = w\<lparr>wk_requests := wk_requests w @ [q]\<rparr>"
  have v: "placed v" "read_as v (length (wk_requests w)) q"
    using placed_read [OF assms(1), of q] by (simp_all add: v_def read_as_def)
  have reply: "placed (worker_reply writes (length (wk_requests w)) r u)"
    if "placed u" "wk_requests u = wk_requests v" "re_request_id r = rq_request_id q" for u r
    using that v(2) by (intro placed_reply) (auto simp: answered_by_def read_as_def)
  have cancel: "placed (serve_cancel writes (length (wk_requests w)) q (v\<lparr>wk_window := x\<rparr>))" for x
    using v by (intro placed_cancel) (simp_all add: placed_same read_as_def)
  have wait: "placed (v\<lparr>wk_window := x, wk_waiting := Some (length (wk_requests w), q)\<rparr>)" for x
    using v by (auto simp: placed_def answered_by_def read_as_def)
  show ?thesis
    using v(1) reply cancel wait unfolding on_request_def Let_def v_def [symmetric]
    by (auto simp: placed_same split: prod.split)
qed

lemma placed_permit:
  assumes "placed w" "wk_waiting w = Some (n, q)"
  shows "placed (on_permit writes n q w)"
proof -
  have v: "placed (w\<lparr>wk_waiting := None\<rparr>)" "read_as w n q" using assms by (auto simp: placed_def answered_by_def read_as_def)
  have "placed (w\<lparr>wk_waiting := None, wk_running := wk_running w @ [\<lparr>wt_number = n, wt_request = q, wt_token = k\<rparr>]\<rparr>)" for k
    using assms by (auto simp: placed_def answered_by_def read_as_def)
  moreover have "placed (worker_reply writes n r (w\<lparr>wk_waiting := None\<rparr>))" if "re_request_id r = rq_request_id q" for r
    using v that by (intro placed_reply) (auto simp: answered_by_def read_as_def)
  moreover have "placed (w\<lparr>wk_waiting := None, wk_active := x, wk_tokens := y,
      wk_running := wk_running w @ [\<lparr>wt_number = n, wt_request = q, wt_token = k\<rparr>]\<rparr>)" for k x y
    using assms by (auto simp: placed_def answered_by_def read_as_def)
  ultimately show ?thesis by (simp add: on_permit_def Let_def split: option.split)
qed

lemma task_response_id:
  "task_response answers cancelled t e = Some r
    \<Longrightarrow> re_request_id r = rq_request_id (wt_request t)"
  by (auto simp: task_response_def engine_dispatch_def Let_def split: task_end.splits option.splits if_splits sum.splits)

lemma placed_end:
  assumes "placed w" "i < length (wk_running w)" "re_request_id r = rq_request_id (wt_request (wk_running w ! i))"
  shows "placed (on_end i (wk_running w ! i) r w)"
proof -
  have "wk_running w ! i \<in> set (wk_running w)" using assms(2) by simp
  then have "answered_by w (wt_number (wk_running w ! i)) r"
    using assms(1,3) by (auto simp: placed_def answered_by_def read_as_def)
  then show ?thesis
    using assms(1) set_remove_at [of i "wk_running w"]
    by (auto simp: on_end_def placed_def answered_by_def read_as_def split: option.splits)
qed

lemma placed_write:
  assumes "placed w" "i < length (wk_ended w)"
  shows "placed (on_write writes i w)"
proof -
  obtain t r where tr: "wk_ended w ! i = (t, r)" by (rule prod.exhaust)
  then have "(t, r) \<in> set (wk_ended w)" using assms(2) by (metis nth_mem)
  then have "answered_by w (wt_number t) r" using assms(1) by (auto simp: placed_def)
  then show ?thesis
    using assms(1) set_remove_at [of i "wk_ended w"] tr
    by (auto simp: on_write_def Let_def placed_def answered_by_def read_as_def split: option.splits)
qed

lemma placed_step:
  assumes "placed w" "worker_step answers writes w e = Some w'"
  shows "placed w'"
proof (cases e)
  case (RequestRead q)
  then show ?thesis using assms by (cases "wk_waiting w") (auto simp: placed_request split: if_splits)
next
  case InputEnds
  then show ?thesis using assms by (auto simp: placed_same split: if_splits)
next
  case PermitTaken
  then show ?thesis using assms by (auto simp: placed_permit split: option.splits if_splits)
next
  case (TaskEnds i x)
  then show ?thesis using assms task_response_id by (auto intro!: placed_end split: option.splits if_splits)
next
  case (ResponseWritten i)
  then show ?thesis using assms by (auto simp: placed_write split: if_splits)
qed

text \<open>
  Responses go to their requests. In every interleaving, whatever the services return, the response written for the
  request of number \<open>n\<close> carries the id of that request.
\<close>

theorem responses_carry_request_id:
  assumes "worker_reaches answers writes w" "(n, r) \<in> set (wk_out w)"
  shows "n < length (wk_requests w) \<and> re_request_id r = rq_request_id (wk_requests w ! n)"
proof -
  from assms(1) have "placed w"
  proof (induction rule: worker_reaches.induct)
    case start
    then show ?case by (simp add: placed_def worker_start_def)
  next
    case (step w e w')
    then show ?case using placed_step by blast
  qed
  then show ?thesis using assms(2) by (auto simp: placed_def answered_by_def)
qed

theorem responses_carry_request_id_witness:
  "\<exists>w. worker_run sample_answers (\<lambda>r. True) worker_start
       [RequestRead (sample_request ''a'' ''market.quote'' None), PermitTaken, RequestRead (sample_request ''b'' ''system.shutdown'' None),
        TaskEnds 0 (EngineAnswers (Inr JNull)), ResponseWritten 0] = Some w
     \<and> map fst (wk_out w) = [1, 0] \<and> re_request_id (snd (wk_out w ! 1)) = rq_request_id (wk_requests w ! 0)"
proof -
  obtain w where w: "worker_run sample_answers (\<lambda>r. True) worker_start
       [RequestRead (sample_request ''a'' ''market.quote'' None), PermitTaken, RequestRead (sample_request ''b'' ''system.shutdown'' None),
        TaskEnds 0 (EngineAnswers (Inr JNull)), ResponseWritten 0] = Some w"
      and out: "map fst (wk_out w) = [1, 0]"
    by (simp add: worker_run_simps)
  have "length (wk_out w) = 2" "fst (wk_out w ! 1) = 0" using out by (auto simp: map_eq_Cons_conv)
  then have mem: "(0, snd (wk_out w ! 1)) \<in> set (wk_out w)" by (metis nth_mem one_less_numeral_iff prod.collapse semiring_norm(76))
  from responses_carry_request_id [OF worker_run_reaches [OF worker_reaches.start w] mem] show ?thesis using w out by auto
qed

text \<open>Cancellation. A request asks to cancel an id; tokens belong to the id they were registered under.\<close>

definition asks_cancel :: "RequestEnvelope \<Rightarrow> string \<Rightarrow> bool" where
  "asks_cancel q c \<longleftrightarrow> rq_kind q = ''system.cancel'' \<and> Option.bind (jget ''cancellation_id'' (rq_payload q)) as_str = Some c"

definition task_token :: "WorkerTask \<Rightarrow> nat \<Rightarrow> string \<Rightarrow> bool" where
  "task_token t k c \<longleftrightarrow> wt_token t = Some k \<and> rq_cancellation_id (wt_request t) = Some c"

definition asked_after :: "RequestEnvelope list \<Rightarrow> WorkerTask \<Rightarrow> bool" where
  "asked_after qs t \<longleftrightarrow>
     (\<exists>m c. wt_number t < m \<and> m < length qs \<and> asks_cancel (qs ! m) c \<and> rq_cancellation_id (wt_request t) = Some c)"

definition tokens_ok :: "Worker \<Rightarrow> bool" where
  "tokens_ok w \<longleftrightarrow>
     (\<forall>t \<in> set (wk_running w). wt_number t < length (wk_requests w))
     \<and> (\<forall>t \<in> set (wk_running w). \<forall>k. wt_token t = Some k \<longrightarrow> k < wk_tokens w)
     \<and> (\<forall>c k. wk_active w c = Some k \<longrightarrow> k < wk_tokens w)
     \<and> (\<forall>k \<in> wk_cancelled w. k < wk_tokens w)
     \<and> (\<forall>c k. wk_active w c = Some k \<longrightarrow>
          (\<forall>t \<in> set (wk_running w). wt_token t = Some k \<longrightarrow> rq_cancellation_id (wt_request t) = Some c))
     \<and> (\<forall>t \<in> set (wk_running w). \<forall>k \<in> wk_cancelled w. wt_token t = Some k \<longrightarrow> asked_after (wk_requests w) t)
     \<and> (\<forall>n q. wk_waiting w = Some (n, q) \<longrightarrow> n < length (wk_requests w))"

lemma asked_after_more: "asked_after qs t \<Longrightarrow> asked_after (qs @ qs2) t"
  unfolding asked_after_def by (metis length_append nth_append trans_less_add1)

lemma tokens_ok_reply: "tokens_ok (worker_reply writes n r w) = tokens_ok w"
  by (simp add: tokens_ok_def worker_reply_def)

lemma tokens_ok_same:
  "tokens_ok (w\<lparr>wk_window := x1\<rparr>) = tokens_ok w" "tokens_ok (w\<lparr>wk_stopped := x2\<rparr>) = tokens_ok w"
  by (simp_all add: tokens_ok_def)

lemma tokens_ok_read: "tokens_ok w \<Longrightarrow> tokens_ok (w\<lparr>wk_requests := wk_requests w @ [q]\<rparr>)"
  unfolding tokens_ok_def by (auto simp: less_SucI asked_after_more split: option.splits)

lemma tokens_ok_cancel:
  assumes "tokens_ok w" "n < length (wk_requests w)" "wk_requests w ! n = q" "rq_kind q = ''system.cancel''"
    and "\<forall>t \<in> set (wk_running w). wt_number t < n"
  shows "tokens_ok (serve_cancel writes n q w)"
proof (cases "Option.bind (jget ''cancellation_id'' (rq_payload q)) as_str")
  case None
  then show ?thesis using assms(1) by (simp add: serve_cancel_def tokens_ok_reply)
next
  case (Some c)
  show ?thesis
  proof (cases "wk_active w c")
    case None
    then show ?thesis using assms(1) Some by (simp add: serve_cancel_def tokens_ok_reply)
  next
    case token: (Some k)
    have asked: "asked_after (wk_requests w) t" if "t \<in> set (wk_running w)" "wt_token t = Some k" for t
    proof -
      have "rq_cancellation_id (wt_request t) = Some c" using assms(1) token that unfolding tokens_ok_def by blast
      then show ?thesis using that(1) assms(2-5) Some unfolding asked_after_def asks_cancel_def by blast
    qed
    have "tokens_ok (w\<lparr>wk_active := (wk_active w)(c := None), wk_cancelled := insert k (wk_cancelled w)\<rparr>)"
      using assms(1) asked token unfolding tokens_ok_def by auto
    then show ?thesis using Some token by (simp add: serve_cancel_def tokens_ok_reply)
  qed
qed

lemma tokens_ok_request:
  assumes "tokens_ok w" "wk_waiting w = None"
  shows "tokens_ok (on_request writes q w)"
proof -
  define v where "v = w\<lparr>wk_requests := wk_requests w @ [q]\<rparr>"
  have v: "tokens_ok v" using tokens_ok_read [OF assms(1)] by (simp add: v_def)
  have cancel: "tokens_ok (serve_cancel writes (length (wk_requests w)) q (v\<lparr>wk_window := x\<rparr>))" if "rq_kind q = ''system.cancel''" for x
    using v that assms(1) by (intro tokens_ok_cancel) (auto simp: tokens_ok_same v_def tokens_ok_def)
  have wait: "tokens_ok (v\<lparr>wk_window := x, wk_waiting := Some (length (wk_requests w), q)\<rparr>)" for x
    using v by (auto simp: tokens_ok_def v_def)
  show ?thesis
    using v cancel wait unfolding on_request_def Let_def v_def [symmetric]
    by (auto simp: tokens_ok_reply tokens_ok_same split: prod.split)
qed

lemma tokens_ok_permit:
  assumes "tokens_ok w" "wk_waiting w = Some (n, q)"
  shows "tokens_ok (on_permit writes n q w)"
proof -
  have n: "n < length (wk_requests w)" using assms by (simp add: tokens_ok_def)
  have "tokens_ok (w\<lparr>wk_waiting := None\<rparr>)" using assms(1) by (simp add: tokens_ok_def)
  moreover have "tokens_ok (w\<lparr>wk_waiting := None, wk_running := wk_running w @ [\<lparr>wt_number = n, wt_request = q, wt_token = None\<rparr>]\<rparr>)"
    using assms(1) n unfolding tokens_ok_def by auto
  moreover have "tokens_ok (w\<lparr>wk_waiting := None, wk_active := (wk_active w)(c := Some (wk_tokens w)), wk_tokens := Suc (wk_tokens w),
      wk_running := wk_running w @ [\<lparr>wt_number = n, wt_request = q, wt_token = Some (wk_tokens w)\<rparr>]\<rparr>)"
    if "rq_cancellation_id q = Some c" for c
    using assms(1) n that unfolding tokens_ok_def by (auto simp: less_SucI)
  ultimately show ?thesis by (simp add: on_permit_def Let_def tokens_ok_reply split: option.split)
qed

lemma tokens_ok_end: "tokens_ok w \<Longrightarrow> tokens_ok (on_end i t r w)"
  using set_remove_at [of i "wk_running w"] unfolding tokens_ok_def on_end_def
  by (auto split: option.splits if_splits)

lemma tokens_ok_write: "tokens_ok w \<Longrightarrow> tokens_ok (on_write writes i w)"
  by (simp add: tokens_ok_def on_write_def Let_def split: prod.split)

lemma tokens_ok_step:
  assumes "tokens_ok w" "worker_step answers writes w e = Some w'"
  shows "tokens_ok w'"
proof (cases e)
  case (RequestRead q)
  then show ?thesis using assms by (cases "wk_waiting w") (auto simp: tokens_ok_request split: if_splits)
qed (use assms in \<open>auto simp: tokens_ok_same tokens_ok_permit tokens_ok_end tokens_ok_write split: option.splits if_splits\<close>)

text \<open>
  C28: Only what was asked for is cancelled. In every interleaving a task that ends by cancellation named a cancellation
  id, and a \<open>system.cancel\<close> request for that id was read after the task's own request.
\<close>

theorem cancellation_was_asked_for:
  assumes "worker_reaches answers writes w" "worker_step answers writes w (TaskEnds i TokenCancelled) = Some w'"
  shows "asked_after (wk_requests w) (wk_running w ! i)"
proof -
  from assms(1) have "tokens_ok w"
  proof (induction rule: worker_reaches.induct)
    case start
    then show ?case by (simp add: tokens_ok_def worker_start_def)
  next
    case (step w e w')
    then show ?case using tokens_ok_step by blast
  qed
  moreover have "i < length (wk_running w)" and "\<exists>k. wt_token (wk_running w ! i) = Some k \<and> k \<in> wk_cancelled w"
    using assms(2) by (auto simp: task_response_def Let_def split: option.splits if_splits)
  ultimately show ?thesis unfolding tokens_ok_def by (metis nth_mem)
qed

theorem cancellation_was_asked_for_witness:
  "\<exists>w. worker_run sample_answers (\<lambda>r. True) worker_start
       [RequestRead (sample_request ''a'' ''market.quote'' (Some ''c'')), PermitTaken, RequestRead (sample_request ''b'' ''system.cancel'' None)] = Some w
     \<and> worker_step sample_answers (\<lambda>r. True) w (TaskEnds 0 TokenCancelled) \<noteq> None \<and> asked_after (wk_requests w) (wk_running w ! 0)"
proof -
  obtain w w' where w: "worker_run sample_answers (\<lambda>r. True) worker_start
       [RequestRead (sample_request ''a'' ''market.quote'' (Some ''c'')), PermitTaken, RequestRead (sample_request ''b'' ''system.cancel'' None)] = Some w"
      and w': "worker_step sample_answers (\<lambda>r. True) w (TaskEnds 0 TokenCancelled) = Some w'"
    by (simp add: worker_run_simps)
  from cancellation_was_asked_for [OF worker_run_reaches [OF worker_reaches.start w] w'] show ?thesis using w w' by blast
qed

text \<open>
  C36: An ended task unregisters whoever holds its id. A task is cancelled, which frees its cancellation id; a second task
  registers the same id; then the first one ends and removes the id from the map. From then on the second task, still
  running, cannot be cancelled: the next request to cancel it answers that nothing was cancelled.
\<close>

theorem stale_end_unregisters_successor:
  assumes "wk_running w = older @ t # younger" "task_token t k c" "k \<in> wk_cancelled w"
    and "t' \<in> set younger" "task_token t' k' c" "wk_active w c = Some k'" "k' \<notin> wk_cancelled w"
    and "asks_cancel q c" "trim (rq_request_id q) \<noteq> []" "rq_request_id q \<notin> rw_seen (wk_window w)"
  shows "\<exists>w'. worker_step answers writes w (TaskEnds (length older) TokenCancelled) = Some w'
    \<and> t' \<in> set (wk_running w') \<and> wk_active w' c = None
    \<and> (\<forall>w''. worker_step answers (\<lambda>r. True) w' (RequestRead q) = Some w'' \<longrightarrow>
         t' \<in> set (wk_running w'') \<and> k' \<notin> wk_cancelled w''
         \<and> last (wk_out w'') = (length (wk_requests w), success q (JObj [(''cancelled'', JBool False)])))"
proof -
  let ?r = "failure (wt_request t) ''cancelled'' ''Engine request was cancelled'' True"
  define w' where "w' = on_end (length older) t ?r w"
  have "worker_step answers writes w (TaskEnds (length older) TokenCancelled) = Some w'"
    using assms(1-3) by (simp add: task_response_def task_token_def w'_def)
  moreover have active: "wk_active w' c = None" using assms(2) by (simp add: w'_def on_end_def task_token_def)
  moreover have running: "wk_running w' = older @ younger" using assms(1) by (simp add: w'_def on_end_def remove_at_def)
  moreover have same: "wk_cancelled w' = wk_cancelled w" "wk_window w' = wk_window w" "wk_requests w' = wk_requests w"
    by (simp_all add: w'_def on_end_def)
  have "t' \<in> set (wk_running w'') \<and> k' \<notin> wk_cancelled w''
      \<and> last (wk_out w'') = (length (wk_requests w), success q (JObj [(''cancelled'', JBool False)]))"
    if "worker_step answers (\<lambda>r. True) w' (RequestRead q) = Some w''" for w''
  proof -
    obtain x where fresh: "replay_insert (wk_window w) (rq_request_id q) = (x, True)"
      using assms(10) by (simp add: replay_insert_def Let_def)
    have kind: "rq_kind q = ''system.cancel''" "Option.bind (jget ''cancellation_id'' (rq_payload q)) as_str = Some c"
      using assms(8) by (simp_all add: asks_cancel_def)
    have "w'' = serve_cancel (\<lambda>r. True) (length (wk_requests w)) q (w'\<lparr>wk_requests := wk_requests w @ [q], wk_window := x\<rparr>)"
      using that assms(9) fresh kind(1) same by (auto simp: on_request_def Let_def split: if_splits)
    then show ?thesis
      using kind active running same(1) assms(4,7) by (simp add: serve_cancel_def worker_reply_def)
  qed
  ultimately show ?thesis using assms(4) by auto
qed

theorem stale_end_unregisters_successor_witness:
  "\<exists>w w'. worker_run sample_answers (\<lambda>r. True) worker_start
       [RequestRead (sample_request ''a'' ''market.quote'' (Some ''c'')), PermitTaken, RequestRead (sample_request ''b'' ''system.cancel'' None),
        RequestRead (sample_request ''x'' ''market.quote'' (Some ''c'')), PermitTaken] = Some w
     \<and> worker_step sample_answers (\<lambda>r. True) w (TaskEnds 0 TokenCancelled) = Some w'
     \<and> map wt_number (wk_running w') = [2] \<and> wk_active w' ''c'' = None"
proof -
  obtain w where w: "worker_run sample_answers (\<lambda>r. True) worker_start
       [RequestRead (sample_request ''a'' ''market.quote'' (Some ''c'')), PermitTaken, RequestRead (sample_request ''b'' ''system.cancel'' None),
        RequestRead (sample_request ''x'' ''market.quote'' (Some ''c'')), PermitTaken] = Some w"
      and run: "wk_running w = [] @ \<lparr>wt_number = 0, wt_request = sample_request ''a'' ''market.quote'' (Some ''c''), wt_token = Some 0\<rparr>
          # [\<lparr>wt_number = 2, wt_request = sample_request ''x'' ''market.quote'' (Some ''c''), wt_token = Some 1\<rparr>]"
      and shared: "wk_active w ''c'' = Some 1" "wk_cancelled w = {0}" "rw_seen (wk_window w) = {''x'', ''b'', ''a''}"
    by (simp add: worker_run_simps)
  have asks: "asks_cancel (sample_request ''y'' ''system.cancel'' None) ''c''" "trim (rq_request_id (sample_request ''y'' ''system.cancel'' None)) \<noteq> []"
    by (simp_all add: asks_cancel_def sample_request_def worker_ids)
  let ?t = "\<lparr>wt_number = 0, wt_request = sample_request ''a'' ''market.quote'' (Some ''c''), wt_token = Some 0\<rparr>"
  let ?t' = "\<lparr>wt_number = 2, wt_request = sample_request ''x'' ''market.quote'' (Some ''c''), wt_token = Some 1\<rparr>"
  have tasks: "task_token ?t 0 ''c''" "task_token ?t' 1 ''c''" by (simp_all add: task_token_def sample_request_def)
  have held: "0 \<in> wk_cancelled w" "?t' \<in> set [?t']" "1 \<notin> wk_cancelled w"
      "rq_request_id (sample_request ''y'' ''system.cancel'' None) \<notin> rw_seen (wk_window w)"
    using shared by (simp_all add: sample_request_def)
  obtain w' where w': "worker_step sample_answers (\<lambda>r. True) w (TaskEnds (length ([] :: WorkerTask list)) TokenCancelled) = Some w'"
      "wk_active w' ''c'' = None"
    using stale_end_unregisters_successor [OF run tasks(1) held(1,2) tasks(2) shared(1) held(3) asks held(4), of sample_answers] by blast
  then have "w' = on_end 0 ?t (failure (wt_request ?t) ''cancelled'' ''Engine request was cancelled'' True) w"
    using run shared(2) by (simp add: task_response_def)
  then have "map wt_number (wk_running w') = [2]" using run by (simp add: on_end_def remove_at_def)
  with w' have final: "worker_step sample_answers (\<lambda>r. True) w (TaskEnds 0 TokenCancelled) = Some w' \<and> map wt_number (wk_running w') = [2] \<and> wk_active w' ''c'' = None"
    by simp
  show ?thesis by (rule exI [of _ w], rule exI [of _ w'], rule conjI [OF w]) (rule final)
qed

end
