(* ===== verification/Spec2Isabelle.thy ===== *)
theory Spec2Isabelle
  imports Agent_Session Agent_Stream Cache_Steps Rules_News Rules_Exit Compute_Eval Tdx_Parse Agent_Turn Agent_Schema Net_Guard Engine_Worker
begin

text \<open>
  A verification development for astock-terminal, a research terminal for the Chinese stock market. The program is a
  Rust workspace (\<open>src/crates\<close>). Its engine (\<open>crates/engine\<close>) offers market data, research, verification and storage
  as kinds of requests through \<open>Engine::dispatch\<close>: the desktop application, the command line and the agent runtime use it
  as a library in their own process, and \<open>engine/src/main.rs\<close> serves the same requests as a worker process, over framed
  JSON on its standard input and output. The agent runtime (\<open>crates/agent-runtime\<close>) lets a language model answer a
  research question by calling the engine's services as tools, collects what they return as evidence, and publishes a
  report only after the engine has verified its figures against that evidence. The development models what decides
  whether such a report can be trusted: the run of an agent task from the question to the published report, and the
  components it and the engine rest on. Each theory opens with what it holds; this is the map.

  \<^bold>\<open>The agent task.\<close>
  \<^item> \<open>Agent_Plan\<close>: \<open>agent-runtime/src/plan.rs\<close>. Steps, mutations, the revision history.
  \<^item> \<open>Agent_Fault\<close>: \<open>fault.rs\<close>, \<open>error.rs\<close>, \<open>minimax/src/rate_gate.rs\<close>. Provider faults, the attempt budget,
    recovery, and the retry loop.
  \<^item> \<open>Agent_Stream\<close>: \<open>runtime.rs\<close> 656-936 and 1977-2063. The reader of one streamed model turn and its limits.
  \<^item> \<open>Evidence_Catalog\<close>: \<open>catalog.rs\<close>. What tools returned, as facts with provenance; conflicts between facts.
  \<^item> \<open>Report_Draft\<close>, \<open>Report_Render\<close>, \<open>Report_Form\<close>: \<open>report.rs\<close>, \<open>render.rs\<close>. The structured draft and its
    validation, its text, and what the verifier reads in that text.
  \<^item> \<open>Report_Verify\<close>: \<open>engine/src/report_verification.rs\<close>. The engine's verifier.
  \<^item> \<open>Agent_Finalize\<close>: \<open>finalize.rs\<close>. The ledger that bounds submissions, and the repair of a rejected one.
  \<^item> \<open>Agent_Task\<close>, \<open>Agent_Tools\<close>, \<open>Agent_Schema\<close>: \<open>runtime.rs\<close> (task, configuration), \<open>tools.rs\<close>,
    \<open>model.rs\<close>. Tasks, the tool registry and the built-in tools with their schemas.
  \<^item> \<open>Agent_Loop\<close>: \<open>runtime.rs\<close>, \<open>execute_task\<close> and all it calls, statement by statement, as actions on a run:
    an action takes the run so far and returns or fails with a \<open>RunError\<close>, and early exits are failures. What the store,
    the engine client, the model and the tool executor answer is a record \<open>Env\<close> of functions of the use number
    \<open>ru_tick\<close>, so every sequence of answers, errors and cancellations is one of its values.
  \<^item> \<open>Agent_Logic\<close>, \<open>Agent_Run\<close>, \<open>Agent_Progress\<close>: the logic for such actions, the invariants of all runs, and
    what a run achieves when nothing outside fails.
  \<^item> \<open>Agent_Session\<close>, \<open>Agent_Turn\<close>: \<open>session.rs\<close>, \<open>events.rs\<close>, \<open>start_session_turn\<close>. Persisted sessions, their
    compaction and branching, the projection of events onto them, and a whole turn.

  \<^bold>\<open>The engine and its channel.\<close>
  \<^item> \<open>Protocol_Frame\<close>: \<open>protocol/src/lib.rs\<close>. Framing of messages over readers and writers that may fail.
  \<^item> \<open>Engine_Worker\<close>: \<open>engine/src/main.rs\<close>. The worker loop with its tasks, as a step relation over their
    interleavings.
  \<^item> \<open>Net_Guard\<close>: \<open>security/src/url_policy.rs\<close>, \<open>fetch.rs\<close>. The guard on outgoing requests.
  \<^item> \<open>Market_Breaker\<close>: \<open>market-data/src/breaker.rs\<close>. The per-provider circuit breaker.
  \<^item> \<open>Market_Cache\<close>, \<open>Cache_Steps\<close>: \<open>market-data/src/cache.rs\<close>. The cache, as calls that run alone and as the steps of
    concurrent callers on the shards of the map they share.
  \<^item> \<open>Tdx_Codec\<close>, \<open>Tdx_Parse\<close>: \<open>tdx/src/protocol\<close>. The binary quote protocol.

  \<^bold>\<open>Rules and calculations.\<close>
  \<^item> \<open>Core_Symbol\<close>: \<open>core/src/symbol.rs\<close>, \<open>period.rs\<close>, \<open>error.rs\<close>.
  \<^item> \<open>Rules_Model\<close>, \<open>Rules_News\<close>, \<open>Rules_Exit\<close>: \<open>trading-rules/src\<close>. Boards, calendar, phases and fees; the
    session a news item can be traded in; stops, exits and order sizing.
  \<^item> \<open>Compute_Lang\<close>, \<open>Compute_Series\<close>, \<open>Compute_Eval\<close>: \<open>compute/src/lib.rs\<close>. The calculation language the model may
    use, its validation, its numeric kernels and its fuel-metered evaluation.

  \<^bold>\<open>Shared ground.\<close> \<open>Prelude\<close> has results, saturating arithmetic, durations, strings as UTF-8 bytes, and two contracts:
  a machine whose steps keep an invariant, and one whose observable only moves in one direction. \<open>Stores\<close> has the contract
  of a named store, interpreted for the sorted and the unsorted association lists the components use. \<open>Text_Utf8\<close> has code
  points, \<open>Json\<close> the values of \<open>serde_json\<close>. \<open>F64\<close> is IEEE binary64 with round-to-nearest-even as an executable datatype,
  and \<open>F64_Order\<close> relates its operations to the reals, so that claims about prices hold for the arithmetic the code does.

  \<^bold>\<open>How code is modelled.\<close> A struct is a record and an enum a datatype with the source's constructors. \<open>Result\<close> is a sum
  with the error on the left, and \<open>?\<close> is \<open>bind_r\<close> (or \<open>bind_a\<close> for an action). A panic is \<open>None\<close>. \<open>u8\<close>, \<open>i64\<close> and the
  other wire integers are words; \<open>usize\<close> and \<open>u64\<close> counters are naturals with \<open>u64_max\<close> where they saturate, and \<open>u32\<close>
  amounts in order sizing wrap as a release build does. A \<open>BTreeMap\<close> is an association list in key order, so what the
  code iterates over comes in the code's order. Dates are day numbers, instants milliseconds or nanoseconds. What a lock
  protects is one step; the interleaving of the worker's tasks, of the breaker's callers and of the cache's callers, whose
  calls take no lock of their own, is explicit.

  \<^bold>\<open>Parameters.\<close> Code outside the repository is an argument of the definitions that use it: clocks, generated ids and
  random jitter; the logarithm; the printing of an \<open>f64\<close>; \<open>str::to_lowercase\<close>; the GBK decoder; the regular-expression
  passes; serde's reading and writing of types; fingerprints; chrono's clock-time parser and its printing of local times;
  the stores; the model provider and the executor of tools (\<open>Env\<close>, \<open>TurnEnv\<close>); the URL parser, resolver, HTTP client and
  servers (\<open>Net\<close>); the services behind \<open>Engine::dispatch\<close>. Where a theorem needs something of one of them, it is a
  hypothesis about its documented behaviour, and the witness beside the theorem gives a concrete value that meets it.

  \<^bold>\<open>What the theorems show.\<close>
  \<^item> Publication. A report a run publishes passed the verifier and is the text of a draft that passed validation
    (\<open>published_report_is_verified\<close>); a form that passes vouches for every figure of its draft
    (\<open>passing_form_vouches_for_draft\<close>, \<open>verify_passes_iff\<close>, \<open>validated_draft_is_sourced\<close>); a model that submits a valid
    draft gets it published (\<open>valid_submission_is_published\<close>).
  \<^item> Runs. Events are recorded under increasing numbers and delivered in that order, checkpoints behind them
    (\<open>events_recorded_in_order\<close>); only registered tools run, and the built-in ones only read; the effectful turn computes
    what the pure assembly of a turn computes (\<open>turn_implements_round_turn\<close>); a session holds the outcome of its turn.
  \<^item> Bounds. Streams, histories, budgets, submissions, evaluation fuel, results and responses stay within their
    limits, whatever the other side sends; the cache does while calls of \<open>set\<close> do not overlap
    (\<open>capacity_kept_unless_sets_overlap\<close>).
  \<^item> The engine. In every interleaving each request is in one place and answered at most once; only what was asked for is
    cancelled; messages survive the channel; only public addresses are contacted, unless a URL names its host in a form that
    the client cannot pin (\<open>fetch_contacts_public_or_unpinned\<close>).
  \<^item> Data and rules. Wire values and bars survive encoding; news is never tradable before it was known; the order size is
    the largest within its limits and never exceeds one; the incremental range equals its reference; the metered evaluation
    equals the plain one.
  \<^item> Failures. Several theorems state what the code does where it does not do what it means to: a session that becomes
    unloadable, a pin that does not cover the requested name, an ended task that unregisters its successor, a cut header
    that reads as a clean end, complaints addressed past the claim they are about when a title is blank, a cache that
    overlapping writers fill past its capacity, sizes that wrap, errors that leave half an edit.

  \<^bold>\<open>Termination and fuel.\<close> Every definition is total. Loops that consume a list are structural. \<open>trim_start\<close>,
  \<open>read_frames\<close>, the next trading day, sizing and searches have a measure. The rounds of a run count the
  rounds that are left, which \<open>max_model_rounds\<close> bounds in the code as well, and the replay of empty turns, the
  tool loop and the hops of a fetch count the attempts the code itself allows: the counter is the code's, not an added
  bound. The evaluator's fuel is the program's own meter; \<open>eval_metering_transparent\<close> shows that with enough of it the
  result is that of the evaluation without a meter.

  \<^bold>\<open>Not modelled.\<close> Pure input and output, third-party code, generated contracts and user interfaces, and these parts,
  which are separate subsystems of similar size: the data providers and the hub of \<open>market-data\<close>, \<open>joinquant\<close>, \<open>wencai\<close>,
  \<open>captcha\<close>; the HTTP side of \<open>minimax\<close>; \<open>storage\<close>; the services of the engine behind \<open>dispatch\<close>; the analyses
  (\<open>backtest\<close>, \<open>fundamental\<close>, \<open>technical\<close>, \<open>chanlun\<close>, \<open>quant\<close>, \<open>graph\<close>, \<open>evaluation\<close>); the text pipelines
  (\<open>disclosure\<close>, \<open>entity-linking\<close>, \<open>event-intelligence\<close>, \<open>global-intelligence\<close>, \<open>news-intelligence\<close>,
  \<open>relation-extraction\<close>, \<open>source-verification\<close>); the connections and the pool of \<open>tdx\<close>; clarification, intent and
  prompts of \<open>agent-runtime\<close>. Of what is modelled, aborts of tasks at process exit and the text of log lines are left out.
\<close>

end
